(* ===== verification/Prelude.thy ===== *)
theory Prelude
  imports Main "HOL-Library.Word" "HOL-Library.Monad_Syntax"
begin

unbundle bit_operations_syntax

text \<open>
  Shared vocabulary of the development: the fixed-width integer types of \<^verbatim>\<open>stdint.h\<close>, the
  byte-addressed machine memory, little-endian loads and stores of the widths the kernel uses
  (x86-64), and the word and memory lemmas every component relies on.
\<close>

type_synonym u8 = "8 word"
type_synonym u16 = "16 word"
type_synonym u32 = "32 word"
type_synonym u64 = "64 word"

text \<open>
  \<open>memory\<close> is the flat address space of the kernel: every 64-bit address holds a byte. A C
  pointer is its 64-bit address, the null pointer is \<open>0\<close>; pointer arithmetic wraps.
\<close>

type_synonym memory = "u64 \<Rightarrow> u8"

abbreviation (input) NULL :: u64 where "NULL \<equiv> 0"

named_theorems mem_simps \<open>reading memory back after loads and stores\<close>

definition UINT64_MAX :: u64 where
  "UINT64_MAX = - 1"

text \<open>Little-endian access at the widths the sources use.\<close>

definition load16 :: "memory \<Rightarrow> u64 \<Rightarrow> u16" where
  "load16 m p = ucast (m p) OR push_bit 8 (ucast (m (p + 1)))"

definition load32 :: "memory \<Rightarrow> u64 \<Rightarrow> u32" where
  "load32 m p = ucast (m p) OR push_bit 8 (ucast (m (p + 1)))
     OR push_bit 16 (ucast (m (p + 2))) OR push_bit 24 (ucast (m (p + 3)))"

definition load64 :: "memory \<Rightarrow> u64 \<Rightarrow> u64" where
  "load64 m p = ucast (m p) OR push_bit 8 (ucast (m (p + 1)))
     OR push_bit 16 (ucast (m (p + 2))) OR push_bit 24 (ucast (m (p + 3)))
     OR push_bit 32 (ucast (m (p + 4))) OR push_bit 40 (ucast (m (p + 5)))
     OR push_bit 48 (ucast (m (p + 6))) OR push_bit 56 (ucast (m (p + 7)))"

definition store64 :: "memory \<Rightarrow> u64 \<Rightarrow> u64 \<Rightarrow> memory" where
  "store64 m p v = (\<lambda>a. if a - p < 8 then ucast (drop_bit (8 * unat (a - p)) v) else m a)"

subsection \<open>Words\<close>

lemma unat_UINT64_MAX [simp]: "unat UINT64_MAX = 2 ^ 64 - 1"
  by (simp add: UINT64_MAX_def unsigned_minus_1_eq_mask mask_eq_exp_minus_1)

lemma unat_of_nat64: "n < 2 ^ 64 \<Longrightarrow> unat (of_nat n :: u64) = n"
  by (simp add: unat_of_nat)

lemma unat_u64_less: "unat (x::u64) < 2 ^ 64"
  by (rule order.strict_trans2 [OF unsigned_less]) simp

lemma unat_diff_Suc: "(a::u64) \<noteq> p \<Longrightarrow> unat (a - p) = Suc (unat (a - (p + 1)))"
proof -
  assume "a \<noteq> p"
  then have "a - p \<noteq> 0" by simp
  then have "unat (a - p - 1) = unat (a - p) - 1" and "0 < unat (a - p)"
    by (simp_all add: unat_minus_one unat_gt_0)
  then show ?thesis by (simp add: diff_diff_eq)
qed

lemma uint_u8_eq_iff [simp]: "uint (x::u8) = uint y \<longleftrightarrow> x = y"
  by (simp add: word_uint_eq_iff)

lemma uint_u8_eq_0_iff [simp]: "uint (x::u8) = 0 \<longleftrightarrow> x = 0"
  by (simp add: uint_0_iff)

lemma unat_minus_of_nat:
  fixes x :: u64 assumes "k < 2 ^ 64"
  shows "unat (x - of_nat k) = (if k \<le> unat x then unat x - k else 2 ^ 64 + unat x - k)"
  using assms by (auto simp: unat_sub_if' unat_of_nat64)

lemma unat_diff_add:
  fixes a d :: u64 assumes "k < 2 ^ 64"
  shows "unat (a - (d + of_nat k)) =
    (if k \<le> unat (a - d) then unat (a - d) - k else 2 ^ 64 + unat (a - d) - k)"
  using unat_minus_of_nat [OF assms, of "a - d"] by (simp add: diff_diff_eq)

lemma unat_plus_of_nat:
  fixes x :: u64 shows "unat x + k < 2 ^ 64 \<Longrightarrow> unat (x + of_nat k) = unat x + k"
  by (simp add: unat_plus_if' unat_of_nat64)

lemma unat_neg_diff: "(d::u64) \<noteq> s \<Longrightarrow> unat (s - d) + unat (d - s) = 2 ^ 64"
  using unat_u64_less [of s] unat_u64_less [of d] by (auto simp: unat_sub_if' word_unat_eq_iff)

text \<open>The decrease that ends every counting loop over machine words.\<close>

lemma unat_count_up: "(i::u64) < e \<Longrightarrow> unat (e - (i + 1)) < unat (e - i)"
  by unat_arith

lemma nat_less_8_cases:
  "(i::nat) < 8 \<Longrightarrow> i = 0 \<or> i = 1 \<or> i = 2 \<or> i = 3 \<or> i = 4 \<or> i = 5 \<or> i = 6 \<or> i = 7"
  by auto

lemma bit_u8_large: "8 \<le> n \<Longrightarrow> \<not> bit (x::u8) n"
  using bit_imp_le_length [of x n] by auto

text \<open>Bit \<open>i\<close> of a 64-bit load is bit \<open>i mod 8\<close> of the byte \<open>i div 8\<close> after the address.\<close>

lemma bit_load64:
  assumes "i < 64"
  shows "bit (load64 m p) i \<longleftrightarrow> bit (m (p + of_nat (i div 8))) (i mod 8)"
proof -
  obtain q r where q: "q = i div 8" and r: "r = i mod 8" by blast
  have i: "i = 8 * q + r" and "r < 8" and "q < 8" using assms by (auto simp: q r)
  from nat_less_8_cases [OF \<open>q < 8\<close>] \<open>r < 8\<close> show ?thesis
    unfolding q [symmetric] r [symmetric]
    by (elim disjE) (simp_all add: i load64_def bit_simps bit_u8_large)
qed

lemma load64_cong:
  assumes "\<And>i. i < 8 \<Longrightarrow> m (p + i) = m' (p + i)"
  shows "load64 m p = load64 m' p"
  using assms [of 0] assms [of 1] assms [of 2] assms [of 3] assms [of 4] assms [of 5]
    assms [of 6] assms [of 7]
  by (simp add: load64_def)

lemma load64_store64_same [simp]: "load64 (store64 m p v) p = v"
proof (rule bit_eqI)
  fix i assume "possible_bit TYPE(64 word) i"
  then have i: "i < 64" by (simp add: possible_bit_word)
  then have "unat (of_nat (i div 8) :: u64) = i div 8" and "(of_nat (i div 8) :: u64) < 8"
    by (simp_all add: unat_of_nat64 word_less_nat_alt)
  then show "bit (load64 (store64 m p v) p) i = bit v i"
    using i by (simp add: bit_load64 store64_def bit_simps)
qed

lemma store64_other: "\<not> a - p < 8 \<Longrightarrow> store64 m p v a = m a"
  by (simp add: store64_def)

lemma load64_store64_other:
  assumes "8 \<le> p - q" and "8 \<le> q - p"
  shows "load64 (store64 m q v) p = load64 m p"
proof (rule load64_cong)
  fix i :: u64 assume "i < 8"
  have "\<not> p + i - q < 8"
    using assms \<open>i < 8\<close> by unat_arith
  then show "store64 m q v (p + i) = m (p + i)" by (rule store64_other)
qed

lemma load64_upd_other: "\<not> a - p < 8 \<Longrightarrow> load64 (m(a := v)) p = load64 m p"
  by (rule load64_cong) (auto simp: word_less_nat_alt)

lemmas memory_frame [mem_simps] = store64_other load64_store64_other load64_upd_other

end
