(* ===== verification/Spinlock.thy ===== *)
theory Spinlock
  imports Prelude
begin

unbundle bit_operations_syntax

text \<open>
  \<^verbatim>\<open>kernel/src/spinlock.h\<close>: the test-and-set lock around the physical memory manager, the heap
  and the FAT32 sector cache.
  \<^item> The sequential view used by the other components: taking a lock that is already held spins
    for ever, which is \<open>None\<close> (the call does not return); otherwise bit 0 is set.
  \<^item> The concurrent view: several processors running the same three primitives, as a step
    relation on the shared lock byte, with mutual exclusion proved by rule induction.
\<close>

record spinlock =
  lock :: u8
  cpu_id :: u32

definition SPINLOCK_INIT :: spinlock where
  "SPINLOCK_INIT = \<lparr>lock = 0, cpu_id = 0\<rparr>"

text \<open>The atomic \<^verbatim>\<open>lock bts $0, lock\<close>: the carry flag is the old bit 0, and bit 0 is set.\<close>

definition bts0 :: "u8 \<Rightarrow> bool \<times> u8" where
  "bts0 b = (bit b 0, b OR 1)"

definition spinlock_lock :: "spinlock \<Rightarrow> spinlock option" where
  "spinlock_lock l =
     (let (carry, b) = bts0 (lock l)
      in if carry then None \<comment> \<open>\<^verbatim>\<open>jc 1b\<close>: spins until another CPU unlocks\<close>
         else Some (l\<lparr>lock := b\<rparr>))"

definition spinlock_unlock :: "spinlock \<Rightarrow> spinlock" where
  "spinlock_unlock l = l\<lparr>lock := 0\<rparr>"

definition spinlock_trylock :: "spinlock \<Rightarrow> bool \<times> spinlock" where
  "spinlock_trylock l =
     (let (carry, b) = bts0 (lock l) in (\<not> carry, l\<lparr>lock := b\<rparr>))"

definition held :: "spinlock \<Rightarrow> bool" where
  "held l \<longleftrightarrow> bit (lock l) 0"

lemma bit_or_one_u8 [simp]: "bit (b OR (1::u8)) 0"
  by (simp add: bit_simps)

lemma not_held_INIT [simp]: "\<not> held SPINLOCK_INIT"
  by (simp add: held_def SPINLOCK_INIT_def)

lemma not_held_unlock [simp]: "\<not> held (spinlock_unlock l)"
  by (simp add: held_def spinlock_unlock_def)

lemma spinlock_lock_eq:
  "spinlock_lock l = (if held l then None else Some (l\<lparr>lock := lock l OR 1\<rparr>))"
  by (simp add: spinlock_lock_def held_def bts0_def)

lemma spinlock_lock_free [simp]:
  "\<not> held l \<Longrightarrow> spinlock_lock l = Some (l\<lparr>lock := lock l OR 1\<rparr>)"
  by (simp add: spinlock_lock_eq)

lemma spinlock_lock_held [simp]: "held l \<Longrightarrow> spinlock_lock l = None"
  by (simp add: spinlock_lock_eq)

lemma spinlock_unlock_lock_upd [simp]: "spinlock_unlock (l\<lparr>lock := b\<rparr>) = spinlock_unlock l"
  by (simp add: spinlock_unlock_def)

subsection \<open>Several processors\<close>

datatype cpu_pc = Outside | Spinning | Holding

record lock_sys =
  the_lock :: spinlock
  pcs :: "nat \<Rightarrow> cpu_pc"

definition lock_sys_init :: lock_sys where
  "lock_sys_init = \<lparr>the_lock = SPINLOCK_INIT, pcs = (\<lambda>_. Outside)\<rparr>"

text \<open>
  One transition per instruction that touches the lock byte. A failed \<^verbatim>\<open>bts\<close> still stores
  \<open>lock OR 1\<close>; the branch \<^verbatim>\<open>jc\<close> keeps the CPU spinning.
\<close>

inductive lock_step :: "lock_sys \<Rightarrow> lock_sys \<Rightarrow> bool" where
  enter: "pcs s i = Outside \<Longrightarrow> lock_step s (s\<lparr>pcs := (pcs s)(i := Spinning)\<rparr>)"
| spin: "pcs s i = Spinning \<Longrightarrow> fst (bts0 (lock (the_lock s))) \<Longrightarrow>
     lock_step s (s\<lparr>the_lock := (the_lock s)\<lparr>lock := snd (bts0 (lock (the_lock s)))\<rparr>\<rparr>)"
| acquire: "pcs s i = Spinning \<Longrightarrow> spinlock_lock (the_lock s) = Some l \<Longrightarrow>
     lock_step s (s\<lparr>the_lock := l, pcs := (pcs s)(i := Holding)\<rparr>)"
| try_acquire: "pcs s i = Outside \<Longrightarrow> spinlock_trylock (the_lock s) = (ok, l) \<Longrightarrow>
     lock_step s (s\<lparr>the_lock := l, pcs := (pcs s)(i := (if ok then Holding else Outside))\<rparr>)"
| release: "pcs s i = Holding \<Longrightarrow>
     lock_step s (s\<lparr>the_lock := spinlock_unlock (the_lock s), pcs := (pcs s)(i := Outside)\<rparr>)"

inductive_cases lock_stepE: "lock_step s t"

inductive lock_reachable :: "lock_sys \<Rightarrow> bool" where
  start: "lock_reachable lock_sys_init"
| step: "lock_reachable s \<Longrightarrow> lock_step s t \<Longrightarrow> lock_reachable t"

text \<open>
  The invariant that makes mutual exclusion inductive: the lock bit is set exactly while some
  processor is inside, and at most one is.
\<close>

definition lock_inv :: "lock_sys \<Rightarrow> bool" where
  "lock_inv s \<longleftrightarrow> (held (the_lock s) \<longleftrightarrow> (\<exists>i. pcs s i = Holding)) \<and>
     (\<forall>i j. pcs s i = Holding \<longrightarrow> pcs s j = Holding \<longrightarrow> i = j)"

lemma lock_inv_init: "lock_inv lock_sys_init"
  by (simp add: lock_inv_def lock_sys_init_def)

lemma held_upd_or [simp]: "held (l\<lparr>lock := b OR 1\<rparr>)"
  by (simp add: held_def)

lemma spinlock_trylock_eq:
  "spinlock_trylock l = (\<not> held l, l\<lparr>lock := lock l OR 1\<rparr>)"
  by (simp add: spinlock_trylock_def bts0_def held_def)

lemma lock_step_inv: "lock_step s t \<Longrightarrow> lock_inv s \<Longrightarrow> lock_inv t"
proof (induction rule: lock_step.induct)
  case (enter s i)
  then show ?case unfolding lock_inv_def by (simp, metis cpu_pc.distinct(1) cpu_pc.distinct(3))
next
  case (spin s i)
  then show ?case by (auto simp: lock_inv_def bts0_def held_def)
next
  case (acquire s i l)
  then show ?case by (auto simp: lock_inv_def spinlock_lock_eq split: if_splits)
next
  case (try_acquire s i ok l)
  have out: "(pcs s)(i := Outside) = pcs s" using try_acquire.hyps(1) by auto
  show ?case
  proof (cases ok)
    case True
    with try_acquire show ?thesis by (auto simp: lock_inv_def spinlock_trylock_eq)
  next
    case False
    with try_acquire show ?thesis by (auto simp: lock_inv_def spinlock_trylock_eq out)
  qed
next
  case (release s i)
  then show ?case by (auto simp: lock_inv_def)
qed

lemma lock_reachable_inv: "lock_reachable s \<Longrightarrow> lock_inv s"
  by (induction rule: lock_reachable.induct) (auto intro: lock_inv_init lock_step_inv)


text \<open>
  Claim C8. Mutual exclusion of the spinlock: in every state reachable by any interleaving of
  \<^verbatim>\<open>spinlock_lock\<close>, \<^verbatim>\<open>spinlock_trylock\<close> and \<^verbatim>\<open>spinlock_unlock\<close> on any number of processors, at
  most one processor is inside its critical section, and the lock bit is set exactly when one is.
\<close>

theorem spinlock_mutual_exclusion:
  assumes "lock_reachable s"
  shows "(pcs s i = Holding \<longrightarrow> pcs s j = Holding \<longrightarrow> i = j) \<and>
    (held (the_lock s) \<longleftrightarrow> (\<exists>k. pcs s k = Holding))"
  using lock_reachable_inv [OF assms] by (auto simp: lock_inv_def)

definition lock_sys_example :: lock_sys where
  "lock_sys_example = \<lparr>the_lock = \<lparr>lock = 1, cpu_id = 0\<rparr>, pcs = (\<lambda>_. Outside)(3 := Holding)\<rparr>"

lemma lock_sys_example_reachable: "lock_reachable lock_sys_example"
proof -
  let ?s = "lock_sys_init\<lparr>pcs := (pcs lock_sys_init)(3 := Spinning)\<rparr>"
  have r: "lock_reachable ?s"
    by (rule lock_reachable.step [OF lock_reachable.start], rule lock_step.enter)
      (simp add: lock_sys_init_def)
  have "lock_step ?s (?s\<lparr>the_lock := \<lparr>lock = 1, cpu_id = 0\<rparr>, pcs := (pcs ?s)(3 := Holding)\<rparr>)"
    by (rule lock_step.acquire)
      (simp_all add: lock_sys_init_def SPINLOCK_INIT_def spinlock_lock_def bts0_def)
  from lock_reachable.step [OF r this]
  have "lock_reachable (?s\<lparr>the_lock := \<lparr>lock = 1, cpu_id = 0\<rparr>, pcs := (pcs ?s)(3 := Holding)\<rparr>)" .
  then show ?thesis by (simp add: lock_sys_example_def lock_sys_init_def)
qed

theorem spinlock_mutual_exclusion_witness:
  "lock_reachable lock_sys_example \<and> held (the_lock lock_sys_example) \<and>
     \<not> (pcs lock_sys_example 3 = Holding \<and> pcs lock_sys_example 4 = Holding)"
  using spinlock_mutual_exclusion [OF lock_sys_example_reachable, of 3 4] lock_sys_example_reachable
  by (auto simp: lock_sys_example_def)

end
