(* ===== verification/Kstring.thy ===== *)
theory Kstring
  imports Prelude
begin

unbundle bit_operations_syntax

text \<open>
  \<^verbatim>\<open>kernel/src/string.h\<close>: the kernel's own memory and string routines, on the byte-addressed
  memory. \<open>while (n--)\<close> over a \<open>size_t\<close> runs exactly \<open>unat n\<close> times, so the byte loops recurse
  on a natural number. The routines that scan for a terminating NUL may run for ever on a memory
  without one; they are partial functions, \<open>None\<close> meaning that the loop does not end.
\<close>

subsection \<open>Memory operations\<close>

text \<open>\<^verbatim>\<open>while (n--) *p++ = c;\<close>\<close>

fun set_bytes :: "memory \<Rightarrow> u64 \<Rightarrow> u8 \<Rightarrow> nat \<Rightarrow> memory" where
  "set_bytes m p c 0 = m"
| "set_bytes m p c (Suc n) = set_bytes (m(p := c)) (p + 1) c n"

text \<open>\<^verbatim>\<open>while (n >= 8) { *p64++ = pattern; n -= 8; }\<close>, returning the advanced pointer and the rest.\<close>

function set_words :: "memory \<Rightarrow> u64 \<Rightarrow> u64 \<Rightarrow> nat \<Rightarrow> memory \<times> u64 \<times> nat" where
  "set_words m p pattern n =
     (if n \<ge> 8 then set_words (store64 m p pattern) (p + 8) pattern (n - 8) else (m, p, n))"
  by pat_completeness auto
termination by (relation "measure (\<lambda>(m, p, pat, n). n)") auto

declare set_words.simps [simp del]

text \<open>\<^verbatim>\<open>for (i = 0; i < 8; i++) pattern |= (uint64_t)c << (8 * i);\<close>\<close>

definition byte_pattern :: "u8 \<Rightarrow> u64" where
  "byte_pattern c = fold (\<lambda>i acc. acc OR push_bit (8 * i) (ucast c)) [0..<8] 0"

definition memset :: "memory \<Rightarrow> u64 \<Rightarrow> u32 \<Rightarrow> u64 \<Rightarrow> memory" where
  "memset m dest c n =
     (let cb = ucast c :: u8 in
      if n < 16 then set_bytes m dest cb (unat n)
      else
        let align = dest AND 7;
            (m1, p, k) =
              (if align \<noteq> 0 then
                 let prefix = 8 - align
                 in (set_bytes m dest cb (unat prefix), dest + prefix, n - prefix)
               else (m, dest, n));
            (m2, p2, rest) = set_words m1 p (byte_pattern cb) (unat k)
        in set_bytes m2 p2 cb rest)"

definition bzero :: "memory \<Rightarrow> u64 \<Rightarrow> u64 \<Rightarrow> memory" where
  "bzero m s n = memset m s 0 n"

text \<open>\<^verbatim>\<open>while (n--) *d++ = *s++;\<close>\<close>

fun copy_bytes :: "memory \<Rightarrow> u64 \<Rightarrow> u64 \<Rightarrow> nat \<Rightarrow> memory" where
  "copy_bytes m d s 0 = m"
| "copy_bytes m d s (Suc n) = copy_bytes (m(d := m s)) (d + 1) (s + 1) n"

function copy_words :: "memory \<Rightarrow> u64 \<Rightarrow> u64 \<Rightarrow> nat \<Rightarrow> memory \<times> u64 \<times> u64 \<times> nat" where
  "copy_words m d s n =
     (if n \<ge> 8 then copy_words (store64 m d (load64 m s)) (d + 8) (s + 8) (n - 8)
      else (m, d, s, n))"
  by pat_completeness auto
termination by (relation "measure (\<lambda>(m, d, s, n). n)") auto

declare copy_words.simps [simp del]

definition memcpy :: "memory \<Rightarrow> u64 \<Rightarrow> u64 \<Rightarrow> u64 \<Rightarrow> memory" where
  "memcpy m dest src n =
     (if n < 16 then copy_bytes m dest src (unat n)
      else
        let (m2, d, s, rest) =
              (if (dest XOR src) AND 7 = 0 then
                 let align = dest AND 7;
                     (m1, d1, s1, k) =
                       (if align \<noteq> 0 then
                          let prefix = 8 - align
                          in (copy_bytes m dest src (unat prefix), dest + prefix, src + prefix,
                              n - prefix)
                        else (m, dest, src, n))
                 in copy_words m1 d1 s1 (unat k)
               else (m, dest, src, unat n))
        in copy_bytes m2 d s rest)"

text \<open>\<^verbatim>\<open>while (n--) *(--d) = *(--s);\<close>\<close>

fun copy_back :: "memory \<Rightarrow> u64 \<Rightarrow> u64 \<Rightarrow> nat \<Rightarrow> memory" where
  "copy_back m d s 0 = m"
| "copy_back m d s (Suc n) = copy_back (m(d - 1 := m (s - 1))) (d - 1) (s - 1) n"

definition memmove :: "memory \<Rightarrow> u64 \<Rightarrow> u64 \<Rightarrow> u64 \<Rightarrow> memory" where
  "memmove m dest src n =
     (if dest = src then m
      else if dest > src \<and> dest < src + n then copy_back m (dest + n) (src + n) (unat n)
      else memcpy m dest src n)"

fun memcmp_loop :: "memory \<Rightarrow> u64 \<Rightarrow> u64 \<Rightarrow> nat \<Rightarrow> int" where
  "memcmp_loop m p1 p2 0 = 0"
| "memcmp_loop m p1 p2 (Suc n) =
     (if m p1 \<noteq> m p2 then uint (m p1) - uint (m p2) else memcmp_loop m (p1 + 1) (p2 + 1) n)"

definition memcmp :: "memory \<Rightarrow> u64 \<Rightarrow> u64 \<Rightarrow> u64 \<Rightarrow> int" where
  "memcmp m s1 s2 n = memcmp_loop m s1 s2 (unat n)"

fun memchr_loop :: "memory \<Rightarrow> u64 \<Rightarrow> u8 \<Rightarrow> nat \<Rightarrow> u64" where
  "memchr_loop m p c 0 = NULL"
| "memchr_loop m p c (Suc n) = (if m p = c then p else memchr_loop m (p + 1) c n)"

definition memchr :: "memory \<Rightarrow> u64 \<Rightarrow> u32 \<Rightarrow> u64 \<Rightarrow> u64" where
  "memchr m s c n = memchr_loop m s (ucast c) (unat n)"

subsection \<open>String operations\<close>

partial_function (option) strend :: "memory \<Rightarrow> u64 \<Rightarrow> u64 option" where
  "strend m p = (if m p \<noteq> 0 then strend m (p + 1) else Some p)"

definition strlen :: "memory \<Rightarrow> u64 \<Rightarrow> u64 option" where
  "strlen m s = do { p \<leftarrow> strend m s; Some (p - s) }"

text \<open>\<^verbatim>\<open>while ((*d++ = *src++));\<close>\<close>

partial_function (option) strcpy_loop :: "memory \<Rightarrow> u64 \<Rightarrow> u64 \<Rightarrow> memory option" where
  "strcpy_loop m d src =
     (let c = m src; m' = m(d := c)
      in if c \<noteq> 0 then strcpy_loop m' (d + 1) (src + 1) else Some m')"

definition strcpy :: "memory \<Rightarrow> u64 \<Rightarrow> u64 \<Rightarrow> memory option" where
  "strcpy m dest src = strcpy_loop m dest src"

text \<open>\<^verbatim>\<open>while (n && (*d++ = *src++)) n--; while (n--) *d++ = '\0';\<close>\<close>

fun strncpy_loop :: "memory \<Rightarrow> u64 \<Rightarrow> u64 \<Rightarrow> nat \<Rightarrow> memory \<times> u64 \<times> nat" where
  "strncpy_loop m d src 0 = (m, d, 0)"
| "strncpy_loop m d src (Suc n) =
     (let c = m src; m' = m(d := c)
      in if c \<noteq> 0 then strncpy_loop m' (d + 1) (src + 1) n else (m', d + 1, Suc n))"

definition strncpy :: "memory \<Rightarrow> u64 \<Rightarrow> u64 \<Rightarrow> u64 \<Rightarrow> memory" where
  "strncpy m dest src n =
     (let (m', d, k) = strncpy_loop m dest src (unat n) in set_bytes m' d 0 k)"

definition strcat :: "memory \<Rightarrow> u64 \<Rightarrow> u64 \<Rightarrow> memory option" where
  "strcat m dest src = do { d \<leftarrow> strend m dest; strcpy_loop m d src }"

partial_function (option) strcmp :: "memory \<Rightarrow> u64 \<Rightarrow> u64 \<Rightarrow> int option" where
  "strcmp m s1 s2 =
     (if m s1 \<noteq> 0 \<and> m s1 = m s2 then strcmp m (s1 + 1) (s2 + 1)
      else Some (uint (m s1) - uint (m s2)))"

fun strncmp_loop :: "memory \<Rightarrow> u64 \<Rightarrow> u64 \<Rightarrow> nat \<Rightarrow> int" where
  "strncmp_loop m s1 s2 0 = 0"
| "strncmp_loop m s1 s2 (Suc n) =
     (if m s1 \<noteq> 0 \<and> m s1 = m s2 then strncmp_loop m (s1 + 1) (s2 + 1) n
      else uint (m s1) - uint (m s2))"

definition strncmp :: "memory \<Rightarrow> u64 \<Rightarrow> u64 \<Rightarrow> u64 \<Rightarrow> int" where
  "strncmp m s1 s2 n = strncmp_loop m s1 s2 (unat n)"

partial_function (option) strchr :: "memory \<Rightarrow> u64 \<Rightarrow> u8 \<Rightarrow> u64 option" where
  "strchr m s c =
     (if m s \<noteq> 0 \<and> m s \<noteq> c then strchr m (s + 1) c
      else Some (if m s = c then s else NULL))"

partial_function (option) strrchr_loop :: "memory \<Rightarrow> u64 \<Rightarrow> u8 \<Rightarrow> u64 \<Rightarrow> u64 option" where
  "strrchr_loop m s c found =
     (if m s \<noteq> 0 then strrchr_loop m (s + 1) c (if m s = c then s else found) else Some found)"

definition strrchr :: "memory \<Rightarrow> u64 \<Rightarrow> u8 \<Rightarrow> u64 option" where
  "strrchr m s c = strrchr_loop m s c NULL"

text \<open>\<^verbatim>\<open>while (*h && *n && *h == *n) { h++; n++; }\<close>, then the test \<^verbatim>\<open>!*n\<close>.\<close>

partial_function (option) strstr_at :: "memory \<Rightarrow> u64 \<Rightarrow> u64 \<Rightarrow> bool option" where
  "strstr_at m h n =
     (if m h \<noteq> 0 \<and> m n \<noteq> 0 \<and> m h = m n then strstr_at m (h + 1) (n + 1) else Some (m n = 0))"

partial_function (option) strstr_loop :: "memory \<Rightarrow> u64 \<Rightarrow> u64 \<Rightarrow> u64 option" where
  "strstr_loop m haystack needle =
     (if m haystack \<noteq> 0 then
        Option.bind (strstr_at m haystack needle)
          (\<lambda>hit. if hit then Some haystack else strstr_loop m (haystack + 1) needle)
      else Some NULL)"

definition strstr :: "memory \<Rightarrow> u64 \<Rightarrow> u64 \<Rightarrow> u64 option" where
  "strstr m haystack needle =
     (if m needle = 0 then Some haystack else strstr_loop m haystack needle)"

text \<open>
  The contract of the string routines: \<open>cstr m p xs\<close> says that a NUL-terminated string with the
  characters \<open>xs\<close> starts at address \<open>p\<close>.
\<close>

definition cstr :: "memory \<Rightarrow> u64 \<Rightarrow> u8 list \<Rightarrow> bool" where
  "cstr m p xs \<longleftrightarrow> 0 \<notin> set xs \<and> (\<forall>i < length xs. m (p + of_nat i) = xs ! i) \<and>
     m (p + of_nat (length xs)) = 0"

subsection \<open>The word loops agree with the byte loops\<close>

lemma set_bytes_apply:
  "n \<le> 2 ^ 64 \<Longrightarrow> set_bytes m p c n a = (if unat (a - p) < n then c else m a)"
proof (induction n arbitrary: m p)
  case 0 then show ?case by simp
next
  case (Suc n)
  then show ?case by (cases "a = p") (simp_all add: unat_diff_Suc)
qed

lemma set_bytes_append:
  "set_bytes (set_bytes m p c k) (p + of_nat k) c n = set_bytes m p c (k + n)"
proof (induction k arbitrary: m p)
  case (Suc k)
  show ?case using Suc.IH by (simp add: fun_upd_def flip: add.assoc)
qed simp

lemma byte_of_pattern:
  assumes "i < 8" shows "ucast (drop_bit (8 * i) (byte_pattern c)) = c"
proof (rule bit_eqI)
  fix n assume "possible_bit TYPE(8 word) n"
  then have n: "n < 8" by (simp add: possible_bit_word)
  have e: "[0..<8] = [0, 1, 2, 3, 4, 5, 6, 7 :: nat]" by (simp add: upt_rec)
  from nat_less_8_cases [OF assms] show "bit (ucast (drop_bit (8 * i) (byte_pattern c)) :: u8) n = bit c n"
    by (elim disjE) (use n in \<open>simp_all add: byte_pattern_def e bit_simps bit_u8_large\<close>)
qed

lemma store64_pattern: "store64 m p (byte_pattern c) = set_bytes m p c 8"
proof
  fix a show "store64 m p (byte_pattern c) a = set_bytes m p c 8 a"
    by (simp add: store64_def set_bytes_apply byte_of_pattern word_less_nat_alt)
qed

lemma set_words_eq:
  "set_words m p (byte_pattern c) n =
     (set_bytes m p c (8 * (n div 8)), p + of_nat (8 * (n div 8)), n mod 8)"
proof (induction n arbitrary: m p rule: less_induct)
  case (less n)
  show ?case
  proof (cases "8 \<le> n")
    case True
    then have d: "n div 8 = Suc ((n - 8) div 8)" and "n mod 8 = (n - 8) mod 8"
      by (simp_all add: le_div_geq le_mod_geq)
    moreover have "set_bytes (set_bytes m p c 8) (p + 8) c k = set_bytes m p c (8 + k)" for k
      using set_bytes_append [of m p c 8 k] by simp
    ultimately show ?thesis
      using True less [of "n - 8" "store64 m p (byte_pattern c)" "p + 8"]
      by (simp add: set_words.simps [of m p "byte_pattern c" n] store64_pattern add.assoc)
  next
    case False then show ?thesis by (simp add: set_words.simps)
  qed
qed

lemma and_7_le: "(x::u64) AND 7 \<le> 7"
  by (rule word_and_le1)

lemma prefix_bounds:
  fixes x n :: u64
  assumes "\<not> n < 16"
  shows "unat (n - (8 - (x AND 7))) = unat n - unat (8 - (x AND 7))"
    and "unat (8 - (x AND 7)) \<le> unat n"
proof -
  have "8 - (x AND 7) \<le> n" using assms and_7_le [of x] by unat_arith
  then show "unat (n - (8 - (x AND 7))) = unat n - unat (8 - (x AND 7))"
    and "unat (8 - (x AND 7)) \<le> unat n"
    by (simp_all add: unat_sub word_le_nat_alt)
qed

lemma set_bytes_words:
  "(case set_words m p (byte_pattern c) n of (m2, p2, rest) \<Rightarrow> set_bytes m2 p2 c rest) =
     set_bytes m p c n"
  using set_bytes_append [of m p c "8 * (n div 8)" "n mod 8"] by (simp add: set_words_eq)

lemma memset_eq_set_bytes: "memset m dest c n = set_bytes m dest (ucast c) (unat n)"
proof (cases "n < 16")
  case False
  note pb = prefix_bounds [OF False, of dest]
  have "set_bytes (set_bytes m dest (ucast c) (unat (8 - (dest AND 7)))) (dest + (8 - (dest AND 7)))
          (ucast c) (unat (n - (8 - (dest AND 7)))) = set_bytes m dest (ucast c) (unat n)"
    using set_bytes_append [of m dest "ucast c" "unat (8 - (dest AND 7))" "unat (n - (8 - (dest AND 7)))"] pb
    by simp
  with False show ?thesis by (simp add: memset_def Let_def set_bytes_words split: if_splits)
qed (simp add: memset_def)

lemma memset_apply: "memset m dest c n a = (if a - dest < n then ucast c else m a)"
  using unat_u64_less [of n] by (simp add: memset_eq_set_bytes set_bytes_apply word_less_nat_alt)

lemma copy_bytes_apply:
  "n \<le> unat (d - s) \<Longrightarrow>
     copy_bytes m d s n a = (if unat (a - d) < n then m (s + (a - d)) else m a)"
proof (induction n arbitrary: m d s)
  case (Suc n)
  have ne: "s + (a - d) \<noteq> d" if "unat (a - d) < Suc n"
  proof
    assume "s + (a - d) = d"
    then have "a - d = d - s" by (simp add: algebra_simps)
    with that Suc.prems show False by simp
  qed
  have "copy_bytes m d s (Suc n) a = copy_bytes (m(d := m s)) (d + 1) (s + 1) n a"
    by simp
  also have "\<dots> = (if unat (a - (d + 1)) < n then (m(d := m s)) (s + 1 + (a - (d + 1)))
      else (m(d := m s)) a)"
    using Suc.prems by (intro Suc.IH) simp
  also have "\<dots> = (if unat (a - d) < Suc n then m (s + (a - d)) else m a)"
    using ne by (cases "a = d") (auto simp: unat_diff_Suc)
  finally show ?case .
qed simp

lemma copy_bytes_append:
  "copy_bytes (copy_bytes m d s k) (d + of_nat k) (s + of_nat k) n = copy_bytes m d s (k + n)"
proof (induction k arbitrary: m d s)
  case (Suc k)
  show ?case using Suc.IH by (simp add: fun_upd_def flip: add.assoc)
qed simp

lemma byte_of_load64:
  assumes "i < 8" shows "ucast (drop_bit (8 * i) (load64 m p)) = m (p + of_nat i)"
proof (rule bit_eqI)
  fix n assume "possible_bit TYPE(8 word) n"
  then have n: "n < 8" by (simp add: possible_bit_word)
  with assms have "8 * i + n < 64" "(8 * i + n) div 8 = i" "(8 * i + n) mod 8 = n" by auto
  with n show "bit (ucast (drop_bit (8 * i) (load64 m p)) :: u8) n = bit (m (p + of_nat i)) n"
    by (simp add: bit_simps bit_load64)
qed

lemma store64_load64_apply:
  "store64 m d (load64 m s) a = (if a - d < 8 then m (s + (a - d)) else m a)"
  by (simp add: store64_def byte_of_load64 word_less_nat_alt)

lemma copy_words_eq:
  "n \<le> unat (d - s) \<Longrightarrow> copy_words m d s n =
     (copy_bytes m d s (8 * (n div 8)), d + of_nat (8 * (n div 8)), s + of_nat (8 * (n div 8)), n mod 8)"
proof (induction n arbitrary: m d s rule: less_induct)
  case (less n)
  show ?case
  proof (cases "8 \<le> n")
    case True
    then have "n div 8 = Suc ((n - 8) div 8)" and "n mod 8 = (n - 8) mod 8"
      by (simp_all add: le_div_geq le_mod_geq)
    moreover have "store64 m d (load64 m s) = copy_bytes m d s 8"
      using True less.prems
      by (auto simp: fun_eq_iff store64_load64_apply copy_bytes_apply word_less_nat_alt)
    moreover have "copy_bytes (copy_bytes m d s 8) (d + 8) (s + 8) k = copy_bytes m d s (8 + k)" for k
      using copy_bytes_append [of m d s 8 k] by simp
    ultimately show ?thesis
      using True less.prems less.IH [of "n - 8" "d + 8" "s + 8" "store64 m d (load64 m s)"]
      by (simp add: copy_words.simps [of m d s n] add.assoc)
  next
    case False then show ?thesis by (simp add: copy_words.simps)
  qed
qed

lemma copy_bytes_words:
  "n \<le> unat (d - s) \<Longrightarrow>
   (case copy_words m d s n of (m2, d2, s2, rest) \<Rightarrow> copy_bytes m2 d2 s2 rest) = copy_bytes m d s n"
  using copy_bytes_append [of m d s "8 * (n div 8)" "n mod 8"] by (simp add: copy_words_eq)

lemma memcpy_eq_copy_bytes:
  assumes "n \<le> dest - src"
  shows "memcpy m dest src n = copy_bytes m dest src (unat n)"
proof (cases "n < 16")
  case False
  let ?pre = "8 - (dest AND 7)"
  note pb = prefix_bounds [OF False, of dest]
  have le: "unat n \<le> unat (dest - src)" using assms by (simp add: word_le_nat_alt)
  have "copy_bytes (copy_bytes m dest src (unat ?pre)) (dest + ?pre) (src + ?pre) (unat (n - ?pre))
          = copy_bytes m dest src (unat n)"
    using copy_bytes_append [of m dest src "unat ?pre" "unat (n - ?pre)"] pb by simp
  moreover have "unat (n - ?pre) \<le> unat (dest + ?pre - (src + ?pre))"
    using le pb by simp
  ultimately show ?thesis
    using False le by (simp add: memcpy_def Let_def copy_bytes_words split: if_splits)
qed (simp add: memcpy_def)

lemma copy_back_apply:
  "n \<le> unat (s - d) \<Longrightarrow>
     copy_back m (d + of_nat n) (s + of_nat n) n a =
       (if unat (a - d) < n then m (s + (a - d)) else m a)"
proof (induction n arbitrary: m)
  case (Suc n)
  let ?m = "m(d + of_nat n := m (s + of_nat n))"
  have n64: "n < 2 ^ 64" using Suc.prems unat_u64_less [of "s - d"] by simp
  have ne: "s + (a - d) \<noteq> d + of_nat n" if k: "unat (a - d) < n"
  proof
    assume "s + (a - d) = d + of_nat n"
    then have "s - d = of_nat n - (a - d)" by (simp add: algebra_simps)
    then have "unat (s - d) = unat (of_nat n - (a - d))" by (rule arg_cong)
    also have "\<dots> \<le> n"
      using k n64 by (simp add: unat_sub unat_of_nat64 word_le_nat_alt)
    finally show False using Suc.prems by simp
  qed
  have eq: "a = d + of_nat n \<longleftrightarrow> unat (a - d) = n"
  proof
    assume "unat (a - d) = n"
    then have "a - d = of_nat n" using n64 by (simp add: word_unat_eq_iff unat_of_nat64)
    then show "a = d + of_nat n" by (simp add: algebra_simps)
  qed (use n64 in \<open>simp add: unat_of_nat64\<close>)
  have "copy_back m (d + of_nat (Suc n)) (s + of_nat (Suc n)) (Suc n) a =
      copy_back ?m (d + of_nat n) (s + of_nat n) n a"
    by (simp add: algebra_simps)
  also have "\<dots> = (if unat (a - d) < n then ?m (s + (a - d)) else ?m a)"
    using Suc.prems by (intro Suc.IH) simp
  also have "\<dots> = (if unat (a - d) < Suc n then m (s + (a - d)) else m a)"
    using ne eq by (auto simp: less_Suc_eq algebra_simps)
  finally show ?case .
qed simp

lemma memcpy_apply:
  "n \<le> dest - src \<Longrightarrow> memcpy m dest src n a = (if a - dest < n then m (src + (a - dest)) else m a)"
  by (simp add: memcpy_eq_copy_bytes copy_bytes_apply word_less_nat_alt word_le_nat_alt)

lemma memmove_apply:
  assumes "unat src + unat n < 2 ^ 64" and "unat dest + unat n < 2 ^ 64"
  shows "memmove m dest src n a = (if a - dest < n then m (src + (a - dest)) else m a)"
proof -
  have sn: "unat (src + n) = unat src + unat n" using assms(1) by (simp add: unat_plus_if')
  have fwd: "n \<le> dest - src" if "dest \<noteq> src" "\<not> (dest > src \<and> dest < src + n)"
    using that assms sn unat_u64_less [of dest] unat_u64_less [of src]
    by (auto simp: word_le_nat_alt word_less_nat_alt unat_sub_if' word_unat_eq_iff)
  have bwd: "unat n \<le> unat (src - dest)" if "dest > src" "dest < src + n"
    using that assms sn unat_u64_less [of dest] unat_u64_less [of src]
    by (auto simp: word_le_nat_alt word_less_nat_alt unat_sub_if' word_unat_eq_iff)
  consider "dest = src" | "dest > src" "dest < src + n" | "n \<le> dest - src"
    "dest \<noteq> src" "\<not> (dest > src \<and> dest < src + n)"
    using fwd by blast
  then show ?thesis
  proof cases
    case 2
    with copy_back_apply [OF bwd, of m a] show ?thesis
      by (simp add: memmove_def word_less_nat_alt)
  qed (auto simp: memmove_def memcpy_apply)
qed

subsection \<open>Strings\<close>

lemma cstr_Nil [simp]: "cstr m p [] \<longleftrightarrow> m p = 0"
  by (simp add: cstr_def)

lemma cstr_Cons [simp]: "cstr m p (x # xs) \<longleftrightarrow> x \<noteq> 0 \<and> m p = x \<and> cstr m (p + 1) xs"
  by (auto simp: cstr_def less_Suc_eq_0_disj algebra_simps)

lemma cstr_unique: "cstr m p xs \<Longrightarrow> cstr m p ys \<Longrightarrow> xs = ys"
proof (induction xs arbitrary: p ys)
  case Nil then show ?case by (cases ys) auto
next
  case (Cons x xs) then show ?case by (cases ys) auto
qed

lemma strend_cstr: "cstr m p xs \<Longrightarrow> strend m p = Some (p + of_nat (length xs))"
  by (induction xs arbitrary: p) (simp_all add: strend.simps algebra_simps)

lemma strlen_cstr: "cstr m p xs \<Longrightarrow> strlen m p = Some (of_nat (length xs))"
  by (simp add: strlen_def strend_cstr)

lemma cstr_frame:
  assumes "cstr m p xs" and "\<And>i. i \<le> length xs \<Longrightarrow> m' (p + of_nat i) = m (p + of_nat i)"
  shows "cstr m' p xs"
  using assms by (auto simp: cstr_def)

lemma cstr_upd_dest:
  assumes "cstr m s (x # xs)" and "Suc (length (x # xs)) \<le> unat (d - s)"
  shows "cstr (m(d := v)) (s + 1) xs"
proof (rule cstr_frame)
  fix i assume i: "i \<le> length xs"
  have "s + 1 + of_nat i \<noteq> d"
  proof
    assume "s + 1 + of_nat i = d"
    then have "d - s = of_nat (Suc i)" by (simp add: algebra_simps)
    then have "unat (d - s) = unat (of_nat (Suc i) :: u64)" by (rule arg_cong)
    also have "\<dots> \<le> Suc i" by (simp add: unat_of_nat del: of_nat_Suc)
    finally show False using assms i by simp
  qed
  then show "(m(d := v)) (s + 1 + of_nat i) = m (s + 1 + of_nat i)" by simp
qed (use assms in simp)

text \<open>A copied string: \<open>strcpy\<close> moves the characters and the terminator.\<close>

lemma strcpy_loop_cstr:
  "cstr m s xs \<Longrightarrow> Suc (length xs) \<le> unat (d - s) \<Longrightarrow>
     strcpy_loop m d s = Some (copy_bytes m d s (Suc (length xs)))"
proof (induction xs arbitrary: m d s)
  case Nil
  then show ?case by (simp add: strcpy_loop.simps fun_upd_def)
next
  case (Cons x xs)
  have c: "cstr (m(d := m s)) (s + 1) xs" by (rule cstr_upd_dest) (use Cons.prems in auto)
  have "strcpy_loop m d s = strcpy_loop (m(d := m s)) (d + 1) (s + 1)"
    using Cons.prems(1) by (simp add: strcpy_loop.simps [of m d s] Let_def)
  also have "\<dots> = Some (copy_bytes (m(d := m s)) (d + 1) (s + 1) (Suc (length xs)))"
    using Cons.prems by (intro Cons.IH [OF c]) simp_all
  finally show ?case by simp
qed

lemma copy_bytes_cstr:
  assumes "cstr m s xs" and "Suc (length xs) \<le> unat (d - s)"
  shows "cstr (copy_bytes m d s (Suc (length xs))) d xs"
proof -
  have l: "length xs < 2 ^ 64" using assms(2) unat_u64_less [of "d - s"] by simp
  have "copy_bytes m d s (Suc (length xs)) (d + of_nat i) = m (s + of_nat i)" if "i \<le> length xs" for i
    using that l by (simp add: copy_bytes_apply [OF assms(2)] unat_of_nat64 del: copy_bytes.simps)
  with assms(1) show ?thesis by (auto simp: cstr_def)
qed

lemma strcmp_cstr:
  "cstr m p xs \<Longrightarrow> cstr m q ys \<Longrightarrow> \<exists>r. strcmp m p q = Some r \<and> (r = 0 \<longleftrightarrow> xs = ys)"
proof (induction xs arbitrary: p q ys)
  case Nil
  then show ?case by (cases ys) (auto simp: strcmp.simps)
next
  case (Cons x xs)
  show ?case
  proof (cases ys)
    case Nil with Cons.prems show ?thesis by (auto simp: strcmp.simps)
  next
    case (Cons y zs)
    with Cons.prems Cons.IH [of "p + 1" "q + 1" zs] show ?thesis
      by (auto simp: strcmp.simps [of m p q])
  qed
qed

text \<open>\<open>strncmp\<close> against the length of the second string tests for a prefix.\<close>

lemma strncmp_loop_cstr:
  "cstr m p xs \<Longrightarrow> cstr m q ys \<Longrightarrow>
     strncmp_loop m p q n = 0 \<longleftrightarrow> take n xs = take n ys"
proof (induction n arbitrary: p q xs ys)
  case (Suc n)
  then show ?case by (cases xs; cases ys) auto
qed simp

lemma strchr_cstr:
  "cstr m p xs \<Longrightarrow> c \<noteq> 0 \<Longrightarrow> strchr m p c =
     Some (if c \<in> set xs then p + of_nat (length (takeWhile (\<lambda>x. x \<noteq> c) xs)) else NULL)"
  by (induction xs arbitrary: p) (auto simp: strchr.simps algebra_simps)

lemma strncpy_loop_short:
  "cstr m s xs \<Longrightarrow> length xs < n \<Longrightarrow> Suc (length xs) \<le> unat (d - s) \<Longrightarrow>
     strncpy_loop m d s n =
       (copy_bytes m d s (Suc (length xs)), d + of_nat (Suc (length xs)), n - length xs)"
proof (induction xs arbitrary: m d s n)
  case Nil
  then show ?case by (cases n) (simp_all add: fun_upd_def)
next
  case (Cons x xs)
  then obtain k where n: "n = Suc k" by (cases n) auto
  have c: "cstr (m(d := m s)) (s + 1) xs" by (rule cstr_upd_dest) (use Cons.prems in auto)
  have "strncpy_loop m d s n = strncpy_loop (m(d := m s)) (d + 1) (s + 1) k"
    using Cons.prems(1) by (simp add: n Let_def)
  also have "\<dots> = (copy_bytes (m(d := m s)) (d + 1) (s + 1) (Suc (length xs)),
      d + 1 + of_nat (Suc (length xs)), k - length xs)"
    using Cons.prems n by (intro Cons.IH [OF c]) simp_all
  finally show ?case by (simp add: n)
qed

lemma strncpy_loop_long:
  "cstr m s xs \<Longrightarrow> n \<le> length xs \<Longrightarrow> Suc (length xs) \<le> unat (d - s) \<Longrightarrow>
     strncpy_loop m d s n = (copy_bytes m d s n, d + of_nat n, 0)"
proof (induction n arbitrary: m d s xs)
  case (Suc n)
  then obtain x ys where xs: "xs = x # ys" by (cases xs) auto
  have c: "cstr (m(d := m s)) (s + 1) ys" by (rule cstr_upd_dest) (use Suc.prems xs in auto)
  have "strncpy_loop m d s (Suc n) = strncpy_loop (m(d := m s)) (d + 1) (s + 1) n"
    using Suc.prems(1) by (simp add: xs Let_def)
  also have "\<dots> = (copy_bytes (m(d := m s)) (d + 1) (s + 1) n, d + 1 + of_nat n, 0)"
    using Suc.prems xs by (intro Suc.IH [OF c]) simp_all
  finally show ?case by simp
qed simp

lemma cstr_nth: "cstr m p xs \<Longrightarrow> unat k < length xs \<Longrightarrow> m (p + k) = xs ! unat k"
  by (auto simp: cstr_def dest!: spec [of _ "unat k"])

lemma cstr_end: "cstr m p xs \<Longrightarrow> unat k = length xs \<Longrightarrow> m (p + k) = 0"
  by (auto simp: cstr_def dest: sym)

lemma strncpy_short:
  assumes "cstr m src xs" and "length xs < unat n" and "length xs < unat (dest - src)"
  shows "strncpy m dest src n a =
     (if unat (a - dest) < length xs then xs ! unat (a - dest)
      else if unat (a - dest) \<le> unat n then 0 else m a)"
proof -
  let ?l = "length xs" and ?k = "unat (a - dest)"
  have n64: "unat n < 2 ^ 64" by (rule unat_u64_less)
  have src: "m (src + (a - dest)) = (if ?k < ?l then xs ! ?k else 0)" if "?k \<le> ?l"
    using assms(1) that by (cases "?k < ?l") (auto simp: cstr_nth cstr_end)
  have "strncpy m dest src n =
      set_bytes (copy_bytes m dest src (Suc ?l)) (dest + of_nat (Suc ?l)) 0 (unat n - ?l)"
    using assms by (simp add: strncpy_def strncpy_loop_short del: copy_bytes.simps)
  then have "strncpy m dest src n a =
      (if unat (a - (dest + of_nat (Suc ?l))) < unat n - ?l then 0
       else if ?k < Suc ?l then m (src + (a - dest)) else m a)"
    using n64 assms by (simp add: set_bytes_apply copy_bytes_apply del: copy_bytes.simps of_nat_Suc)
  moreover have "unat (a - (dest + of_nat (Suc ?l))) =
      (if Suc ?l \<le> ?k then ?k - Suc ?l else 2 ^ 64 + ?k - Suc ?l)"
    using n64 assms(2) by (intro unat_diff_add) simp
  ultimately show ?thesis
    using assms(2) n64 src by (cases "?k < ?l"; cases "?k = ?l") auto
qed

lemma strncpy_long:
  assumes "cstr m src xs" and "unat n \<le> length xs" and "length xs < unat (dest - src)"
  shows "strncpy m dest src n a = (if unat (a - dest) < unat n then xs ! unat (a - dest) else m a)"
proof -
  have "strncpy m dest src n a = copy_bytes m dest src (unat n) a"
    using assms by (simp add: strncpy_def strncpy_loop_long)
  also have "\<dots> = (if unat (a - dest) < unat n then m (src + (a - dest)) else m a)"
    using assms by (intro copy_bytes_apply) simp
  also have "\<dots> = (if unat (a - dest) < unat n then xs ! unat (a - dest) else m a)"
    using assms by (auto simp: cstr_nth)
  finally show ?thesis .
qed

lemma strncpy_cstr:
  assumes "cstr m src xs" and "length xs < unat n" and "length xs < unat (dest - src)"
  shows "cstr (strncpy m dest src n) dest xs"
proof -
  have "length xs < 2 ^ 64" using assms(2) unat_u64_less [of n] by simp
  then show ?thesis
    using assms by (auto simp: cstr_def strncpy_short unat_of_nat64)
qed

lemma strcat_cstr:
  assumes x: "cstr m dest xs" and y: "cstr m src ys"
    and sep: "length xs + length ys < unat (dest - src)"
    and sep2: "length xs + length ys < unat (src - dest)"
  shows "\<exists>m'. strcat m dest src = Some m' \<and> cstr m' dest (xs @ ys) \<and>
     (\<forall>a. length xs + length ys < unat (a - dest) \<longrightarrow> m' a = m a)"
proof -
  let ?d = "dest + of_nat (length xs)"
  let ?m = "copy_bytes m ?d src (Suc (length ys))"
  have "dest \<noteq> src" using sep by auto
  then have "unat (dest - src) + (length xs + length ys) < 2 ^ 64"
    using unat_neg_diff [of dest src] sep2 by simp
  then have "unat (dest - src + of_nat (length xs)) = unat (dest - src) + length xs"
    by (intro unat_plus_of_nat) simp
  then have le: "Suc (length ys) \<le> unat (?d - src)"
    using sep by (simp add: algebra_simps)
  have l: "length xs < 2 ^ 64" using sep unat_u64_less [of "dest - src"] by simp
  have app: "?m a = (if unat (a - ?d) < Suc (length ys) then m (src + (a - ?d)) else m a)" for a
    using le by (rule copy_bytes_apply)
  have ud: "unat (a - ?d) = (if length xs \<le> unat (a - dest) then unat (a - dest) - length xs
       else 2 ^ 64 + unat (a - dest) - length xs)" for a
    using l by (rule unat_diff_add)
  have sl: "length xs + length ys < 2 ^ 64" using sep unat_u64_less [of "dest - src"] by simp
  have idx: "?m (dest + of_nat i) = (if i < length xs then xs ! i
       else if i < length xs + length ys then ys ! (i - length xs) else 0)"
    if i: "i \<le> length xs + length ys" for i
  proof (cases "i < length xs")
    case True
    with i sl ud [of "dest + of_nat i"] x show ?thesis
      by (auto simp: app unat_of_nat64 cstr_def simp del: copy_bytes.simps)
  next
    case False
    then have k: "unat (dest + of_nat i - ?d) = i - length xs"
      using i sl ud [of "dest + of_nat i"] by (simp add: unat_of_nat64)
    then show ?thesis
      using False i y cstr_nth [OF y, of "dest + of_nat i - ?d"] cstr_end [OF y, of "dest + of_nat i - ?d"]
      by (auto simp: app simp del: copy_bytes.simps)
  qed
  have "strcat m dest src = Some ?m"
    using strcpy_loop_cstr [OF y le] by (simp add: strcat_def strend_cstr [OF x] del: copy_bytes.simps)
  moreover have "cstr ?m dest (xs @ ys)"
    using x y idx [OF order.refl]
    by (auto simp: cstr_def idx nth_append simp del: copy_bytes.simps of_nat_add)
  moreover have "?m a = m a" if "length xs + length ys < unat (a - dest)" for a
    using that ud [of a] by (auto simp: app simp del: copy_bytes.simps)
  ultimately show ?thesis by blast
qed

lemma memcmp_loop_eq_0:
  "memcmp_loop m p q n = 0 \<longleftrightarrow> (\<forall>i < n. m (p + of_nat i) = m (q + of_nat i))"
  by (induction n arbitrary: p q) (auto simp: less_Suc_eq_0_disj algebra_simps)

lemma memcmp_loop_first:
  assumes "k < n" and "m (p + of_nat k) \<noteq> m (q + of_nat k)"
    and "\<And>i. i < k \<Longrightarrow> m (p + of_nat i) = m (q + of_nat i)"
  shows "memcmp_loop m p q n = uint (m (p + of_nat k)) - uint (m (q + of_nat k))"
  using assms
proof (induction n arbitrary: p q k)
  case (Suc n)
  show ?case
  proof (cases k)
    case 0 with Suc.prems show ?thesis by simp
  next
    case (Suc j)
    have "m p = m q" using Suc.prems(3) [of 0] Suc by simp
    moreover have "m (p + 1 + of_nat i) = m (q + 1 + of_nat i)" if "i < j" for i
      using Suc.prems(3) [of "Suc i"] that Suc by (simp add: algebra_simps)
    ultimately show ?thesis
      using Suc.prems Suc Suc.IH [of j "p + 1" "q + 1"] by (simp add: algebra_simps)
  qed
qed simp


subsection \<open>Properties\<close>

text \<open>
  \<open>memset\<close> fills exactly the \<open>n\<close> bytes from \<open>dest\<close> with the low byte of \<open>c\<close> and leaves
  every other byte alone, whatever the alignment of \<open>dest\<close>: the aligned 64-bit loop with its byte
  prefix and byte suffix is equivalent to the byte-by-byte fill.
\<close>

theorem memset_fills:
  "memset m dest c n = (\<lambda>a. if a - dest < n then ucast c else m a)"
  by (simp add: fun_eq_iff memset_apply)

text \<open>
  Claim C21. \<open>memmove\<close> is correct for every overlap of source and destination: when neither buffer
  wraps around the address space, the destination holds the old contents of the source and no
  other byte changes, although the forward case goes through \<open>memcpy\<close>'s 64-bit copy loop.
\<close>

theorem memmove_moves:
  assumes "unat src + unat n < 2 ^ 64" and "unat dest + unat n < 2 ^ 64"
  shows "memmove m dest src n = (\<lambda>a. if a - dest < n then m (src + (a - dest)) else m a)"
  using memmove_apply [OF assms] by (simp add: fun_eq_iff)

theorem memmove_moves_witness:
  "unat (0::u64) + unat (40::u64) < 2 ^ 64 \<and> unat (8::u64) + unat (40::u64) < 2 ^ 64 \<and>
     memmove (\<lambda>a. ucast a) 8 0 40 30 = 22"
  using memmove_moves [of 0 40 8 "\<lambda>a. ucast a"] by simp

text \<open>
  \<open>strncpy\<close> with a source shorter than \<open>n\<close> copies the string, and then zero-fills up to
  and including \<open>dest + n\<close>: it writes \<open>n + 1\<close> bytes, one more than the \<open>n\<close> of the C standard,
  because the terminator copied by the first loop is not counted.
\<close>

theorem strncpy_writes_one_extra:
  assumes "cstr m src xs" and "length xs < unat n" and "length xs < unat (dest - src)"
  shows "strncpy m dest src n = (\<lambda>a. if unat (a - dest) < length xs then xs ! unat (a - dest)
      else if unat (a - dest) \<le> unat n then 0 else m a)"
  by (simp add: fun_eq_iff strncpy_short [OF assms])

definition hi_memory :: memory where
  "hi_memory = (\<lambda>a. if a = 100 then 0x68 else if a = 101 then 0x69 else if a = 102 then 0 else 0x7F)"

theorem strncpy_writes_one_extra_witness:
  "cstr hi_memory 100 [0x68, 0x69] \<and> hi_memory 204 = 0x7F \<and> strncpy hi_memory 200 100 4 204 = 0"
  using strncpy_writes_one_extra [of hi_memory 100 "[0x68, 0x69]" 4 200]
  by (simp add: hi_memory_def)

text \<open>
  \<open>strcat\<close> on two strings whose buffers are far enough apart returns, leaves the
  concatenation at \<open>dest\<close> and changes nothing beyond its terminator.
\<close>

theorem strcat_appends:
  assumes "cstr m dest xs" and "cstr m src ys"
    and "length xs + length ys < unat (dest - src)" and "length xs + length ys < unat (src - dest)"
  shows "\<exists>m'. strcat m dest src = Some m' \<and> cstr m' dest (xs @ ys) \<and>
     strlen m' dest = Some (of_nat (length xs + length ys)) \<and>
     (\<forall>a. length xs + length ys < unat (a - dest) \<longrightarrow> m' a = m a)"
  using strcat_cstr [OF assms] strlen_cstr [of _ dest "xs @ ys"] by fastforce

theorem strcat_appends_witness:
  "cstr hi_memory 100 [0x68, 0x69] \<and> cstr hi_memory 101 [0x69] \<and>
   (\<exists>m'. strcat (hi_memory(300 := 0)) 300 100 = Some m' \<and> cstr m' 300 [0x68, 0x69])"
  using strcat_appends [of "hi_memory(300 := 0)" 300 "[]" 100 "[0x68, 0x69]"]
  by (auto simp: hi_memory_def)

end
