(* ===== verification/Pmm.thy ===== *)
theory Pmm
  imports Kstring Spinlock
begin

unbundle bit_operations_syntax

text \<open>
  \<^verbatim>\<open>kernel/src/pmm.c\<close>, \<^verbatim>\<open>kernel/src/pmm.h\<close>: the physical memory manager, a bitmap with one bit per
  4 KiB page (1 = used) and a small stack that caches single free pages. The bitmap and the stack
  live in machine memory, at the addresses the manager keeps, as in the source. A result \<open>None\<close>
  means that control does not come back: the lock is already held, \<^verbatim>\<open>panic\<close> was called, or the CPU
  faults. \<^verbatim>\<open>klog\<close> calls only print and are left out. The bit index \<open>b\<close> of \<open>find_free_run\<close> is a C
  \<open>int\<close>; it is modelled without its 32-bit limit, which the code cannot reach while the machine has
  fewer than $2^{31}$ pages (8 TiB), and that bound is part of the invariant \<open>pmm_wf\<close>.
\<close>

abbreviation (input) PMM_PAGE_SIZE :: u64 where "PMM_PAGE_SIZE \<equiv> 4096"
abbreviation (input) FRAMES_STACK_ENTRIES :: u64 where "FRAMES_STACK_ENTRIES \<equiv> 1024"
abbreviation (input) FRAMES_STACK_MIN_PAGES :: u64 where "FRAMES_STACK_MIN_PAGES \<equiv> 2"
abbreviation (input) KERNEL_VIRT_OFFSET :: u64 where "KERNEL_VIRT_OFFSET \<equiv> 0"

definition PHYS_TO_VIRT :: "u64 \<Rightarrow> u64" where
  "PHYS_TO_VIRT x = x + KERNEL_VIRT_OFFSET"

definition VIRT_TO_PHYS :: "u64 \<Rightarrow> u64" where
  "VIRT_TO_PHYS x = x - KERNEL_VIRT_OFFSET"

record machine =
  mem :: memory

record pmm_state = machine +
  bitmap :: u64
  bitmap_pages :: u64
  total_pages :: u64
  free_pages :: u64
  total_memory :: u64
  bitmap_phys :: u64
  frames_stack :: u64
  stack_top :: u64
  pmm_lock :: spinlock

text \<open>Bitmap helpers.\<close>

definition bitmap_set :: "'a pmm_state_scheme \<Rightarrow> u64 \<Rightarrow> bool \<Rightarrow> 'a pmm_state_scheme" where
  "bitmap_set s page value =
     (let byte = drop_bit 3 page;
          b = unat (page AND 7);
          a = bitmap s + byte
      in s\<lparr>mem := (mem s)(a := (if value then mem s a OR push_bit b 1
                                 else mem s a AND NOT (push_bit b 1)))\<rparr>)"

definition bitmap_get :: "'a pmm_state_scheme \<Rightarrow> u64 \<Rightarrow> bool" where
  "bitmap_get s page =
     (let byte = drop_bit 3 page;
          b = unat (page AND 7)
      in drop_bit b (mem s (bitmap s + byte)) AND 1 \<noteq> 0)"

definition bitmap_word_full :: "u64 \<Rightarrow> bool" where
  "bitmap_word_full word \<longleftrightarrow> word = UINT64_MAX"

text \<open>The inner \<^verbatim>\<open>while (run < pages && check_idx < total_bits)\<close> of \<open>find_free_run\<close>.\<close>

function run_loop :: "'a pmm_state_scheme \<Rightarrow> u64 \<Rightarrow> u64 \<Rightarrow> u64 \<Rightarrow> u64 \<Rightarrow> u64" where
  "run_loop s pages total_bits run check_idx =
     (if run < pages \<and> check_idx < total_bits then
        if bitmap_get s check_idx then run
        else run_loop s pages total_bits (run + 1) (check_idx + 1)
      else run)"
  by pat_completeness auto
termination
proof (relation "measure (\<lambda>(s, pages, total, run, chk). unat (total - chk))", goal_cases)
  case (2 s pages total run chk)
  then show ?case by (simp add: unat_count_up)
qed simp

declare run_loop.simps [simp del]

text \<open>
  The loop over the 64 bits of one word: \<open>Some r\<close> is a \<^verbatim>\<open>return r\<close>, \<open>None\<close> leaves the loop and goes
  on with the next word.
\<close>

function bit_loop :: "'a pmm_state_scheme \<Rightarrow> u64 \<Rightarrow> u64 \<Rightarrow> u64 \<Rightarrow> u64 \<Rightarrow> nat \<Rightarrow> u64 option" where
  "bit_loop s pages total_bits word bit_index b =
     (if b < 64 then
        let idx = bit_index + of_nat b in
        if idx \<ge> total_bits then Some UINT64_MAX
        else if drop_bit b word AND 1 = 0 then
          let run = run_loop s pages total_bits 1 (idx + 1) in
          if run = pages then Some idx
          else bit_loop s pages total_bits word bit_index (b + unat run + 1)
        else bit_loop s pages total_bits word bit_index (b + 1)
      else None)"
  by pat_completeness auto
termination by (relation "measure (\<lambda>(s, pages, total, word, bi, b). 64 - b)") auto

declare bit_loop.simps [simp del]

function word_loop :: "'a pmm_state_scheme \<Rightarrow> u64 \<Rightarrow> u64 \<Rightarrow> u64 \<Rightarrow> u64 \<Rightarrow> u64 \<Rightarrow> u64" where
  "word_loop s pages total_bits total_words w bit_index =
     (if w < total_words then
        let word = load64 (mem s) (bitmap s + 8 * w) in
        if bitmap_word_full word then word_loop s pages total_bits total_words (w + 1) (bit_index + 64)
        else (case bit_loop s pages total_bits word bit_index 0 of
                Some r \<Rightarrow> r
              | None \<Rightarrow> word_loop s pages total_bits total_words (w + 1) (bit_index + 64))
      else UINT64_MAX)"
  by pat_completeness auto
termination
proof (relation "measure (\<lambda>(s, pages, total, tw, w, bi). unat (tw - w))", goal_cases)
  case (2 s pages total tw w)
  then show ?case by (simp add: unat_count_up)
next
  case (3 s pages total tw w)
  then show ?case by (simp add: unat_count_up)
qed simp

declare word_loop.simps [simp del]

definition find_free_run :: "'a pmm_state_scheme \<Rightarrow> u64 \<Rightarrow> u64" where
  "find_free_run s pages =
     (if pages = 0 then UINT64_MAX
      else
        let total_bits = total_pages s;
            total_words = (total_bits + 63) div 64
        in word_loop s pages total_bits total_words 0 0)"

text \<open>The cache of single free pages.\<close>

definition stack_pop :: "'a pmm_state_scheme \<Rightarrow> u64 \<times> 'a pmm_state_scheme" where
  "stack_pop s =
     (if stack_top s = 0 then (UINT64_MAX, s)
      else let t = stack_top s - 1
           in (load64 (mem s) (frames_stack s + 8 * t), s\<lparr>stack_top := t\<rparr>))"

definition stack_store :: "'a pmm_state_scheme \<Rightarrow> u64 \<Rightarrow> 'a pmm_state_scheme" where
  "stack_store s frame =
     s\<lparr>mem := store64 (mem s) (frames_stack s + 8 * stack_top s) frame, stack_top := stack_top s + 1\<rparr>"

definition stack_push :: "'a pmm_state_scheme \<Rightarrow> u64 \<Rightarrow> 'a pmm_state_scheme" where
  "stack_push s frame =
     (if stack_top s \<ge> bitmap_pages s * PMM_PAGE_SIZE then s
      else if stack_top s \<ge> FRAMES_STACK_ENTRIES then s
      else stack_store s frame)"

subsection \<open>Initialisation\<close>

text \<open>
  The memory map comes from the boot loader. Its entry types are the ones the code tells apart;
  \<open>MEMMAP_OTHER\<close> is every other type.
\<close>

datatype memmap_type = USABLE | ACPI_RECLAIMABLE | BOOTLOADER_RECLAIMABLE | MEMMAP_OTHER

record memmap_entry =
  me_base :: u64
  me_length :: u64
  me_type :: memmap_type

fun mm_highest :: "memmap_entry list \<Rightarrow> u64 \<Rightarrow> u64" where
  "mm_highest [] highest = highest"
| "mm_highest (e # es) highest =
     (if me_type e = USABLE \<or> me_type e = ACPI_RECLAIMABLE \<or> me_type e = BOOTLOADER_RECLAIMABLE then
        let end = me_base e + me_length e in mm_highest es (if end > highest then end else highest)
      else mm_highest es highest)"

text \<open>The first usable region that is large enough gives up its first \<open>needed\<close> bytes.\<close>

fun mm_choose :: "u64 \<Rightarrow> memmap_entry list \<Rightarrow> u64 \<times> memmap_entry list" where
  "mm_choose needed [] = (0, [])"
| "mm_choose needed (e # es) =
     (if me_type e = USABLE \<and> me_length e \<ge> needed then
        (me_base e, e\<lparr>me_base := me_base e + needed, me_length := me_length e - needed\<rparr> # es)
      else let (p, es') = mm_choose needed es in (p, e # es'))"

function free_range :: "'a pmm_state_scheme \<Rightarrow> u64 \<Rightarrow> u64 \<Rightarrow> 'a pmm_state_scheme" where
  "free_range s pg end_page =
     (if pg < end_page then
        let s1 = bitmap_set s pg False
        in free_range (s1\<lparr>free_pages := free_pages s1 + 1\<rparr>) (pg + 1) end_page
      else s)"
  by pat_completeness auto
termination
proof (relation "measure (\<lambda>(s, pg, e). unat (e - pg))", goal_cases)
  case (2 s pg e) then show ?case by (simp add: unat_count_up)
qed simp

fun mm_free :: "'a pmm_state_scheme \<Rightarrow> memmap_entry list \<Rightarrow> 'a pmm_state_scheme" where
  "mm_free s [] = s"
| "mm_free s (e # es) =
     (if me_type e = USABLE then
        let start_page = me_base e div PMM_PAGE_SIZE;
            end_page = (me_base e + me_length e) div PMM_PAGE_SIZE
        in mm_free (free_range s start_page end_page) es
      else mm_free s es)"

text \<open>The three identical loops of \<open>pmm_init\<close> that take a range of pages out of the free ones.\<close>

function reserve_range :: "'a pmm_state_scheme \<Rightarrow> u64 \<Rightarrow> u64 \<Rightarrow> 'a pmm_state_scheme" where
  "reserve_range s pg end_page =
     (if pg < end_page then
        reserve_range
          (if \<not> bitmap_get s pg then
             let s1 = bitmap_set s pg True in s1\<lparr>free_pages := free_pages s1 - 1\<rparr>
           else s) (pg + 1) end_page
      else s)"
  by pat_completeness auto
termination
proof (relation "measure (\<lambda>(s, pg, e). unat (e - pg))", goal_cases)
  case (2 s pg e) then show ?case by (simp add: unat_count_up)
qed simp

declare free_range.simps [simp del] reserve_range.simps [simp del]

definition pmm_init ::
  "'a pmm_state_scheme \<Rightarrow> memmap_entry list option \<Rightarrow> ('a pmm_state_scheme \<times> memmap_entry list) option" where
  "pmm_init s response =
     do {
       mmap \<leftarrow> response; \<comment> \<open>NULL: panic\<close>
       let highest = mm_highest mmap 0;
       let s = s\<lparr>total_memory := highest, total_pages := highest div PMM_PAGE_SIZE\<rparr>;
       let bitmap_size_bytes = (total_pages s + 7) div 8;
       let s = s\<lparr>bitmap_pages := (bitmap_size_bytes + PMM_PAGE_SIZE - 1) div PMM_PAGE_SIZE\<rparr>;
       let frames_stack_bytes = FRAMES_STACK_ENTRIES * 8;
       let fsp = (frames_stack_bytes + PMM_PAGE_SIZE - 1) div PMM_PAGE_SIZE;
       let frames_stack_pages = (if fsp < FRAMES_STACK_MIN_PAGES then FRAMES_STACK_MIN_PAGES else fsp);
       let needed_bytes = bitmap_size_bytes + frames_stack_pages * PMM_PAGE_SIZE;
       let (chosen_phys, mmap) = mm_choose needed_bytes mmap;
       if chosen_phys = 0 then None \<comment> \<open>panic\<close>
       else do {
         let s = s\<lparr>bitmap_phys := chosen_phys, bitmap := PHYS_TO_VIRT chosen_phys\<rparr>;
         let frames_stack_phys = chosen_phys + bitmap_size_bytes;
         let s = s\<lparr>frames_stack := PHYS_TO_VIRT frames_stack_phys, stack_top := 0\<rparr>;
         let saved = mem s (bitmap s);
         let s = s\<lparr>mem := (mem s)(bitmap s := saved XOR 0xAA)\<rparr>;
         let s = s\<lparr>mem := (mem s)(bitmap s := saved)\<rparr>;
         let s = s\<lparr>mem := memset (mem s) (bitmap s) 0xFF bitmap_size_bytes\<rparr>;
         let s = mm_free (s\<lparr>free_pages := 0\<rparr>) mmap;
         let bm_start_page = bitmap_phys s div PMM_PAGE_SIZE;
         let bm_end_page = (bitmap_phys s + bitmap_size_bytes + PMM_PAGE_SIZE - 1) div PMM_PAGE_SIZE;
         let s = reserve_range s bm_start_page bm_end_page;
         let fs_start_page = frames_stack_phys div PMM_PAGE_SIZE;
         let fs_end_page = (frames_stack_phys + frames_stack_pages * PMM_PAGE_SIZE) div PMM_PAGE_SIZE;
         let s = reserve_range s fs_start_page fs_end_page;
         let kernel_start = 0x100000;
         let kernel_end = 0x200000;
         let ks = kernel_start div PMM_PAGE_SIZE;
         let ke = (kernel_end + PMM_PAGE_SIZE - 1) div PMM_PAGE_SIZE;
         Some (reserve_range s ks ke, mmap)
       }
     }"

subsection \<open>Allocation\<close>

function set_range :: "'a pmm_state_scheme \<Rightarrow> u64 \<Rightarrow> u64 \<Rightarrow> 'a pmm_state_scheme" where
  "set_range s i e = (if i < e then set_range (bitmap_set s i True) (i + 1) e else s)"
  by pat_completeness auto
termination
proof (relation "measure (\<lambda>(s, i, e). unat (e - i))", goal_cases)
  case (2 s i e) then show ?case by (simp add: unat_count_up)
qed simp

declare set_range.simps [simp del]

definition unlock_pmm :: "'a pmm_state_scheme \<Rightarrow> 'a pmm_state_scheme" where
  "unlock_pmm s = s\<lparr>pmm_lock := spinlock_unlock (pmm_lock s)\<rparr>"

definition lock_pmm :: "'a pmm_state_scheme \<Rightarrow> 'a pmm_state_scheme option" where
  "lock_pmm s = map_option (\<lambda>l. s\<lparr>pmm_lock := l\<rparr>) (spinlock_lock (pmm_lock s))"

definition pmalloc :: "'a pmm_state_scheme \<Rightarrow> u64 \<Rightarrow> (u64 \<times> 'a pmm_state_scheme) option" where
  "pmalloc s pages =
     (if pages = 0 then Some (NULL, s)
      else do {
        s \<leftarrow> lock_pmm s;
        let (fast, s) =
          (if pages = 1 \<and> stack_top s > 0 then
             let (phys, s') = stack_pop s in (if phys \<noteq> UINT64_MAX then Some phys else None, s')
           else (None, s));
        case fast of
          Some phys \<Rightarrow>
            let s = s\<lparr>free_pages := free_pages s - 1\<rparr>;
                v = PHYS_TO_VIRT (phys * PMM_PAGE_SIZE)
            in Some (v, unlock_pmm s)
        | None \<Rightarrow>
            let start_page = find_free_run s pages in
            if start_page = UINT64_MAX then Some (NULL, unlock_pmm s)
            else
              let s = set_range s start_page (start_page + pages);
                  s = s\<lparr>free_pages := free_pages s - pages\<rparr>;
                  phys_addr = start_page * PMM_PAGE_SIZE;
                  virt = PHYS_TO_VIRT phys_addr
              in Some (virt, unlock_pmm s)
      })"

function all_free :: "'a pmm_state_scheme \<Rightarrow> u64 \<Rightarrow> u64 \<Rightarrow> u64 \<Rightarrow> bool" where
  "all_free s i j pages =
     (if j < pages then (if bitmap_get s (i + j) then False else all_free s i (j + 1) pages) else True)"
  by pat_completeness auto
termination
proof (relation "measure (\<lambda>(s, i, j, p). unat (p - j))", goal_cases)
  case (2 s i j p) then show ?case by (simp add: unat_count_up)
qed simp

function mark_from :: "'a pmm_state_scheme \<Rightarrow> u64 \<Rightarrow> u64 \<Rightarrow> u64 \<Rightarrow> 'a pmm_state_scheme" where
  "mark_from s i j pages =
     (if j < pages then mark_from (bitmap_set s (i + j) True) i (j + 1) pages else s)"
  by pat_completeness auto
termination
proof (relation "measure (\<lambda>(s, i, j, p). unat (p - j))", goal_cases)
  case (2 s i j p) then show ?case by (simp add: unat_count_up)
qed simp

declare all_free.simps [simp del] mark_from.simps [simp del]

text \<open>
  The scan of \<open>pmalloc_aligned\<close>. Advancing divides by \<open>align_pages\<close>, which is 0 for an alignment
  of 0: the division faults (\<open>None\<close>). \<open>Some None\<close> is the end of the loop without a hit.
\<close>

partial_function (option) aligned_loop ::
  "'a pmm_state_scheme \<Rightarrow> u64 \<Rightarrow> u64 \<Rightarrow> u64 \<Rightarrow> u64 \<Rightarrow> u64 option option" where
  "aligned_loop s pages align_pages total_n i =
     (if i + pages \<le> total_n then
        if all_free s i 0 pages then Some (Some i)
        else if align_pages = 0 then None
        else aligned_loop s pages align_pages total_n ((i div align_pages + 1) * align_pages)
      else Some None)"

definition pmalloc_aligned ::
  "'a pmm_state_scheme \<Rightarrow> u64 \<Rightarrow> u64 \<Rightarrow> (u64 \<times> 'a pmm_state_scheme) option" where
  "pmalloc_aligned s pages alignment =
     (if pages = 0 then Some (NULL, s)
      else if alignment mod PMM_PAGE_SIZE \<noteq> 0 then Some (NULL, s)
      else do {
        s \<leftarrow> lock_pmm s;
        let align_pages = alignment div PMM_PAGE_SIZE;
        let total_n = total_pages s;
        hit \<leftarrow> aligned_loop s pages align_pages total_n 0;
        case hit of
          Some i \<Rightarrow>
            let s = mark_from s i 0 pages;
                s = s\<lparr>free_pages := free_pages s - pages\<rparr>;
                phys_addr = i * PMM_PAGE_SIZE
            in Some (PHYS_TO_VIRT phys_addr, unlock_pmm s)
        | None \<Rightarrow> Some (NULL, unlock_pmm s)
      })"

function free_loop :: "'a pmm_state_scheme \<Rightarrow> u64 \<Rightarrow> u64 \<Rightarrow> u64 \<Rightarrow> 'a pmm_state_scheme" where
  "free_loop s start pages i =
     (if i < pages then
        let pg = start + i;
            s1 = bitmap_set s pg False;
            s2 = (if pages = 1 then
                    (if stack_top s1 < FRAMES_STACK_ENTRIES then stack_store s1 pg else s1)
                  else s1)
        in free_loop s2 start pages (i + 1)
      else s)"
  by pat_completeness auto
termination
proof (relation "measure (\<lambda>(s, st, p, i). unat (p - i))", goal_cases)
  case (2 s st p i) then show ?case by (simp add: unat_count_up)
qed simp

declare free_loop.simps [simp del]

definition pfree :: "'a pmm_state_scheme \<Rightarrow> u64 \<Rightarrow> u64 \<Rightarrow> 'a pmm_state_scheme option" where
  "pfree s ptr pages =
     (if ptr = NULL \<or> pages = 0 then Some s
      else do {
        s \<leftarrow> lock_pmm s;
        let phys = VIRT_TO_PHYS ptr;
        let start = phys div PMM_PAGE_SIZE;
        if start \<ge> total_pages s then Some (unlock_pmm s)
        else
          let s = free_loop s start pages 0;
              s = s\<lparr>free_pages := free_pages s + pages\<rparr>
          in Some (unlock_pmm s)
      })"

definition pmm_get_free :: "'a pmm_state_scheme \<Rightarrow> u64" where
  "pmm_get_free s = free_pages s * PMM_PAGE_SIZE"

definition pmm_get_total :: "'a pmm_state_scheme \<Rightarrow> u64" where
  "pmm_get_total s = total_memory s"

function region_loop :: "'a pmm_state_scheme \<Rightarrow> u64 \<Rightarrow> u64 \<Rightarrow> bool \<Rightarrow> 'a pmm_state_scheme" where
  "region_loop s pg e used =
     (if pg < e then
        region_loop
          (if bitmap_get s pg \<noteq> used then
             let s1 = bitmap_set s pg used in
             if used then (if free_pages s1 > 0 then s1\<lparr>free_pages := free_pages s1 - 1\<rparr> else s1)
             else s1\<lparr>free_pages := free_pages s1 + 1\<rparr>
           else s) (pg + 1) e used
      else s)"
  by pat_completeness auto
termination
proof (relation "measure (\<lambda>(s, pg, e, u). unat (e - pg))", goal_cases)
  case (2 s pg e u) then show ?case by (simp add: unat_count_up)
qed simp

declare region_loop.simps [simp del]

definition pmm_set_region :: "'a pmm_state_scheme \<Rightarrow> u64 \<Rightarrow> u64 \<Rightarrow> bool \<Rightarrow> 'a pmm_state_scheme option" where
  "pmm_set_region s base sz used =
     (let start = base div PMM_PAGE_SIZE;
          e = (base + sz + PMM_PAGE_SIZE - 1) div PMM_PAGE_SIZE
      in do {
        s \<leftarrow> lock_pmm s;
        Some (unlock_pmm (region_loop s start e used))
      })"

end
