(* ===== verification/Pmm_Proofs.thy ===== *)
theory Pmm_Proofs
  imports Pmm
begin

unbundle bit_operations_syntax

text \<open>
  Correctness of the physical memory manager of \<^theory_text>\<open>Pmm\<close>.
  \<^item> The bitmap bytes as a set of pages: \<open>bitmap_set\<close> and \<open>bitmap_get\<close> obey the array laws, and
    \<open>page_update\<close> relates two states that differ in the bits of a set of pages only.
  \<^item> The word-wise search \<open>find_free_run\<close> equals the first-fit search \<open>first_fit\<close>.
  \<^item> \<open>free_set\<close>, the free pages, is the abstract state; every operation is described by what it does
    to it, \<open>pmm_accounted\<close> says that the counter \<open>free_pages\<close> agrees with it.
  \<^item> The locale \<open>page_allocator\<close> is the contract the heap relies on, interpreted on \<open>pmalloc\<close>.
\<close>

subsection \<open>Bitmap\<close>

lemma and_1_eq_0_iff: "drop_bit n (x::'a::len word) AND 1 = 0 \<longleftrightarrow> \<not> bit x n"
  by (simp only: and_one_eq bit_iff_odd_drop_bit even_iff_mod_2_eq_zero not_not)

lemma page_decomp: "page = push_bit 3 (drop_bit 3 page) OR (page AND (7::u64))"
proof (rule bit_eqI)
  fix n
  have "(7::u64) = mask 3" by (simp add: mask_eq_exp_minus_1)
  then have b7: "bit (7::u64) n \<longleftrightarrow> n < 3" for n by (simp only: bit_mask_iff) auto
  show "bit page n = bit (push_bit 3 (drop_bit 3 page) OR (page AND 7)) n" 
    if "possible_bit TYPE(64 word) n"
    using that b7 [of n] by (cases "n < 3") (auto simp: bit_or_iff bit_and_iff bit_push_bit_iff bit_drop_bit_eq)
qed

lemma and_7_less_8: "unat ((x::u64) AND 7) < 8"
  using word_and_le1 [of x 7] by (simp add: word_le_nat_alt)

lemma bitmap_get_bit: "bitmap_get s p \<longleftrightarrow> bit (mem s (bitmap s + drop_bit 3 p)) (unat (p AND 7))"
  by (simp add: bitmap_get_def Let_def and_1_eq_0_iff)

lemma bit_set_byte: "n < 8 \<Longrightarrow> bit ((x::u8) OR 2 ^ k) n \<longleftrightarrow> n = k \<or> bit x n"
  by (auto simp: bit_or_iff bit_exp_iff)

lemma bit_clear_byte: "n < 8 \<Longrightarrow> bit ((x::u8) AND NOT (2 ^ k)) n \<longleftrightarrow> n \<noteq> k \<and> bit x n"
  by (auto simp: bit_and_iff bit_not_iff bit_exp_iff)

lemma mem_bitmap_set:
  "mem (bitmap_set s p v) = (mem s)(bitmap s + drop_bit 3 p :=
     (if v then mem s (bitmap s + drop_bit 3 p) OR push_bit (unat (p AND 7)) 1
      else mem s (bitmap s + drop_bit 3 p) AND NOT (push_bit (unat (p AND 7)) 1)))"
  by (simp add: bitmap_set_def Let_def)

lemma bitmap_bitmap_set [simp]: "bitmap (bitmap_set s p v) = bitmap s"
  by (simp add: bitmap_set_def Let_def)

lemma page_eq_iff: "p = q \<longleftrightarrow> drop_bit 3 p = drop_bit 3 q \<and> unat (p AND 7) = unat ((q::u64) AND 7)"
  using page_decomp [of p] page_decomp [of q] by (metis word_unat_eq_iff)

lemma bitmap_get_set:
  "bitmap_get (bitmap_set s p v) q = (if q = p then v else bitmap_get s q)"
proof (cases "drop_bit 3 p = drop_bit 3 q")
  case True
  then have "q = p \<longleftrightarrow> unat (q AND 7) = unat (p AND 7)" by (simp add: page_eq_iff)
  with True and_7_less_8 [of q] show ?thesis
    by (simp add: bitmap_get_bit mem_bitmap_set bit_set_byte bit_clear_byte)
next
  case False
  then have "q \<noteq> p" by auto
  with False show ?thesis by (simp add: bitmap_get_bit mem_bitmap_set)
qed

lemma bitmap_set_fields [simp]:
  "bitmap (bitmap_set s p v) = bitmap s" "total_pages (bitmap_set s p v) = total_pages s"
  "free_pages (bitmap_set s p v) = free_pages s" "stack_top (bitmap_set s p v) = stack_top s"
  "frames_stack (bitmap_set s p v) = frames_stack s" "pmm_lock (bitmap_set s p v) = pmm_lock s"
  "bitmap_pages (bitmap_set s p v) = bitmap_pages s" "bitmap_phys (bitmap_set s p v) = bitmap_phys s"
  "total_memory (bitmap_set s p v) = total_memory s"
  "pmm_state.more (bitmap_set s p v) = pmm_state.more s"
  by (simp_all add: bitmap_set_def Let_def)

subsection \<open>First fit\<close>

definition run_free :: "'a pmm_state_scheme \<Rightarrow> nat \<Rightarrow> nat \<Rightarrow> bool" where
  "run_free s p i \<longleftrightarrow> i + p \<le> unat (total_pages s) \<and> (\<forall>j < p. \<not> bitmap_get s (of_nat (i + j)))"

definition first_fit :: "'a pmm_state_scheme \<Rightarrow> nat \<Rightarrow> nat option" where
  "first_fit s p = List.find (run_free s p) [0..<unat (total_pages s)]"

lemma unat_Suc_less: "(x::u64) < y \<Longrightarrow> unat (x + 1) = unat x + 1"
  by unat_arith

definition run_ok :: "'a pmm_state_scheme \<Rightarrow> nat \<Rightarrow> nat \<Rightarrow> nat \<Rightarrow> nat \<Rightarrow> nat \<Rightarrow> bool" where
  "run_ok s p tot idx run r \<longleftrightarrow> run \<le> r \<and> r \<le> p \<and> idx + r \<le> tot \<and>
    (\<forall>j. run \<le> j \<and> j < r \<longrightarrow> \<not> bitmap_get s (of_nat (idx + j))) \<and>
    (r \<noteq> p \<longrightarrow> idx + r = tot \<or> bitmap_get s (of_nat (idx + r)))"

lemma run_ok_step:
  assumes "run_ok s p tot idx (Suc run) r" "\<not> bitmap_get s (of_nat (idx + run))"
  shows "run_ok s p tot idx run r"
  using assms unfolding run_ok_def by (metis Suc_leD Suc_leI le_neq_implies_less)

lemma run_loop_ok:
  assumes "chk = idx + run" "unat idx + unat run \<le> unat tot" "unat tot < 2 ^ 31" "unat run \<le> unat pages"
  shows "run_ok s (unat pages) (unat tot) (unat idx) (unat run) (unat (run_loop s pages tot run chk))"
  using assms
proof (induction s pages tot run chk rule: run_loop.induct)
  case (1 s pages tot run chk)
  have chk: "chk = of_nat (unat idx + unat run)" using "1.prems"(1) by simp
  have uchk: "unat chk = unat idx + unat run"
    using "1.prems" by (simp add: unat_plus_if')
  show ?case
  proof (cases "run < pages \<and> chk < tot \<and> \<not> bitmap_get s chk")
    case True
    have u: "unat (run + 1) = Suc (unat run)" using True unat_Suc_less by auto
    have "run_ok s (unat pages) (unat tot) (unat idx) (unat (run + 1))
        (unat (run_loop s pages tot (run + 1) (chk + 1)))"
      using True u uchk "1.prems" by (intro "1.IH") (auto simp: word_less_nat_alt)
    with True chk show ?thesis
      by (simp add: run_loop.simps [of s pages tot run] u run_ok_step)
  next
    case False
    then have "run_loop s pages tot run chk = run" by (auto simp: run_loop.simps [of s pages tot run])
    with False "1.prems" uchk chk show ?thesis
      by (auto simp: run_ok_def word_less_nat_alt)
  qed
qed

lemma not_run_free_skip:
  assumes "k \<le> q" "q < k + p" "q = unat (total_pages s) \<or> bitmap_get s (of_nat q)"
  shows "\<not> run_free s p k"
proof
  assume a: "run_free s p k"
  then have "q \<noteq> unat (total_pages s)" using assms(2) by (auto simp: run_free_def)
  with assms have "bitmap_get s (of_nat (k + (q - k)))" by simp
  moreover have "q - k < p" using assms by simp
  ultimately show False using a unfolding run_free_def by blast
qed

definition fit_from :: "'a pmm_state_scheme \<Rightarrow> nat \<Rightarrow> nat \<Rightarrow> u64 \<Rightarrow> bool" where
  "fit_from s p k r \<longleftrightarrow> (r = UINT64_MAX \<and> (\<forall>i \<ge> k. \<not> run_free s p i)) \<or>
     (\<exists>i \<ge> k. r = of_nat i \<and> run_free s p i \<and> (\<forall>j. k \<le> j \<and> j < i \<longrightarrow> \<not> run_free s p j))"

lemma fit_from_skip:
  assumes "fit_from s p k' r" "k \<le> k'" "\<And>j. k \<le> j \<Longrightarrow> j < k' \<Longrightarrow> \<not> run_free s p j"
  shows "fit_from s p k r"
  using assms unfolding fit_from_def by (metis le_trans not_less)

text \<open>What the loop over one word, started at bit \<open>b\<close>, must answer; \<open>B\<close> is the word's first page.\<close>

definition word_answer :: "'a pmm_state_scheme \<Rightarrow> nat \<Rightarrow> nat \<Rightarrow> nat \<Rightarrow> u64 option \<Rightarrow> bool" where
  "word_answer s p B b res = (case res of
      Some r \<Rightarrow> fit_from s p (B + b) r
    | None \<Rightarrow> \<forall>k. B + b \<le> k \<and> k < B + 64 \<longrightarrow> \<not> run_free s p k)"

lemma word_answer_skip:
  assumes "word_answer s p B b' res" "b \<le> b'"
    "\<And>k. B + b \<le> k \<Longrightarrow> k < B + b' \<Longrightarrow> \<not> run_free s p k"
  shows "word_answer s p B b res"
  using assms fit_from_skip [of s p "B + b'" _ "B + b"]
  by (auto simp: word_answer_def split: option.splits) (meson not_less)

lemma word_answer_hit:
  assumes "run_ok s p (unat (total_pages s)) (B + b) 1 p" "\<not> bitmap_get s (of_nat (B + b))"
  shows "word_answer s p B b (Some (of_nat (B + b)))"
proof -
  have "\<not> bitmap_get s (of_nat (B + b + j))" if "j < p" for j
    using assms that by (cases "j = 0") (auto simp: run_ok_def)
  then have "run_free s p (B + b)" using assms by (simp add: run_free_def run_ok_def)
  then show ?thesis by (auto simp: word_answer_def fit_from_def)
qed

lemma word_answer_miss:
  assumes "run_ok s p (unat (total_pages s)) (B + b) 1 r" "r \<noteq> p"
    "word_answer s p B (b + r + 1) res"
  shows "word_answer s p B b res"
  using assms(3)
proof (rule word_answer_skip)
  fix k assume "B + b \<le> k" "k < B + (b + r + 1)"
  with assms show "\<not> run_free s p k"
    by (intro not_run_free_skip [of k "B + b + r"]) (auto simp: run_ok_def)
qed simp

lemma bit_loop_answer:
  assumes "unat (total_pages s) < 2 ^ 31" "pages \<noteq> 0" "unat bi \<le> unat (total_pages s) + 64"
    "\<And>b. b < 64 \<Longrightarrow> unat bi + b < unat (total_pages s) \<Longrightarrow>
       bit word b \<longleftrightarrow> bitmap_get s (of_nat (unat bi + b))"
  shows "word_answer s (unat pages) (unat bi) b (bit_loop s pages (total_pages s) word bi b)"
proof (induction "64 - b" arbitrary: b rule: less_induct)
  case less
  let ?T = "unat (total_pages s)" and ?p = "unat pages" and ?B = "unat bi"
  let ?f = "bit_loop s pages (total_pages s) word bi"
  have p: "0 < ?p" using assms(2) by (simp add: unat_gt_0)
  note unf = bit_loop.simps [of s pages _ word bi b] and_1_eq_0_iff Let_def
  consider "\<not> b < 64" | "b < 64" "bi + of_nat b \<ge> total_pages s"
    | "b < 64" "\<not> bi + of_nat b \<ge> total_pages s" by blast
  then show ?case
  proof cases
    case 1
    then show ?thesis by (auto simp: unf word_answer_def)
  next
    case 2
    have "\<not> run_free s ?p i" if "?B + b \<le> i" for i
      using that 2 p unat_plus_of_nat [of bi b] assms(1,3) by (auto simp: run_free_def word_le_nat_alt)
    with 2 show ?thesis by (simp add: unf word_answer_def fit_from_def)
  next
    case 3
    have ui: "unat (bi + of_nat b) = ?B + b"
      using assms(1,3) 3 by (intro unat_plus_of_nat) simp
    with 3 have lt: "?B + b < ?T" by (simp add: word_le_nat_alt)
    define r where "r = run_loop s pages (total_pages s) 1 (bi + of_nat b + 1)"
    have ok: "run_ok s ?p ?T (?B + b) 1 (unat r)"
      using run_loop_ok [of "bi + of_nat b + 1" "bi + of_nat b" 1 "total_pages s" pages s] lt ui assms(1) p
      by (simp add: r_def)
    show ?thesis
    proof (cases "bit word b")
      case True
      have "word_answer s ?p ?B b (?f (b + 1))"
      proof (rule word_answer_skip [OF less.hyps])
        fix k assume "?B + b \<le> k" "k < ?B + (b + 1)"
        then have "k = ?B + b" by simp
        then show "\<not> run_free s ?p k"
          using True assms(4) [OF 3(1) lt] p by (intro not_run_free_skip [of _ k]) auto
      qed (use 3 in simp_all)
      with 3 True show ?thesis by (simp add: unf)
    next
      case False
      have "?f b = (if r = pages then Some (bi + of_nat b) else ?f (b + unat r + 1))"
        using 3 False by (simp add: unf r_def)
      then show ?thesis
        using word_answer_hit [of s ?p ?B b] word_answer_miss [OF ok _ less.hyps] ok False 3
          assms(4) [OF 3(1) lt]
        by (auto simp: word_unat_eq_iff)
    qed
  qed
qed

lemma unat_and_7: "unat ((x::u64) AND 7) = unat x mod 8"
proof -
  have "unat x AND 7 = take_bit 3 (unat x)" by (simp add: take_bit_eq_mask mask_eq_exp_minus_1)
  then show ?thesis by (simp add: unsigned_and_eq take_bit_eq_mod)
qed

lemma bit_bitmap_word:
  assumes "b < 64" "64 * w + b < 2 ^ 31"
  shows "bit (load64 (mem s) (bitmap s + 8 * of_nat w)) b \<longleftrightarrow> bitmap_get s (of_nat (64 * w + b))"
proof -
  let ?q = "of_nat (64 * w + b) :: u64"
  have uq: "unat ?q = 64 * w + b" using assms by (intro unat_of_nat64) simp
  have "drop_bit 3 ?q = of_nat (8 * w + b div 8)"
    using uq assms
    by (simp add: word_unat_eq_iff drop_bit_eq_div unat_div unat_of_nat64 del: of_nat_add of_nat_mult)
  then have d: "drop_bit 3 ?q = 8 * of_nat w + of_nat (b div 8)" by simp
  have m: "unat (?q AND 7) = b mod 8"
    using uq by (simp add: unat_and_7 del: of_nat_add of_nat_mult) presburger
  show ?thesis
    using assms d by (simp add: bit_load64 bitmap_get_bit m add.assoc del: of_nat_add of_nat_mult)
qed

lemma word_loop_fit:
  assumes T: "unat (total_pages s) < 2 ^ 31" and "pages \<noteq> 0"
    and tw: "tw = (total_pages s + 63) div 64" and "w \<le> tw" and "bi = 64 * w"
  shows "fit_from s (unat pages) (64 * unat w) (word_loop s pages (total_pages s) tw w bi)"
  using assms(4,5)
proof (induction "unat (tw - w)" arbitrary: w bi rule: less_induct)
  case less
  let ?T = "unat (total_pages s)" and ?p = "unat pages" and ?word = "load64 (mem s) (bitmap s + 8 * w)"
  let ?f = "word_loop s pages (total_pages s) tw"
  have p: "0 < ?p" using assms(2) by (simp add: unat_gt_0)
  have utw: "unat tw = (?T + 63) div 64"
    using T by (simp add: tw unat_div unat_plus_if')
  have ubi: "unat bi = 64 * unat w"
    using less.prems utw T by (simp add: word_le_nat_alt unat_mult_lem [THEN iffD1])
  show ?case
  proof (cases "w < tw")
    case False
    then have "?T \<le> 64 * unat w" using utw by (simp add: word_less_nat_alt)
    then show ?thesis using False p by (auto simp: word_loop.simps fit_from_def run_free_def)
  next
    case True
    have bits: "bit ?word b \<longleftrightarrow> bitmap_get s (of_nat (unat bi + b))" if "b < 64" "unat bi + b < ?T" for b
      using bit_bitmap_word [of b "unat w" s] that T ubi by simp
    have u1: "unat (w + 1) = Suc (unat w)" using unat_Suc_less [OF True] by simp
    have "fit_from s ?p (64 * unat (w + 1)) (?f (w + 1) (bi + 64))"
      using True less.prems u1 unat_count_up [OF True]
      by (intro less.hyps) (auto simp: word_less_nat_alt word_le_nat_alt algebra_simps)
    then have step: "fit_from s ?p (64 * unat w) (?f (w + 1) (bi + 64))"
      if "\<And>k. unat bi \<le> k \<Longrightarrow> k < unat bi + 64 \<Longrightarrow> \<not> run_free s ?p k"
      using that ubi u1 by (auto intro: fit_from_skip)
    show ?thesis
    proof (cases "bitmap_word_full ?word")
      case full: True
      have "\<not> run_free s ?p k" if "unat bi \<le> k" "k < unat bi + 64" for k
      proof (cases "k < ?T")
        case True
        then have "bitmap_get s (of_nat k)" using bits [of "k - unat bi"] that full
          by (simp add: bitmap_word_full_def UINT64_MAX_def bit_minus_1_iff)
        then show ?thesis using p by (intro not_run_free_skip [of k k]) auto
      qed (use p in \<open>auto simp: run_free_def\<close>)
      with step full True show ?thesis by (simp add: word_loop.simps [of s pages _ tw w])
    next
      case nf: False
      have "word_answer s ?p (unat bi) 0 (bit_loop s pages (total_pages s) ?word bi 0)"
      proof (rule bit_loop_answer [OF T assms(2)])
        show "unat bi \<le> ?T + 64" using ubi utw True by (simp add: word_less_nat_alt)
      qed (rule bits)
      with step nf True ubi show ?thesis
        by (auto simp: word_loop.simps [of s pages _ tw w] word_answer_def Let_def split: option.splits)
    qed
  qed
qed

lemma find_free_run_fit:
  assumes "unat (total_pages s) < 2 ^ 31" and "pages \<noteq> 0"
  shows "fit_from s (unat pages) 0 (find_free_run s pages)"
  using word_loop_fit [OF assms refl, of 0 0] assms(2) by (simp add: find_free_run_def Let_def)

lemma find_free_run_first_fit:
  assumes "unat (total_pages s) < 2 ^ 31" and "pages \<noteq> 0"
  shows "find_free_run s pages =
    (case first_fit s (unat pages) of Some i \<Rightarrow> of_nat i | None \<Rightarrow> UINT64_MAX)"
proof -
  have r: "i < unat (total_pages s)" if "run_free s (unat pages) i" for i
    using that assms(2) by (auto simp: run_free_def word_unat_eq_iff)
  from find_free_run_fit [OF assms] consider
      "find_free_run s pages = UINT64_MAX" "\<forall>i. \<not> run_free s (unat pages) i"
    | i where "find_free_run s pages = of_nat i" "run_free s (unat pages) i"
        "\<forall>j < i. \<not> run_free s (unat pages) j"
    by (auto simp: fit_from_def)
  then show ?thesis
  proof cases
    case 1
    then have "first_fit s (unat pages) = None"
      by (simp add: first_fit_def find_None_iff)
    with 1 show ?thesis by simp
  next
    case 2
    then have "first_fit s (unat pages) = Some i"
      using r [OF 2(2)] unfolding first_fit_def find_Some_iff by (intro exI [of _ i]) auto
    with 2 show ?thesis by simp
  qed
qed

subsection \<open>The free pages and updates of them\<close>

definition free_set :: "'a pmm_state_scheme \<Rightarrow> nat set" where
  "free_set s = {pg. pg < unat (total_pages s) \<and> \<not> bitmap_get s (of_nat pg)}"

text \<open>
  \<open>page_update s t Q v\<close>: \<open>t\<close> is \<open>s\<close> with the bitmap bits of the pages in \<open>Q\<close> set to \<open>v\<close>; apart from
  the counter \<open>free_pages\<close> and the bitmap bytes of \<open>Q\<close> nothing has changed.
\<close>

definition page_update :: "'a pmm_state_scheme \<Rightarrow> 'a pmm_state_scheme \<Rightarrow> u64 set \<Rightarrow> bool \<Rightarrow> bool" where
  "page_update s t Q v \<longleftrightarrow> t = s\<lparr>mem := mem t, free_pages := free_pages t\<rparr> \<and>
     (\<forall>q. bitmap_get t q = (if q \<in> Q then v else bitmap_get s q)) \<and>
     (\<forall>a. a \<notin> (\<lambda>q. bitmap s + drop_bit 3 q) ` Q \<longrightarrow> mem t a = mem s a)"

lemma page_update_refl [simp]: "page_update s s {} v"
  by (simp add: page_update_def)

lemma page_update_fields:
  assumes "page_update s t Q v"
  shows "bitmap t = bitmap s" "total_pages t = total_pages s" "frames_stack t = frames_stack s"
    "bitmap_pages t = bitmap_pages s" "bitmap_phys t = bitmap_phys s" "total_memory t = total_memory s"
    "stack_top t = stack_top s" "pmm_lock t = pmm_lock s" "pmm_state.more t = pmm_state.more s"
  using assms unfolding page_update_def by (cases s; cases t; auto)+

lemma page_update_get: "page_update s t Q v \<Longrightarrow> bitmap_get t q = (if q \<in> Q then v else bitmap_get s q)"
  by (simp add: page_update_def)

lemma page_update_mem:
  "page_update s t Q v \<Longrightarrow> (\<And>q. q \<in> Q \<Longrightarrow> a \<noteq> bitmap s + drop_bit 3 q) \<Longrightarrow> mem t a = mem s a"
  by (auto simp: page_update_def)

lemma bitmap_get_free_pages [simp]: "bitmap_get (s\<lparr>free_pages := x\<rparr>) q = bitmap_get s q"
  by (simp add: bitmap_get_def Let_def)

lemma bitmap_get_pmm_lock [simp]: "bitmap_get (s\<lparr>pmm_lock := x\<rparr>) q = bitmap_get s q"
  by (simp add: bitmap_get_def Let_def)

lemma bitmap_get_stack_top [simp]: "bitmap_get (s\<lparr>stack_top := x\<rparr>) q = bitmap_get s q"
  by (simp add: bitmap_get_def Let_def)

lemma page_update_bitmap_set: "page_update s (bitmap_set s p v) {p} v"
proof -
  have "bitmap_set s p v = s\<lparr>mem := mem (bitmap_set s p v), free_pages := free_pages (bitmap_set s p v)\<rparr>"
    by (simp add: bitmap_set_def Let_def)
  then show ?thesis
    unfolding page_update_def by (auto simp: bitmap_get_set mem_bitmap_set)
qed

lemma page_update_count: "page_update s t Q v \<Longrightarrow> page_update s (t\<lparr>free_pages := x\<rparr>) Q v"
proof -
  assume h: "page_update s t Q v"
  then have "t\<lparr>free_pages := x\<rparr> = s\<lparr>mem := mem t, free_pages := x\<rparr>"
    unfolding page_update_def by (cases s; cases t) auto
  moreover have "bitmap_get (s\<lparr>mem := mem t\<rparr>) q = bitmap_get t q" for q
    using page_update_fields(1) [OF h] by (simp add: bitmap_get_bit)
  ultimately show ?thesis using h by (simp add: page_update_def)
qed

lemma page_update_trans:
  assumes "page_update s t A v" "page_update t u B v"
  shows "page_update s u (A \<union> B) v"
proof -
  have "u = s\<lparr>mem := mem u, free_pages := free_pages u\<rparr>"
    using assms unfolding page_update_def by (cases s; cases t; cases u) auto
  moreover have "mem u a = mem s a" if "a \<notin> (\<lambda>q. bitmap s + drop_bit 3 q) ` (A \<union> B)" for a
    using that assms page_update_fields(1) [OF assms(1)] by (auto simp: page_update_def image_Un)
  ultimately show ?thesis using assms unfolding page_update_def by auto
qed

lemma word_interval_Suc: "(i::u64) < e \<Longrightarrow> {i..<e} = {i} \<union> {i + 1..<e}"
  by auto unat_arith+

lemma set_range_update:
  "page_update s (set_range s i e) {i..<e} True \<and> free_pages (set_range s i e) = free_pages s"
proof (induction s i e rule: set_range.induct)
  case (1 s i e)
  show ?case
  proof (cases "i < e")
    case True
    then show ?thesis
      using "1" page_update_trans [OF page_update_bitmap_set, of s i True]
      by (auto simp: set_range.simps [of s i e] word_interval_Suc)
  qed (simp add: set_range.simps)
qed

subsection \<open>Allocation\<close>

definition pmm_wf :: "'a pmm_state_scheme \<Rightarrow> bool" where
  "pmm_wf s \<longleftrightarrow> unat (total_pages s) < 2 ^ 31 \<and> stack_top s \<le> FRAMES_STACK_ENTRIES \<and>
     (\<forall>k < 8192. \<forall>pg < unat (total_pages s).
        frames_stack s + of_nat k \<noteq> bitmap s + drop_bit 3 (of_nat pg))"

definition pmm_accounted :: "'a pmm_state_scheme \<Rightarrow> bool" where
  "pmm_accounted s \<longleftrightarrow> unat (free_pages s) = card (free_set s)"

lemma run_free_lock [simp]: "run_free (s\<lparr>pmm_lock := l\<rparr>) = run_free s"
  by (simp add: run_free_def fun_eq_iff)

lemma first_fit_lock [simp]: "first_fit (s\<lparr>pmm_lock := l\<rparr>) = first_fit s"
  by (simp add: first_fit_def fun_eq_iff)

lemma page_update_lock:
  assumes h: "page_update s t Q v"
  shows "page_update (s\<lparr>pmm_lock := l\<rparr>) (t\<lparr>pmm_lock := l\<rparr>) Q v"
proof -
  have "t\<lparr>pmm_lock := l\<rparr> = s\<lparr>pmm_lock := l, mem := mem t, free_pages := free_pages t\<rparr>"
    using h unfolding page_update_def by (cases s; cases t) auto
  moreover have "bitmap_get (s\<lparr>mem := mem t\<rparr>) q = bitmap_get t q" for q
    using page_update_fields(1) [OF h] by (simp add: bitmap_get_bit)
  ultimately show ?thesis using h unfolding page_update_def by (simp add: bitmap_get_bit)
qed

lemma first_fit_SomeD:
  assumes "first_fit s p = Some i"
  shows "run_free s p i" "i < unat (total_pages s)" "\<And>j. j < i \<Longrightarrow> \<not> run_free s p j"
proof -
  from assms obtain k where k: "k < unat (total_pages s)" "run_free s p k" "i = k"
    and least: "\<forall>j<k. \<not> run_free s p ([0..<unat (total_pages s)] ! j)"
    by (auto simp: first_fit_def find_Some_iff)
  then show "run_free s p i" "i < unat (total_pages s)" by simp_all
  show "\<not> run_free s p j" if "j < i" for j using least k that by auto
qed

lemma first_fit_NoneD: "first_fit s p = None \<Longrightarrow> 0 < p \<Longrightarrow> \<not> run_free s p i"
  by (auto simp: first_fit_def find_None_iff run_free_def)

lemma lock_pmm_free [simp]:
  "\<not> held (pmm_lock s) \<Longrightarrow> lock_pmm s = Some (s\<lparr>pmm_lock := (pmm_lock s)\<lparr>lock := lock (pmm_lock s) OR 1\<rparr>\<rparr>)"
  by (simp add: lock_pmm_def)

lemma lock_pmm_held [simp]: "held (pmm_lock s) \<Longrightarrow> lock_pmm s = None"
  by (simp add: lock_pmm_def)

lemma unlock_pmm_lock [simp]: "unlock_pmm (s\<lparr>pmm_lock := l\<lparr>lock := b\<rparr>\<rparr>) = s\<lparr>pmm_lock := spinlock_unlock l\<rparr>"
  by (simp add: unlock_pmm_def)

lemma pmalloc_None:
  assumes "unat (total_pages s) < 2 ^ 31" "\<not> held (pmm_lock s)" "pages \<noteq> 0"
    "\<not> (pages = 1 \<and> stack_top s > 0)" "first_fit s (unat pages) = None"
  shows "pmalloc s pages = Some (NULL, unlock_pmm s)"
  using assms find_free_run_first_fit [of "s\<lparr>pmm_lock := (pmm_lock s)\<lparr>lock := lock (pmm_lock s) OR 1\<rparr>\<rparr>" pages]
  by (auto simp: pmalloc_def unlock_pmm_def)

lemma pmalloc_Some:
  assumes T: "unat (total_pages s) < 2 ^ 31" and "\<not> held (pmm_lock s)" "pages \<noteq> 0"
    "\<not> (pages = 1 \<and> stack_top s > 0)" and ff: "first_fit s (unat pages) = Some i"
  shows "\<exists>t. pmalloc s pages = Some (of_nat (i * 4096), t) \<and>
     page_update (unlock_pmm s) t {of_nat i..<of_nat i + pages} True \<and>
     free_pages t = free_pages s - pages"
proof -
  let ?l = "(pmm_lock s)\<lparr>lock := lock (pmm_lock s) OR 1\<rparr>"
  let ?s = "s\<lparr>pmm_lock := ?l\<rparr>"
  let ?t = "set_range ?s (of_nat i) (of_nat i + pages)"
  let ?t' = "unlock_pmm (?t\<lparr>free_pages := free_pages ?t - pages\<rparr>)"
  have run: "find_free_run ?s pages = of_nat i"
    using find_free_run_first_fit [of ?s pages] assms by simp
  have i: "i < 2 ^ 31" using first_fit_SomeD(2) [OF ff] T by simp
  then have "unat (of_nat i :: u64) \<noteq> unat UINT64_MAX"
    by (simp add: unat_of_nat64)
  then have ne: "(of_nat i :: u64) \<noteq> UINT64_MAX" by metis
  have u: "page_update ?s ?t {of_nat i..<of_nat i + pages} True" and fp: "free_pages ?t = free_pages s"
    using set_range_update [of ?s] by simp_all
  have "pmm_lock ?t = ?l" using page_update_fields(8) [OF u] by simp
  then have "?t' = (?t\<lparr>free_pages := free_pages s - pages\<rparr>)\<lparr>pmm_lock := spinlock_unlock (pmm_lock s)\<rparr>"
    using fp by (simp add: unlock_pmm_def)
  then have "page_update (unlock_pmm s) ?t' {of_nat i..<of_nat i + pages} True"
    using page_update_lock [OF page_update_count [OF u], where l = "spinlock_unlock (pmm_lock s)"]
    by (simp add: unlock_pmm_def)
  moreover have "pmalloc s pages = Some (of_nat (i * 4096), ?t')"
    using assms run ne fp by (auto simp: pmalloc_def PHYS_TO_VIRT_def Let_def)
  moreover have "free_pages ?t' = free_pages s - pages" using fp by (simp add: unlock_pmm_def)
  ultimately show ?thesis by blast
qed

lemma of_nat_mem_interval:
  assumes "i + unat pages < 2 ^ 31" "q < 2 ^ 31"
  shows "(of_nat q :: u64) \<in> {of_nat i..<of_nat i + pages} \<longleftrightarrow> i \<le> q \<and> q < i + unat pages"
proof -
  have "unat (of_nat i + pages) = i + unat pages"
    using assms by (simp add: unat_plus_if' unat_of_nat64)
  then show ?thesis using assms by (simp add: word_le_nat_alt word_less_nat_alt unat_of_nat64)
qed

lemma free_set_update:
  assumes u: "page_update s t {of_nat i..<of_nat i + pages} v"
    and le: "i + unat pages \<le> unat (total_pages s)" "unat (total_pages s) < 2 ^ 31"
  shows "free_set t = (if v then free_set s - {i..<i + unat pages} else free_set s \<union> {i..<i + unat pages})"
proof -
  have g: "bitmap_get t (of_nat q) = (if i \<le> q \<and> q < i + unat pages then v else bitmap_get s (of_nat q))"
    if "q < unat (total_pages s)" for q
    using page_update_get [OF u, of "of_nat q"] of_nat_mem_interval [of i pages q] le that
    by (simp del: atLeastLessThan_iff)
  show ?thesis using le page_update_fields(2) [OF u] by (auto simp: free_set_def g split: if_splits)
qed

lemma free_set_unlock [simp]: "free_set (unlock_pmm s) = free_set s"
  by (simp add: free_set_def unlock_pmm_def)

lemma run_free_subset: "run_free s p i \<Longrightarrow> {i..<i + p} \<subseteq> free_set s"
proof
  fix q assume "run_free s p i" "q \<in> {i..<i + p}"
  then show "q \<in> free_set s" unfolding run_free_def free_set_def
    by (auto dest: spec [of _ "q - i"])
qed

lemma finite_free_set [simp]: "finite (free_set s)"
  by (simp add: free_set_def)

subsection \<open>Freeing\<close>

subsection \<open>Freeing\<close>

lemma free_loop_update:
  "pages \<noteq> 1 \<Longrightarrow>
   page_update s (free_loop s start pages i) ((+) start ` {i..<pages}) False \<and>
   free_pages (free_loop s start pages i) = free_pages s"
proof (induction s start pages i rule: free_loop.induct)
  case (1 s start pages i)
  show ?case
  proof (cases "i < pages")
    case True
    with "1" page_update_trans [OF page_update_bitmap_set, of s "start + i" False] show ?thesis
      by (simp add: free_loop.simps [of s start pages i] Let_def word_interval_Suc)
  next
    case False
    then show ?thesis by (simp add: free_loop.simps)
  qed
qed

lemma word_offset_interval:
  assumes "unat start + unat pages < 2 ^ 64"
  shows "(+) start ` {0..<pages} = {start..<start + (pages::u64)}"
proof -
  have "q \<in> (+) start ` {0..<pages} \<longleftrightarrow> start \<le> q \<and> q < start + pages" for q
  proof
    assume "q \<in> (+) start ` {0..<pages}"
    then show "start \<le> q \<and> q < start + pages" using assms
      by (auto simp: word_le_nat_alt word_less_nat_alt unat_plus_if')
  next
    assume "start \<le> q \<and> q < start + pages"
    then have "q - start < pages" using assms
      by (auto simp: word_le_nat_alt word_less_nat_alt unat_plus_if' unat_sub_if')
    then show "q \<in> (+) start ` {0..<pages}" by (intro image_eqI [of _ _ "q - start"]) auto
  qed
  then show ?thesis by (simp add: set_eq_iff)
qed

lemma unat_page_addr: "i < 2 ^ 31 \<Longrightarrow> unat (of_nat (i * 4096) :: u64) = i * 4096"
  by (intro unat_of_nat64) simp

lemma page_addr_div: "i < 2 ^ 31 \<Longrightarrow> (of_nat (i * 4096) :: u64) div 4096 = of_nat i"
  by (simp add: word_unat_eq_iff unat_div unat_page_addr unat_of_nat64 del: of_nat_mult)

lemma pfree_many:
  assumes T: "unat (total_pages s) < 2 ^ 31" and lk: "\<not> held (pmm_lock s)" and "pages \<noteq> 0" "pages \<noteq> 1"
    and i: "0 < i" "i + unat pages \<le> unat (total_pages s)"
  shows "\<exists>t. pfree s (of_nat (i * 4096)) pages = Some t \<and>
    page_update (unlock_pmm s) t {of_nat i..<of_nat i + pages} False \<and>
    free_pages t = free_pages s + pages"
proof -
  let ?l = "(pmm_lock s)\<lparr>lock := lock (pmm_lock s) OR 1\<rparr>"
  let ?s = "s\<lparr>pmm_lock := ?l\<rparr>"
  let ?t = "free_loop ?s (of_nat i) pages 0"
  let ?t' = "unlock_pmm (?t\<lparr>free_pages := free_pages ?t + pages\<rparr>)"
  have i31: "i < 2 ^ 31" using i T assms(3) by (simp add: word_unat_eq_iff)
  have u: "page_update ?s ?t {of_nat i..<of_nat i + pages} False" and fp: "free_pages ?t = free_pages s"
    using free_loop_update [of pages ?s "of_nat i" 0] assms(4) i T i31
      word_offset_interval [of "of_nat i" pages] by (auto simp: unat_of_nat64)
  have "pmm_lock ?t = ?l" using page_update_fields(8) [OF u] by simp
  then have "?t' = (?t\<lparr>free_pages := free_pages s + pages\<rparr>)\<lparr>pmm_lock := spinlock_unlock (pmm_lock s)\<rparr>"
    using fp by (simp add: unlock_pmm_def)
  then have "page_update (unlock_pmm s) ?t' {of_nat i..<of_nat i + pages} False"
    using page_update_lock [OF page_update_count [OF u], where l = "spinlock_unlock (pmm_lock s)"]
    by (simp add: unlock_pmm_def)
  moreover have "unat (of_nat (i * 4096) :: u64) \<noteq> 0" using i unat_page_addr [OF i31] by simp
  then have "(of_nat (i * 4096) :: u64) \<noteq> 0" by (metis unat_0)
  moreover have "\<not> total_pages s \<le> of_nat i"
    using i i31 assms(3) by (simp add: word_le_nat_alt unat_of_nat64 word_unat_eq_iff)
  ultimately have "pfree s (of_nat (i * 4096)) pages = Some ?t'"
    using lk assms(3) by (simp add: pfree_def VIRT_TO_PHYS_def page_addr_div [OF i31] Let_def del: of_nat_mult)
  moreover have "free_pages ?t' = free_pages s + pages" using fp by (simp add: unlock_pmm_def)
  ultimately show ?thesis
    using \<open>page_update (unlock_pmm s) ?t' {of_nat i..<of_nat i + pages} False\<close> by blast
qed

text \<open>Freeing a single page clears its bit and pushes the page on the cache.\<close>

lemma bitmap_get_stack_store:
  assumes "pmm_wf s" "stack_top s < FRAMES_STACK_ENTRIES" "pg < unat (total_pages s)"
  shows "bitmap_get (stack_store s f) (of_nat pg) = bitmap_get s (of_nat pg)"
proof -
  let ?a = "bitmap s + drop_bit 3 (of_nat pg)" and ?p = "frames_stack s + 8 * stack_top s"
  have "\<not> ?a - ?p < 8"
  proof
    assume lt: "?a - ?p < 8"
    let ?k = "8 * unat (stack_top s) + unat (?a - ?p)"
    have "?k < 8192" using assms(2) lt by (simp add: word_less_nat_alt)
    moreover have "frames_stack s + of_nat ?k = ?a" by simp
    ultimately show False using assms unfolding pmm_wf_def by metis
  qed
  then show ?thesis by (simp add: bitmap_get_bit stack_store_def store64_other)
qed

lemma pfree_one:
  assumes wf: "pmm_wf s" and lk: "\<not> held (pmm_lock s)" and i: "0 < i" "i < unat (total_pages s)"
    and top: "stack_top s < FRAMES_STACK_ENTRIES"
  defines "t \<equiv> stack_store (bitmap_set s (of_nat i) False) (of_nat i)"
  shows "pfree s (of_nat (i * 4096)) 1 = Some (unlock_pmm (t\<lparr>free_pages := free_pages s + 1\<rparr>))"
proof -
  have i31: "i < 2 ^ 31" using i wf by (simp add: pmm_wf_def)
  have "unat (of_nat (i * 4096) :: u64) \<noteq> 0" using i unat_page_addr [OF i31] by simp
  then have "(of_nat (i * 4096) :: u64) \<noteq> 0" by (metis unat_0)
  moreover have "\<not> total_pages s \<le> of_nat i"
    using i i31 by (simp add: word_le_nat_alt unat_of_nat64)
  ultimately show ?thesis
    using lk top
    by (simp add: pfree_def VIRT_TO_PHYS_def page_addr_div [OF i31] Let_def free_loop.simps t_def
       stack_store_def bitmap_set_def unlock_pmm_def del: of_nat_mult)
qed


text \<open>Aligned allocation.\<close>

lemma all_free_iff: "all_free s i j pages \<longleftrightarrow> (\<forall>k \<in> {j..<pages}. \<not> bitmap_get s (i + k))"
proof (induction s i j pages rule: all_free.induct)
  case (1 s i j pages)
  show ?case
  proof (cases "j < pages")
    case True
    with "1" show ?thesis
      by (simp add: all_free.simps [of s i j] word_interval_Suc [OF True] del: atLeastLessThan_iff)
  qed (simp add: all_free.simps)
qed

lemma mark_from_update:
  "page_update s (mark_from s i j pages) ((+) i ` {j..<pages}) True \<and>
   free_pages (mark_from s i j pages) = free_pages s"
proof (induction s i j pages rule: mark_from.induct)
  case (1 s i j pages)
  show ?case
  proof (cases "j < pages")
    case True
    with "1" page_update_trans [OF page_update_bitmap_set, of s "i + j" True] show ?thesis
      by (simp add: mark_from.simps [of s i j pages] word_interval_Suc)
  qed (simp add: mark_from.simps)
qed

lemma all_free_run:
  assumes "i + unat pages \<le> unat (total_pages s)" "unat (total_pages s) < 2 ^ 31"
  shows "all_free s (of_nat i) 0 pages \<longleftrightarrow> run_free s (unat pages) i"
proof -
  have "(\<forall>k < pages. \<not> bitmap_get s (of_nat i + k)) \<longleftrightarrow> (\<forall>j < unat pages. \<not> bitmap_get s (of_nat (i + j)))"
  proof safe
    fix j assume a: "\<forall>k<pages. \<not> bitmap_get s (of_nat i + k)" "j < unat pages" "bitmap_get s (of_nat (i + j))"
    then have "(of_nat j :: u64) < pages" using unat_u64_less [of pages]
      by (simp add: word_less_nat_alt unat_of_nat64)
    then show False using a by simp
  next
    fix k assume "\<forall>j<unat pages. \<not> bitmap_get s (of_nat (i + j))" "k < pages" "bitmap_get s (of_nat i + k)"
    then show False by (auto simp: word_less_nat_alt dest: spec [of _ "unat k"])
  qed
  with assms show ?thesis by (simp add: all_free_iff run_free_def Ball_def)
qed

definition aligned_answer :: "'a pmm_state_scheme \<Rightarrow> nat \<Rightarrow> nat \<Rightarrow> nat \<Rightarrow> u64 option \<Rightarrow> bool" where
  "aligned_answer s p k c r = (case r of
      None \<Rightarrow> \<forall>c' \<ge> c. \<not> run_free s p (c' * k)
    | Some a \<Rightarrow> \<exists>c' \<ge> c. a = of_nat (c' * k) \<and> run_free s p (c' * k))"

lemma aligned_answer_lock [simp]: "aligned_answer (s\<lparr>pmm_lock := l\<rparr>) = aligned_answer s"
  by (simp add: aligned_answer_def fun_eq_iff split: option.splits)

lemma aligned_answer_Suc:
  "aligned_answer s p k (Suc c) r \<Longrightarrow> \<not> run_free s p (c * k) \<Longrightarrow> aligned_answer s p k c r"
proof (cases r)
  case None
  assume "aligned_answer s p k (Suc c) r" "\<not> run_free s p (c * k)"
  with None have "\<not> run_free s p (c' * k)" if "c \<le> c'" for c'
    using that by (cases "c' = c") (simp_all add: aligned_answer_def)
  with None show ?thesis by (simp add: aligned_answer_def)
next
  case (Some a)
  assume "aligned_answer s p k (Suc c) r"
  with Some obtain c' where "Suc c \<le> c'" "a = of_nat (c' * k)" "run_free s p (c' * k)"
    by (simp add: aligned_answer_def) blast
  with Some show ?thesis by (simp add: aligned_answer_def) (metis Suc_leD of_nat_mult)
qed

lemma aligned_loop_spec:
  assumes T: "unat (total_pages s) < 2 ^ 31" and p: "unat pages \<le> unat (total_pages s)" "pages \<noteq> 0"
    and ap: "unat ap = k" "0 < k" "k < 2 ^ 52" and "i = of_nat (c * k)" "c * k \<le> 2 ^ 52 + 2 ^ 31"
  shows "\<exists>r. aligned_loop s pages ap (total_pages s) i = Some r \<and> aligned_answer s (unat pages) k c r"
  using assms(7,8)
proof (induction "unat (total_pages s) - c * k" arbitrary: i c rule: less_induct)
  case less
  let ?T = "unat (total_pages s)" and ?p = "unat pages"
  have ui: "unat i = c * k" using less.prems by (simp add: unat_of_nat64 del: of_nat_mult)
  have uip: "unat (i + pages) = c * k + ?p"
    using ui less.prems p T by (simp add: unat_plus_if')
  note unf = aligned_loop.simps [of s pages ap "total_pages s" i]
  consider "\<not> i + pages \<le> total_pages s" | "i + pages \<le> total_pages s" "run_free s ?p (c * k)"
    | "i + pages \<le> total_pages s" "\<not> run_free s ?p (c * k)" by blast
  then show ?case
  proof cases
    case 1
    then have gt: "?T < c * k + ?p" using uip by (simp add: word_le_nat_alt)
    have "\<not> run_free s ?p (c' * k)" if "c \<le> c'" for c'
    proof -
      have "c * k \<le> c' * k" using that by (rule mult_le_mono1)
      with gt have "\<not> c' * k + ?p \<le> ?T" by linarith
      then show ?thesis by (simp add: run_free_def)
    qed
    with 1 show ?thesis by (simp add: unf aligned_answer_def)
  next
    case 2
    then have "all_free s i 0 pages"
      using all_free_run [of "c * k" pages s] T less.prems(1) by (simp add: run_free_def del: of_nat_mult)
    with 2(1) have "aligned_loop s pages ap (total_pages s) i = Some (Some i)" by (simp add: unf)
    with 2(2) less.prems(1) show ?thesis by (auto simp: aligned_answer_def)
  next
    case 3
    have le: "c * k + ?p \<le> ?T" using 3 uip by (simp add: word_le_nat_alt)
    have "\<not> all_free s i 0 pages"
      using 3 all_free_run [OF le T] less.prems(1) by simp
    moreover have "ap \<noteq> 0" using ap by auto
    moreover have adv: "(i div ap + 1) * ap = of_nat (Suc c * k)"
    proof -
      have "c \<le> c * k" using ap(2) by simp
      also have "c * k < 2 ^ 64" using less.prems(2) by simp
      finally have "c < 2 ^ 64" .
      then have "unat (of_nat c :: u64) = c" by (rule unat_of_nat64)
      then have "i div ap = of_nat c" using ap ui by (simp add: word_unat_eq_iff unat_div)
      then show ?thesis using ap(1) by (simp add: algebra_simps flip: ap(1))
    qed
    ultimately have e: "aligned_loop s pages ap (total_pages s) i =
        aligned_loop s pages ap (total_pages s) (of_nat (Suc c * k))"
      using 3 by (simp add: unf)
    have "?T - Suc c * k < ?T - c * k" and "Suc c * k \<le> 2 ^ 52 + 2 ^ 31"
      using le ap p T by (auto simp: word_unat_eq_iff)
    from less.hyps [OF this(1) refl this(2)] e 3(2) show ?thesis by (auto intro: aligned_answer_Suc)
  qed
qed

lemma aligned_loop_cases:
  assumes T: "unat (total_pages s) < 2 ^ 31" and p: "pages \<noteq> 0"
    and al: "alignment \<noteq> 0" "alignment mod 4096 = 0"
  shows "\<exists>r. aligned_loop s pages (alignment div 4096) (total_pages s) 0 = Some r \<and>
    aligned_answer s (unat pages) (unat alignment div 4096) 0 r"
proof (cases "unat pages \<le> unat (total_pages s)")
  case True
  let ?k = "unat alignment div 4096"
  have "unat alignment mod 4096 = 0" using al(2) unat_mod [of alignment 4096] by simp
  then have "0 < ?k" using al(1) by (auto simp: word_unat_eq_iff)
  moreover have "?k < 2 ^ 52" using unat_u64_less [of alignment] by simp
  moreover have "unat (alignment div 4096) = ?k" by (simp add: unat_div)
  ultimately show ?thesis
    using aligned_loop_spec [OF T True p, of "alignment div 4096" ?k 0 0] by simp
next
  case False
  then show ?thesis
    by (intro exI [of _ None]) (auto simp: aligned_loop.simps word_le_nat_alt run_free_def aligned_answer_def)
qed

lemma pmalloc_aligned_cases:
  assumes T: "unat (total_pages s) < 2 ^ 31" and lk: "\<not> held (pmm_lock s)" and p: "pages \<noteq> 0"
    and al: "alignment \<noteq> 0" "alignment mod 4096 = 0"
  shows "pmalloc_aligned s pages alignment = Some (NULL, unlock_pmm s) \<and>
      (\<forall>c. \<not> run_free s (unat pages) (c * (unat alignment div 4096))) \<or>
    (\<exists>c i t. i = c * (unat alignment div 4096) \<and> run_free s (unat pages) i \<and>
      pmalloc_aligned s pages alignment = Some (of_nat (i * 4096), t) \<and>
      page_update (unlock_pmm s) t {of_nat i..<of_nat i + pages} True \<and>
      free_pages t = free_pages s - pages)"
proof -
  let ?l = "(pmm_lock s)\<lparr>lock := lock (pmm_lock s) OR 1\<rparr>"
  let ?s = "s\<lparr>pmm_lock := ?l\<rparr>" and ?k = "unat alignment div 4096"
  from aligned_loop_cases [of ?s pages alignment] T p al obtain r where
    r: "aligned_loop ?s pages (alignment div 4096) (total_pages s) 0 = Some r" and
    c: "aligned_answer s (unat pages) ?k 0 r" by auto
  show ?thesis
  proof (cases r)
    case None
    with r c lk p al show ?thesis by (simp add: pmalloc_aligned_def unlock_pmm_def aligned_answer_def)
  next
    case (Some a)
    with c obtain c where a: "a = of_nat (c * ?k)" and run: "run_free s (unat pages) (c * ?k)"
      by (auto simp: aligned_answer_def)
    let ?i = "c * ?k"
    let ?t = "mark_from ?s (of_nat ?i) 0 pages"
    let ?t' = "unlock_pmm (?t\<lparr>free_pages := free_pages ?t - pages\<rparr>)"
    have le: "?i + unat pages \<le> unat (total_pages s)" using run by (simp add: run_free_def)
    have "unat (of_nat ?i :: u64) + unat pages < 2 ^ 64"
      using le T by (subst unat_of_nat64) simp_all
    then have u: "page_update ?s ?t {of_nat ?i..<of_nat ?i + pages} True" and fp: "free_pages ?t = free_pages s"
      using mark_from_update [of ?s "of_nat ?i" 0 pages] word_offset_interval [of "of_nat ?i" pages]
      by (simp_all del: of_nat_mult)
    have "pmm_lock ?t = ?l" using page_update_fields(8) [OF u] by simp
    then have "?t' = (?t\<lparr>free_pages := free_pages s - pages\<rparr>)\<lparr>pmm_lock := spinlock_unlock (pmm_lock s)\<rparr>"
      using fp by (simp add: unlock_pmm_def)
    then have "page_update (unlock_pmm s) ?t' {of_nat ?i..<of_nat ?i + pages} True"
      using page_update_lock [OF page_update_count [OF u], where l = "spinlock_unlock (pmm_lock s)"]
      by (simp add: unlock_pmm_def)
    moreover have "pmalloc_aligned s pages alignment = Some (of_nat (?i * 4096), ?t')"
      using lk p al Some r a by (simp add: pmalloc_aligned_def PHYS_TO_VIRT_def Let_def)
    moreover have "free_pages ?t' = free_pages s - pages" using fp by (simp add: unlock_pmm_def)
    ultimately show ?thesis using run by blast
  qed
qed

text \<open>
  Zero alignment: the division by \<open>align_pages\<close> faults as soon as the first candidate, page 0, is
  not free.
\<close>

lemma pmalloc_aligned_zero:
  assumes "\<not> held (pmm_lock s)" "pages \<noteq> 0" "pages \<le> total_pages s" "bitmap_get s 0"
  shows "pmalloc_aligned s pages 0 = None"
proof -
  let ?s = "s\<lparr>pmm_lock := (pmm_lock s)\<lparr>lock := lock (pmm_lock s) OR 1\<rparr>\<rparr>"
  have "0 < pages" using assms(2) by (simp add: word_neq_0_conv)
  then have "\<not> all_free ?s 0 0 pages" using assms(4) by (auto simp: all_free_iff)
  then have "aligned_loop ?s pages 0 (total_pages s) 0 = None"
    using assms(3) by (simp add: aligned_loop.simps)
  with assms show ?thesis by (simp add: pmalloc_aligned_def)
qed

lemma page_update_same: "(\<And>q. q \<in> Q \<Longrightarrow> bitmap_get s q = v) \<Longrightarrow> page_update s s Q v"
  by (auto simp: page_update_def)

lemma page_update_step:
  assumes "pg < e" "page_update s t {pg} v" "page_update t u {pg + 1..<e} v"
  shows "page_update s u {pg..<e} v"
  using page_update_trans [OF assms(2,3)] word_interval_Suc [OF assms(1)] by simp

lemma of_nat_unat_less: "unat (x :: u64) < 2 ^ 31 \<Longrightarrow> q < 2 ^ 31 \<Longrightarrow> of_nat q = x \<longleftrightarrow> q = unat x"
  by (auto simp: word_unat_eq_iff unat_of_nat64)

lemma free_set_bitmap_set:
  assumes "unat pg < unat (total_pages s)" "unat (total_pages s) < 2 ^ 31"
  shows "free_set (bitmap_set s pg v) = (if v then free_set s - {unat pg} else insert (unat pg) (free_set s))"
  using assms page_update_get [OF page_update_bitmap_set, of s pg v] page_update_fields(2) [OF page_update_bitmap_set, of s pg v]
  by (auto simp: free_set_def of_nat_unat_less unat_of_nat64 split: if_splits)

lemma free_set_free_pages [simp]: "free_set (s\<lparr>free_pages := x\<rparr>) = free_set s"
  by (simp add: free_set_def)

lemma card_free_set_le: "card (free_set s) \<le> unat (total_pages s)"
proof -
  have "free_set s \<subseteq> {..<unat (total_pages s)}" by (auto simp: free_set_def)
  from card_mono [OF _ this] show ?thesis by simp
qed

text \<open>Changing one bit and adjusting the counter keeps the counter right.\<close>

lemma accounted_take:
  assumes "pmm_accounted s" "unat pg < unat (total_pages s)" "unat (total_pages s) < 2 ^ 31" "\<not> bitmap_get s pg"
  shows "pmm_accounted ((bitmap_set s pg True)\<lparr>free_pages := free_pages s - 1\<rparr>)" "0 < free_pages s"
proof -
  have i: "unat pg \<in> free_set s" using assms by (simp add: free_set_def)
  then have "0 < card (free_set s)" by (auto simp: card_gt_0_iff)
  then have c: "0 < unat (free_pages s)" using assms(1) by (simp add: pmm_accounted_def)
  then show p: "0 < free_pages s" by (simp add: word_less_nat_alt)
  have "unat (free_pages s - 1) = unat (free_pages s) - 1" using c by (simp add: unat_sub_if')
  then show "pmm_accounted ((bitmap_set s pg True)\<lparr>free_pages := free_pages s - 1\<rparr>)"
    using assms i by (simp add: pmm_accounted_def free_set_bitmap_set)
qed

lemma accounted_give:
  assumes "pmm_accounted s" "unat pg < unat (total_pages s)" "unat (total_pages s) < 2 ^ 31" "bitmap_get s pg"
  shows "pmm_accounted ((bitmap_set s pg False)\<lparr>free_pages := free_pages s + 1\<rparr>)"
proof -
  have i: "unat pg \<notin> free_set s" using assms by (simp add: free_set_def)
  have "unat (free_pages s) < 2 ^ 31" using assms(1,3) card_free_set_le [of s] by (simp add: pmm_accounted_def)
  then have "unat (free_pages s + 1) = unat (free_pages s) + 1" by (simp add: unat_plus_if')
  then show ?thesis using assms i by (simp add: pmm_accounted_def free_set_bitmap_set)
qed

lemma accounted_total [simp]: "total_pages (bitmap_set s pg v) = total_pages s" 
  using page_update_fields(2) [OF page_update_bitmap_set] .

lemma free_pages_bitmap_set [simp]: "free_pages (bitmap_set s pg v) = free_pages s"
  by (simp add: bitmap_set_def Let_def)

definition region_step :: "'a pmm_state_scheme \<Rightarrow> u64 \<Rightarrow> bool \<Rightarrow> 'a pmm_state_scheme" where
  "region_step s pg used = (if bitmap_get s pg \<noteq> used then
             let s1 = bitmap_set s pg used in
             if used then (if free_pages s1 > 0 then s1\<lparr>free_pages := free_pages s1 - 1\<rparr> else s1)
             else s1\<lparr>free_pages := free_pages s1 + 1\<rparr>
           else s)"

lemma region_step_update: "page_update s (region_step s pg used) {pg} used"
  unfolding region_step_def Let_def
  by (auto intro: page_update_same page_update_count page_update_bitmap_set)

lemma region_step_accounted:
  assumes "pmm_accounted s" "unat pg < unat (total_pages s)" "unat (total_pages s) < 2 ^ 31"
  shows "pmm_accounted (region_step s pg used)"
  using accounted_take [OF assms] accounted_give [OF assms] assms(1)
  by (simp add: region_step_def Let_def)

lemma region_loop_update:
  "page_update s (region_loop s pg e used) {pg..<e} used \<and>
   (pmm_accounted s \<and> unat e \<le> unat (total_pages s) \<and> unat (total_pages s) < 2 ^ 31 \<longrightarrow>
      pmm_accounted (region_loop s pg e used))"
proof (induction s pg e used rule: region_loop.induct)
  case (1 s pg e used)
  let ?s = "region_step s pg used"
  note u = region_step_update [of s pg used]
  show ?case
  proof (cases "pg < e")
    case True
    have "region_loop s pg e used = region_loop ?s (pg + 1) e used"
      by (subst region_loop.simps) (simp add: True region_step_def)
    with True "1" [OF True] page_update_step [OF True u] region_step_accounted [of s pg used]
      page_update_fields(2) [OF u]
    show ?thesis by (auto simp: region_step_def word_less_nat_alt)
  qed (simp add: region_loop.simps)
qed

lemma reserve_range_region:
  assumes "pmm_accounted s" "unat e \<le> unat (total_pages s)" "unat (total_pages s) < 2 ^ 31"
  shows "reserve_range s pg e = region_loop s pg e True"
  using assms
proof (induction s pg e rule: reserve_range.induct)
  case (1 s pg e)
  show ?case
  proof (cases "pg < e")
    case True
    let ?s = "region_step s pg True"
    have lt: "unat pg < unat (total_pages s)" using True "1.prems" by (simp add: word_less_nat_alt)
    have s: "(if \<not> bitmap_get s pg then
         let s1 = bitmap_set s pg True in s1\<lparr>free_pages := free_pages s1 - 1\<rparr> else s) = ?s"
      using accounted_take(2) [OF "1.prems"(1) lt] "1.prems" by (simp add: region_step_def Let_def)
    have "reserve_range ?s (pg + 1) e = region_loop ?s (pg + 1) e True"
      using "1.prems" region_step_accounted [OF "1.prems"(1) lt]
        page_update_fields(2) [OF region_step_update [of s pg True]]
      by (intro "1.IH" [OF True, unfolded s]) simp_all
    then show ?thesis using True s
      by (simp add: reserve_range.simps [of s pg e] region_loop.simps [of s pg e] region_step_def)
  qed (simp add: reserve_range.simps region_loop.simps)
qed

lemma free_set_interval:
  assumes u: "page_update s t {i..<e} v"
    and "unat e \<le> unat (total_pages s)" "unat (total_pages s) < 2 ^ 31"
  shows "free_set t = (if v then free_set s - {unat i..<unat e} else free_set s \<union> {unat i..<unat e})"
proof -
  have g: "bitmap_get t (of_nat q) = (if unat i \<le> q \<and> q < unat e then v else bitmap_get s (of_nat q))"
    if "q < unat (total_pages s)" for q
    using page_update_get [OF u, of "of_nat q"] assms that
    by (auto simp: word_le_nat_alt word_less_nat_alt unat_of_nat64)
  show ?thesis using assms page_update_fields(2) [OF u] by (auto simp: free_set_def g split: if_splits)
qed

lemma page_update_unlock:
  assumes u: "page_update (s\<lparr>pmm_lock := l\<rparr>) t Q v"
  shows "page_update (unlock_pmm s) (t\<lparr>pmm_lock := spinlock_unlock (pmm_lock s)\<rparr>) Q v"
  using page_update_lock [OF u, where l = "spinlock_unlock (pmm_lock s)"]
  by (simp add: unlock_pmm_def)

lemma pmm_accounted_lock [simp]: "pmm_accounted (s\<lparr>pmm_lock := l\<rparr>) = pmm_accounted s"
  by (simp add: pmm_accounted_def free_set_def)

lemma free_range_update:
  "page_update s (free_range s pg e) {pg..<e} False \<and>
   (pmm_accounted s \<and> unat e \<le> unat (total_pages s) \<and> unat (total_pages s) < 2 ^ 31 \<and>
      free_set s \<inter> {unat pg..<unat e} = {} \<longrightarrow> pmm_accounted (free_range s pg e))"
proof (induction s pg e rule: free_range.induct)
  case (1 s pg e)
  let ?s = "(bitmap_set s pg False)\<lparr>free_pages := free_pages s + 1\<rparr>"
  have u: "page_update s ?s {pg} False" by (simp add: page_update_count page_update_bitmap_set)
  show ?case
  proof (cases "pg < e")
    case True
    have e: "free_range s pg e = free_range ?s (pg + 1) e"
      by (subst free_range.simps) (simp add: True Let_def)
    have IH: "page_update ?s (free_range ?s (pg + 1) e) {pg + 1..<e} False \<and>
       (pmm_accounted ?s \<and> unat e \<le> unat (total_pages ?s) \<and> unat (total_pages ?s) < 2 ^ 31 \<and>
      free_set ?s \<inter> {unat (pg + 1)..<unat e} = {} \<longrightarrow> pmm_accounted (free_range ?s (pg + 1) e))"
      using "1.IH" [OF True refl] by simp
    have "pmm_accounted (free_range ?s (pg + 1) e)"
      if h: "pmm_accounted s" "unat e \<le> unat (total_pages s)" "unat (total_pages s) < 2 ^ 31"
        "free_set s \<inter> {unat pg..<unat e} = {}"
    proof -
      have lt: "unat pg < unat e" using True by (simp add: word_less_nat_alt)
      then have T: "unat pg < unat (total_pages s)" using h(2) by simp
      have "unat pg \<notin> free_set s" using lt h(4) by auto
      then have "bitmap_get s pg" using T by (simp add: free_set_def)
      then have "pmm_accounted ?s" using accounted_give [OF h(1) T h(3)] by simp
      moreover have "unat (pg + 1) = Suc (unat pg)" using lt True by (simp add: unat_Suc_less)
      then have "free_set ?s \<inter> {unat (pg + 1)..<unat e} = {}"
        using h(4) free_set_bitmap_set [OF T h(3), of False] by auto
      ultimately show ?thesis using IH h by simp
    qed
    then show ?thesis using e IH page_update_step [OF True u] by simp
  qed (simp add: free_range.simps)
qed

definition entry_pages :: "memmap_entry \<Rightarrow> nat set" where
  "entry_pages e = (if me_type e = USABLE
     then {unat (me_base e) div 4096..<unat (me_base e + me_length e) div 4096} else {})"

lemma mm_free_update:
  assumes "pmm_accounted s" "unat (total_pages s) < 2 ^ 31"
    "sorted_wrt (\<lambda>e f. entry_pages e \<inter> entry_pages f = {}) es"
    "\<And>e. e \<in> set es \<Longrightarrow> free_set s \<inter> entry_pages e = {}"
    "\<And>e. e \<in> set es \<Longrightarrow> me_type e = USABLE \<Longrightarrow> unat (me_base e + me_length e) div 4096 \<le> unat (total_pages s)"
  shows "\<exists>Q. page_update s (mm_free s es) Q False \<and> pmm_accounted (mm_free s es) \<and>
     free_set (mm_free s es) = free_set s \<union> (\<Union>e \<in> set es. entry_pages e)"
  using assms
proof (induction es arbitrary: s)
  case Nil
  then show ?case by (auto intro: exI [of _ "{}"])
next
  case (Cons e es)
  show ?case
  proof (cases "me_type e = USABLE")
    case False
    then show ?thesis using Cons.IH [of s] Cons.prems by (simp add: entry_pages_def)
  next
    case True
    let ?i = "me_base e div 4096" and ?e = "(me_base e + me_length e) div 4096"
    let ?s = "free_range s ?i ?e"
    have ep: "entry_pages e = {unat ?i..<unat ?e}" using True by (simp add: entry_pages_def unat_div)
    have le: "unat ?e \<le> unat (total_pages s)" using Cons.prems(5) [of e] True by (simp add: unat_div)
    have u: "page_update s ?s {?i..<?e} False" and ac: "pmm_accounted ?s"
      using free_range_update [of s ?i ?e] Cons.prems(1,2) Cons.prems(4) [of e] le ep by simp_all
    have fs: "free_set ?s = free_set s \<union> entry_pages e"
      using free_set_interval [OF u le Cons.prems(2)] ep by simp
    have "\<exists>Q. page_update ?s (mm_free ?s es) Q False \<and> pmm_accounted (mm_free ?s es) \<and>
     free_set (mm_free ?s es) = free_set ?s \<union> (\<Union>e \<in> set es. entry_pages e)"
      using Cons.prems ac fs page_update_fields(2) [OF u] by (intro Cons.IH) auto
    then show ?thesis using True fs page_update_trans [OF u] by (fastforce simp: Un_assoc)
  qed
qed

lemma mm_choose_split:
  "mm_choose n es = (p, es') \<Longrightarrow> p \<noteq> 0 \<Longrightarrow>
   \<exists>xs e ys. es = xs @ e # ys \<and> me_type e = USABLE \<and> n \<le> me_length e \<and> p = me_base e \<and>
     es' = xs @ e\<lparr>me_base := me_base e + n, me_length := me_length e - n\<rparr> # ys"
proof (induction es arbitrary: es')
  case (Cons e es)
  show ?case
  proof (cases "me_type e = USABLE \<and> n \<le> me_length e")
    case True
    then show ?thesis using Cons.prems by (intro exI [of _ "[]"]) auto
  next
    case False
    then obtain fs where "mm_choose n es = (p, fs)" "es' = e # fs"
      using Cons.prems by (auto split: prod.splits if_splits)
    then show ?thesis using Cons.IH [of fs] Cons.prems(2) append_Cons by metis
  qed
qed simp

lemma mm_highest_ge: "h \<le> mm_highest es h"
proof (induction es arbitrary: h)
  case (Cons e es)
  show ?case using Cons [of h] Cons [of "me_base e + me_length e"] by (auto simp: Let_def)
qed simp

lemma mm_highest_usable: "e \<in> set es \<Longrightarrow> me_type e = USABLE \<Longrightarrow> me_base e + me_length e \<le> mm_highest es h"
proof (induction es arbitrary: h)
  case (Cons f es)
  show ?case
  proof (cases "f = e")
    case True
    then show ?thesis using Cons.prems mm_highest_ge [of "me_base e + me_length e" es] mm_highest_ge [of h es]
      by (auto simp: Let_def)
  qed (use Cons in \<open>auto simp: Let_def\<close>)
qed simp

definition limine_map_ok :: "memmap_entry list \<Rightarrow> bool" where
  "limine_map_ok es \<longleftrightarrow>
     (\<forall>e \<in> set es. me_type e = USABLE \<longrightarrow> unat (me_base e) + unat (me_length e) < 2 ^ 64 \<and>
        me_base e mod 4096 = 0 \<and> me_length e mod 4096 = 0) \<and>
     sorted_wrt (\<lambda>e f. entry_pages e \<inter> entry_pages f = {}) es"

lemma entry_pages_shrink:
  assumes "me_type e = USABLE" "n \<le> me_length e" "unat (me_base e) + unat (me_length e) < 2 ^ 64"
  defines "f \<equiv> e\<lparr>me_base := me_base e + n, me_length := me_length e - n\<rparr>"
  shows "entry_pages f = {(unat (me_base e) + unat n) div 4096..<(unat (me_base e) + unat (me_length e)) div 4096}"
    "entry_pages f \<subseteq> entry_pages e" "me_base f + me_length f = me_base e + me_length e"
    "unat (me_base e + me_length e) = unat (me_base e) + unat (me_length e)"
proof -
  have l: "unat n \<le> unat (me_length e)" using assms(2) by (simp add: word_le_nat_alt)
  show s: "unat (me_base e + me_length e) = unat (me_base e) + unat (me_length e)"
    using assms(3) by (simp add: unat_plus_if')
  have b: "unat (me_base e + n) = unat (me_base e) + unat n" using l assms(3) by (simp add: unat_plus_if')
  show f: "me_base f + me_length f = me_base e + me_length e" by (simp add: f_def)
  have "me_type f = USABLE" "me_base f = me_base e + n" using assms(1) by (simp_all add: f_def)
  then show i: "entry_pages f = {(unat (me_base e) + unat n) div 4096..<(unat (me_base e) + unat (me_length e)) div 4096}"
    unfolding entry_pages_def f s by (simp add: b)
  show "entry_pages f \<subseteq> entry_pages e"
    unfolding i using assms(1) s div_le_mono [of "unat (me_base e)" "unat (me_base e) + unat n" 4096]
    by (auto simp: entry_pages_def)
qed

lemma memset_full_bitmap:
  assumes "unat T < 2 ^ 31" "pg < unat T"
  shows "bit (memset m b 0xFF ((T + 7) div 8) (b + drop_bit 3 (of_nat pg))) (unat ((of_nat pg :: u64) AND 7))"
proof -
  have "unat (drop_bit 3 (of_nat pg :: u64)) = pg div 8"
    using assms by (simp add: drop_bit_eq_div unat_div unat_of_nat64)
  moreover have "unat ((T + 7) div 8) = (unat T + 7) div 8"
    using assms(1) by (simp add: unat_div unat_plus_if')
  ultimately have "drop_bit 3 (of_nat pg :: u64) < (T + 7) div 8"
    using assms(2) by (simp add: word_less_nat_alt)
  moreover have "bit (0xFF :: u8) (unat ((of_nat pg :: u64) AND 7))"
    using and_7_less_8 [of "of_nat pg"] 
    by (auto dest!: nat_less_8_cases)
  ultimately show ?thesis by (simp add: memset_apply)
qed

definition init_base :: "'a pmm_state_scheme \<Rightarrow> u64 \<Rightarrow> u64 \<Rightarrow> 'a pmm_state_scheme" where
  "init_base s highest p =
     (let T = highest div 4096; B = (T + 7) div 8 in
      s\<lparr>total_memory := highest, total_pages := T, bitmap_pages := (B + 4096 - 1) div 4096,
        bitmap_phys := p, bitmap := p, frames_stack := p + B, stack_top := 0,
        mem := memset (mem s) p 0xFF B, free_pages := 0\<rparr>)"

lemma pmm_init_stages:
  assumes "mm_choose ((mm_highest es 0 div 4096 + 7) div 8 + 8192) es = (p, es')" "p \<noteq> 0"
  shows "pmm_init s (Some es) = Some
     (let B = (mm_highest es 0 div 4096 + 7) div 8;
          t = mm_free (init_base s (mm_highest es 0) p) es';
          t = reserve_range t (bitmap_phys t div 4096) ((bitmap_phys t + B + 4096 - 1) div 4096);
          t = reserve_range t ((p + B) div 4096) ((p + B + 8192) div 4096)
      in (reserve_range t 256 512, es'))"
  using assms by (simp add: pmm_init_def init_base_def Let_def PHYS_TO_VIRT_def fun_upd_idem)

lemma unat_div_page: "unat ((x :: u64) div 4096) = unat x div 4096"
  by (simp add: unat_div)

lemma init_base_fields:
  "mem (init_base s h p) = memset (mem s) p 0xFF ((h div 4096 + 7) div 8)" "bitmap (init_base s h p) = p"
  "total_pages (init_base s h p) = h div 4096"
  unfolding init_base_def Let_def by simp_all

lemma init_base_ok:
  assumes T: "unat (highest div 4096) < 2 ^ 31" and p: "unat p + unat ((highest div 4096 + 7) div 8) + 8192 < 2 ^ 64"
  shows "pmm_wf (init_base s highest p)" "pmm_accounted (init_base s highest p)" "free_set (init_base s highest p) = {}"
proof -
  let ?T = "highest div 4096" and ?s = "init_base s highest p"
  let ?B = "(?T + 7) div 8"
  have B: "unat ?B = (unat ?T + 7) div 8" using T by (simp add: unat_div unat_plus_if')
  have "bitmap_get ?s (of_nat pg)" if "pg < unat ?T" for pg
    using memset_full_bitmap [OF T that, of "mem s" p] by (simp add: bitmap_get_bit init_base_fields)
  moreover have "total_pages ?s = ?T" by (simp add: init_base_def Let_def)
  ultimately show fs: "free_set ?s = {}" by (auto simp: free_set_def)
  then show "pmm_accounted ?s" by (simp add: pmm_accounted_def init_base_def Let_def)
  have "p + ?B + of_nat k \<noteq> p + drop_bit 3 (of_nat pg)" if "k < 8192" "pg < unat ?T" for k pg
  proof
    assume "p + ?B + of_nat k = p + drop_bit 3 (of_nat pg)"
    then have "unat (?B + of_nat k) = unat (drop_bit 3 (of_nat pg :: u64))" by (simp add: add.assoc)
    moreover have "unat (?B + of_nat k) = unat ?B + k"
      using p that(1) by (simp add: unat_plus_if' unat_of_nat64)
    moreover have "unat (drop_bit 3 (of_nat pg :: u64)) = pg div 8"
      using T that(2) by (simp add: drop_bit_eq_div unat_div unat_of_nat64)
    ultimately show False using B that(2) by linarith
  qed
  then show "pmm_wf ?s" using T by (simp add: pmm_wf_def init_base_def Let_def)
qed

lemma pmm_wf_update: "page_update s t Q v \<Longrightarrow> pmm_wf t = pmm_wf s"
  by (simp add: pmm_wf_def page_update_fields)

lemma reserve_range_update:
  assumes "pmm_accounted s" "unat e \<le> unat (total_pages s)" "pmm_wf s"
  shows "page_update s (reserve_range s i e) {i..<e} True" "pmm_accounted (reserve_range s i e)"
    "free_set (reserve_range s i e) = free_set s - {unat i..<unat e}"
    "pmm_wf (reserve_range s i e)"
proof -
  have T: "unat (total_pages s) < 2 ^ 31" using assms(3) by (simp add: pmm_wf_def)
  show u: "page_update s (reserve_range s i e) {i..<e} True" and "pmm_accounted (reserve_range s i e)"
    using region_loop_update [of s i e True] reserve_range_region [OF assms(1,2) T] assms T by simp_all
  show "free_set (reserve_range s i e) = free_set s - {unat i..<unat e}"
    using free_set_interval [OF u assms(2) T] by simp
  show "pmm_wf (reserve_range s i e)" using pmm_wf_update [OF u] assms(3) by simp
qed

lemma limine_map_choose:
  assumes ok: "limine_map_ok es" and ch: "mm_choose n es = (p, es')" "p \<noteq> 0"
  shows "sorted_wrt (\<lambda>e f. entry_pages e \<inter> entry_pages f = {}) es'"
    "\<And>e. e \<in> set es' \<Longrightarrow> me_type e = USABLE \<Longrightarrow> me_base e + me_length e \<le> mm_highest es 0"
    "unat p + unat n \<le> unat (mm_highest es 0)" "p mod 4096 = 0"
proof -
  from mm_choose_split [OF ch] obtain xs e ys where es: "es = xs @ e # ys" "me_type e = USABLE"
    and n: "n \<le> me_length e" "p = me_base e"
    and es': "es' = xs @ e\<lparr>me_base := me_base e + n, me_length := me_length e - n\<rparr> # ys" by blast
  from ok es have e: "unat (me_base e) + unat (me_length e) < 2 ^ 64" "me_base e mod 4096 = 0"
    by (auto simp: limine_map_ok_def)
  note sh = entry_pages_shrink [OF es(2) n(1) e(1)]
  show "sorted_wrt (\<lambda>e f. entry_pages e \<inter> entry_pages f = {}) es'"
    using ok sh(2) unfolding es(1) es' limine_map_ok_def by (fastforce simp: sorted_wrt_append)
  show "me_base f + me_length f \<le> mm_highest es 0" if f: "f \<in> set es'" "me_type f = USABLE" for f
    using mm_highest_usable [of _ es 0] f sh(3) es unfolding es' by auto
  have "unat (me_base e + me_length e) \<le> unat (mm_highest es 0)"
    using mm_highest_usable [of e es 0] es by (simp add: word_le_nat_alt)
  then show "unat p + unat n \<le> unat (mm_highest es 0)"
    using n sh(4) by (simp add: word_le_nat_alt)
  show "p mod 4096 = 0" using e n by simp
qed

lemma pmm_init_correct:
  fixes es :: "memmap_entry list"
  defines "T \<equiv> mm_highest es 0 div 4096"
  defines "B \<equiv> (T + 7) div 8"
  assumes ok: "limine_map_ok es" and T: "unat T < 2 ^ 31" "512 \<le> unat T"
    and ch: "mm_choose (B + 8192) es = (p, es')" "p \<noteq> 0"
  shows "\<exists>t. pmm_init s (Some es) = Some (t, es') \<and> pmm_wf t \<and> pmm_accounted t \<and>
     total_pages t = T \<and> stack_top t = 0 \<and> pmm_lock t = pmm_lock s \<and>
     bitmap t = p \<and> frames_stack t = p + B \<and> pmm_state.more t = pmm_state.more s \<and>
     free_set t = (\<Union>e \<in> set es'. entry_pages e)
       - {unat p div 4096..<(unat p + unat B + 4095) div 4096}
       - {(unat p + unat B) div 4096..<(unat p + unat B + 8192) div 4096} - {256..<512}"
proof -
  note ch = ch [unfolded B_def T_def]
  note mc = limine_map_choose [OF ok ch]
  let ?h = "mm_highest es 0"
  have B: "unat B = (unat T + 7) div 8" using T unfolding B_def by (simp add: unat_div unat_plus_if')
  have "unat (B + 8192) = unat B + 8192" using B T by (simp add: unat_plus_if')
  then have pB: "unat p + unat B + 8192 \<le> unat ?h" using mc(3) unfolding T_def B_def by simp
  have uT: "unat T = unat ?h div 4096" by (simp add: T_def unat_div)
  have w: "unat p + unat B + 8192 < 2 ^ 64" using pB unat_u64_less [of ?h] by linarith
  let ?s0 = "init_base s ?h p"
  have s0: "total_pages ?s0 = T" "stack_top ?s0 = 0" "pmm_lock ?s0 = pmm_lock s" "bitmap ?s0 = p"
    "frames_stack ?s0 = p + B" "bitmap_phys ?s0 = p" "pmm_state.more ?s0 = pmm_state.more s"
    by (simp_all add: init_base_def T_def B_def Let_def)
  note ib = init_base_ok [OF T(1) [unfolded T_def] w [unfolded B_def T_def], of s]
  let ?s1 = "mm_free ?s0 es'"
  obtain Q where u1: "page_update ?s0 ?s1 Q False" and a1: "pmm_accounted ?s1"
    and f1: "free_set ?s1 = (\<Union>e \<in> set es'. entry_pages e)"
    using mm_free_update [of ?s0 es'] ib mc(1) s0 T(1) mc(2) unfolding T_def
    by (auto simp: unat_div word_le_nat_alt div_le_mono)
  have wf1: "pmm_wf ?s1" using pmm_wf_update [OF u1] ib by simp
  note fl1 = page_update_fields [OF u1] and s0
  let ?e2 = "(p + B + 4096 - 1) div 4096"
  let ?s2 = "reserve_range ?s1 (p div 4096) ?e2"
  have "unat (p + B + 4096 - 1) = unat p + unat B + 4095" using w by (simp add: unat_plus_if' unat_sub_if')
  then have e2: "unat ?e2 = (unat p + unat B + 4095) div 4096" by (simp only: unat_div_page)
  have "unat ?e2 \<le> unat T" using pB uT e2 by (simp add: div_le_mono)
  then have r2: "unat ?e2 \<le> unat (total_pages ?s1)" using fl1 s0 by simp
  note R2 = reserve_range_update [OF a1 r2 wf1, of "p div 4096"]
  note fl2 = page_update_fields [OF R2(1)]
  let ?e3 = "(p + B + 8192) div 4096"
  let ?s3 = "reserve_range ?s2 ((p + B) div 4096) ?e3"
  have "unat (p + B + 8192) = unat p + unat B + 8192" using w by (simp add: unat_plus_if')
  then have e3: "unat ?e3 = (unat p + unat B + 8192) div 4096" by (simp add: unat_div)
  have "unat ?e3 \<le> unat T" using pB uT e3 by (simp add: div_le_mono)
  then have r3: "unat ?e3 \<le> unat (total_pages ?s2)" using fl1 fl2 s0 by simp
  note R3 = reserve_range_update [OF R2(2) r3 R2(4), of "(p + B) div 4096"]
  note fl3 = page_update_fields [OF R3(1)]
  have r4: "unat (512 :: u64) \<le> unat (total_pages ?s3)" using fl1 fl2 fl3 s0 T(2) by simp
  note R4 = reserve_range_update [OF R3(2) r4 R3(4), of 256]
  note fl4 = page_update_fields [OF R4(1)]
  have i3: "unat ((p + B) div 4096) = (unat p + unat B) div 4096"
    using w by (simp add: unat_div unat_plus_if')
  have "pmm_init s (Some es) = Some (reserve_range ?s3 256 512, es')"
    using pmm_init_stages [OF ch, of s] fl1 s0 by (simp add: Let_def B_def T_def)
  moreover have "free_set (reserve_range ?s3 256 512) = (\<Union>e \<in> set es'. entry_pages e)
       - {unat p div 4096..<(unat p + unat B + 4095) div 4096}
       - {(unat p + unat B) div 4096..<(unat p + unat B + 8192) div 4096} - {256..<512}"
    unfolding R4(3) R3(3) R2(3) f1 e2 e3 i3 by (simp add: unat_div)
  ultimately show ?thesis using R4(2,4) fl1 fl2 fl3 fl4 s0 by simp
qed

subsection \<open>The contract of a page allocator\<close>

text \<open>
  What a client of the page allocator relies on: with the invariant, a request returns; \<open>NULL\<close>
  leaves the free pages alone; any other answer is the address of a run of pages that were free,
  does not start at page 0, and is no longer free. Requests then never hand out a page twice.
\<close>

definition block_pages :: "u64 \<Rightarrow> u64 \<Rightarrow> nat set" where
  "block_pages a n = (if a = NULL then {} else {unat a div 4096..<unat a div 4096 + unat n})"

fun alloc_many :: "('s \<Rightarrow> u64 \<Rightarrow> (u64 \<times> 's) option) \<Rightarrow> 's \<Rightarrow> u64 list \<Rightarrow> (u64 list \<times> 's) option" where
  "alloc_many alloc s [] = Some ([], s)"
| "alloc_many alloc s (n # ns) = do {
     (a, s) \<leftarrow> alloc s n;
     (bs, s) \<leftarrow> alloc_many alloc s ns;
     Some (a # bs, s) }"

locale page_allocator =
  fixes alloc :: "'s \<Rightarrow> u64 \<Rightarrow> (u64 \<times> 's) option"
    and free_of :: "'s \<Rightarrow> nat set"
    and inv :: "'s \<Rightarrow> bool"
  assumes alloc_returns: "inv s \<Longrightarrow> n \<noteq> 0 \<Longrightarrow> \<exists>a t. alloc s n = Some (a, t)"
    and alloc_inv: "inv s \<Longrightarrow> n \<noteq> 0 \<Longrightarrow> alloc s n = Some (a, t) \<Longrightarrow> inv t"
    and alloc_takes: "inv s \<Longrightarrow> n \<noteq> 0 \<Longrightarrow> alloc s n = Some (a, t) \<Longrightarrow>
      block_pages a n \<subseteq> free_of s \<and> free_of t = free_of s - block_pages a n"
begin

lemma alloc_many_returns:
  "inv s \<Longrightarrow> 0 \<notin> set ns \<Longrightarrow> \<exists>bs t. alloc_many alloc s ns = Some (bs, t) \<and> inv t"
proof (induction ns arbitrary: s)
  case (Cons n ns)
  then obtain a t where a: "alloc s n = Some (a, t)" using alloc_returns [of s n] by auto
  with Cons have "inv t" using alloc_inv [of s n a t] by auto
  with Cons a show ?case by fastforce
qed simp

lemma alloc_many_disjoint:
  assumes "inv s" "0 \<notin> set ns" "alloc_many alloc s ns = Some (bs, t)"
  shows "length bs = length ns \<and> sorted_wrt (\<lambda>A B. A \<inter> B = {}) (map2 block_pages bs ns) \<and>
    (\<forall>B \<in> set (map2 block_pages bs ns). B \<subseteq> free_of s) \<and>
    free_of t = free_of s - \<Union>(set (map2 block_pages bs ns))"
  using assms
proof (induction ns arbitrary: s bs)
  case (Cons n ns)
  from Cons.prems(3) obtain a s1 bs1 where a: "alloc s n = Some (a, s1)"
    and r: "alloc_many alloc s1 ns = Some (bs1, t)" and bs: "bs = a # bs1"
    by (auto split: bind_splits)
  have t: "block_pages a n \<subseteq> free_of s" "free_of s1 = free_of s - block_pages a n" and "inv s1"
    using alloc_takes [OF _ _ a] alloc_inv [OF _ _ a] Cons.prems by auto
  from Cons.IH [OF \<open>inv s1\<close> _ r] Cons.prems(2) t bs show ?case by auto
qed simp

end

definition pmm_ready :: "'a pmm_state_scheme \<Rightarrow> bool" where
  "pmm_ready s \<longleftrightarrow> pmm_wf s \<and> \<not> held (pmm_lock s) \<and> stack_top s = 0 \<and> bitmap_get s 0"

lemma pmm_wf_unlock [simp]: "pmm_wf (unlock_pmm s) = pmm_wf s"
  by (simp add: pmm_wf_def unlock_pmm_def)

lemma bitmap_get_unlock [simp]: "bitmap_get (unlock_pmm s) q = bitmap_get s q"
  by (simp add: unlock_pmm_def)

lemma unlock_pmm_fields [simp]:
  "stack_top (unlock_pmm s) = stack_top s" "total_pages (unlock_pmm s) = total_pages s"
  "pmm_lock (unlock_pmm s) = spinlock_unlock (pmm_lock s)" "free_pages (unlock_pmm s) = free_pages s"
  "bitmap (unlock_pmm s) = bitmap s" "frames_stack (unlock_pmm s) = frames_stack s" "mem (unlock_pmm s) = mem s"
  by (simp_all add: unlock_pmm_def)

lemma pmm_ready_unlock: "pmm_ready s \<Longrightarrow> pmm_ready (unlock_pmm s)"
  by (simp add: pmm_ready_def)

lemma pmm_ready_update:
  assumes "pmm_ready s" "page_update (unlock_pmm s) t Q v" "0 \<in> Q \<Longrightarrow> v"
  shows "pmm_ready t"
  using assms pmm_wf_update [OF assms(2)] page_update_get [OF assms(2), of 0]
  by (auto simp: pmm_ready_def page_update_fields)

lemma accounted_run:
  assumes "pmm_accounted s" "{i..<i + unat n} \<subseteq> free_set s" "free_set t = free_set s - {i..<i + unat n}"
    "free_pages t = free_pages s - n"
  shows "pmm_accounted t" "unat (free_pages t) = unat (free_pages s) - unat n" 
proof -
  have c: "card {i..<i + unat n} \<le> card (free_set s)" using assms(2) by (intro card_mono) simp_all
  then have "unat n \<le> unat (free_pages s)" using assms(1) by (simp add: pmm_accounted_def)
  then show u: "unat (free_pages t) = unat (free_pages s) - unat n"
    using assms(4) by (simp add: unat_sub word_le_nat_alt)
  have "card (free_set t) = card (free_set s) - unat n"
    using assms(2,3) by (simp add: card_Diff_subset)
  then show "pmm_accounted t" using u assms(1) by (simp add: pmm_accounted_def)
qed

lemma pmalloc_ready:
  assumes r: "pmm_ready s" and n: "pages \<noteq> 0"
  shows "(first_fit s (unat pages) = None \<and> pmalloc s pages = Some (NULL, unlock_pmm s)) \<or>
   (\<exists>i t. first_fit s (unat pages) = Some i \<and> 0 < i \<and> pmalloc s pages = Some (of_nat (i * 4096), t) \<and>
      page_update (unlock_pmm s) t {of_nat i..<of_nat i + pages} True \<and>
      i + unat pages \<le> unat (total_pages s) \<and> {i..<i + unat pages} \<subseteq> free_set s \<and>
      free_set t = free_set s - {i..<i + unat pages} \<and> pmm_ready t \<and> free_pages t = free_pages s - pages)"
proof (cases "first_fit s (unat pages)")
  case None
  then show ?thesis using assms pmalloc_None [of s pages] by (simp add: pmm_ready_def pmm_wf_def)
next
  case (Some i)
  have wf: "unat (total_pages s) < 2 ^ 31" using r by (simp add: pmm_ready_def pmm_wf_def)
  from Some assms obtain t where t: "pmalloc s pages = Some (of_nat (i * 4096), t)"
    and u: "page_update (unlock_pmm s) t {of_nat i..<of_nat i + pages} True"
    and fp: "free_pages t = free_pages s - pages"
    using pmalloc_Some [OF wf, of pages i] by (auto simp: pmm_ready_def)
  note ff = first_fit_SomeD [OF Some]
  have le: "i + unat pages \<le> unat (total_pages s)" using ff(1) by (simp add: run_free_def)
  have "0 < i"
  proof (rule ccontr)
    assume "\<not> 0 < i"
    moreover have "0 < unat pages" using n by (simp add: unat_gt_0)
    ultimately have "\<not> bitmap_get s 0" using ff(1) by (auto simp: run_free_def)
    then show False using r by (simp add: pmm_ready_def)
  qed
  moreover have "free_set t = free_set s - {i..<i + unat pages}"
    using free_set_update [OF u] le wf by simp
  ultimately show ?thesis
    using Some t u fp le run_free_subset [OF ff(1)] pmm_ready_update [OF r u]
    by (intro disjI2 exI [of _ i] exI [of _ t] conjI) simp_all
qed

lemma unat_block: "i < 2 ^ 31 \<Longrightarrow> unat (of_nat (i * 4096) :: u64) div 4096 = i"
  by (simp only: unat_page_addr)

lemma block_addr_not_NULL: "0 < i \<Longrightarrow> i < 2 ^ 31 \<Longrightarrow> (of_nat (i * 4096) :: u64) \<noteq> NULL"
  using unat_page_addr [of i] by (metis mult_pos_pos neq0_conv unat_0 zero_less_numeral)

lemma block_pages_run:
  assumes "0 < i" "i < 2 ^ 31"
  shows "block_pages (of_nat (i * 4096)) n = {i..<i + unat n}"
  unfolding block_pages_def unat_block [OF assms(2)] using block_addr_not_NULL [OF assms] by simp

lemma pmm_ready_total: "pmm_ready s \<Longrightarrow> unat (total_pages s) < 2 ^ 31"
  by (simp add: pmm_ready_def pmm_wf_def)

lemma pmalloc_block:
  assumes r: "pmm_ready s" and n: "pages \<noteq> 0" and p: "pmalloc s pages = Some (a, t)"
  shows "pmm_ready t \<and> block_pages a pages \<subseteq> free_set s \<and> free_set t = free_set s - block_pages a pages"
  using pmalloc_ready [OF r n]
proof (elim disjE exE conjE)
  fix i t' assume h: "0 < i" "pmalloc s pages = Some (of_nat (i * 4096), t')"
    "i + unat pages \<le> unat (total_pages s)" "{i..<i + unat pages} \<subseteq> free_set s"
    "free_set t' = free_set s - {i..<i + unat pages}" "pmm_ready t'"
  then have "block_pages a pages = {i..<i + unat pages}" "t' = t"
    using p pmm_ready_total [OF r] block_pages_run [of i pages] by simp_all
  with h show ?thesis by simp
qed (use p pmm_ready_unlock [OF r] in \<open>simp add: block_pages_def\<close>)

interpretation pm: page_allocator pmalloc free_set pmm_ready
proof
  show "\<exists>a t. pmalloc s n = Some (a, t)" if "pmm_ready s" "n \<noteq> 0" for s :: "'a pmm_state_scheme" and n
    using pmalloc_ready [OF that] by blast
qed (use pmalloc_block in blast)+

subsection \<open>A small machine for the witnesses\<close>

text \<open>Sixteen pages, of which 12 to 15 are free; bitmap at \<open>0x1000\<close>, page cache at \<open>0x2000\<close>.\<close>

definition pmm_example :: pmm_state where
  "pmm_example = \<lparr>mem = (\<lambda>_. 0xFF)(0x1001 := 0x0F), bitmap = 0x1000, bitmap_pages = 1, total_pages = 16,
     free_pages = 4, total_memory = 0x10000, bitmap_phys = 0x1000, frames_stack = 0x2000, stack_top = 0,
     pmm_lock = SPINLOCK_INIT\<rparr>"

lemma pmm_example_get: "pg < 16 \<Longrightarrow> bitmap_get pmm_example (of_nat pg) \<longleftrightarrow> pg < 12"
proof -
  have "list_all (\<lambda>pg. bitmap_get pmm_example (of_nat pg) \<longleftrightarrow> pg < 12) [0..<16]"
    by (simp add: upt_rec bitmap_get_def pmm_example_def)
  then show "pg < 16 \<Longrightarrow> bitmap_get pmm_example (of_nat pg) \<longleftrightarrow> pg < 12" by (simp add: list_all_iff)
qed

lemma pmm_example_free: "free_set pmm_example = {12..<16}"
  unfolding free_set_def using pmm_example_get by (auto simp: pmm_example_def)

lemma pmm_example_wf: "pmm_wf pmm_example"
proof -
  have "(0x2000 :: u64) + of_nat k \<noteq> 0x1000 + drop_bit 3 (of_nat pg)" if "k < 8192" "pg < 16" for k pg :: nat
  proof
    assume "(0x2000 :: u64) + of_nat k = 0x1000 + drop_bit 3 (of_nat pg)"
    then have "unat ((0x2000 :: u64) + of_nat k) = unat ((0x1000 :: u64) + drop_bit 3 (of_nat pg))"
      by (rule arg_cong)
    moreover have "unat ((0x2000 :: u64) + of_nat k) = 0x2000 + k"
      using that(1) by (simp add: unat_plus_if' unat_of_nat64)
    moreover have "unat ((0x1000 :: u64) + drop_bit 3 (of_nat pg)) = 0x1000 + pg div 8"
      using that(2) by (simp add: unat_plus_if' drop_bit_eq_div unat_div unat_of_nat64)
    ultimately show False using that by linarith
  qed
  then show ?thesis by (simp add: pmm_wf_def pmm_example_def)
qed

lemma pmm_example_ready: "pmm_ready pmm_example" "pmm_accounted pmm_example"
  using pmm_example_wf pmm_example_free pmm_example_get [of 0]
  by (simp_all add: pmm_ready_def pmm_accounted_def pmm_example_def SPINLOCK_INIT_def held_def)

lemma pmm_example_run: "run_free pmm_example p i \<longleftrightarrow> i + p \<le> 16 \<and> (p = 0 \<or> 12 \<le> i)"
proof -
  have "total_pages pmm_example = 16" by (simp add: pmm_example_def)
  then show ?thesis using pmm_example_get unfolding run_free_def
    by (auto simp del: of_nat_add)
qed

lemma pmm_example_fit: "first_fit pmm_example 2 = Some 12"
proof -
  have t: "unat (total_pages pmm_example) = 16" by (simp add: pmm_example_def)
  show ?thesis unfolding first_fit_def t by (simp add: upt_rec pmm_example_run)
qed

lemma pmm_example_alloc: "\<exists>t. pmalloc pmm_example 2 = Some (0xC000, t)"
  using pmalloc_ready [OF pmm_example_ready(1), of 2] by (auto simp: pmm_example_fit)

subsection \<open>Properties\<close>

text \<open>
  Claim C15. The optimised search, which skips full 64-bit words of the bitmap and jumps over partial
  runs, returns the lowest page at which \<open>pages\<close> consecutive pages are free, and \<open>UINT64_MAX\<close> when
  there is none.
\<close>

theorem find_free_run_is_first_fit:
  assumes "unat (total_pages s) < 2 ^ 31" and "pages \<noteq> 0"
  shows "find_free_run s pages = (case first_fit s (unat pages) of None \<Rightarrow> UINT64_MAX | Some i \<Rightarrow> of_nat i)"
  using find_free_run_first_fit [OF assms] .

theorem find_free_run_is_first_fit_witness: "find_free_run pmm_example 2 = 12"
  using find_free_run_is_first_fit [of pmm_example 2] pmm_example_fit by (simp add: pmm_example_def)

text \<open>
  Claim C7. \<open>pmalloc\<close> on a manager whose page cache is empty always returns, releases the lock and keeps
  the invariant and the page accounting. Without a free run it returns \<open>NULL\<close> and frees and takes
  nothing; otherwise it returns the address of the first-fit run, which was free and is now taken,
  and the counter goes down by the size of the run.
\<close>

theorem pmalloc_correct:
  assumes "pmm_ready s" and "pmm_accounted s" and "pages \<noteq> 0"
  shows "\<exists>a t. pmalloc s pages = Some (a, t) \<and> pmm_ready t \<and> pmm_accounted t \<and>
    (case first_fit s (unat pages) of
       None \<Rightarrow> a = NULL \<and> free_set t = free_set s
     | Some i \<Rightarrow> 0 < i \<and> a = of_nat (i * 4096) \<and> {i..<i + unat pages} \<subseteq> free_set s \<and>
         free_set t = free_set s - {i..<i + unat pages} \<and>
         unat (free_pages t) = unat (free_pages s) - unat pages)"
  using pmalloc_ready [OF assms(1,3)]
proof (elim disjE exE conjE)
  assume h: "first_fit s (unat pages) = None" "pmalloc s pages = Some (NULL, unlock_pmm s)"
  moreover have "pmm_accounted (unlock_pmm s)" using assms(2) by (simp add: pmm_accounted_def)
  ultimately show ?thesis using pmm_ready_unlock [OF assms(1)] by simp
next
  fix i t assume h: "first_fit s (unat pages) = Some i" "0 < i" "pmalloc s pages = Some (of_nat (i * 4096), t)"
    "{i..<i + unat pages} \<subseteq> free_set s" "free_set t = free_set s - {i..<i + unat pages}" "pmm_ready t"
    "free_pages t = free_pages s - pages"
  with accounted_run [OF assms(2), of i pages t] show ?thesis by simp
qed

theorem pmalloc_correct_witness:
  "\<exists>t. pmalloc pmm_example 2 = Some (0xC000, t) \<and> pmm_ready t \<and> free_set t = {14, 15}"
proof -
  have "{12..<16} - {12..<Suc (Suc 12)} = {14, 15 :: nat}" by auto
  then show ?thesis
    using pmalloc_correct [OF pmm_example_ready, of 2] by (auto simp: pmm_example_fit pmm_example_free)
qed



text \<open>
  Claim C23. Freeing a block of two or more pages that \<open>pmalloc\<close> returned restores the free pages and the
  counter, and the manager is ready again.
\<close>

theorem pmalloc_pfree_roundtrip:
  assumes "pmm_ready s" and "1 < pages" and "pmalloc s pages = Some (a, t)" and "a \<noteq> NULL"
  shows "\<exists>u. pfree t a pages = Some u \<and> pmm_ready u \<and> free_set u = free_set s \<and> free_pages u = free_pages s"
proof -
  have n: "pages \<noteq> 0" "pages \<noteq> 1" using assms(2) by auto
  note T = pmm_ready_total [OF assms(1)]
  from pmalloc_ready [OF assms(1) n(1)] assms(3,4) obtain i where i: "0 < i" "a = of_nat (i * 4096)"
    and u: "page_update (unlock_pmm s) t {of_nat i..<of_nat i + pages} True"
    and le: "i + unat pages \<le> unat (total_pages s)" "{i..<i + unat pages} \<subseteq> free_set s"
    and fs: "free_set t = free_set s - {i..<i + unat pages}" and r: "pmm_ready t"
    and fp: "free_pages t = free_pages s - pages"
    by auto
  have tt: "total_pages t = total_pages s" using page_update_fields(2) [OF u] by simp
  from pfree_many [of t pages i] T n i le r obtain v where v: "pfree t a pages = Some v"
    and uv: "page_update (unlock_pmm t) v {of_nat i..<of_nat i + pages} False"
    and fv: "free_pages v = free_pages t + pages" unfolding tt pmm_ready_def by blast
  have "free_set v = free_set t \<union> {i..<i + unat pages}"
    using free_set_update [OF uv] le T tt by simp
  then have "free_set v = free_set s" using fs le by blast
  moreover have "0 \<notin> {of_nat i..<(of_nat i :: u64) + pages}"
    using of_nat_mem_interval [of i pages 0] i le T by auto
  then have "pmm_ready v" using pmm_ready_update [OF r uv] by blast
  ultimately show ?thesis using v fv fp by simp
qed

theorem pmalloc_pfree_roundtrip_witness:
  "\<exists>t u. pmalloc pmm_example 2 = Some (0xC000, t) \<and> pfree t 0xC000 2 = Some u \<and> free_set u = {12..<16}"
  using pmm_example_alloc pmalloc_pfree_roundtrip [OF pmm_example_ready(1), of 2 "0xC000"]
  by (auto simp: pmm_example_free)

lemma first_fit_SomeI:
  assumes "run_free s p i" "i < unat (total_pages s)" "\<And>j. j < i \<Longrightarrow> \<not> run_free s p j"
  shows "first_fit s p = Some i"
  using assms by (auto simp: first_fit_def find_Some_iff intro!: exI [of _ i])

text \<open>
  Claim C24. \<open>pmalloc_aligned\<close> with a non-zero multiple of the page size returns an aligned run of pages
  that was free and takes it out of the free set, or \<open>NULL\<close>, and then no aligned run of that size is
  free: the scan over the multiples of the alignment ends and misses no candidate.
\<close>

theorem pmalloc_aligned_correct:
  assumes "pmm_wf s" and "\<not> held (pmm_lock s)" and "pages \<noteq> 0"
    and "alignment \<noteq> 0" and "alignment mod 4096 = 0"
  shows "\<exists>a t. pmalloc_aligned s pages alignment = Some (a, t) \<and> \<not> held (pmm_lock t) \<and>
    ((a = NULL \<and> free_set t = free_set s \<and>
        (\<nexists>i. unat alignment dvd i * 4096 \<and> run_free s (unat pages) i)) \<or>
     (\<exists>i. a = of_nat (i * 4096) \<and> unat alignment dvd i * 4096 \<and> {i..<i + unat pages} \<subseteq> free_set s \<and>
        free_set t = free_set s - {i..<i + unat pages}))"
proof -
  have T: "unat (total_pages s) < 2 ^ 31" using assms(1) by (simp add: pmm_wf_def)
  have "unat alignment mod 4096 = 0" using assms(5) unat_mod [of alignment 4096] by simp
  then have k: "unat alignment = unat alignment div 4096 * 4096" by auto
  have dv: "unat alignment dvd i * 4096 \<longleftrightarrow> (\<exists>c. i = c * (unat alignment div 4096))" for i
  proof -
    have "unat alignment dvd i * 4096 \<longleftrightarrow> unat alignment div 4096 dvd i"
      by (subst k) simp
    also have "\<dots> \<longleftrightarrow> (\<exists>c. i = c * (unat alignment div 4096))" by (auto simp: dvd_def mult.commute)
    finally show ?thesis .
  qed
  from pmalloc_aligned_cases [OF T assms(2-5)] show ?thesis
  proof (elim disjE conjE exE)
    assume h: "pmalloc_aligned s pages alignment = Some (NULL, unlock_pmm s)"
      "\<forall>c. \<not> run_free s (unat pages) (c * (unat alignment div 4096))"
    then have "\<nexists>i. unat alignment dvd i * 4096 \<and> run_free s (unat pages) i" unfolding dv by blast
    with h show ?thesis by simp
  next
    fix c i t assume h: "i = c * (unat alignment div 4096)" "run_free s (unat pages) i"
      "pmalloc_aligned s pages alignment = Some (of_nat (i * 4096), t)"
      and u: "page_update (unlock_pmm s) t {of_nat i..<of_nat i + pages} True"
    have le: "i + unat pages \<le> unat (total_pages s)" using h(2) by (simp add: run_free_def)
    have d: "unat alignment dvd i * 4096" using h(1) dv by blast
    have f: "free_set t = free_set s - {i..<i + unat pages}"
      using free_set_update [OF u] le T by simp
    have lk: "\<not> held (pmm_lock t)" using page_update_fields(8) [OF u] by simp
    show ?thesis using h(3) lk d f run_free_subset [OF h(2)] by blast
  qed
qed

theorem pmalloc_aligned_correct_witness:
  "\<exists>a t. pmalloc_aligned pmm_example 2 0x2000 = Some (a, t) \<and> \<not> held (pmm_lock t)"
  using pmalloc_aligned_correct [of pmm_example 2 "0x2000"] pmm_example_ready(1)
  by (auto simp: pmm_ready_def)

text \<open>
  \<open>pmalloc_aligned\<close> accepts an alignment of 0, which is a multiple of the page size: when page
  0 is in use the scan divides by \<open>align_pages = 0\<close>, a fault taken while the lock is held.
\<close>

theorem pmalloc_aligned_zero_faults:
  assumes "\<not> held (pmm_lock s)" and "pages \<noteq> 0" and "pages \<le> total_pages s" and "bitmap_get s 0"
  shows "pmalloc_aligned s pages 0 = None"
  using pmalloc_aligned_zero [OF assms] .

theorem pmalloc_aligned_zero_faults_witness: "pmalloc_aligned pmm_example 1 0 = None"
  using pmalloc_aligned_zero_faults [of pmm_example 1] pmm_example_ready(1)
  by (simp add: pmm_ready_def) (simp add: pmm_example_def)

text \<open>
  \<open>pmm_set_region\<close> inside the managed memory marks exactly the pages that the byte range
  touches and keeps the counter of free pages equal to the number of free pages.
\<close>

theorem pmm_set_region_correct:
  assumes "pmm_wf s" and "pmm_accounted s" and "\<not> held (pmm_lock s)"
    and "unat base + unat sz + 4095 < 2 ^ 64"
    and "(unat base + unat sz + 4095) div 4096 \<le> unat (total_pages s)"
  shows "\<exists>t. pmm_set_region s base sz used = Some t \<and> pmm_wf t \<and> pmm_accounted t \<and> \<not> held (pmm_lock t) \<and>
    free_set t = (let R = {unat base div 4096..<(unat base + unat sz + 4095) div 4096}
                  in if used then free_set s - R else free_set s \<union> R)"
proof -
  let ?l = "(pmm_lock s)\<lparr>lock := lock (pmm_lock s) OR 1\<rparr>"
  let ?s = "s\<lparr>pmm_lock := ?l\<rparr>" and ?e = "(base + sz + 4096 - 1) div 4096"
  let ?t = "region_loop ?s (base div 4096) ?e used"
  have T: "unat (total_pages s) < 2 ^ 31" using assms(1) by (simp add: pmm_wf_def)
  have "unat (base + sz + 4096 - 1) = unat base + unat sz + 4095"
    using assms(4) by (simp add: unat_plus_if' unat_sub_if')
  then have e: "unat ?e = (unat base + unat sz + 4095) div 4096" by (simp only: unat_div_page)
  have u: "page_update ?s ?t {base div 4096..<?e} used" and a: "pmm_accounted ?t"
    using region_loop_update [of ?s "base div 4096" ?e used] assms(2,5) T e by simp_all
  have r: "pmm_set_region s base sz used = Some (unlock_pmm ?t)"
    using assms(3) by (simp add: pmm_set_region_def Let_def)
  have f: "free_set ?t = (if used then free_set s - {unat (base div 4096)..<unat ?e}
      else free_set s \<union> {unat (base div 4096)..<unat ?e})"
    using free_set_interval [OF u] e assms(5) T by (simp add: free_set_def)
  have "pmm_wf ?t" using pmm_wf_update [OF u] assms(1) by (simp add: pmm_wf_def)
  moreover have "pmm_accounted (unlock_pmm ?t)" using a by (simp add: unlock_pmm_def)
  moreover have "free_set ?t = (let R = {unat base div 4096..<(unat base + unat sz + 4095) div 4096}
      in if used then free_set s - R else free_set s \<union> R)"
    using f [unfolded e] unfolding unat_div_page Let_def .
  ultimately show ?thesis unfolding r by simp
qed

theorem pmm_set_region_correct_witness:
  "\<exists>t. pmm_set_region pmm_example 0x5800 0x1000 False = Some t \<and> free_set t = {5, 6} \<union> {12..<16}"
proof -
  have "{5..<7} = {5, 6 :: nat}" by auto
  then show ?thesis
    using pmm_set_region_correct [of pmm_example "0x5800" "0x1000" False] pmm_example_ready
    by (auto simp: pmm_ready_def pmm_example_free) (auto simp: pmm_example_def Un_commute)
qed


definition map_example :: "memmap_entry list" where
  "map_example = [\<lparr>me_base = 0x400000, me_length = 0x1000000, me_type = USABLE\<rparr>]"

lemma map_example_ok: "limine_map_ok map_example"
  by (simp add: limine_map_ok_def map_example_def)

lemma map_example_highest: "mm_highest map_example 0 = 0x1400000"
  by (simp add: map_example_def)

lemma map_example_choose:
  "mm_choose 8832 map_example = (0x400000, [\<lparr>me_base = 0x402280, me_length = 0xFFDD80, me_type = USABLE\<rparr>])"
  by (simp add: map_example_def)


text \<open>
  When the bitmap does not fill its last page, \<open>pmm_init\<close> leaves the last page of the page
  cache free: the end of the cache is rounded down (\<^verbatim>\<open>fs_end_page\<close>) and the shrunken region is freed
  from the rounded-down start. The page holds bytes of the cache and can be handed out.
\<close>

theorem pmm_init_cache_page_free:
  assumes "limine_map_ok es" and "T = mm_highest es 0 div 4096" and "B = (T + 7) div 8"
    and "unat T < 2 ^ 31" and "512 \<le> unat T" and "mm_choose (B + 8192) es = (p, es')" and "p \<noteq> 0"
    and "unat B mod 4096 \<noteq> 0" and "q = (unat p + unat B + 8192) div 4096" and "q \<notin> {256..<512}"
    and "q \<in> (\<Union>e \<in> set es'. entry_pages e)"
  shows "\<exists>t. pmm_init s (Some es) = Some (t, es') \<and> q \<in> free_set t \<and>
     (\<exists>k < 8192. unat (frames_stack t + of_nat k) div 4096 = q)"
proof -
  obtain t where t: "pmm_init s (Some es) = Some (t, es')" "frames_stack t = p + B" and
    fs: "free_set t = (\<Union>e \<in> set es'. entry_pages e)
       - {unat p div 4096..<(unat p + unat B + 4095) div 4096}
       - {(unat p + unat B) div 4096..<(unat p + unat B + 8192) div 4096} - {256..<512}"
    using pmm_init_correct [of es p es' s] assms by auto
  note mc = limine_map_choose [OF assms(1,6,7)]
  have B: "unat B = (unat T + 7) div 8" using assms by (simp add: unat_div unat_plus_if')
  then have "unat (B + 8192) = unat B + 8192" using assms(4) by (simp add: unat_plus_if')
  then have w: "unat p + unat B + 8192 < 2 ^ 64" using mc(3) unat_u64_less [of "mm_highest es 0"] by linarith
  have "unat p mod 4096 = 0" using mc(4) unat_mod [of p 4096] by simp
  then obtain c where c: "unat p = 4096 * c" by auto
  let ?k = "8191 :: nat"
  have "unat (p + B + of_nat ?k) = unat p + unat B + ?k"
    using w by (simp add: unat_plus_if')
  moreover have "(unat p + unat B + ?k) div 4096 = q"
  proof -
    define d r where "d = unat B div 4096" and "r = unat B mod 4096"
    then have b: "unat B = 4096 * d + r" "0 < r" "r < 4096" using assms(8) by simp_all
    have "(4096 * c + (4096 * d + r) + m) div 4096 = c + d + (r + m) div 4096" for m
      using div_mult_self1 [of 4096 "r + m" "c + d"] by (simp add: algebra_simps)
    moreover have "(r + 8191) div 4096 = 2" "(r + 8192) div 4096 = 2"
      using b by (auto intro!: div_nat_eqI)
    ultimately show ?thesis unfolding assms(9) c b(1) by (simp only:)
  qed
  ultimately have "unat (frames_stack t + of_nat ?k) div 4096 = q" unfolding t(2) by metis
  moreover have "q \<in> free_set t"
    using assms(10,11) div_le_mono [of "unat p + unat B + 4095" "unat p + unat B + 8192" 4096]
    unfolding fs assms(9) by auto
  moreover have "?k < 8192" by simp
  ultimately show ?thesis using t(1) by blast
qed

theorem pmm_init_cache_page_free_witness:
  "\<exists>t es'. pmm_init pmm_example (Some map_example) = Some (t, es') \<and> 1026 \<in> free_set t \<and>
     (\<exists>k < 8192. unat (frames_stack t + of_nat k) div 4096 = 1026)"
  using pmm_init_cache_page_free [OF map_example_ok refl refl, of "0x400000" _ 1026 pmm_example]
  by (simp add: map_example_highest map_example_choose) (auto simp: entry_pages_def)

text \<open>The page cache: a page that was just freed comes back from it, without its bit being set.\<close>

lemma pmalloc_pop:
  assumes "\<not> held (pmm_lock s)" "stack_top s = 1" "load64 (mem s) (frames_stack s) = of_nat i" "i < 2 ^ 31"
  shows "pmalloc s 1 = Some (of_nat (i * 4096), unlock_pmm (s\<lparr>stack_top := 0, free_pages := free_pages s - 1\<rparr>))"
proof -
  have "unat (of_nat i :: u64) \<noteq> unat UINT64_MAX" using assms(4) by (simp add: unat_of_nat64)
  then have "(of_nat i :: u64) \<noteq> UINT64_MAX" by metis
  then show ?thesis using assms
    by (simp add: pmalloc_def stack_pop_def PHYS_TO_VIRT_def Let_def unlock_pmm_def)
qed

lemma freed_page_first_fit:
  assumes wf: "pmm_wf s" and i: "i < unat (total_pages s)" "stack_top s = 0"
    and low: "\<And>j. j < i \<Longrightarrow> bitmap_get s (of_nat j)"
  defines "t \<equiv> stack_store (bitmap_set s (of_nat i) False) (of_nat i)"
  shows "first_fit t 1 = Some i"
proof -
  let ?u = "bitmap_set s (of_nat i) False"
  note U = page_update_bitmap_set [of s "of_nat i" False]
  have T: "unat (total_pages s) < 2 ^ 31" using wf by (simp add: pmm_wf_def)
  have wu: "pmm_wf ?u" using pmm_wf_update [OF U] wf by simp
  have st: "stack_top ?u < 1024" using page_update_fields(7) [OF U] i by simp
  have g: "bitmap_get t (of_nat q) = (q \<noteq> i \<and> bitmap_get s (of_nat q))" if "q < unat (total_pages s)" for q
    using bitmap_get_stack_store [OF wu st, of q] that T i page_update_get [OF U, of "of_nat q"]
    by (auto simp: t_def of_nat_unat_less unat_of_nat64)
  have tt: "total_pages t = total_pages s" by (simp add: t_def stack_store_def)
  have "run_free t 1 i" using g [of i] i by (simp add: run_free_def tt)
  moreover have "\<not> run_free t 1 j" if "j < i" for j
    using g [of j] that i low [OF that] by (auto simp: run_free_def)
  ultimately show ?thesis by (intro first_fit_SomeI) (simp_all add: tt i)
qed

text \<open>
  Claim C26. The page cache hands a page out twice. When page \<open>i\<close> is in use and no lower page is free,
  freeing it and then allocating two single pages returns page \<open>i\<close> both times: \<open>pfree\<close> clears the
  bitmap bit and also pushes the page, the first \<open>pmalloc\<close> pops it without setting the bit again,
  and the second finds the bit still clear.
\<close>

theorem pmalloc_double_allocation:
  assumes "pmm_wf s" and "\<not> held (pmm_lock s)" and "stack_top s = 0"
    and "0 < i" and "i < unat (total_pages s)" and "\<And>j. j \<le> i \<Longrightarrow> bitmap_get s (of_nat j)"
  shows "\<exists>s1 s2 s3. pfree s (of_nat (i * 4096)) 1 = Some s1 \<and>
    pmalloc s1 1 = Some (of_nat (i * 4096), s2) \<and> pmalloc s2 1 = Some (of_nat (i * 4096), s3)"
proof -
  let ?t = "stack_store (bitmap_set s (of_nat i) False) (of_nat i)"
  let ?s1 = "unlock_pmm (?t\<lparr>free_pages := free_pages s + 1\<rparr>)"
  let ?s2 = "unlock_pmm (?s1\<lparr>stack_top := 0, free_pages := free_pages s + 1 - 1\<rparr>)"
  have T: "unat (total_pages s) < 2 ^ 31" using assms(1) by (simp add: pmm_wf_def)
  have i31: "i < 2 ^ 31" using assms(5) T by simp
  have p1: "pfree s (of_nat (i * 4096)) 1 = Some ?s1"
    using pfree_one [OF assms(1,2,4,5)] assms(3) by simp
  have f: "stack_top (bitmap_set s (of_nat i) False) = 0" "frames_stack (bitmap_set s (of_nat i) False) = frames_stack s"
    "pmm_lock (bitmap_set s (of_nat i) False) = pmm_lock s"
    using page_update_fields [OF page_update_bitmap_set [of s "of_nat i" False]] assms(3) by simp_all
  have "load64 (mem ?s1) (frames_stack ?s1) = of_nat i" "stack_top ?s1 = 1"
    using f by (simp_all add: stack_store_def load64_store64_same)
  then have p2: "pmalloc ?s1 1 = Some (of_nat (i * 4096), ?s2)"
    using pmalloc_pop [of ?s1 i] i31 by simp
  have "first_fit ?t 1 = Some i"
    using freed_page_first_fit [OF assms(1,5,3)] assms(6) by simp
  moreover have "run_free ?s2 = run_free ?t" "total_pages ?s2 = total_pages s"
    by (simp_all add: run_free_def unlock_pmm_def fun_eq_iff stack_store_def)
  moreover have "total_pages ?t = total_pages s" by (simp add: stack_store_def)
  ultimately have ff: "first_fit ?s2 (unat (1 :: u64)) = Some i" by (simp add: first_fit_def)
  have "\<exists>s3. pmalloc ?s2 1 = Some (of_nat (i * 4096), s3)"
    using pmalloc_Some [OF _ _ _ _ ff] T by (simp add: stack_store_def) blast
  with p1 p2 show ?thesis by blast
qed

theorem pmalloc_double_allocation_witness:
  "\<exists>s1 s2 s3. pfree pmm_example 0x3000 1 = Some s1 \<and>
     pmalloc s1 1 = Some (0x3000, s2) \<and> pmalloc s2 1 = Some (0x3000, s3)"
proof -
  have "bitmap_get pmm_example (of_nat j)" if "j \<le> 3" for j using pmm_example_get [of j] that by simp
  moreover have "unat (total_pages pmm_example) = 16" by (simp add: pmm_example_def)
  ultimately show ?thesis
    using pmalloc_double_allocation [of pmm_example 3] pmm_example_ready(1) by (simp add: pmm_ready_def)
qed

end
