(* ===== verification/Kmalloc.thy ===== *)
theory Kmalloc
  imports Pmm_Proofs
begin

unbundle bit_operations_syntax

text \<open>
  \<^verbatim>\<open>kernel/src/kmalloc.c\<close>, \<^verbatim>\<open>kernel/src/kmalloc.h\<close>: the kernel heap, a first-fit free list on top of
  the page allocator. The block headers live in machine memory as the compiler lays them out:
  \<^verbatim>\<open>size\<close> at offset 0, \<^verbatim>\<open>next\<close> at 8, \<^verbatim>\<open>used\<close> at 16 and the three magic bytes \<^verbatim>\<open>KMB\<close> at 17, in a structure
  of 24 bytes. The constant \<^verbatim>\<open>BLOCK_MAGIC\<close> is copied and compared by its three bytes. \<open>None\<close> means that
  the call does not come back: the lock is held, the free list is cyclic, or \<open>kmalloc\<close> calls
  itself for ever. \<^verbatim>\<open>klog\<close> calls only print and are left out.
\<close>

abbreviation (input) BLOCK_HEADER_SIZE :: u64 where "BLOCK_HEADER_SIZE \<equiv> 24"
abbreviation (input) KMALLOC_ALIGN :: u64 where "KMALLOC_ALIGN \<equiv> 16"
abbreviation (input) KMALLOC_MIN_SIZE :: u64 where "KMALLOC_MIN_SIZE \<equiv> 16"
abbreviation (input) KMALLOC_POOL_PAGES :: u64 where "KMALLOC_POOL_PAGES \<equiv> 4"
abbreviation (input) POOL_COUNT :: nat where "POOL_COUNT \<equiv> 4"

record kmalloc_state = pmm_state +
  free_list :: u64
  heap_start :: u64
  heap_end :: u64
  kmalloc_lock :: spinlock

text \<open>The fields of a \<^verbatim>\<open>kmalloc_block_t\<close> at address \<open>b\<close>.\<close>

definition block_size :: "memory \<Rightarrow> u64 \<Rightarrow> u64" where "block_size m b = load64 m b"
definition block_next :: "memory \<Rightarrow> u64 \<Rightarrow> u64" where "block_next m b = load64 m (b + 8)"
definition block_used :: "memory \<Rightarrow> u64 \<Rightarrow> u8" where "block_used m b = m (b + 16)"
definition block_magic_ok :: "memory \<Rightarrow> u64 \<Rightarrow> bool" where
  "block_magic_ok m b \<longleftrightarrow> m (b + 17) = 0x4B \<and> m (b + 18) = 0x4D \<and> m (b + 19) = 0x42"

definition set_size :: "memory \<Rightarrow> u64 \<Rightarrow> u64 \<Rightarrow> memory" where "set_size m b v = store64 m b v"
definition set_next :: "memory \<Rightarrow> u64 \<Rightarrow> u64 \<Rightarrow> memory" where "set_next m b v = store64 m (b + 8) v"
definition set_used :: "memory \<Rightarrow> u64 \<Rightarrow> u8 \<Rightarrow> memory" where "set_used m b v = m(b + 16 := v)"
definition set_magic :: "memory \<Rightarrow> u64 \<Rightarrow> memory" where
  "set_magic m b = m(b + 17 := 0x4B, b + 18 := 0x4D, b + 19 := 0x42)"

definition lock_kmalloc :: "'a kmalloc_state_scheme \<Rightarrow> 'a kmalloc_state_scheme option" where
  "lock_kmalloc s = map_option (\<lambda>l. s\<lparr>kmalloc_lock := l\<rparr>) (spinlock_lock (kmalloc_lock s))"

definition unlock_kmalloc :: "'a kmalloc_state_scheme \<Rightarrow> 'a kmalloc_state_scheme" where
  "unlock_kmalloc s = s\<lparr>kmalloc_lock := spinlock_unlock (kmalloc_lock s)\<rparr>"

definition add_pool :: "'a kmalloc_state_scheme \<Rightarrow> 'a kmalloc_state_scheme option" where
  "add_pool s = do {
     (pool, s) \<leftarrow> pmalloc s KMALLOC_POOL_PAGES;
     if pool = NULL then Some s
     else do {
       let pool_addr = pool;
       let pool_size = KMALLOC_POOL_PAGES * PMM_PAGE_SIZE;
       let s = (if heap_start s = 0 then s\<lparr>heap_start := pool_addr, heap_end := pool_addr + pool_size\<rparr>
                else s\<lparr>heap_end := heap_end s + pool_size\<rparr>);
       let block = pool_addr;
       let m = set_size (mem s) block (pool_size - BLOCK_HEADER_SIZE);
       let m = set_next m block (free_list s);
       let m = set_used m block 0;
       let m = set_magic m block;
       Some (s\<lparr>mem := m, free_list := block\<rparr>)
     }
   }"

definition split_block :: "memory \<Rightarrow> u64 \<Rightarrow> u64 \<Rightarrow> memory" where
  "split_block m block sz =
     (if block_size m block < sz + BLOCK_HEADER_SIZE + KMALLOC_MIN_SIZE then m
      else
        let new_block = block + BLOCK_HEADER_SIZE + sz;
            m = set_size m new_block (block_size m block - sz - BLOCK_HEADER_SIZE);
            m = set_next m new_block (block_next m block);
            m = set_used m new_block 0;
            m = set_magic m new_block;
            m = set_size m block sz
        in set_next m block new_block)"

fun add_pools :: "nat \<Rightarrow> 'a kmalloc_state_scheme \<Rightarrow> 'a kmalloc_state_scheme option" where
  "add_pools 0 s = Some s"
| "add_pools (Suc n) s = do { s \<leftarrow> add_pool s; add_pools n s }"

definition kmalloc_init :: "'a kmalloc_state_scheme \<Rightarrow> 'a kmalloc_state_scheme option" where
  "kmalloc_init s = add_pools POOL_COUNT s"

text \<open>
  The loop over the free list: it stops at the first block that fits, with its predecessor
  (\<open>NULL\<close> for the first), or at \<open>cur = NULL\<close>.
\<close>

partial_function (option) find_block :: "memory \<Rightarrow> u64 \<Rightarrow> u64 \<Rightarrow> u64 \<Rightarrow> (u64 \<times> u64) option" where
  "find_block m sz prev cur =
     (if cur \<noteq> NULL then
        if block_used m cur = 0 \<and> block_size m cur \<ge> sz then Some (prev, cur)
        else find_block m sz cur (block_next m cur)
      else Some (prev, NULL))"

definition round_size :: "u64 \<Rightarrow> u64" where
  "round_size sz =
     (let sz = (sz + KMALLOC_ALIGN - 1) AND NOT (KMALLOC_ALIGN - 1)
      in if sz < KMALLOC_MIN_SIZE then KMALLOC_MIN_SIZE else sz)"

text \<open>What \<open>kmalloc\<close> does with the block it found, up to the \<^verbatim>\<open>return ptr\<close>.\<close>

definition take_block ::
  "'a kmalloc_state_scheme \<Rightarrow> u64 \<Rightarrow> u64 \<Rightarrow> u64 \<Rightarrow> u64 \<times> 'a kmalloc_state_scheme" where
  "take_block s sz prev cur =
     (if \<not> block_magic_ok (mem s) cur then (NULL, unlock_kmalloc s)
      else
        let m = split_block (mem s) cur sz;
            m = set_used m cur 1;
            s = (if prev \<noteq> NULL then s\<lparr>mem := set_next m prev (block_next m cur)\<rparr>
                 else s\<lparr>mem := m, free_list := block_next m cur\<rparr>)
        in (cur + BLOCK_HEADER_SIZE, unlock_kmalloc s))"

partial_function (option) kmalloc ::
  "'a kmalloc_state_scheme \<Rightarrow> u64 \<Rightarrow> (u64 \<times> 'a kmalloc_state_scheme) option" where
  "kmalloc s sz =
     (if sz = 0 then Some (NULL, s)
      else do {
        let sz = round_size sz;
        s \<leftarrow> lock_kmalloc s;
        (prev, cur) \<leftarrow> find_block (mem s) sz NULL (free_list s);
        if cur \<noteq> NULL then Some (take_block s sz prev cur)
        else do {
          s \<leftarrow> add_pool (unlock_kmalloc s);
          kmalloc s sz
        }
      })"

definition kcalloc :: "'a kmalloc_state_scheme \<Rightarrow> u64 \<Rightarrow> u64 \<Rightarrow> (u64 \<times> 'a kmalloc_state_scheme) option" where
  "kcalloc s nmemb sz = do {
     let total_size = nmemb * sz;
     (ptr, s) \<leftarrow> kmalloc s total_size;
     if ptr \<noteq> NULL then Some (ptr, s\<lparr>mem := memset (mem s) ptr 0 total_size\<rparr>)
     else Some (ptr, s)
   }"

text \<open>The search of \<open>kfree\<close> for the place of a block in address order.\<close>

partial_function (option) insert_place :: "memory \<Rightarrow> u64 \<Rightarrow> u64 \<Rightarrow> u64 \<Rightarrow> (u64 \<times> u64) option" where
  "insert_place m block prev cur =
     (if cur \<noteq> NULL \<and> cur < block then insert_place m block cur (block_next m cur)
      else Some (prev, cur))"

definition coalesce_next :: "memory \<Rightarrow> u64 \<Rightarrow> memory" where
  "coalesce_next m block =
     (let nx = block_next m block in
      if nx \<noteq> NULL \<and> block + BLOCK_HEADER_SIZE + block_size m block = nx then
        let m = set_size m block (block_size m block + (BLOCK_HEADER_SIZE + block_size m nx))
        in set_next m block (block_next m nx)
      else m)"

definition coalesce_prev :: "memory \<Rightarrow> u64 \<Rightarrow> u64 \<Rightarrow> memory" where
  "coalesce_prev m prev block =
     (if prev \<noteq> NULL \<and> prev + BLOCK_HEADER_SIZE + block_size m prev = block then
        let m = set_size m prev (block_size m prev + (BLOCK_HEADER_SIZE + block_size m block))
        in set_next m prev (block_next m block)
      else m)"

definition kfree :: "'a kmalloc_state_scheme \<Rightarrow> u64 \<Rightarrow> 'a kmalloc_state_scheme option" where
  "kfree s ptr =
     (if ptr = NULL then Some s
      else
        let block = ptr - BLOCK_HEADER_SIZE in
        if \<not> block_magic_ok (mem s) block then Some s
        else do {
          s \<leftarrow> lock_kmalloc s;
          if block_used (mem s) block = 0 then Some (unlock_kmalloc s)
          else do {
            let m = set_used (mem s) block 0;
            (prev, cur) \<leftarrow> insert_place m block NULL (free_list s);
            let m = set_next m block cur;
            let s = (if prev \<noteq> NULL then s\<lparr>mem := set_next m prev block\<rparr>
                     else s\<lparr>mem := m, free_list := block\<rparr>);
            let m = coalesce_next (mem s) block;
            let m = coalesce_prev m prev block;
            Some (unlock_kmalloc (s\<lparr>mem := m\<rparr>))
          }
        })"

definition krealloc :: "'a kmalloc_state_scheme \<Rightarrow> u64 \<Rightarrow> u64 \<Rightarrow> (u64 \<times> 'a kmalloc_state_scheme) option" where
  "krealloc s ptr sz =
     (if ptr = NULL then kmalloc s sz
      else if sz = 0 then do { s \<leftarrow> kfree s ptr; Some (NULL, s) }
      else
        let block = ptr - BLOCK_HEADER_SIZE in
        if \<not> block_magic_ok (mem s) block then Some (NULL, s)
        else if block_size (mem s) block \<ge> sz then Some (ptr, s)
        else do {
          (new_ptr, s) \<leftarrow> kmalloc s sz;
          if new_ptr = NULL then Some (NULL, s)
          else do {
            let s = s\<lparr>mem := memcpy (mem s) new_ptr ptr (block_size (mem s) block)\<rparr>;
            s \<leftarrow> kfree s ptr;
            Some (new_ptr, s)
          }
        })"

definition kmalloc_usable_size :: "'a kmalloc_state_scheme \<Rightarrow> u64 \<Rightarrow> u64" where
  "kmalloc_usable_size s ptr =
     (if ptr = NULL then 0
      else
        let block = ptr - BLOCK_HEADER_SIZE in
        if \<not> block_magic_ok (mem s) block then 0 else block_size (mem s) block)"

text \<open>
  \<^verbatim>\<open>kmalloc_dump\<close> counts the free blocks and their bytes; the counts are its result here, where the
  code prints them.
\<close>

partial_function (option) dump_loop :: "memory \<Rightarrow> u64 \<Rightarrow> u32 \<Rightarrow> u64 \<Rightarrow> (u32 \<times> u64) option" where
  "dump_loop m cur free_count free_total =
     (if cur \<noteq> NULL then
        if block_used m cur = 0 then
          dump_loop m (block_next m cur) (free_count + 1) (free_total + block_size m cur)
        else dump_loop m (block_next m cur) free_count free_total
      else Some (free_count, free_total))"

definition kmalloc_dump ::
  "'a kmalloc_state_scheme \<Rightarrow> ((u32 \<times> u64) \<times> 'a kmalloc_state_scheme) option" where
  "kmalloc_dump s = do {
     s \<leftarrow> lock_kmalloc s;
     r \<leftarrow> dump_loop (mem s) (free_list s) 0 0;
     Some (r, unlock_kmalloc s)
   }"

end
