(* ===== verification/Kmalloc_Proofs.thy ===== *)
theory Kmalloc_Proofs
  imports Kmalloc
begin

unbundle bit_operations_syntax

text \<open>
  Correctness of the kernel heap of \<^theory_text>\<open>Kmalloc\<close>.
  \<^item> \<open>hdr\<close> reads a block header; header writes obey the array laws for blocks that are \<open>apart\<close>.
  \<^item> \<open>heap_layout m fl fs us\<close> says that the memory holds the free list \<open>fs\<close> from \<open>fl\<close> and the blocks
    in use \<open>us\<close>, with pairwise disjoint extents; \<open>kheap\<close> adds that the blocks lie on pages taken from
    the page allocator and away from its bitmap.
  \<^item> The abstract heap is the pair of block lists: \<open>kmalloc\<close> refines \<open>alloc_first\<close>, \<open>kfree\<close> refines
    \<open>release\<close>, and neither changes the contents (\<open>block_data\<close>) of blocks in use.
  \<^item> The locale \<open>heap_allocator\<close> is the contract for clients, interpreted on \<open>kmalloc\<close> and \<open>kfree\<close>.
\<close>

subsection \<open>Block headers\<close>

definition hdr :: "memory \<Rightarrow> u64 \<Rightarrow> u64 \<times> u64 \<times> u8 \<times> bool" where
  "hdr m b = (block_size m b, block_next m b, block_used m b, block_magic_ok m b)"

definition apart :: "u64 \<Rightarrow> u64 \<Rightarrow> bool" where
  "apart a b \<longleftrightarrow> 20 \<le> a - b \<and> 20 \<le> b - a"

text \<open>\<open>hdr_writes m m' B\<close>: from \<open>m\<close> to \<open>m'\<close> only header bytes of the blocks in \<open>B\<close> changed.\<close>

definition hdr_writes :: "memory \<Rightarrow> memory \<Rightarrow> u64 set \<Rightarrow> bool" where
  "hdr_writes m m' B \<longleftrightarrow> (\<forall>x. (\<forall>b \<in> B. \<not> x - b < 20) \<longrightarrow> m' x = m x)"

named_theorems hdr_simps \<open>reading block headers back after header writes\<close>

lemma hdr_writes_refl [simp]: "hdr_writes m m B"
  by (simp add: hdr_writes_def)

lemma hdr_writes_trans: "hdr_writes m m' B \<Longrightarrow> hdr_writes m' m'' C \<Longrightarrow> B \<subseteq> D \<Longrightarrow> C \<subseteq> D \<Longrightarrow> hdr_writes m m'' D"
  unfolding hdr_writes_def by (metis subsetD)

lemma apart_sym: "apart a b \<longleftrightarrow> apart b a"
  by (auto simp: apart_def)

lemma apart_bytes: "apart a b \<Longrightarrow> i < 20 \<Longrightarrow> j < 20 \<Longrightarrow> a + i \<noteq> b + (j :: u64)"
  unfolding apart_def by unat_arith

lemma hdr_cong:
  assumes "\<And>i. i < 20 \<Longrightarrow> m' (a + i) = m (a + i)"
  shows "hdr m' a = hdr m a"
proof -
  have "load64 m' a = load64 m a"
    by (intro load64_cong assms) unat_arith
  moreover have "load64 m' (a + 8) = load64 m (a + 8)"
  proof (rule load64_cong)
    fix i :: u64 assume "i < 8"
    then have "8 + i < 20" by unat_arith
    then show "m' (a + 8 + i) = m (a + 8 + i)" using assms [of "8 + i"] by (simp add: add.assoc)
  qed
  ultimately show ?thesis
    using assms [of 16] assms [of 17] assms [of 18] assms [of 19]
    by (simp add: hdr_def block_size_def block_next_def block_used_def block_magic_ok_def)
qed

lemma hdr_writes_apart: "hdr_writes m m' B \<Longrightarrow> (\<And>b. b \<in> B \<Longrightarrow> apart a b) \<Longrightarrow> hdr m' a = hdr m a"
proof (rule hdr_cong)
  fix i :: u64 assume w: "hdr_writes m m' B" and ap: "\<And>b. b \<in> B \<Longrightarrow> apart a b" and i: "i < 20"
  have "\<not> a + i - b < 20" if "b \<in> B" for b
  proof
    assume "a + i - b < 20"
    then show False using apart_bytes [OF ap [OF that] i, of "a + i - b"] by simp
  qed
  then show "m' (a + i) = m (a + i)" using w by (simp add: hdr_writes_def)
qed

lemma not_less_8: "\<not> (x :: u64) - b < 20 \<Longrightarrow> \<not> x - b < 8" "\<not> (x :: u64) - b < 20 \<Longrightarrow> \<not> x - (b + 8) < 8"
  by unat_arith+

lemma set_writes:
  "hdr_writes m (set_size m b v) {b}" "hdr_writes m (set_next m b v) {b}"
  "hdr_writes m (set_used m b u) {b}" "hdr_writes m (set_magic m b) {b}"
  by (auto simp: hdr_writes_def set_size_def set_next_def set_used_def set_magic_def store64_other not_less_8)

lemma hdr_writes_set [intro]:
  assumes "hdr_writes m0 m D" "b \<in> D"
  shows "hdr_writes m0 (set_size m b v) D" "hdr_writes m0 (set_next m b v) D"
    "hdr_writes m0 (set_used m b u) D" "hdr_writes m0 (set_magic m b) D"
  using assms by (auto intro: hdr_writes_trans set_writes)

lemma hdr_writes_mono: "hdr_writes m m' B \<Longrightarrow> B \<subseteq> D \<Longrightarrow> hdr_writes m m' D"
  unfolding hdr_writes_def by (metis subsetD)

lemma hdr_set_same [hdr_simps]:
  "hdr (set_size m b v) b = (v, block_next m b, block_used m b, block_magic_ok m b)"
  "hdr (set_next m b v) b = (block_size m b, v, block_used m b, block_magic_ok m b)"
  "hdr (set_used m b u) b = (block_size m b, block_next m b, u, block_magic_ok m b)"
  "hdr (set_magic m b) b = (block_size m b, block_next m b, block_used m b, True)"
  by (simp_all add: hdr_def block_size_def block_next_def block_used_def block_magic_ok_def
      set_size_def set_next_def set_used_def set_magic_def store64_other load64_store64_other load64_upd_other)

lemma hdr_set_other [hdr_simps]:
  "apart a b \<Longrightarrow> hdr (set_size m b v) a = hdr m a" "apart a b \<Longrightarrow> hdr (set_next m b v) a = hdr m a"
  "apart a b \<Longrightarrow> hdr (set_used m b u) a = hdr m a" "apart a b \<Longrightarrow> hdr (set_magic m b) a = hdr m a"
  by (rule hdr_writes_apart, rule set_writes, simp)+

lemma hdr_fields: "hdr m b = (sz, nx, u, k) \<Longrightarrow>
    block_size m b = sz \<and> block_next m b = nx \<and> block_used m b = u \<and> block_magic_ok m b = k"
  by (simp add: hdr_def)

lemma field_hdr:
  "block_size m b = fst (hdr m b)" "block_next m b = fst (snd (hdr m b))"
  "block_used m b = fst (snd (snd (hdr m b)))" "block_magic_ok m b = snd (snd (snd (hdr m b)))"
  by (simp_all add: hdr_def)

subsection \<open>Blocks and the free list\<close>

type_synonym block = "u64 \<times> u64"

definition extent :: "block \<Rightarrow> nat set" where
  "extent b = {unat (fst b)..<unat (fst b) + 24 + unat (snd b)}"

definition block_valid :: "block \<Rightarrow> bool" where
  "block_valid b \<longleftrightarrow> fst b \<noteq> 0 \<and> unat (fst b) + 24 + unat (snd b) \<le> 2 ^ 43"

lemma extent_apart:
  assumes "block_valid a" "block_valid b" "extent a \<inter> extent b = {}"
  shows "apart (fst a) (fst b)"
proof -
  have "unat (fst a) \<notin> extent b" "unat (fst b) \<notin> extent a"
    using assms(3) by (auto simp: extent_def)
  then have "unat (fst a) + 24 \<le> unat (fst b) \<or> unat (fst b) + 24 \<le> unat (fst a)"
    by (auto simp: extent_def)
  then show ?thesis using assms(1,2) unfolding apart_def block_valid_def
    by (auto simp: word_le_nat_alt unat_sub_if')
qed

fun first_or :: "u64 list \<Rightarrow> u64 \<Rightarrow> u64" where
  "first_or [] e = e"
| "first_or (x # xs) e = x"

fun seg :: "memory \<Rightarrow> u64 list \<Rightarrow> u64 \<Rightarrow> bool" where
  "seg m [] e = True"
| "seg m (x # xs) e = (x \<noteq> 0 \<and> block_next m x = first_or xs e \<and> seg m xs e)"

lemma first_or_append: "first_or (xs @ ys) e = first_or xs (first_or ys e)"
  by (cases xs) auto

lemma seg_append: "seg m (xs @ ys) e \<longleftrightarrow> seg m xs (first_or ys e) \<and> seg m ys e"
  by (induction xs) (auto simp: first_or_append)

lemma seg_cong: "(\<And>x. x \<in> set xs \<Longrightarrow> block_next m' x = block_next m x) \<Longrightarrow> seg m' xs e = seg m xs e"
  by (induction xs) auto

lemma seg_snoc: "seg m (xs @ [l]) e \<longleftrightarrow> seg m xs l \<and> l \<noteq> 0 \<and> block_next m l = e"
  by (auto simp: seg_append)

lemma seg_last:
  assumes "seg m (xs @ [l]) e" "\<And>x. x \<in> set xs \<Longrightarrow> apart x l"
  shows "seg (set_next m l e') (xs @ [l]) e'"
proof -
  have "block_next (set_next m l e') x = block_next m x" if "x \<in> set xs" for x
    using assms(2) [OF that] by (simp add: field_hdr hdr_simps)
  then have "seg (set_next m l e') xs l = seg m xs l" by (rule seg_cong)
  then show ?thesis using assms(1) by (simp add: seg_snoc field_hdr hdr_simps)
qed

definition last_or :: "u64 list \<Rightarrow> u64 \<Rightarrow> u64" where
  "last_or xs p = (if xs = [] then p else last xs)"

lemma find_block_seg:
  fixes sz :: u64
  assumes "seg m xs 0"
  defines "miss \<equiv> \<lambda>b. \<not> (block_used m b = 0 \<and> sz \<le> block_size m b)"
  shows "find_block m sz prev (first_or xs 0) =
    Some (last_or (takeWhile miss xs) prev, first_or (dropWhile miss xs) 0)"
  using assms(1)
proof (induction xs arbitrary: prev)
  case Nil
  then show ?case by (simp add: find_block.simps last_or_def)
next
  case (Cons x xs)
  then show ?case
    by (subst find_block.simps) (auto simp: last_or_def miss_def)
qed

lemma insert_place_seg:
  assumes "seg m xs 0"
  shows "insert_place m b prev (first_or xs 0) =
    Some (last_or (takeWhile (\<lambda>x. x < b) xs) prev, first_or (dropWhile (\<lambda>x. x < b) xs) 0)"
  using assms
proof (induction xs arbitrary: prev)
  case Nil
  then show ?case by (simp add: insert_place.simps last_or_def)
next
  case (Cons x xs)
  then show ?case by (subst insert_place.simps) (auto simp: last_or_def)
qed

definition heap_layout :: "memory \<Rightarrow> u64 \<Rightarrow> block list \<Rightarrow> block list \<Rightarrow> bool" where
  "heap_layout m fl fs us \<longleftrightarrow>
     fl = first_or (map fst fs) 0 \<and> seg m (map fst fs) 0 \<and>
     (\<forall>b \<in> set fs. \<exists>nx. hdr m (fst b) = (snd b, nx, 0, True)) \<and>
     (\<forall>b \<in> set us. \<exists>nx. hdr m (fst b) = (snd b, nx, 1, True)) \<and>
     (\<forall>b \<in> set (fs @ us). block_valid b) \<and>
     sorted_wrt (\<lambda>x y. extent x \<inter> extent y = {}) (fs @ us)"

subsection \<open>Taking a block\<close>

text \<open>What is left of a block after \<open>sz\<close> bytes were taken from it, and the block that is handed out.\<close>

definition remainder :: "u64 \<Rightarrow> block \<Rightarrow> block list" where
  "remainder sz b = (if unat (snd b) < unat sz + 40 then [] else [(fst b + 24 + sz, snd b - sz - 24)])"

definition taken :: "u64 \<Rightarrow> block \<Rightarrow> block" where
  "taken sz b = (if unat (snd b) < unat sz + 40 then b else (fst b, sz))"

lemma unat_block_parts:
  assumes "block_valid (a, n)" "unat sz + 40 \<le> unat n"
  shows "unat (a + 24 + sz) = unat a + 24 + unat sz" "unat (n - sz - 24) = unat n - unat sz - 24"
  using assms by (simp_all add: block_valid_def unat_plus_if' unat_sub_if')

lemma taken_extents:
  assumes "block_valid b" "sz \<le> snd b"
  shows "block_valid (taken sz b)" "\<And>r. r \<in> set (remainder sz b) \<Longrightarrow> block_valid r"
    "extent (taken sz b) \<union> (\<Union>r \<in> set (remainder sz b). extent r) = extent b"
    "\<And>r. r \<in> set (remainder sz b) \<Longrightarrow> extent (taken sz b) \<inter> extent r = {}"
    "fst (taken sz b) = fst b" "sz \<le> snd (taken sz b)"
proof -
  obtain a n where b: "b = (a, n)" by (cases b)
  have v: "a \<noteq> 0" "unat a + 24 + unat n \<le> 2 ^ 43" using assms(1) by (simp_all add: b block_valid_def)
  have "block_valid (taken sz b) \<and> (\<forall>r \<in> set (remainder sz b). block_valid r) \<and>
    extent (taken sz b) \<union> (\<Union>r \<in> set (remainder sz b). extent r) = extent b \<and>
    (\<forall>r \<in> set (remainder sz b). extent (taken sz b) \<inter> extent r = {})"
  proof (cases "unat n < unat sz + 40")
    case True
    then show ?thesis using assms by (simp add: b taken_def remainder_def)
  next
    case False
    note p = unat_block_parts [OF assms(1) [unfolded b], of sz]
    have "a + 24 + sz \<noteq> 0" using p(1) False by (auto simp: word_unat_eq_iff)
    then show ?thesis using False p v by (auto simp: b taken_def remainder_def block_valid_def extent_def)
  qed
  then show "block_valid (taken sz b)" "\<And>r. r \<in> set (remainder sz b) \<Longrightarrow> block_valid r"
    "extent (taken sz b) \<union> (\<Union>r \<in> set (remainder sz b). extent r) = extent b"
    "\<And>r. r \<in> set (remainder sz b) \<Longrightarrow> extent (taken sz b) \<inter> extent r = {}" by blast+
  show "fst (taken sz b) = fst b" "sz \<le> snd (taken sz b)" using assms(2) by (auto simp: taken_def)
qed

lemma split_block_hdr:
  assumes v: "block_valid (a, n)" and h: "hdr m a = (n, nx, u, True)" and sz: "sz \<le> n"
  defines "m' \<equiv> split_block m a sz"
  shows "hdr m' a = (snd (taken sz (a, n)), first_or (map fst (remainder sz (a, n))) nx, u, True)"
    "\<And>r. r \<in> set (remainder sz (a, n)) \<Longrightarrow> hdr m' (fst r) = (snd r, nx, 0, True)"
    "hdr_writes m m' (insert a (fst ` set (remainder sz (a, n))))"
proof -
  note f = hdr_fields [OF h]
  have "unat (sz + 24 + 16) = unat sz + 40"
    using v sz by (simp add: block_valid_def word_le_nat_alt unat_plus_if')
  then have c: "n < sz + 24 + 16 \<longleftrightarrow> unat n < unat sz + 40" by (simp only: word_less_nat_alt)
  have "hdr m' a = (snd (taken sz (a, n)), first_or (map fst (remainder sz (a, n))) nx, u, True) \<and>
    (\<forall>r \<in> set (remainder sz (a, n)). hdr m' (fst r) = (snd r, nx, 0, True)) \<and>
    hdr_writes m m' (insert a (fst ` set (remainder sz (a, n))))"
  proof (cases "unat n < unat sz + 40")
    case True
    then have "m' = m" using f c by (simp add: m'_def split_block_def)
    then show ?thesis using True h by (simp add: taken_def remainder_def)
  next
    case False
    let ?nb = "a + 24 + sz"
    let ?m1 = "set_size m ?nb (n - sz - 24)"
    let ?m2 = "set_next ?m1 ?nb nx"
    let ?m3 = "set_magic (set_used ?m2 ?nb 0) ?nb"
    have "unat ?nb = unat a + 24 + unat sz" using unat_block_parts(1) [OF v] False by simp
    then have ap: "apart a ?nb" "apart ?nb a"
      using v False unat_u64_less [of sz] unfolding apart_def block_valid_def
      by (auto simp: word_le_nat_alt unat_sub_if' unat_plus_if')
    have h1: "hdr ?m1 a = (n, nx, u, True)" using ap h by (simp add: hdr_simps)
    have m': "m' = set_next (set_size ?m3 a sz) a ?nb"
      using False f c hdr_fields [OF h1] by (simp add: m'_def split_block_def Let_def)
    have h3: "hdr ?m3 a = (n, nx, u, True)" using ap h by (simp add: hdr_simps)
    have n3: "hdr ?m3 ?nb = (n - sz - 24, nx, 0, True)" by (simp add: hdr_simps field_hdr)
    have "hdr m' a = (sz, ?nb, u, True)" using h3 unfolding m' by (simp add: hdr_simps field_hdr)
    moreover have "hdr m' ?nb = (n - sz - 24, nx, 0, True)" using n3 ap unfolding m' by (simp add: hdr_simps)
    moreover have "hdr_writes m m' {a, ?nb}" unfolding m' by (intro hdr_writes_set hdr_writes_refl) simp_all
    ultimately show ?thesis using False by (simp add: taken_def remainder_def)
  qed
  then show "hdr m' a = (snd (taken sz (a, n)), first_or (map fst (remainder sz (a, n))) nx, u, True)"
    "\<And>r. r \<in> set (remainder sz (a, n)) \<Longrightarrow> hdr m' (fst r) = (snd r, nx, 0, True)"
    "hdr_writes m m' (insert a (fst ` set (remainder sz (a, n))))" by blast+
qed

text \<open>Linking a predecessor (or the list head) to what follows.\<close>

definition relink :: "memory \<Rightarrow> u64 \<Rightarrow> u64 \<Rightarrow> u64 \<Rightarrow> memory \<times> u64" where
  "relink m fl p x = (if p \<noteq> 0 then (set_next m p x, fl) else (m, x))"

lemma seg_relink:
  assumes "seg m xs e" "fl = first_or xs fl" "seg m zs 0" "sorted_wrt apart (xs @ zs)"
  defines "r \<equiv> relink m fl (last_or xs 0) (first_or zs 0)"
  shows "seg (fst r) (xs @ zs) 0" "snd r = first_or (xs @ zs) 0"
proof -
  have "seg (fst r) (xs @ zs) 0 \<and> snd r = first_or (xs @ zs) 0"
  proof (cases xs rule: rev_exhaust)
    case Nil
    then show ?thesis using assms by (simp add: relink_def last_or_def)
  next
    case (snoc ws l)
    let ?m = "set_next m l (first_or zs 0)"
    have p: "last_or xs 0 = l" "l \<noteq> 0" using assms(1) by (simp_all add: snoc last_or_def seg_append)
    have "seg ?m (ws @ [l]) (first_or zs 0)"
      using assms(1,4) unfolding snoc by (intro seg_last) (auto simp: seg_append sorted_wrt_append)
    moreover have "seg ?m zs 0 = seg m zs 0"
    proof (rule seg_cong)
      fix z assume "z \<in> set zs"
      then have "apart l z" using assms(4) unfolding snoc sorted_wrt_append by auto
      then have "apart z l" by (subst apart_sym)
      then show "block_next ?m z = block_next m z" by (simp add: field_hdr hdr_simps)
    qed
    ultimately show ?thesis
      using assms(2,3) p by (cases ws) (simp_all add: snoc r_def relink_def seg_append first_or_append)
  qed
  then show "seg (fst r) (xs @ zs) 0" "snd r = first_or (xs @ zs) 0" by blast+
qed

lemma hdr_relink:
  assumes "hdr m a = (n, nx, u, True)" "a \<noteq> p \<Longrightarrow> apart a p"
  shows "\<exists>nx. hdr (fst (relink m fl p x)) a = (n, nx, u, True)"
proof (cases "a = p")
  case True
  then show ?thesis using assms(1) by (auto simp: relink_def hdr_simps field_hdr)
qed (use assms in \<open>auto simp: relink_def hdr_simps\<close>)

lemma relink_writes: "hdr_writes m (fst (relink m fl p x)) {b. b = p \<and> p \<noteq> 0}"
  by (simp add: relink_def) (metis Collect_conv_if insert_compr set_writes(2) singleton_conv)

lemma take_block_relink:
  fixes sz p :: u64
  assumes "block_magic_ok (mem s) a"
  defines "m1 \<equiv> set_used (split_block (mem s) a sz) a 1"
  defines "r \<equiv> relink m1 (free_list s) p (block_next m1 a)"
  shows "take_block s sz p a = (a + 24, unlock_kmalloc (s\<lparr>mem := fst r, free_list := snd r\<rparr>))"
  using assms(1) by (simp add: take_block_def Let_def r_def m1_def relink_def)

abbreviation disjoint_blocks :: "block list \<Rightarrow> bool" where
  "disjoint_blocks \<equiv> sorted_wrt (\<lambda>x y. extent x \<inter> extent y = {})"

lemma disjoint_apart:
  assumes "disjoint_blocks bs" "\<forall>b \<in> set bs. block_valid b"
  shows "sorted_wrt apart (map fst bs)"
  using assms by (induction bs) (auto intro: extent_apart)

lemma disjoint_blocksD:
  "disjoint_blocks bs \<Longrightarrow> b \<in> set bs \<Longrightarrow> c \<in> set bs \<Longrightarrow> b \<noteq> c \<Longrightarrow> extent b \<inter> extent c = {}"
  by (induction bs) (auto simp: Int_commute)

lemma layout_parts:
  assumes "heap_layout m fl (xs @ (a, n) # ys) us"
  shows "fl = first_or (map fst xs @ a # map fst ys) 0" "seg m (map fst xs @ a # map fst ys) 0"
    "\<exists>nx. hdr m a = (n, nx, 0, True)" "block_valid (a, n)"
    "\<And>b. b \<in> set (xs @ ys) \<Longrightarrow> \<exists>nx. hdr m (fst b) = (snd b, nx, 0, True)"
    "\<And>b. b \<in> set us \<Longrightarrow> \<exists>nx. hdr m (fst b) = (snd b, nx, 1, True)"
    "\<And>b. b \<in> set (xs @ ys @ us) \<Longrightarrow> block_valid b"
    "\<And>b. b \<in> set (xs @ ys @ us) \<Longrightarrow> extent b \<inter> extent (a, n) = {}"
    "disjoint_blocks (xs @ ys @ us)"
  using assms unfolding heap_layout_def by (auto simp: sorted_wrt_append)

lemma relink_layout:
  assumes "seg m (map fst xs) e" "fl = first_or (map fst xs) fl" "seg m (map fst zs) 0"
    and fs: "\<And>b. b \<in> set (xs @ zs) \<Longrightarrow> \<exists>nx. hdr m (fst b) = (snd b, nx, 0, True)"
    and us: "\<And>b. b \<in> set us \<Longrightarrow> \<exists>nx. hdr m (fst b) = (snd b, nx, 1, True)"
    and v: "\<And>b. b \<in> set (xs @ zs @ us) \<Longrightarrow> block_valid b" and d: "disjoint_blocks (xs @ zs @ us)"
  defines "r \<equiv> relink m fl (last_or (map fst xs) 0) (first_or (map fst zs) 0)"
  shows "heap_layout (fst r) (snd r) (xs @ zs) us" "hdr_writes m (fst r) (fst ` set xs)"
proof -
  let ?p = "last_or (map fst xs) 0"
  have ap: "sorted_wrt apart (map fst (xs @ zs @ us))" using disjoint_apart [OF d] v by blast
  have sg: "seg (fst r) (map fst (xs @ zs)) 0" "snd r = first_or (map fst (xs @ zs)) 0"
    using seg_relink [OF assms(1-3)] ap unfolding r_def by (simp_all add: sorted_wrt_append)
  have x: "?p \<noteq> 0 \<Longrightarrow> \<exists>x \<in> set xs. ?p = fst x"
    by (cases xs rule: rev_exhaust) (auto simp: last_or_def)
  have ne: "apart (fst b) ?p" if b: "b \<in> set (xs @ zs @ us)" "fst b \<noteq> ?p" "?p \<noteq> 0" for b
  proof -
    from x [OF b(3)] obtain c where c: "c \<in> set xs" "?p = fst c" by blast
    from b(1,2) c have "extent b \<inter> extent c = {}" by (intro disjoint_blocksD [OF d]) auto
    then show ?thesis using v [OF b(1)] v [of c] c by (simp add: extent_apart)
  qed
  have H: "\<exists>nx. hdr (fst r) (fst b) = (k, nx, u, True)"
    if "b \<in> set (xs @ zs @ us)" "hdr m (fst b) = (k, nx, u, True)" for b k nx u
  proof (cases "?p = 0")
    case True
    then show ?thesis using that(2) unfolding r_def relink_def by simp
  next
    case False
    then show ?thesis using hdr_relink [OF that(2)] ne [OF that(1)] unfolding r_def by blast
  qed
  show "heap_layout (fst r) (snd r) (xs @ zs) us"
    unfolding heap_layout_def
  proof (intro conjI ballI)
    show "seg (fst r) (map fst (xs @ zs)) 0" "snd r = first_or (map fst (xs @ zs)) 0" using sg by auto
    show "\<exists>nx. hdr (fst r) (fst b) = (snd b, nx, 0, True)" if "b \<in> set (xs @ zs)" for b
      using fs [OF that] H [of b] that by auto
    show "\<exists>nx. hdr (fst r) (fst b) = (snd b, nx, 1, True)" if "b \<in> set us" for b
      using us [OF that] H [of b] that by auto
  qed (use v d in auto)
  show "hdr_writes m (fst r) (fst ` set xs)"
    using x unfolding r_def by (intro hdr_writes_mono [OF relink_writes]) auto
qed

lemma extent_nonempty: "extent b \<noteq> {}"
  by (simp add: extent_def)

text \<open>
  Taking a block: the header writes of \<open>kmalloc\<close> turn a heap with the free blocks
  \<open>xs @ (a, n) # ys\<close> into one in which the block is in use and its remainder, if any, is free in
  its place.
\<close>

lemma take_layout:
  assumes L: "heap_layout m fl (xs @ (a, n) # ys) us" and sz: "sz \<le> n"
  defines "m1 \<equiv> set_used (split_block m a sz) a 1"
  defines "r \<equiv> relink m1 fl (last_or (map fst xs) 0) (block_next m1 a)"
  shows "heap_layout (fst r) (snd r) (xs @ remainder sz (a, n) @ ys) (taken sz (a, n) # us)"
    "hdr_writes m (fst r) (fst ` set (xs @ (a, n) # remainder sz (a, n)))"
proof -
  note P = layout_parts [OF L]
  let ?R = "remainder sz (a, n)" and ?p = "last_or (map fst xs) 0" and ?T = "taken sz (a, n)"
  obtain nx where h: "hdr m a = (n, nx, 0, True)" using P(3) by blast
  have nx: "nx = first_or (map fst ys) 0" using P(2) h by (auto simp: seg_append field_hdr)
  note S = split_block_hdr [OF P(4) h sz] and E = taken_extents [OF P(4), simplified, OF sz]
  have exT: "extent ?T \<subseteq> extent (a, n)" using E(3) by blast
  have exR: "extent q \<subseteq> extent (a, n)" if "q \<in> set ?R" for q using E(3) that by blast
  have vR: "\<And>q. q \<in> set ?R \<Longrightarrow> block_valid q" using E(2) .
  \<comment> \<open>other blocks are apart from everything that is written\<close>
  have ap: "apart (fst b) (fst q)" if "b \<in> set (xs @ ys @ us)" "q \<in> set ((a, n) # ?R)" for b q
  proof (rule extent_apart)
    show "block_valid b" using P(7) that by blast
    show "block_valid q" using P(4) vR [of q] that(2) by (cases "q = (a, n)") simp_all
    show "extent b \<inter> extent q = {}" using P(8) [OF that(1)] that(2) exR by fastforce
  qed
  have apR: "apart (fst q) a" "apart a (fst q)" if "q \<in> set ?R" for q
  proof -
    have "apart (fst ?T) (fst q)" using E(1,4) vR that by (intro extent_apart) auto
    then show "apart (fst q) a" "apart a (fst q)" using E(5) by (simp_all add: apart_sym)
  qed
  \<comment> \<open>the headers after the split\<close>
  have w1: "hdr_writes m m1 (fst ` set ((a, n) # ?R))"
    unfolding m1_def by (rule hdr_writes_trans [OF S(3) set_writes(3)]) auto
  have o1: "hdr m1 (fst b) = hdr m (fst b)" if "b \<in> set (xs @ ys @ us)" for b
    using ap [OF that] by (intro hdr_writes_apart [OF w1]) blast
  have a1: "hdr m1 a = (snd ?T, first_or (map fst ?R) nx, 1, True)"
    using S(1) unfolding m1_def by (simp add: hdr_simps field_hdr)
  have r1: "hdr m1 (fst q) = (snd q, nx, 0, True)" if "q \<in> set ?R" for q
    using S(2) [OF that] apR [OF that] unfolding m1_def by (simp add: hdr_simps)
  have bn: "block_next m1 a = first_or (map fst (?R @ ys)) 0"
    using a1 nx by (simp add: field_hdr first_or_append)
  \<comment> \<open>relinking\<close>
  have sg: "seg m1 (map fst zs) e = seg m (map fst zs) e" if "set zs \<subseteq> set (xs @ ys)" for zs e
  proof (rule seg_cong)
    fix z assume "z \<in> set (map fst zs)"
    then obtain b where "b \<in> set zs" "z = fst b" by auto
    then show "block_next m1 z = block_next m z" using o1 [of b] that by (auto simp: field_hdr)
  qed
  have sx: "seg m1 (map fst xs) a" and sy: "seg m1 (map fst ys) 0"
    using P(2) sg [of xs] sg [of ys] by (auto simp: seg_append)
  have "seg m1 (map fst (?R @ ys)) 0"
    using sy r1 E(2) nx by (auto simp: remainder_def block_valid_def field_hdr)
  moreover have "fl = first_or (map fst xs) fl" using P(1) by (simp add: first_or_append) (cases xs; simp)
  moreover have "\<exists>nx. hdr m1 (fst b) = (snd b, nx, 0, True)" if "b \<in> set (xs @ ?R @ ys)" for b
    using that r1 [of b] o1 [of b] P(5) [of b] by auto
  moreover have "\<exists>nx. hdr m1 (fst b) = (snd b, nx, 1, True)" if "b \<in> set (?T # us)" for b
    using that a1 E(5) o1 [of b] P(6) [of b] by auto
  moreover have "block_valid b" if "b \<in> set (xs @ (?R @ ys) @ ?T # us)" for b
    using that E(1) vR [of b] P(7) [of b] by auto
  moreover have "disjoint_blocks (xs @ (?R @ ys) @ ?T # us)"
  proof -
    have "disjoint_blocks ?R" by (simp add: remainder_def)
    moreover have "\<forall>b \<in> set xs \<union> set ys \<union> set us. \<forall>q \<in> insert ?T (set ?R).
        extent b \<inter> extent q = {} \<and> extent q \<inter> extent b = {}"
      using P(8) exT exR by fastforce
    moreover have "\<forall>q \<in> set ?R. extent q \<inter> extent ?T = {}" using E(4) by blast
    ultimately show ?thesis using P(9) unfolding sorted_wrt_append set_append list.set sorted_wrt.simps by blast
  qed
  ultimately have "heap_layout (fst r) (snd r) (xs @ ?R @ ys) (?T # us)" and w2: "hdr_writes m1 (fst r) (fst ` set xs)"
    using relink_layout [OF sx, of fl "?R @ ys" "?T # us"] unfolding r_def bn by blast+
  then show "heap_layout (fst r) (snd r) (xs @ remainder sz (a, n) @ ys) (taken sz (a, n) # us)" by simp
  show "hdr_writes m (fst r) (fst ` set (xs @ (a, n) # remainder sz (a, n)))"
    by (rule hdr_writes_trans [OF w1 w2]) auto
qed

subsection \<open>The heap on top of the page allocator\<close>

text \<open>
  The bytes of the page bitmap, and the invariant of the heap: the blocks are laid out in memory,
  lie on pages that the page allocator has given away and keep clear of its bitmap, which in turn
  lies on no free page.
\<close>

definition pmm_meta :: "'a pmm_state_scheme \<Rightarrow> nat set" where
  "pmm_meta s = (\<lambda>pg. unat (bitmap s + drop_bit 3 (of_nat pg))) ` {..<max 1 (unat (total_pages s))}"

definition in_use :: "'a pmm_state_scheme \<Rightarrow> block list \<Rightarrow> bool" where
  "in_use s bs \<longleftrightarrow> (\<forall>b \<in> set bs. \<forall>x \<in> extent b. x div 4096 \<notin> free_set s \<and> x \<notin> pmm_meta s)"

definition pmm_private :: "'a pmm_state_scheme \<Rightarrow> bool" where
  "pmm_private s \<longleftrightarrow> (\<forall>x \<in> pmm_meta s. x div 4096 \<notin> free_set s)"

definition kheap :: "'a kmalloc_state_scheme \<Rightarrow> block list \<Rightarrow> block list \<Rightarrow> bool" where
  "kheap s fs us \<longleftrightarrow> heap_layout (mem s) (free_list s) fs us \<and> \<not> held (kmalloc_lock s) \<and>
     pmm_ready s \<and> pmm_private s \<and> in_use s (fs @ us)"

definition block_data :: "memory \<Rightarrow> block \<Rightarrow> u8 list" where
  "block_data m b = map (\<lambda>k. m (fst b + 24 + of_nat k)) [0..<unat (snd b)]"

lemma block_byte: "block_valid b \<Longrightarrow> k < 24 + unat (snd b) \<Longrightarrow> unat (fst b + of_nat k) = unat (fst b) + k"
  by (intro unat_plus_of_nat) (simp add: block_valid_def)

lemma hdr_byte_extent:
  assumes "block_valid b" "(x :: u64) - fst b < 20"
  shows "unat x \<in> extent b"
proof -
  have "unat (x - fst b) < 20" using assms(2) by (simp add: word_less_nat_alt)
  then have "unat (fst b + of_nat (unat (x - fst b))) = unat (fst b) + unat (x - fst b)"
    using assms(1) by (intro block_byte) simp_all
  then have "unat x = unat (fst b) + unat (x - fst b)" by simp
  then show ?thesis using \<open>unat (x - fst b) < 20\<close> by (simp add: extent_def)
qed

lemma hdr_writes_extent:
  assumes "hdr_writes m m' (fst ` set bs)" "\<forall>b \<in> set bs. block_valid b" "unat x \<notin> (\<Union>b \<in> set bs. extent b)"
  shows "m' x = m x"
proof -
  have "\<not> x - fst b < 20" if "b \<in> set bs" for b
    using hdr_byte_extent [of b x] assms(2,3) that by blast
  then show ?thesis using assms(1) unfolding hdr_writes_def by blast
qed

lemma block_data_writes:
  assumes w: "hdr_writes m m' (fst ` set bs)" and v: "\<forall>b \<in> set bs. block_valid b" "block_valid u"
    and d: "\<forall>b \<in> set bs. fst b = fst u \<or> extent b \<inter> extent u = {}"
  shows "block_data m' u = block_data m u"
proof -
  have "m' (fst u + 24 + of_nat k) = m (fst u + 24 + of_nat k)" if k: "k < unat (snd u)" for k
  proof -
    let ?x = "fst u + of_nat (24 + k)"
    have ux: "unat ?x = unat (fst u) + (24 + k)" using block_byte [OF v(2)] k by (metis nat_add_left_cancel_less)
    have "\<not> ?x - fst b < 20" if b: "b \<in> set bs" for b
    proof
      assume lt: "?x - fst b < 20"
      show False
      proof (cases "fst b = fst u")
        case True
        have "unat (of_nat (24 + k) :: u64) = 24 + k"
          using v(2) k by (intro unat_of_nat64) (simp add: block_valid_def)
        then show False using lt True by (simp add: word_less_nat_alt)
      next
        case False
        then have "unat ?x \<in> extent b" using hdr_byte_extent [OF _ lt] v(1) b by blast
        moreover have "unat ?x \<in> extent u" using ux k by (simp add: extent_def)
        ultimately show False using d b False by blast
      qed
    qed
    then have "m' ?x = m ?x" using w unfolding hdr_writes_def by blast
    then show ?thesis by (simp add: add.assoc)
  qed
  then show ?thesis by (simp add: block_data_def)
qed

lemma extent_hdr_bytes:
  assumes "block_valid b" "\<And>x. unat x \<in> extent b \<Longrightarrow> m' x = m x"
  shows "hdr m' (fst b) = hdr m (fst b)"
proof (rule hdr_cong)
  fix i :: u64 assume "i < 20"
  then have "unat (fst b + i) \<in> extent b" using assms(1) by (intro hdr_byte_extent) simp_all
  then show "m' (fst b + i) = m (fst b + i)" by (rule assms(2))
qed

lemma heap_layout_cong:
  assumes L: "heap_layout m fl fs us" and eq: "\<And>x b. b \<in> set (fs @ us) \<Longrightarrow> unat x \<in> extent b \<Longrightarrow> m' x = m x"
  shows "heap_layout m' fl fs us"
proof -
  have h: "hdr m' (fst b) = hdr m (fst b)" if "b \<in> set (fs @ us)" for b
    using L eq [OF that] that by (intro extent_hdr_bytes) (auto simp: heap_layout_def)
  have "seg m' (map fst fs) 0 = seg m (map fst fs) 0"
  proof (rule seg_cong)
    fix z assume "z \<in> set (map fst fs)"
    then obtain b where "b \<in> set fs" "z = fst b" by auto
    then show "block_next m' z = block_next m z" using h [of b] by (simp add: field_hdr)
  qed
  then show ?thesis using L h unfolding heap_layout_def by simp
qed

text \<open>Changing bytes inside the blocks does not disturb the page allocator.\<close>

lemma bitmap_get_frame:
  assumes "pg < max 1 (unat (total_pages s))" "\<And>x. unat x \<in> pmm_meta s \<Longrightarrow> m' x = mem s x"
  shows "bitmap_get (s\<lparr>mem := m'\<rparr>) (of_nat pg) = bitmap_get s (of_nat pg)"
proof -
  have "unat (bitmap s + drop_bit 3 (of_nat pg)) \<in> pmm_meta s" using assms(1) unfolding pmm_meta_def by blast
  then show ?thesis using assms(2) by (simp add: bitmap_get_bit)
qed

lemma pmm_frame:
  assumes "\<And>x. unat x \<in> pmm_meta s \<Longrightarrow> m' x = mem s x"
  shows "free_set (s\<lparr>mem := m'\<rparr>) = free_set s" "pmm_ready (s\<lparr>mem := m'\<rparr>) = pmm_ready s"
    "pmm_meta (s\<lparr>mem := m'\<rparr>) = pmm_meta s"
  using bitmap_get_frame [of _ s m'] bitmap_get_frame [of 0 s m'] assms
  by (auto simp: free_set_def pmm_ready_def pmm_wf_def pmm_meta_def)

lemma kmalloc_fields [simp]:
  fixes s :: "'a kmalloc_state_scheme"
  shows "free_set (s\<lparr>free_list := p\<rparr>) = free_set s" "free_set (s\<lparr>kmalloc_lock := l\<rparr>) = free_set s"
    "free_set (s\<lparr>heap_start := p\<rparr>) = free_set s" "free_set (s\<lparr>heap_end := p\<rparr>) = free_set s"
    "pmm_ready (s\<lparr>free_list := p\<rparr>) = pmm_ready s" "pmm_ready (s\<lparr>kmalloc_lock := l\<rparr>) = pmm_ready s"
    "pmm_ready (s\<lparr>heap_start := p\<rparr>) = pmm_ready s" "pmm_ready (s\<lparr>heap_end := p\<rparr>) = pmm_ready s"
    "pmm_meta (s\<lparr>free_list := p\<rparr>) = pmm_meta s" "pmm_meta (s\<lparr>kmalloc_lock := l\<rparr>) = pmm_meta s"
    "pmm_meta (s\<lparr>heap_start := p\<rparr>) = pmm_meta s" "pmm_meta (s\<lparr>heap_end := p\<rparr>) = pmm_meta s"
  by (simp_all add: free_set_def pmm_ready_def pmm_wf_def pmm_meta_def bitmap_get_bit)

lemma kheap_step:
  assumes K: "kheap s fs us" and L: "heap_layout m' fl fs' us'" and "\<not> held l"
    and fr: "\<And>x. unat x \<notin> (\<Union>b \<in> set (fs @ us). extent b) \<Longrightarrow> m' x = mem s x"
    and sub: "(\<Union>b \<in> set (fs' @ us'). extent b) \<subseteq> (\<Union>b \<in> set (fs @ us). extent b)"
  shows "kheap (s\<lparr>mem := m', free_list := fl, kmalloc_lock := l\<rparr>) fs' us'"
    "free_set (s\<lparr>mem := m', free_list := fl, kmalloc_lock := l\<rparr>) = free_set s"
proof -
  let ?t = "s\<lparr>mem := m', free_list := fl, kmalloc_lock := l\<rparr>"
  have "m' x = mem s x" if "unat x \<in> pmm_meta s" for x
    using K that by (intro fr) (auto simp: kheap_def in_use_def)
  note p = pmm_frame [OF this]
  show "free_set ?t = free_set s" using p by simp
  have "in_use ?t (fs' @ us')"
    unfolding in_use_def
  proof (intro ballI)
    fix b x assume "b \<in> set (fs' @ us')" "x \<in> extent b"
    then obtain c where "c \<in> set (fs @ us)" "x \<in> extent c" using sub by blast
    then show "x div 4096 \<notin> free_set ?t \<and> x \<notin> pmm_meta ?t"
      using K p unfolding kheap_def in_use_def by simp
  qed
  then show "kheap ?t fs' us'"
    using K L assms(3) p by (simp add: kheap_def pmm_private_def)
qed

lemma layout_valid: "heap_layout m fl fs us \<Longrightarrow> b \<in> set (fs @ us) \<Longrightarrow> block_valid b"
  by (simp add: heap_layout_def)

lemma lock_kmalloc_free [simp]:
  "\<not> held (kmalloc_lock s) \<Longrightarrow>
     lock_kmalloc s = Some (s\<lparr>kmalloc_lock := (kmalloc_lock s)\<lparr>lock := lock (kmalloc_lock s) OR 1\<rparr>\<rparr>)"
  by (simp add: lock_kmalloc_def)

lemma lock_kmalloc_held [simp]: "held (kmalloc_lock s) \<Longrightarrow> lock_kmalloc s = None"
  by (simp add: lock_kmalloc_def)

lemma unlock_kmalloc_lock [simp]:
  "unlock_kmalloc (s\<lparr>kmalloc_lock := l\<lparr>lock := b\<rparr>\<rparr>) = s\<lparr>kmalloc_lock := spinlock_unlock l\<rparr>"
  by (simp add: unlock_kmalloc_def)

text \<open>The specification of the search: the first free block of at least \<open>sz\<close> bytes.\<close>

definition fit :: "u64 \<Rightarrow> block \<Rightarrow> bool" where
  "fit sz b \<longleftrightarrow> sz \<le> snd b"

lemma find_block_layout:
  assumes L: "heap_layout m fl fs us"
  shows "find_block m sz 0 fl =
    Some (last_or (map fst (takeWhile (\<lambda>b. \<not> fit sz b) fs)) 0,
          first_or (map fst (dropWhile (\<lambda>b. \<not> fit sz b) fs)) 0)"
proof -
  let ?miss = "\<lambda>b. \<not> (block_used m b = 0 \<and> sz \<le> block_size m b)"
  have e: "?miss (fst b) = (\<not> fit sz b)" if "b \<in> set fs" for b
  proof -
    from L that obtain nx where "hdr m (fst b) = (snd b, nx, 0, True)" unfolding heap_layout_def by blast
    from hdr_fields [OF this] show ?thesis by (simp add: fit_def)
  qed
  have "takeWhile ?miss (map fst fs) = map fst (takeWhile (\<lambda>b. \<not> fit sz b) fs)"
    "dropWhile ?miss (map fst fs) = map fst (dropWhile (\<lambda>b. \<not> fit sz b) fs)"
    unfolding takeWhile_map dropWhile_map
    using e by (simp_all cong: takeWhile_cong dropWhile_cong)
  moreover have "seg m (map fst fs) 0" "fl = first_or (map fst fs) 0" using L by (simp_all add: heap_layout_def)
  ultimately show ?thesis using find_block_seg [of m "map fst fs" sz 0] by simp
qed

lemma layout_not_NULL: "heap_layout m fl fs us \<Longrightarrow> b \<in> set (fs @ us) \<Longrightarrow> fst b \<noteq> 0"
  by (auto simp: heap_layout_def block_valid_def)

text \<open>\<open>kmalloc\<close> when some free block fits.\<close>

lemma kmalloc_found:
  assumes K: "kheap s (xs @ b # ys) us" and "sz \<noteq> 0"
    and miss: "\<forall>x \<in> set xs. \<not> fit (round_size sz) x" and hit: "fit (round_size sz) b"
  defines "q \<equiv> round_size sz"
  shows "\<exists>t. kmalloc s sz = Some (fst b + 24, t) \<and>
    kheap t (xs @ remainder q b @ ys) (taken q b # us) \<and> free_set t = free_set s \<and>
    (\<forall>u \<in> set us. block_data (mem t) u = block_data (mem s) u)"
proof -
  obtain a n where b: "b = (a, n)" by (cases b)
  let ?l = "(kmalloc_lock s)\<lparr>lock := lock (kmalloc_lock s) OR 1\<rparr>"
  let ?s = "s\<lparr>kmalloc_lock := ?l\<rparr>" and ?p = "last_or (map fst xs) 0"
  let ?m1 = "set_used (split_block (mem s) a q) a 1"
  let ?r = "relink ?m1 (free_list s) ?p (block_next ?m1 a)"
  let ?t = "s\<lparr>mem := fst ?r, free_list := snd ?r, kmalloc_lock := spinlock_unlock (kmalloc_lock s)\<rparr>"
  have L: "heap_layout (mem s) (free_list s) (xs @ (a, n) # ys) us" using K by (simp add: kheap_def b)
  have qn: "q \<le> n" using hit by (simp add: fit_def b q_def)
  note T = take_layout [OF L qn] and P = layout_parts [OF L]
  note E = taken_extents [OF P(4), simplified, OF qn]
  have "takeWhile (\<lambda>b. \<not> fit q b) (xs @ b # ys) = xs" "dropWhile (\<lambda>b. \<not> fit q b) (xs @ b # ys) = b # ys"
    using miss hit by (auto simp: q_def takeWhile_append dropWhile_append takeWhile_eq_all_conv)
  then have f: "find_block (mem s) q 0 (free_list s) = Some (?p, a)"
    using find_block_layout [OF L, of q] by (simp add: b)
  have mg: "block_magic_ok (mem s) a" using P(3) by (auto simp: field_hdr)
  have a0: "a \<noteq> 0" using P(4) by (simp add: block_valid_def)
  have k: "kmalloc s sz = Some (a + 24, ?t)"
    using K f a0 assms(2) take_block_relink [of ?s a q ?p] mg
    by (subst kmalloc.simps) (simp add: kheap_def q_def unlock_kmalloc_def Let_def)
  let ?B = "xs @ (a, n) # remainder q (a, n)"
  have vB: "\<forall>c \<in> set ?B. block_valid c" using P(4,7) E(2) by auto
  have R: "(\<Union>c \<in> set (remainder q (a, n)). extent c) \<subseteq> extent (a, n)" using E(3) by blast
  have fr: "fst ?r x = mem s x" if "unat x \<notin> (\<Union>c \<in> set ((xs @ (a, n) # ys) @ us). extent c)" for x
    using hdr_writes_extent [OF T(2) vB, of x] that R by auto
  have "kheap ?t (xs @ remainder q (a, n) @ ys) (taken q (a, n) # us) \<and> free_set ?t = free_set s"
    using E(3) by (intro conjI kheap_step [OF K [unfolded b] T(1) _ fr]) auto
  moreover have "block_data (fst ?r) u = block_data (mem s) u" if u: "u \<in> set us" for u
  proof (rule block_data_writes [OF T(2) vB])
    show "block_valid u" using P(7) u by auto
    show "\<forall>c \<in> set ?B. fst c = fst u \<or> extent c \<inter> extent u = {}"
      using P(8) [of u] P(9) u R by (fastforce simp: sorted_wrt_append)
  qed
  ultimately show ?thesis unfolding b using k by (intro exI [of _ ?t]) simp
qed

text \<open>A new pool.\<close>

lemma page_update_heap:
  assumes "page_update s (t :: 'a kmalloc_state_scheme) Q v"
  shows "free_list t = free_list s" "kmalloc_lock t = kmalloc_lock s" "heap_start t = heap_start s" "heap_end t = heap_end s"
  using assms unfolding page_update_def by (cases s; cases t; auto)+

lemma pmalloc_meta:
  assumes u: "page_update (unlock_pmm s) t {of_nat i..<of_nat i + pages} v"
    and le: "i + unat pages \<le> unat (total_pages s)" "unat (total_pages s) < 2 ^ 31" and x: "unat x \<notin> pmm_meta s"
  shows "mem t x = mem s x"
proof -
  have "mem t x = mem (unlock_pmm s) x"
  proof (rule page_update_mem [OF u])
    fix q assume q: "q \<in> {of_nat i..<of_nat i + pages}"
    then have "unat q < unat (total_pages s)"
      using le by (auto simp: word_le_nat_alt word_less_nat_alt unat_plus_if' unat_of_nat64 split: if_splits)
    then have "unat (bitmap s + drop_bit 3 (of_nat (unat q))) \<in> pmm_meta s"
      unfolding pmm_meta_def by (intro imageI) simp
    then show "x \<noteq> bitmap (unlock_pmm s) + drop_bit 3 q" using x by auto
  qed
  then show ?thesis by simp
qed

abbreviation (input) pool_bytes :: u64 where "pool_bytes \<equiv> 16384"

definition pool_block :: "nat \<Rightarrow> block" where
  "pool_block i = (of_nat (i * 4096), pool_bytes - 24)"

lemma pool_block_valid:
  assumes "0 < i" "i + 4 \<le> T" "T < 2 ^ 31"
  shows "block_valid (pool_block i)" "extent (pool_block i) = {i * 4096..<i * 4096 + 16384}"
    "\<And>x. x \<in> extent (pool_block i) \<Longrightarrow> x div 4096 \<in> {i..<i + 4}"
proof -
  have i31: "i < 2 ^ 31" using assms by simp
  show e: "extent (pool_block i) = {i * 4096..<i * 4096 + 16384}"
  proof -
    have u: "unat (pool_bytes - 24) = 16360" by simp
    show ?thesis
      unfolding extent_def pool_block_def fst_conv snd_conv unat_page_addr [OF i31] u
      by (rule arg_cong [where f = "\<lambda>x. {i * 4096..<x}"]) linarith
  qed
  show "block_valid (pool_block i)"
    using assms block_addr_not_NULL [OF assms(1) i31]
    unfolding block_valid_def pool_block_def fst_conv snd_conv unat_page_addr [OF i31] by simp
  show "x div 4096 \<in> {i..<i + 4}" if "x \<in> extent (pool_block i)" for x
    using that unfolding e by (auto simp: div_less_iff_less_mult less_eq_div_iff_mult_less_eq)
qed

lemma add_pool_step:
  assumes K: "kheap s fs us"
  shows "(first_fit s 4 = None \<and> add_pool s = Some (unlock_pmm s)) \<or>
    (\<exists>i t. first_fit s 4 = Some i \<and> add_pool s = Some t \<and> kheap t (pool_block i # fs) us \<and>
      free_set t = free_set s - {i..<i + 4} \<and> (\<forall>u \<in> set us. block_data (mem t) u = block_data (mem s) u))"
proof -
  have rd: "pmm_ready s" and L: "heap_layout (mem s) (free_list s) fs us" using K by (simp_all add: kheap_def)
  note T = pmm_ready_total [OF rd]
  have "(4 :: u64) \<noteq> 0" by simp
  from pmalloc_ready [OF rd this] show ?thesis
  proof (elim disjE exE conjE)
    fix i t assume i: "first_fit s (unat (4 :: u64)) = Some i" "0 < i" and p: "pmalloc s 4 = Some (of_nat (i * 4096), t)"
      and u: "page_update (unlock_pmm s) t {of_nat i..<of_nat i + 4} True"
      and le: "i + unat (4 :: u64) \<le> unat (total_pages s)" and sub: "{i..<i + unat (4 :: u64)} \<subseteq> free_set s"
      and ft: "free_set t = free_set s - {i..<i + unat (4 :: u64)}" and rt: "pmm_ready t"
    let ?a = "of_nat (i * 4096) :: u64" and ?b = "pool_block i"
    let ?m = "set_magic (set_used (set_next (set_size (mem t) ?a (16384 - 24)) ?a (free_list t)) ?a 0) ?a"
    have "i + 4 \<le> unat (total_pages s)" using le by simp
    note V = pool_block_valid [OF i(2) this T]
    have a: "fst ?b = ?a" by (simp add: pool_block_def)
    have free: "x div 4096 \<in> free_set s" if "x \<in> extent ?b" for x using V(3) [OF that] sub by auto
    have mt: "pmm_meta t = pmm_meta s" using page_update_fields [OF u] by (simp add: pmm_meta_def)
    \<comment> \<open>the pages come from the free set, so the pool is clear of the blocks and of the bitmap\<close>
    have dj: "extent ?b \<inter> extent c = {}" if "c \<in> set (fs @ us)" for c
      using free K that unfolding kheap_def in_use_def by blast
    have pv: "x \<notin> pmm_meta s" if "x \<in> extent ?b" for x
      using free [OF that] K unfolding kheap_def pmm_private_def by blast
    have ap: "apart (fst c) ?a" if "c \<in> set (fs @ us)" for c
      using extent_apart [OF layout_valid [OF L that] V(1)] dj [OF that] a by (simp add: Int_commute)
    have w: "hdr_writes (mem t) ?m (fst ` set [?b])" unfolding a [symmetric]
      by (intro hdr_writes_set hdr_writes_refl) simp_all
    have fl: "free_list t = free_list s" "kmalloc_lock t = kmalloc_lock s"
      using page_update_heap [OF u] by (simp_all add: unlock_pmm_def)
    have ms: "?m x = mem s x" if "unat x \<notin> pmm_meta s" "unat x \<notin> extent ?b" for x
      using hdr_writes_extent [OF w, of x] pmalloc_meta [OF u le T that(1)] V(1) that(2) by simp
    have clear: "x \<notin> pmm_meta s" "x \<notin> extent ?b" if "c \<in> set (fs @ us)" "x \<in> extent c" for c x
      using K dj [OF that(1)] that unfolding kheap_def in_use_def by blast+
    have Lm: "heap_layout ?m (free_list s) fs us"
      by (rule heap_layout_cong [OF L]) (rule ms [OF clear])
    have hb: "hdr ?m ?a = (16384 - 24, free_list s, 0, True)"
      by (simp add: hdr_simps field_hdr fl)
    have L': "heap_layout ?m ?a (?b # fs) us"
      using Lm hb V(1) dj unfolding heap_layout_def by (auto simp: pool_block_def field_hdr block_valid_def)
    have mm: "?m x = mem t x" if "unat x \<in> pmm_meta t" for x
      using hdr_writes_extent [OF w, of x] V(1) pv that mt by auto
    have F: "free_set (t\<lparr>mem := ?m\<rparr>) = free_set t" "pmm_ready (t\<lparr>mem := ?m\<rparr>) = pmm_ready t"
      "pmm_meta (t\<lparr>mem := ?m\<rparr>) = pmm_meta t"
      by (rule pmm_frame, erule mm)+
    let ?t = "(if heap_start t = 0 then t\<lparr>heap_start := ?a, heap_end := ?a + 16384\<rparr>
                else t\<lparr>heap_end := heap_end t + 16384\<rparr>)\<lparr>mem := ?m, free_list := ?a\<rparr>"
    have ad: "add_pool s = Some ?t"
      using p block_addr_not_NULL [OF i(2)] le T by (simp add: add_pool_def Let_def del: of_nat_mult)
    have eq: "free_set ?t = free_set (t\<lparr>mem := ?m\<rparr>)" "pmm_meta ?t = pmm_meta (t\<lparr>mem := ?m\<rparr>)"
      "pmm_ready ?t = pmm_ready (t\<lparr>mem := ?m\<rparr>)" "mem ?t = ?m" "free_list ?t = ?a" "kmalloc_lock ?t = kmalloc_lock t"
      by (simp_all add: free_set_def pmm_meta_def pmm_ready_def pmm_wf_def bitmap_get_bit)
    have G: "free_set ?t = free_set s - {i..<i + 4}" "pmm_meta ?t = pmm_meta s" "pmm_ready ?t"
      unfolding eq F mt ft using rt by simp_all
    have "in_use ?t (?b # fs @ us)"
      unfolding in_use_def G using K V(3) pv unfolding kheap_def in_use_def by auto
    moreover have "pmm_private ?t" unfolding pmm_private_def G using K by (simp add: kheap_def pmm_private_def)
    ultimately have "kheap ?t (?b # fs) us"
      unfolding kheap_def eq(4-6) using K L' G(3) fl by (simp add: kheap_def del: of_nat_mult)
    moreover have "block_data ?m c = block_data (mem s) c" if "c \<in> set us" for c
    proof -
      have "?m (fst c + of_nat (24 + k)) = mem s (fst c + of_nat (24 + k))" if "k < unat (snd c)" for k
      proof -
        have "unat (fst c + of_nat (24 + k)) = unat (fst c) + (24 + k)"
          using layout_valid [OF L, of c] \<open>c \<in> set us\<close> that by (intro block_byte) auto
        then have "unat (fst c + of_nat (24 + k)) \<in> extent c" using that by (simp add: extent_def)
        then show ?thesis using \<open>c \<in> set us\<close> by (intro ms clear [of c]) auto
      qed
      then show ?thesis by (simp add: block_data_def add.assoc)
    qed
    ultimately show ?thesis using i(1) ad G(1) eq(4) by auto
  qed (simp add: add_pool_def)
qed

subsection \<open>Allocation\<close>

lemma unat_and_not_15: "unat ((x :: u64) AND NOT 15) = unat x div 16 * 16"
proof -
  have m: "(15 :: u64) = mask 4" by (simp add: mask_eq_exp_minus_1)
  have "x AND NOT 15 = push_bit 4 (drop_bit 4 x)"
    unfolding m by (rule bit_word_eqI) (auto simp: bit_simps not_less)
  moreover have "unat (push_bit 4 (drop_bit 4 x)) = unat x div 16 * 16"
  proof -
    have d: "unat (drop_bit 4 x) = unat x div 16" by (simp add: drop_bit_eq_div unat_div)
    have "unat x div 16 * 16 < 2 ^ 64" using unat_u64_less [of x] div_times_less_eq_dividend [of "unat x" 16] by linarith
    then show ?thesis using d by (simp add: push_bit_eq_mult unat_word_ariths(2))
  qed
  ultimately show ?thesis by simp
qed

lemma unat_round_size:
  "unat sz \<le> 2 ^ 64 - 16 \<Longrightarrow> unat (round_size sz) = max 16 ((unat sz + 15) div 16 * 16)"
proof -
  assume le: "unat sz \<le> 2 ^ 64 - 16"
  have "unat (sz + 16 - 1) = unat sz + 15" using le by (simp add: unat_plus_if')
  then have "unat ((sz + 16 - 1) AND NOT (16 - 1)) = (unat sz + 15) div 16 * 16"
    using unat_and_not_15 [of "sz + 16 - 1"] by (simp del: add_diff_eq)
  then show ?thesis unfolding round_size_def Let_def by (auto simp: word_less_nat_alt max_def simp del: add_diff_eq)
qed

lemma round_size_wraps: "2 ^ 64 - 16 < unat sz \<Longrightarrow> round_size sz = 16"
proof -
  assume gt: "2 ^ 64 - 16 < unat sz"
  have "unat (15 + sz) = unat sz + 15 - 2 ^ 64" using gt unat_u64_less [of sz] by (simp add: unat_plus_if')
  then have "unat (15 + sz) < 16" using unat_u64_less [of sz] by linarith
  then have "unat ((15 + sz) AND NOT 15) = 0" unfolding unat_and_not_15 by simp
  then have "(15 + sz) AND NOT 15 = 0" by (simp add: unat_eq_zero)
  then show ?thesis by (simp add: round_size_def Let_def)
qed

lemma round_size_neq_0: "round_size sz \<noteq> 0"
  by (auto simp: round_size_def Let_def)

lemma round_size_ge: "unat sz \<le> 2 ^ 64 - 16 \<Longrightarrow> sz \<le> round_size sz"
proof -
  assume le: "unat sz \<le> 2 ^ 64 - 16"
  have "unat sz \<le> (unat sz + 15) div 16 * 16" by linarith
  then show ?thesis using unat_round_size [OF le] by (simp add: word_le_nat_alt)
qed

lemma round_size_idem: "round_size (round_size sz) = round_size sz"
proof (cases "unat sz \<le> 2 ^ 64 - 16")
  case True
  let ?k = "(unat sz + 15) div 16"
  have k: "?k * 16 \<le> 2 ^ 64 - 16 \<and> 1 \<le> ?k \<or> unat sz = 0"
  proof (cases "unat sz = 0")
    case False
    have "?k \<le> (2 ^ 64 - 16 + 15) div 16" using True by (intro div_le_mono) simp
    then show ?thesis using False by simp
  qed simp
  then have "unat (round_size sz) \<le> 2 ^ 64 - 16" and d: "\<exists>j. unat (round_size sz) = 16 * j \<and> 1 \<le> j"
    using unat_round_size [OF True] by (auto simp: max_def)
  moreover have "max 16 ((16 * j + 15) div 16 * 16) = 16 * j" if "1 \<le> j" for j :: nat
    using that by simp
  ultimately have "unat (round_size (round_size sz)) = unat (round_size sz)"
    using unat_round_size [of "round_size sz"] by force
  then show ?thesis by (simp only: word_unat_eq_iff)
next
  case False
  then have "round_size sz = 16" by (intro round_size_wraps) simp
  then show ?thesis by (simp add: round_size_def)
qed

text \<open>First fit on the list of free blocks: the block that is handed out and the blocks left.\<close>

fun alloc_first :: "u64 \<Rightarrow> block list \<Rightarrow> (block \<times> block list) option" where
  "alloc_first q [] = None"
| "alloc_first q (b # bs) =
     (if fit q b then Some (taken q b, remainder q b @ bs)
      else map_option (\<lambda>(t, r). (t, b # r)) (alloc_first q bs))"

lemma alloc_first_None: "alloc_first q bs = None \<longleftrightarrow> (\<forall>b \<in> set bs. \<not> fit q b)"
  by (induction bs) auto

lemma alloc_first_Some:
  "alloc_first q bs = Some (t, r) \<Longrightarrow>
     \<exists>xs b ys. bs = xs @ b # ys \<and> (\<forall>x \<in> set xs. \<not> fit q x) \<and> fit q b \<and> t = taken q b \<and> r = xs @ remainder q b @ ys"
proof (induction bs arbitrary: r)
  case (Cons c bs)
  show ?case
  proof (cases "fit q c")
    case True
    then show ?thesis using Cons.prems by (intro exI [of _ "[]"]) auto
  next
    case False
    then obtain r' where "alloc_first q bs = Some (t, r')" "r = c # r'" using Cons.prems by auto
    with Cons.IH [of r'] obtain xs b ys where "bs = xs @ b # ys" "\<forall>x \<in> set xs. \<not> fit q x" "fit q b"
      "t = taken q b" "r = (c # xs) @ remainder q b @ ys" by auto
    with False show ?thesis by (intro exI [of _ "c # xs"] exI [of _ b] exI [of _ ys]) auto
  qed
qed simp

lemma kmalloc_fits:
  assumes K: "kheap s fs us" and "sz \<noteq> 0" and a: "alloc_first (round_size sz) fs = Some (b, fs')"
  shows "\<exists>t. kmalloc s sz = Some (fst b + 24, t) \<and> kheap t fs' (b # us) \<and> free_set t = free_set s \<and>
    (\<forall>u \<in> set us. block_data (mem t) u = block_data (mem s) u)"
proof -
  from alloc_first_Some [OF a] obtain xs c ys where fs: "fs = xs @ c # ys" "\<forall>x \<in> set xs. \<not> fit (round_size sz) x"
    "fit (round_size sz) c" and b: "b = taken (round_size sz) c" "fs' = xs @ remainder (round_size sz) c @ ys" by blast
  have "fst b = fst c" by (simp add: b taken_def)
  then show ?thesis using kmalloc_found [OF K [unfolded fs(1)] assms(2) fs(2,3)] by (simp add: b)
qed

lemma kmalloc_unlock [simp]: "kmalloc_lock (unlock_pmm s) = kmalloc_lock (s :: 'a kmalloc_state_scheme)"
  "free_list (unlock_pmm s) = free_list s"
  by (simp_all add: unlock_pmm_def)

lemma kheap_unlock:
  assumes "kheap s fs us"
  shows "kheap (s\<lparr>kmalloc_lock := spinlock_unlock l\<rparr>) fs us" "kheap (unlock_pmm s) fs us"
  using assms by (auto simp: kheap_def pmm_private_def in_use_def pmm_meta_def pmm_ready_unlock)

lemma find_block_none:
  assumes "heap_layout m fl fs us" "alloc_first q fs = None"
  shows "\<exists>p. find_block m q 0 fl = Some (p, 0)"
proof -
  have d: "dropWhile (\<lambda>b. \<not> fit q b) fs = []" using assms(2) by (simp add: alloc_first_None)
  show ?thesis unfolding find_block_layout [OF assms(1)] d by simp
qed

lemma kmalloc_grows:
  assumes K: "kheap s fs us" and z: "sz \<noteq> 0" and none: "alloc_first (round_size sz) fs = None"
  defines "s' \<equiv> s\<lparr>kmalloc_lock := spinlock_unlock (kmalloc_lock s)\<rparr>"
  shows "kmalloc s sz = do { t \<leftarrow> add_pool s'; kmalloc t (round_size sz) }"
proof -
  have L: "heap_layout (mem s) (free_list s) fs us" using K by (simp add: kheap_def)
  from find_block_none [OF L none] show ?thesis using K z unfolding s'_def
    by (subst kmalloc.simps) (auto simp: kheap_def Let_def)
qed

lemma fit_pool: "fit q (pool_block i) \<longleftrightarrow> unat q \<le> 16360"
  by (simp add: fit_def pool_block_def word_le_nat_alt)

lemma run_free_kmalloc_lock:
  "run_free ((s :: 'a kmalloc_state_scheme)\<lparr>kmalloc_lock := l\<rparr>) = run_free s"
  by (simp add: run_free_def fun_eq_iff bitmap_get_bit)

lemma first_fit_kmalloc_lock [simp]:
  "first_fit ((s :: 'a kmalloc_state_scheme)\<lparr>kmalloc_lock := l\<rparr>) = first_fit s"
  by (simp add: first_fit_def fun_eq_iff run_free_kmalloc_lock)

lemma first_fit_unlock [simp]: "first_fit (unlock_pmm s) = first_fit s"
  by (simp add: unlock_pmm_def)

lemma kmalloc_pool:
  assumes K: "kheap s fs us" and z: "sz \<noteq> 0" and none: "alloc_first (round_size sz) fs = None"
    and i: "first_fit s 4 = Some i" and q: "unat (round_size sz) \<le> 16360"
  shows "\<exists>t. kmalloc s sz = Some (fst (pool_block i) + 24, t) \<and>
     kheap t (remainder (round_size sz) (pool_block i) @ fs) (taken (round_size sz) (pool_block i) # us) \<and>
     free_set t = free_set s - {i..<i + 4} \<and> (\<forall>u \<in> set us. block_data (mem t) u = block_data (mem s) u)"
proof -
  let ?s = "s\<lparr>kmalloc_lock := spinlock_unlock (kmalloc_lock s)\<rparr>" and ?q = "round_size sz" and ?b = "pool_block i"
  from add_pool_step [OF kheap_unlock(1) [OF K], of "kmalloc_lock s"] i obtain t where
    t: "add_pool ?s = Some t" "kheap t (?b # fs) us" "free_set t = free_set s - {i..<i + 4}"
    "\<forall>u \<in> set us. block_data (mem t) u = block_data (mem s) u" by auto
  have "alloc_first (round_size ?q) (?b # fs) = Some (taken ?q ?b, remainder ?q ?b @ fs)"
    using q by (simp add: round_size_idem fit_pool)
  from kmalloc_fits [OF t(2) round_size_neq_0 this] obtain u where
    "kmalloc t ?q = Some (fst (taken ?q ?b) + 24, u)" "kheap u (remainder ?q ?b @ fs) (taken ?q ?b # us)"
    "free_set u = free_set t" "\<forall>c \<in> set us. block_data (mem u) c = block_data (mem t) c" by blast
  moreover have "fst (taken ?q ?b) = fst ?b" by (simp add: taken_def)
  ultimately show ?thesis using kmalloc_grows [OF K z none] t by simp
qed

text \<open>
  When nothing fits and no pool can help, \<open>kmalloc\<close> calls itself for ever.
\<close>

definition kmalloc_stuck :: "'a kmalloc_state_scheme \<Rightarrow> u64 \<Rightarrow> bool" where
  "kmalloc_stuck s q \<longleftrightarrow> (\<exists>fs us. kheap s fs us \<and> alloc_first q fs = None \<and>
     (first_fit s 4 = None \<or> 16360 < unat q))"

lemma add_pool_stuck:
  assumes "kmalloc_stuck s q" "add_pool (s\<lparr>kmalloc_lock := spinlock_unlock l\<rparr>) = Some t"
  shows "kmalloc_stuck t q"
proof -
  let ?s = "s\<lparr>kmalloc_lock := spinlock_unlock l\<rparr>"
  from assms(1) obtain fs us where K: "kheap s fs us" and n: "alloc_first q fs = None"
    and c: "first_fit s 4 = None \<or> 16360 < unat q" unfolding kmalloc_stuck_def by blast
  from add_pool_step [OF kheap_unlock(1) [OF K], of l] show ?thesis
  proof (elim disjE exE conjE)
    assume "first_fit ?s 4 = None" "add_pool ?s = Some (unlock_pmm ?s)"
    then show ?thesis
      using assms(2) n kheap_unlock(2) [OF kheap_unlock(1) [OF K], of l] unfolding kmalloc_stuck_def by auto
  next
    fix i u assume "first_fit ?s 4 = Some i" "add_pool ?s = Some u" "kheap u (pool_block i # fs) us"
    then show ?thesis using assms(2) n c fit_pool [of q i] unfolding kmalloc_stuck_def
      by (intro exI [of _ "pool_block i # fs"] exI [of _ us]) (auto simp: alloc_first_None)
  qed
qed

lemma kmalloc_stuck_None:
  assumes "kmalloc_stuck s (round_size sz)" "sz \<noteq> 0"
  shows "kmalloc s sz = None"
proof (rule ccontr)
  assume "kmalloc s sz \<noteq> None"
  then obtain r where "kmalloc s sz = Some r" by blast
  then have "sz \<noteq> 0 \<longrightarrow> \<not> kmalloc_stuck s (round_size sz)"
  proof (rule kmalloc.raw_induct [of "\<lambda>s sz r. sz \<noteq> 0 \<longrightarrow> \<not> kmalloc_stuck s (round_size sz)", rotated], goal_cases)
    case (1 rec s sz r)
    show ?case
    proof (intro impI notI)
      assume z: "sz \<noteq> 0" and st: "kmalloc_stuck s (round_size sz)"
      then obtain fs us where K: "kheap s fs us" and n: "alloc_first (round_size sz) fs = None"
        unfolding kmalloc_stuck_def by blast
      have L: "heap_layout (mem s) (free_list s) fs us" using K by (simp add: kheap_def)
      from find_block_none [OF L n] obtain t where "add_pool (s\<lparr>kmalloc_lock := spinlock_unlock (kmalloc_lock s)\<rparr>) = Some t"
        "rec t (round_size sz) = Some r"
        using "1"(2) K z by (auto simp: kheap_def Let_def bind_eq_Some_conv)
      then show False
        using "1"(1) [of t "round_size sz" r] add_pool_stuck [OF st] by (simp add: round_size_idem round_size_neq_0)
    qed
  qed
  with assms show False by blast
qed

subsection \<open>Freeing\<close>

text \<open>A block and the list of free blocks behind it, joined when they touch.\<close>

fun join_next :: "block \<Rightarrow> block list \<Rightarrow> block list" where
  "join_next b [] = [b]"
| "join_next b (c # ys) =
     (if fst b + 24 + snd b = fst c then (fst b, snd b + (24 + snd c)) # ys else b # c # ys)"

definition release :: "block \<Rightarrow> block list \<Rightarrow> block list" where
  "release b fs =
     (let xs = takeWhile (\<lambda>x. fst x < fst b) fs;
          zs = join_next b (dropWhile (\<lambda>x. fst x < fst b) fs)
      in if xs = [] then zs else butlast xs @ join_next (last xs) zs)"

lemma join_extent:
  assumes "block_valid b" "block_valid c" "fst b + 24 + snd b = fst c"
  defines "j \<equiv> (fst b, snd b + (24 + snd c))"
  shows "block_valid j" "extent j = extent b \<union> extent c"
proof -
  have c: "unat (fst c) = unat (fst b) + 24 + unat (snd b)"
    unfolding assms(3) [symmetric] using assms(1) by (simp add: block_valid_def unat_plus_if')
  have "unat (snd b + (24 + snd c)) = unat (snd b) + (24 + unat (snd c))"
    using assms(1,2) c by (simp add: block_valid_def unat_plus_if')
  then show "block_valid j" "extent j = extent b \<union> extent c"
    using assms(1,2) c by (auto simp: block_valid_def extent_def j_def)
qed

lemma coalesce_next_layout:
  assumes L: "heap_layout m fl (xs @ b # ys) us"
  shows "heap_layout (coalesce_next m (fst b)) fl (xs @ join_next b ys) us"
    "hdr_writes m (coalesce_next m (fst b)) {fst b}"
proof -
  obtain a n where b: "b = (a, n)" by (cases b)
  note P = layout_parts [OF L [unfolded b]]
  obtain nx where h: "hdr m a = (n, nx, 0, True)" using P(3) by blast
  have nx: "block_next m a = first_or (map fst ys) 0" using P(2) by (simp add: seg_append)
  have sz: "block_size m a = n" using hdr_fields [OF h] by simp
  have "heap_layout (coalesce_next m a) fl (xs @ join_next (a, n) ys) us \<and> hdr_writes m (coalesce_next m a) {a}"
  proof (cases "ys \<noteq> [] \<and> a + 24 + n = fst (hd ys)")
    case False
    then have "coalesce_next m a = m" and "join_next (a, n) ys = (a, n) # ys"
      using nx sz by (cases ys, simp_all add: coalesce_next_def)+
    then show ?thesis using L b by simp
  next
    case True
    then obtain c k zs where ys: "ys = (c, k) # zs" and c: "a + 24 + n = c" by (cases ys) auto
    let ?m = "set_size m a (n + (24 + k))" and ?j = "(a, n + (24 + k))"
    have vc: "block_valid (c, k)" and c0: "c \<noteq> 0" using P(7) [of "(c, k)"] by (auto simp: ys block_valid_def)
    have hc: "\<exists>y. hdr m c = (k, y, 0, True)" using P(5) [of "(c, k)"] by (simp add: ys)
    have ap: "apart (fst q) a" if "q \<in> set (xs @ ys @ us)" for q
      using extent_apart [OF P(7) [OF that] P(4) P(8) [OF that]] by simp
    have apc: "apart c a" using ap [of "(c, k)"] by (simp add: ys)
    have nc: "block_next m c = first_or (map fst zs) 0" using P(2) by (simp add: seg_append ys)
    have "hdr ?m c = hdr m c" using apc by (simp add: hdr_simps)
    then have nc': "block_next ?m c = first_or (map fst zs) 0" using nc by (simp add: field_hdr)
    have kc: "block_size m c = k" using hc by (auto simp: field_hdr)
    have m': "coalesce_next m a = set_next ?m a (first_or (map fst zs) 0)"
      using nx sz nc' kc c c0 by (simp add: coalesce_next_def ys Let_def)
    let ?m' = "set_next ?m a (first_or (map fst zs) 0)"
    have ha: "hdr ?m' a = (n + (24 + k), first_or (map fst zs) 0, 0, True)"
      using h by (simp add: hdr_simps field_hdr)
    have ho: "hdr ?m' (fst q) = hdr m (fst q)" if "q \<in> set (xs @ ys @ us)" for q
      using ap [OF that] by (simp add: hdr_simps)
    have sg: "seg ?m' (map fst qs) e = seg m (map fst qs) e" if "set qs \<subseteq> set (xs @ ys @ us)" for qs e
    proof (rule seg_cong)
      fix z assume "z \<in> set (map fst qs)"
      then obtain q where "q \<in> set qs" "z = fst q" by auto
      then show "block_next ?m' z = block_next m z" using ho [of q] that by (auto simp: field_hdr)
    qed
    have a0: "a \<noteq> 0" using P(4) by (simp add: block_valid_def)
    have s1: "seg ?m' (map fst xs) a" "seg ?m' (map fst zs) 0"
      using P(2) sg [of xs] sg [of zs] by (auto simp: seg_append ys)
    note J = join_extent [OF P(4) vc, simplified, OF c]
    have "heap_layout ?m' fl (xs @ ?j # zs) us"
      unfolding heap_layout_def
    proof (intro conjI ballI)
      show "fl = first_or (map fst (xs @ ?j # zs)) 0" using P(1) by (cases xs) simp_all
      show "seg ?m' (map fst (xs @ ?j # zs)) 0" using s1 ha a0 by (simp add: seg_append field_hdr)
      show "\<exists>y. hdr ?m' (fst q) = (snd q, y, 0, True)" if "q \<in> set (xs @ ?j # zs)" for q
        using that ha ho [of q] P(5) [of q] by (auto simp: ys)
      show "\<exists>y. hdr ?m' (fst q) = (snd q, y, 1, True)" if "q \<in> set us" for q
        using that ho [of q] P(6) [of q] by auto
      show "block_valid q" if "q \<in> set ((xs @ ?j # zs) @ us)" for q
        using that J(1) P(7) [of q] by (auto simp: ys)
      have "\<forall>q \<in> set xs \<union> set zs \<union> set us. extent q \<inter> extent ?j = {} \<and> extent ?j \<inter> extent q = {}"
      proof -
        have "\<forall>q \<in> set xs \<union> set zs \<union> set us. extent q \<inter> extent (c, k) = {}"
          using P(9) unfolding ys sorted_wrt_append set_append list.set sorted_wrt.simps by blast
        moreover have "\<forall>q \<in> set xs \<union> set zs \<union> set us. extent q \<inter> extent (a, n) = {}"
          using P(8) unfolding ys by simp
        ultimately show ?thesis unfolding J(2) by blast
      qed
      then show "disjoint_blocks ((xs @ ?j # zs) @ us)"
        using P(9) unfolding ys sorted_wrt_append set_append list.set sorted_wrt.simps by blast
    qed
    moreover have "hdr_writes m ?m' {a}" by (intro hdr_writes_set hdr_writes_refl) simp_all
    ultimately show ?thesis using c m' by (simp add: ys)
  qed
  then show "heap_layout (coalesce_next m (fst b)) fl (xs @ join_next b ys) us"
    "hdr_writes m (coalesce_next m (fst b)) {fst b}" by (simp_all add: b)
qed

lemma coalesce_prev_next:
  "p \<noteq> 0 \<Longrightarrow> b \<noteq> 0 \<Longrightarrow> block_next m p = b \<Longrightarrow> coalesce_prev m p b = coalesce_next m p"
  by (simp add: coalesce_prev_def coalesce_next_def Let_def)

lemma join_next_hd: "\<exists>n zs. join_next b ys = (fst b, n) # zs"
  by (cases b; cases ys) auto

lemma used_split:
  assumes "heap_layout m fl fs us" "b \<in> set us"
  shows "heap_layout m fl fs (b # remove1 b us)"
proof -
  from split_list_first [OF assms(2)] obtain u v where us: "us = u @ b # v" "b \<notin> set u" by blast
  then have "remove1 b us = u @ v" by (simp add: remove1_append)
  then show ?thesis using assms(1) unfolding heap_layout_def us(1)
    by (auto simp: sorted_wrt_append Int_commute)
qed

lemma join_next_extents: 
  assumes "block_valid b" "\<forall>c \<in> set ys. block_valid c"
  shows "(\<Union>c \<in> set (join_next b ys). extent c) = extent b \<union> (\<Union>c \<in> set ys. extent c)"
  using assms join_extent(2) [of b] by (cases ys) auto

lemma join_next_valid:
  assumes "block_valid b" "\<forall>c \<in> set ys. block_valid c"
  shows "\<forall>c \<in> set (join_next b ys). block_valid c"
  using assms join_extent(1) [of b] by (cases ys) auto

lemma release_extents:
  assumes "block_valid b" "\<forall>c \<in> set fs. block_valid c"
  shows "(\<Union>c \<in> set (release b fs). extent c) = extent b \<union> (\<Union>c \<in> set fs. extent c)"
proof -
  let ?P = "\<lambda>x. fst x < fst b"
  let ?xs = "takeWhile ?P fs" and ?ys = "dropWhile ?P fs"
  have fs: "set fs = set ?xs \<union> set ?ys" by (metis set_append takeWhile_dropWhile_id)
  then have v: "\<forall>c \<in> set ?xs. block_valid c" "\<forall>c \<in> set ?ys. block_valid c" using assms(2) by auto
  note e = join_next_extents [OF assms(1) v(2)] and w = join_next_valid [OF assms(1) v(2)]
  show ?thesis
  proof (cases ?xs rule: rev_exhaust)
    case Nil
    then show ?thesis using e fs by (simp add: release_def Let_def)
  next
    case (snoc zs z)
    have "block_valid z" using v(1) snoc by simp
    from join_next_extents [OF this w] show ?thesis
      unfolding release_def Let_def snoc using e fs by (auto simp: snoc)
  qed
qed

text \<open>Freeing makes no free block smaller.\<close>

lemma join_next_grows:
  assumes "block_valid b" "\<forall>c \<in> set ys. block_valid c" "c = b \<or> c \<in> set ys"
  shows "\<exists>d \<in> set (join_next b ys). unat (snd c) \<le> unat (snd d)"
proof (cases ys)
  case (Cons e es)
  show ?thesis
  proof (cases "fst b + 24 + snd b = fst e")
    case True
    have "unat (snd b) \<le> 2 ^ 43" "unat (snd e) \<le> 2 ^ 43" using assms(1,2) Cons by (auto simp: block_valid_def)
    then have "unat (snd b + (24 + snd e)) = unat (snd b) + (24 + unat (snd e))" by (simp add: unat_plus_if')
    then show ?thesis using assms(3) Cons True by auto
  next
    case False
    then show ?thesis using assms(3) Cons by auto
  qed
qed (use assms(3) in auto)

lemma release_grows:
  assumes b: "block_valid b" and v: "\<forall>c \<in> set fs. block_valid c" and c: "c \<in> set fs"
  shows "\<exists>d \<in> set (release b fs). unat (snd c) \<le> unat (snd d)"
proof -
  let ?P = "\<lambda>x. fst x < fst b"
  let ?xs = "takeWhile ?P fs" and ?ys = "dropWhile ?P fs"
  have fs: "set fs = set ?xs \<union> set ?ys" by (metis set_append takeWhile_dropWhile_id)
  have vy: "\<forall>c \<in> set ?ys. block_valid c" using v fs by auto
  have y: "\<exists>d \<in> set (join_next b ?ys). unat (snd c) \<le> unat (snd d)" if "c \<in> set ?ys"
    using join_next_grows [OF b vy] that by blast
  show ?thesis
  proof (cases ?xs rule: rev_exhaust)
    case Nil
    then show ?thesis using y c fs by (simp add: release_def)
  next
    case (snoc zs z)
    have z: "block_valid z" using v fs snoc by auto
    note g = join_next_grows [OF z join_next_valid [OF b vy]]
    have "\<exists>d \<in> set (join_next z (join_next b ?ys)). unat (snd c) \<le> unat (snd d)" if "c \<notin> set zs"
    proof (cases "c = z")
      case False
      then obtain e where "e \<in> set (join_next b ?ys)" "unat (snd c) \<le> unat (snd e)" using y c fs snoc \<open>c \<notin> set zs\<close> by auto
      then show ?thesis using g [of e] order_trans by blast
    qed (use g [of z] in blast)
    then show ?thesis unfolding release_def Let_def snoc by (cases "c \<in> set zs") auto
  qed
qed

text \<open>The writes of \<open>kfree\<close> to the memory and the list head, from the cleared block on.\<close>

definition free_writes :: "memory \<Rightarrow> u64 \<Rightarrow> u64 \<Rightarrow> u64 \<Rightarrow> u64 \<Rightarrow> memory \<times> u64" where
  "free_writes m fl block prev cur =
     (let r = relink (set_next (set_used m block 0) block cur) fl prev block
      in (coalesce_prev (coalesce_next (fst r) block) prev block, snd r))"

lemma free_layout:
  assumes L: "heap_layout m fl fs (b # us)"
  defines "xs \<equiv> takeWhile (\<lambda>x. fst x < fst b) fs" and "ys \<equiv> dropWhile (\<lambda>x. fst x < fst b) fs"
  defines "r \<equiv> free_writes m fl (fst b) (last_or (map fst xs) 0) (first_or (map fst ys) 0)"
  shows "heap_layout (fst r) (snd r) (release b fs) us" "hdr_writes m (fst r) (fst ` set (b # fs))"
proof -
  let ?a = "fst b" and ?p = "last_or (map fst xs) 0" and ?c = "first_or (map fst ys) 0"
  let ?m = "set_next (set_used m ?a 0) ?a ?c"
  let ?r = "relink ?m fl ?p ?a"
  have fs: "fs = xs @ ys" by (simp add: xs_def ys_def)
  have v: "block_valid c" if "c \<in> set (fs @ b # us)" for c using L that by (auto simp: heap_layout_def)
  have d: "disjoint_blocks (fs @ b # us)" using L by (simp add: heap_layout_def)
  have ap: "apart (fst c) ?a" if "c \<in> set (fs @ us)" for c
  proof (rule extent_apart)
    show "extent c \<inter> extent b = {}" using d that by (auto simp: sorted_wrt_append)
  qed (use v that in auto)
  have ho: "hdr ?m (fst c) = hdr m (fst c)" if "c \<in> set (fs @ us)" for c using ap [OF that] by (simp add: hdr_simps)
  have hb: "hdr ?m ?a = (snd b, ?c, 0, True)" using L by (auto simp: heap_layout_def hdr_simps field_hdr)
  have sg: "seg ?m (map fst qs) e = seg m (map fst qs) e" if "set qs \<subseteq> set fs" for qs e
  proof (rule seg_cong)
    fix z assume "z \<in> set (map fst qs)"
    then obtain q where "q \<in> set qs" "z = fst q" by auto
    then show "block_next ?m z = block_next m z" using ho [of q] that by (auto simp: field_hdr)
  qed
  have sm: "seg m (map fst xs) ?c" "seg m (map fst ys) 0"
    using L unfolding heap_layout_def fs by (auto simp: seg_append)
  have "seg ?m (map fst xs) ?c" using sg [of xs] sm by (simp add: fs)
  moreover have "fl = first_or (map fst xs) fl" using L unfolding heap_layout_def fs by (cases xs) auto
  moreover have "seg ?m (map fst (b # ys)) 0"
    using sg [of ys] sm hb v [of b] by (simp add: fs field_hdr block_valid_def)
  moreover have "\<exists>nx. hdr ?m (fst c) = (snd c, nx, 0, True)" if "c \<in> set (xs @ b # ys)" for c
  proof (cases "c = b")
    case False
    then have "c \<in> set fs" using that by (auto simp: fs)
    then show ?thesis using ho [of c] L unfolding heap_layout_def by auto
  qed (use hb in simp)
  moreover have "\<exists>nx. hdr ?m (fst c) = (snd c, nx, 1, True)" if "c \<in> set us" for c
    using that ho [of c] L unfolding heap_layout_def by auto
  moreover have "disjoint_blocks (xs @ (b # ys) @ us)"
    using d unfolding fs by (auto simp: sorted_wrt_append Int_commute)
  ultimately have L1: "heap_layout (fst ?r) (snd ?r) (xs @ b # ys) us" and w1: "hdr_writes ?m (fst ?r) (fst ` set xs)"
    using relink_layout [of ?m xs ?c fl "b # ys" us] v by (auto simp: fs)
  note C1 = coalesce_next_layout [OF L1]
  let ?m2 = "coalesce_next (fst ?r) ?a"
  have w0: "hdr_writes m ?m {?a}" by (intro hdr_writes_set hdr_writes_refl) simp_all
  let ?D = "fst ` set (b # fs)"
  have "hdr_writes m ?m ?D" "hdr_writes ?m (fst ?r) ?D" "hdr_writes (fst ?r) ?m2 ?D"
    by (rule hdr_writes_mono [OF w0] hdr_writes_mono [OF w1] hdr_writes_mono [OF C1(2)], auto simp: fs)+
  then have w2: "hdr_writes m ?m2 ?D" by (meson hdr_writes_trans subset_refl)
  have r: "r = (coalesce_prev ?m2 ?p ?a, snd ?r)" by (simp add: r_def free_writes_def Let_def)
  have "heap_layout (fst r) (snd r) (release b fs) us \<and> hdr_writes m (fst r) (fst ` set (b # fs))"
  proof (cases xs rule: rev_exhaust)
    case Nil
    then have "fst r = ?m2" by (simp add: r last_or_def coalesce_prev_def)
    then show ?thesis using C1(1) w2 Nil by (simp add: r release_def xs_def ys_def)
  next
    case (snoc zs z)
    obtain n ws where j: "join_next b ys = (?a, n) # ws" using join_next_hd by blast
    have L2: "heap_layout ?m2 (snd ?r) (zs @ z # join_next b ys) us" using C1(1) by (simp add: snoc)
    have "block_next ?m2 (fst z) = ?a" "fst z \<noteq> 0" "?a \<noteq> 0"
      using L2 unfolding heap_layout_def j by (auto simp: seg_append)
    then have "fst r = coalesce_next ?m2 (fst z)"
      by (simp add: r snoc last_or_def coalesce_prev_next)
    moreover have "hdr_writes ?m2 (coalesce_next ?m2 (fst z)) ?D"
      by (rule hdr_writes_mono [OF coalesce_next_layout(2) [OF L2]]) (auto simp: fs snoc)
    with w2 have "hdr_writes m (coalesce_next ?m2 (fst z)) ?D" by (meson hdr_writes_trans subset_refl)
    moreover have "release b fs = zs @ join_next z (join_next b ys)"
      using snoc unfolding release_def xs_def [symmetric] ys_def [symmetric] by simp
    moreover have "snd r = snd ?r" by (simp add: r)
    ultimately show ?thesis using coalesce_next_layout(1) [OF L2] by (simp only:)
  qed
  then show "heap_layout (fst r) (snd r) (release b fs) us" "hdr_writes m (fst r) (fst ` set (b # fs))" by blast+
qed

lemma kfree_correct:
  assumes K: "kheap s fs us" and b: "b \<in> set us"
  shows "\<exists>t. kfree s (fst b + 24) = Some t \<and> kheap t (release b fs) (remove1 b us) \<and> free_set t = free_set s \<and>
    (\<forall>u \<in> set (remove1 b us). block_data (mem t) u = block_data (mem s) u)"
proof -
  let ?us = "remove1 b us" and ?a = "fst b"
  let ?xs = "takeWhile (\<lambda>x. fst x < ?a) fs" and ?ys = "dropWhile (\<lambda>x. fst x < ?a) fs"
  let ?p = "last_or (map fst ?xs) 0" and ?c = "first_or (map fst ?ys) 0"
  let ?r = "free_writes (mem s) (free_list s) ?a ?p ?c"
  let ?t = "s\<lparr>mem := fst ?r, free_list := snd ?r, kmalloc_lock := spinlock_unlock (kmalloc_lock s)\<rparr>"
  have L: "heap_layout (mem s) (free_list s) fs (b # ?us)" using K b by (simp add: kheap_def used_split)
  note F = free_layout [OF L]
  have sub: "set ?us \<subseteq> set us" by (rule set_remove1_subset)
  have v: "\<forall>c \<in> set (b # fs). block_valid c" using L by (auto simp: heap_layout_def)
  have h: "\<exists>nx. hdr (mem s) ?a = (snd b, nx, 1, True)" using L by (auto simp: heap_layout_def)
  have a0: "?a + 24 \<noteq> 0"
  proof -
    have "unat (?a + of_nat 24) = unat ?a + 24" using v by (intro unat_plus_of_nat) (auto simp: block_valid_def)
    then show ?thesis by auto
  qed
  have ip: "insert_place (set_used (mem s) ?a 0) ?a 0 (free_list s) = Some (?p, ?c)"
  proof -
    have ap: "apart (fst c) ?a" if "c \<in> set fs" for c
      using L that by (intro extent_apart) (auto simp: heap_layout_def sorted_wrt_append)
    have "seg (set_used (mem s) ?a 0) (map fst fs) 0 = seg (mem s) (map fst fs) 0"
      using ap by (intro seg_cong) (auto simp: field_hdr hdr_simps)
    then have "seg (set_used (mem s) ?a 0) (map fst fs) 0" "free_list s = first_or (map fst fs) 0"
      using L by (simp_all add: heap_layout_def)
    from insert_place_seg [OF this(1), of ?a 0] this(2) show ?thesis
      by (simp add: takeWhile_map dropWhile_map comp_def)
  qed
  have mg: "block_magic_ok (mem s) ?a" "block_used (mem s) ?a = 1" using h by (auto simp: field_hdr)
  have k: "kfree s (?a + 24) = Some ?t"
    using K a0 ip mg by (simp add: kfree_def kheap_def Let_def free_writes_def relink_def unlock_kmalloc_def)
  have fr: "fst ?r x = mem s x" if "unat x \<notin> (\<Union>c \<in> set (fs @ us). extent c)" for x
    using hdr_writes_extent [OF F(2) v, of x] that b by auto
  have "(\<Union>c \<in> set (release b fs @ ?us). extent c) \<subseteq> (\<Union>c \<in> set (fs @ us). extent c)"
    using release_extents [of b fs] v b sub by auto
  then have "kheap ?t (release b fs) ?us" "free_set ?t = free_set s"
    by (intro kheap_step [OF K F(1) _ fr]; simp)+
  moreover have "block_data (fst ?r) u = block_data (mem s) u" if u: "u \<in> set ?us" for u
  proof (rule block_data_writes [OF F(2) v])
    show "block_valid u" using L u by (auto simp: heap_layout_def)
    show "\<forall>c \<in> set (b # fs). fst c = fst u \<or> extent c \<inter> extent u = {}"
      using L u by (auto simp: heap_layout_def sorted_wrt_append)
  qed
  ultimately show ?thesis using k by (intro exI [of _ ?t]) simp
qed

subsection \<open>What clients rely on\<close>

text \<open>\<open>kmalloc\<close> in full: it returns a block exactly when it is not stuck.\<close>

lemma kmalloc_cases:
  assumes K: "kheap s fs us" and z: "sz \<noteq> 0"
  shows "kmalloc s sz = None \<or>
    (\<exists>b t fs'. kmalloc s sz = Some (fst b + 24, t) \<and> kheap t fs' (b # us) \<and> round_size sz \<le> snd b \<and>
      (\<forall>u \<in> set us. block_data (mem t) u = block_data (mem s) u))"
proof -
  let ?q = "round_size sz"
  have tk: "?q \<le> snd (taken ?q c)" if "fit ?q c" for c using that by (simp add: taken_def fit_def)
  show ?thesis
  proof (cases "alloc_first ?q fs")
    case (Some r)
    then obtain b fs' where a: "alloc_first ?q fs = Some (b, fs')" by (cases r) auto
    from alloc_first_Some [OF a] tk have "?q \<le> snd b" by auto
    then show ?thesis using kmalloc_fits [OF K z a] by blast
  next
    case None
    show ?thesis
    proof (cases "first_fit s 4 \<noteq> None \<and> unat ?q \<le> 16360")
      case True
      then obtain i where i: "first_fit s 4 = Some i" and q: "unat ?q \<le> 16360" by blast
      have "fst (taken ?q (pool_block i)) = fst (pool_block i)" by (simp add: taken_def)
      moreover have "?q \<le> snd (taken ?q (pool_block i))" using q tk by (simp add: fit_pool)
      moreover note kmalloc_pool [OF K z None i q]
      ultimately show ?thesis by metis
    next
      case False
      then have "kmalloc_stuck s ?q" unfolding kmalloc_stuck_def using K None by auto
      then show ?thesis using kmalloc_stuck_None z by blast
    qed
  qed
qed

text \<open>A client that writes inside its own block disturbs neither the heap nor any other block.\<close>

lemma heap_layout_hdr_cong:
  assumes L: "heap_layout m fl fs us" and h: "\<And>b. b \<in> set (fs @ us) \<Longrightarrow> hdr m' (fst b) = hdr m (fst b)"
  shows "heap_layout m' fl fs us"
proof -
  have "seg m' (map fst fs) 0 = seg m (map fst fs) 0"
  proof (rule seg_cong)
    fix z assume "z \<in> set (map fst fs)"
    then obtain b where "b \<in> set fs" "z = fst b" by auto
    then show "block_next m' z = block_next m z" using h [of b] by (simp add: field_hdr)
  qed
  then show ?thesis using L h unfolding heap_layout_def by simp
qed

definition data_extent :: "block \<Rightarrow> nat set" where
  "data_extent b = {unat (fst b) + 24..<unat (fst b) + 24 + unat (snd b)}"

lemma kheap_data_write:
  assumes K: "kheap s fs us" and b: "b \<in> set us" and w: "\<And>x. unat x \<notin> data_extent b \<Longrightarrow> m' x = mem s x"
  shows "kheap (s\<lparr>mem := m'\<rparr>) fs us" "\<And>u. u \<in> set us \<Longrightarrow> u \<noteq> b \<Longrightarrow> block_data m' u = block_data (mem s) u"
proof -
  have L: "heap_layout (mem s) (free_list s) fs us" using K by (simp add: kheap_def)
  have v: "block_valid c" if "c \<in> set (fs @ us)" for c using layout_valid [OF L that] .
  have dj: "extent c \<inter> extent b = {}" if "c \<in> set (fs @ us)" "c \<noteq> b" for c
    using L b that unfolding heap_layout_def by (intro disjoint_blocksD [of "fs @ us"]) auto
  have ex: "data_extent b \<subseteq> extent b" by (auto simp: data_extent_def extent_def)
  have "m' (fst c + i) = mem s (fst c + i)" if c: "c \<in> set (fs @ us)" and i: "i < 20" for c i
  proof (rule w)
    have u: "unat (fst c + i) \<in> extent c" "unat (fst c + i) = unat (fst c) + unat i"
      using hdr_byte_extent [OF v [OF c], of "fst c + i"] block_byte [OF v [OF c], of "unat i"] i
      by (simp_all add: word_less_nat_alt)
    show "unat (fst c + i) \<notin> data_extent b"
    proof (cases "c = b")
      case True
      then show ?thesis using u(2) i by (simp add: data_extent_def word_less_nat_alt)
    next
      case False
      then show ?thesis using dj [OF c] u(1) ex by blast
    qed
  qed
  then have "hdr m' (fst c) = hdr (mem s) (fst c)" if "c \<in> set (fs @ us)" for c
    using that by (intro hdr_cong) blast
  then have L': "heap_layout m' (free_list s) fs us" by (intro heap_layout_hdr_cong [OF L]) blast
  have fr: "m' x = mem s x" if "unat x \<notin> (\<Union>c \<in> set (fs @ us). extent c)" for x
    using that b ex by (intro w) auto
  have "kheap (s\<lparr>mem := m', free_list := free_list s, kmalloc_lock := kmalloc_lock s\<rparr>) fs us"
    using K by (intro kheap_step [OF K L' _ fr]) (auto simp: kheap_def)
  then show "kheap (s\<lparr>mem := m'\<rparr>) fs us" by simp
  show "block_data m' u = block_data (mem s) u" if u: "u \<in> set us" "u \<noteq> b" for u
  proof -
    have "m' (fst u + of_nat (24 + k)) = mem s (fst u + of_nat (24 + k))" if k: "k < unat (snd u)" for k
    proof (rule w)
      have "unat (fst u + of_nat (24 + k)) = unat (fst u) + (24 + k)"
        using v [of u] u k by (intro block_byte) auto
      then have "unat (fst u + of_nat (24 + k)) \<in> extent u" using k by (simp add: extent_def)
      then show "unat (fst u + of_nat (24 + k)) \<notin> data_extent b" using dj [of u] u ex by auto
    qed
    then show ?thesis by (simp add: block_data_def add.assoc)
  qed
qed

lemma data_byte:
  assumes "block_valid b" "(x :: u64) - (fst b + 24) < n" "n \<le> snd b"
  shows "unat x \<in> data_extent b"
proof -
  let ?k = "unat (x - (fst b + 24))"
  have k: "?k < unat (snd b)" using assms(2,3) by (simp add: word_less_nat_alt word_le_nat_alt)
  have "unat (fst b + of_nat (24 + ?k)) = unat (fst b) + (24 + ?k)"
    using assms(1) k by (intro block_byte) auto
  moreover have "fst b + of_nat (24 + ?k) = x" by simp
  ultimately show ?thesis using k by (auto simp: data_extent_def)
qed

lemma memset_data:
  assumes K: "kheap s fs us" and b: "b \<in> set us" and n: "n \<le> snd b"
  shows "kheap (s\<lparr>mem := memset (mem s) (fst b + 24) c n\<rparr>) fs us"
    "\<And>u. u \<in> set us \<Longrightarrow> u \<noteq> b \<Longrightarrow> block_data (memset (mem s) (fst b + 24) c n) u = block_data (mem s) u"
proof -
  have v: "block_valid b" using K b by (auto simp: kheap_def heap_layout_def)
  have "memset (mem s) (fst b + 24) c n x = mem s x" if "unat x \<notin> data_extent b" for x
    using data_byte [OF v _ n, of x] that by (auto simp: memset_apply)
  from kheap_data_write [OF K b this]
  show "kheap (s\<lparr>mem := memset (mem s) (fst b + 24) c n\<rparr>) fs us"
    "\<And>u. u \<in> set us \<Longrightarrow> u \<noteq> b \<Longrightarrow> block_data (memset (mem s) (fst b + 24) c n) u = block_data (mem s) u" by blast+
qed

lemma block_dist:
  assumes "block_valid a" "block_valid b" "extent a \<inter> extent b = {}" "n \<le> snd a" "n \<le> snd b"
  shows "n \<le> (fst b + 24) - (fst a + 24)"
proof -
  have "unat (fst a) \<notin> extent b" "unat (fst b) \<notin> extent a" using assms(3) by (auto simp: extent_def)
  then have "unat (fst a) + 24 + unat (snd a) \<le> unat (fst b) \<or> unat (fst b) + 24 + unat (snd b) \<le> unat (fst a)"
    by (auto simp: extent_def)
  then have "unat n \<le> unat (fst b - fst a)" using assms(1,2,4,5)
    by (auto simp: block_valid_def word_le_nat_alt unat_sub_if')
  then show ?thesis by (simp add: word_le_nat_alt)
qed

lemma memcpy_data:
  assumes K: "kheap s fs us" and b: "b \<in> set us" "a \<in> set us" "a \<noteq> b" and n: "snd a \<le> snd b"
  defines "m' \<equiv> memcpy (mem s) (fst b + 24) (fst a + 24) (snd a)"
  shows "kheap (s\<lparr>mem := m'\<rparr>) fs us" "\<And>u. u \<in> set us \<Longrightarrow> u \<noteq> b \<Longrightarrow> block_data m' u = block_data (mem s) u"
    "take (unat (snd a)) (block_data m' b) = block_data (mem s) a"
proof -
  have L: "heap_layout (mem s) (free_list s) fs us" using K by (simp add: kheap_def)
  have v: "block_valid a" "block_valid b" using L b by (auto simp: heap_layout_def)
  have "extent a \<inter> extent b = {}"
    using L b unfolding heap_layout_def by (intro disjoint_blocksD [of "fs @ us"]) auto
  then have le: "snd a \<le> (fst b + 24) - (fst a + 24)" using v n by (intro block_dist) auto
  note cp = memcpy_apply [OF le, of "mem s"]
  have "m' x = mem s x" if "unat x \<notin> data_extent b" for x
    using data_byte [OF v(2) _ n, of x] that unfolding m'_def cp by auto
  from kheap_data_write [OF K b(1) this]
  show "kheap (s\<lparr>mem := m'\<rparr>) fs us" "\<And>u. u \<in> set us \<Longrightarrow> u \<noteq> b \<Longrightarrow> block_data m' u = block_data (mem s) u" by blast+
  have "m' (fst b + 24 + of_nat k) = mem s (fst a + 24 + of_nat k)" if "k < unat (snd a)" for k
    unfolding m'_def cp using that unat_u64_less [of "snd a"] by (simp add: word_less_nat_alt unat_of_nat64)
  moreover have "unat (snd a) \<le> unat (snd b)" using n by (simp add: word_le_nat_alt)
  ultimately show "take (unat (snd a)) (block_data m' b) = block_data (mem s) a"
    by (simp add: block_data_def take_map)
qed

text \<open>
  The contract of the heap for its clients, over the list of live blocks: an allocation that
  returns adds a block that is large enough, a live block can always be freed, neither changes the
  contents of the other live blocks, and live blocks never overlap.
\<close>

datatype heap_op = Alloc u64 | Release nat

fun run_ops :: "('s \<Rightarrow> u64 \<Rightarrow> (u64 \<times> 's) option) \<Rightarrow> ('s \<Rightarrow> u64 \<Rightarrow> 's option) \<Rightarrow>
    's \<Rightarrow> u64 list \<Rightarrow> heap_op list \<Rightarrow> ('s \<times> u64 list) option" where
  "run_ops alloc free s ps [] = Some (s, ps)"
| "run_ops alloc free s ps (Alloc n # ops) = do { (p, s) \<leftarrow> alloc s n; run_ops alloc free s (p # ps) ops }"
| "run_ops alloc free s ps (Release i # ops) =
     (if i < length ps then do { s \<leftarrow> free s (ps ! i); run_ops alloc free s (take i ps @ drop (Suc i) ps) ops }
      else run_ops alloc free s ps ops)"

fun op_ok :: "heap_op \<Rightarrow> bool" where
  "op_ok (Alloc n) \<longleftrightarrow> n \<noteq> 0 \<and> unat n \<le> 2 ^ 64 - 16"
| "op_ok (Release i) \<longleftrightarrow> True"

locale heap_allocator =
  fixes alloc :: "'s \<Rightarrow> u64 \<Rightarrow> (u64 \<times> 's) option"
    and free :: "'s \<Rightarrow> u64 \<Rightarrow> 's option"
    and live :: "'s \<Rightarrow> block list \<Rightarrow> bool"
    and content :: "'s \<Rightarrow> block \<Rightarrow> u8 list"
  assumes alloc_live: "live s us \<Longrightarrow> n \<noteq> 0 \<Longrightarrow> unat n \<le> 2 ^ 64 - 16 \<Longrightarrow> alloc s n = Some (p, t) \<Longrightarrow>
      \<exists>b. p = fst b + 24 \<and> n \<le> snd b \<and> live t (b # us) \<and> (\<forall>u \<in> set us. content t u = content s u)"
    and free_live: "live s us \<Longrightarrow> b \<in> set us \<Longrightarrow>
      \<exists>t. free s (fst b + 24) = Some t \<and> live t (remove1 b us) \<and> (\<forall>u \<in> set (remove1 b us). content t u = content s u)"
    and live_disjoint: "live s us \<Longrightarrow> disjoint_blocks us"
begin

lemma remove_nth:
  assumes "live s us" "i < length us"
  shows "remove1 (us ! i) us = take i us @ drop (Suc i) us"
proof -
  have "us ! i \<notin> set (take i us)"
  proof
    assume "us ! i \<in> set (take i us)"
    then obtain j where j: "j < i" "us ! j = us ! i" by (auto simp: in_set_conv_nth)
    then have "extent (us ! j) \<inter> extent (us ! i) = {}"
      using sorted_wrt_nth_less [OF live_disjoint [OF assms(1)] j(1) assms(2)] by simp
    then show False using j extent_nonempty by simp
  qed
  then show ?thesis using id_take_nth_drop [OF assms(2)]
    by (metis (no_types, lifting) remove1_append remove1.simps(2))
qed

lemma run_ops_live:
  assumes "live s us" "ps = map (\<lambda>b. fst b + 24) us" "\<forall>p \<in> set ops. op_ok p"
    "run_ops alloc free s ps ops = Some (t, ps')"
  shows "\<exists>us'. live t us' \<and> ps' = map (\<lambda>b. fst b + 24) us' \<and> disjoint_blocks us'"
  using assms
proof (induction ops arbitrary: s us ps)
  case Nil
  then show ?case using live_disjoint by auto
next
  case (Cons p ops)
  show ?case
  proof (cases p)
    case (Alloc n)
    with Cons.prems(4) obtain q u where q: "alloc s n = Some (q, u)" "run_ops alloc free u (q # ps) ops = Some (t, ps')"
      by (auto simp: bind_eq_Some_conv)
    from alloc_live [OF Cons.prems(1) _ _ q(1)] Cons.prems(3) Alloc obtain b where
      b: "q = fst b + 24" "live u (b # us)" by auto
    show ?thesis using Cons.IH [OF b(2) _ _ q(2)] Cons.prems(2,3) b(1) by simp
  next
    case (Release i)
    show ?thesis
    proof (cases "i < length us")
      case True
      then obtain u where u: "free s (fst (us ! i) + 24) = Some u" "live u (remove1 (us ! i) us)"
        using free_live [OF Cons.prems(1), of "us ! i"] by auto
      have "run_ops alloc free u (map (\<lambda>b. fst b + 24) (take i us @ drop (Suc i) us)) ops = Some (t, ps')"
        using Cons.prems(2,4) Release True u(1) by (simp add: take_map drop_map)
      then show ?thesis using Cons.IH [OF u(2) _ _] Cons.prems(3) remove_nth [OF Cons.prems(1) True] by auto
    next
      case False
      then show ?thesis using Cons Release by auto
    qed
  qed
qed

end

definition heap_live :: "'a kmalloc_state_scheme \<Rightarrow> block list \<Rightarrow> bool" where
  "heap_live s us \<longleftrightarrow> (\<exists>fs. kheap s fs us)"

interpretation kh: heap_allocator kmalloc kfree heap_live "\<lambda>s. block_data (mem s)"
proof
  fix s t :: "'a kmalloc_state_scheme" and us n p
  assume h: "heap_live s us" "n \<noteq> 0" "unat n \<le> 2 ^ 64 - 16" "kmalloc s n = Some (p, t)"
  then obtain fs where K: "kheap s fs us" by (auto simp: heap_live_def)
  from kmalloc_cases [OF K h(2)] h(4) obtain b fs' where "p = fst b + 24" "kheap t fs' (b # us)"
    "round_size n \<le> snd b" "\<forall>u \<in> set us. block_data (mem t) u = block_data (mem s) u" by auto
  with round_size_ge [OF h(3)] show "\<exists>b. p = fst b + 24 \<and> n \<le> snd b \<and> heap_live t (b # us) \<and>
      (\<forall>u \<in> set us. block_data (mem t) u = block_data (mem s) u)"
    unfolding heap_live_def by (intro exI [of _ b]) (auto intro: order.trans)
next
  fix s :: "'a kmalloc_state_scheme" and us b
  assume "heap_live s us" "b \<in> set us"
  then show "\<exists>t. kfree s (fst b + 24) = Some t \<and> heap_live t (remove1 b us) \<and>
      (\<forall>u \<in> set (remove1 b us). block_data (mem t) u = block_data (mem s) u)"
    unfolding heap_live_def using kfree_correct by blast
next
  fix s :: "'a kmalloc_state_scheme" and us
  assume "heap_live s us"
  then show "disjoint_blocks us" by (auto simp: heap_live_def kheap_def heap_layout_def sorted_wrt_append)
qed

subsection \<open>A small heap for the witnesses\<close>

definition heap_example :: kmalloc_state where
  "heap_example = pmm_state.extend pmm_example (kmalloc_state.fields 0 0 0 SPINLOCK_INIT)"

lemma heap_example_pmm:
  "mem heap_example = mem pmm_example" "bitmap heap_example = bitmap pmm_example"
  "total_pages heap_example = total_pages pmm_example" "stack_top heap_example = stack_top pmm_example"
  "frames_stack heap_example = frames_stack pmm_example" "pmm_lock heap_example = pmm_lock pmm_example"
  "free_list heap_example = 0" "kmalloc_lock heap_example = SPINLOCK_INIT"
  by (simp_all add: heap_example_def pmm_example_def pmm_state.defs kmalloc_state.defs)

lemma heap_example_get: "bitmap_get heap_example q = bitmap_get pmm_example q"
  by (simp add: bitmap_get_bit heap_example_pmm)

lemma heap_example_free: "free_set heap_example = {12..<16}"
  using pmm_example_free by (simp add: free_set_def heap_example_get heap_example_pmm)

lemma heap_example_run: "run_free heap_example = run_free pmm_example"
  by (simp add: run_free_def fun_eq_iff heap_example_get heap_example_pmm)

lemma heap_example_fit: "first_fit heap_example 4 = Some 12"
proof -
  have "total_pages pmm_example = 16" by (simp add: pmm_example_def)
  then show ?thesis
    by (intro first_fit_SomeI) (simp_all add: heap_example_run pmm_example_run heap_example_pmm)
qed

lemma heap_example_kheap: "kheap heap_example [] []"
proof -
  have "x div 4096 \<notin> {12..<16}" if "x \<in> pmm_meta heap_example" for x
  proof -
    from that obtain pg where pg: "pg < 16" "x = unat ((0x1000 :: u64) + drop_bit 3 (of_nat pg))"
      by (auto simp: pmm_meta_def heap_example_pmm) (auto simp: pmm_example_def)
    have "x = 4096 + pg div 8" using pg by (simp add: unat_plus_if' drop_bit_eq_div unat_div unat_of_nat64)
    then show ?thesis using pg(1) by simp
  qed
  moreover have "pmm_ready heap_example"
    using pmm_example_ready(1) by (simp add: pmm_ready_def pmm_wf_def heap_example_pmm heap_example_get)
  ultimately show ?thesis
    by (simp add: kheap_def heap_layout_def pmm_private_def in_use_def heap_example_free)
      (simp add: heap_example_pmm SPINLOCK_INIT_def held_def)
qed

lemma used_not_NULL: "kheap s fs us \<Longrightarrow> b \<in> set us \<Longrightarrow> fst b + 24 \<noteq> 0"
proof -
  assume "kheap s fs us" "b \<in> set us"
  then have "block_valid b" by (auto simp: kheap_def heap_layout_def)
  then have "unat (fst b + of_nat 24) = unat (fst b) + 24" by (intro unat_plus_of_nat) (simp add: block_valid_def)
  then show ?thesis by auto
qed

lemma used_header:
  assumes "kheap s fs us" "b \<in> set us"
  shows "block_magic_ok (mem s) (fst b)" "block_size (mem s) (fst b) = snd b"
  using assms by (auto simp: kheap_def heap_layout_def field_hdr)

lemma krealloc_grow:
  assumes K: "kheap s fs us" and a: "a \<in> set us" and sz: "snd a < sz" "unat sz \<le> 2 ^ 64 - 16" and ret: "kmalloc s sz \<noteq> None"
  shows "\<exists>b t fs'. krealloc s (fst a + 24) sz = Some (fst b + 24, t) \<and> kheap t fs' (b # remove1 a us) \<and> sz \<le> snd b \<and>
    take (unat (snd a)) (block_data (mem t) b) = block_data (mem s) a \<and>
    (\<forall>u \<in> set (remove1 a us). block_data (mem t) u = block_data (mem s) u)"
proof -
  have z: "sz \<noteq> 0" using sz(1) by auto
  from kmalloc_cases [OF K z] ret obtain b t1 fs1 where
    k: "kmalloc s sz = Some (fst b + 24, t1)" "kheap t1 fs1 (b # us)" and rb: "round_size sz \<le> snd b"
    and d1: "\<forall>u \<in> set us. block_data (mem t1) u = block_data (mem s) u" by blast
  have szb: "sz \<le> snd b" using round_size_ge [OF sz(2)] rb by (rule order.trans)
  have dj: "disjoint_blocks (b # us)" using k(2) by (simp add: kheap_def heap_layout_def sorted_wrt_append)
  have nb: "b \<notin> set us" using dj extent_nonempty [of b] by auto
  then have ab: "a \<noteq> b" using a by auto
  let ?m = "memcpy (mem t1) (fst b + 24) (fst a + 24) (snd a)"
  have "snd a \<le> snd b" using sz(1) szb by simp
  from memcpy_data [OF k(2) _ _ ab this] a have
    m: "kheap (t1\<lparr>mem := ?m\<rparr>) fs1 (b # us)" "\<And>u. u \<in> set us \<Longrightarrow> u \<noteq> b \<Longrightarrow> block_data ?m u = block_data (mem t1) u"
      "take (unat (snd a)) (block_data ?m b) = block_data (mem t1) a" by simp_all
  from kfree_correct [OF m(1), of a] a ab obtain t where
    f: "kfree (t1\<lparr>mem := ?m\<rparr>) (fst a + 24) = Some t" "kheap t (release a fs1) (b # remove1 a us)"
      "\<forall>u \<in> set (b # remove1 a us). block_data (mem t) u = block_data ?m u" by auto
  note n = used_not_NULL [OF K a] used_not_NULL [OF k(2), of b] and h = used_header [OF K a]
    and h1 = used_header [OF k(2), of a]
  have "krealloc s (fst a + 24) sz = Some (fst b + 24, t)"
    using n z h h1 a k(1) f(1) sz(1) by (auto simp: krealloc_def Let_def dest: leD)
  moreover have "\<forall>u \<in> set (remove1 a us). block_data (mem t) u = block_data (mem s) u"
    using f(3) m(2) d1 nb set_remove1_subset [of a us] by fastforce
  moreover have "take (unat (snd a)) (block_data (mem t) b) = block_data (mem s) a"
    using f(3) m(3) d1 a by simp
  ultimately show ?thesis using f(2) szb by blast
qed

lemma block_data_memset:
  assumes "n \<le> snd b"
  shows "take (unat n) (block_data (memset m (fst b + 24) 0 n) b) = replicate (unat n) 0"
proof (rule nth_equalityI)
  have le: "unat n \<le> unat (snd b)" using assms by (simp add: word_le_nat_alt)
  then show "length (take (unat n) (block_data (memset m (fst b + 24) 0 n) b)) = length (replicate (unat n) (0 :: u8))"
    by (simp add: block_data_def)
  fix i assume "i < length (take (unat n) (block_data (memset m (fst b + 24) 0 n) b))"
  then have i: "i < unat n" "i < unat (snd b)" using le by (simp_all add: block_data_def)
  then show "take (unat n) (block_data (memset m (fst b + 24) 0 n) b) ! i = replicate (unat n) 0 ! i"
    using unat_u64_less [of n] by (simp add: block_data_def memset_apply word_less_nat_alt unat_of_nat64)
qed

lemma kcalloc_zero:
  assumes K: "kheap s fs us" and z: "unat nmemb * unat sz \<noteq> 0" "unat nmemb * unat sz \<le> 2 ^ 64 - 16"
    and ret: "kmalloc s (nmemb * sz) \<noteq> None"
  shows "\<exists>b t fs'. kcalloc s nmemb sz = Some (fst b + 24, t) \<and> kheap t fs' (b # us) \<and>
    unat nmemb * unat sz \<le> unat (snd b) \<and>
    take (unat nmemb * unat sz) (block_data (mem t) b) = replicate (unat nmemb * unat sz) 0 \<and>
    (\<forall>u \<in> set us. block_data (mem t) u = block_data (mem s) u)"
proof -
  let ?n = "nmemb * sz"
  have u: "unat ?n = unat nmemb * unat sz" using z(2) by (simp add: unat_word_ariths(2))
  have n0: "?n \<noteq> 0" using u z(1) by (metis unat_0)
  from kmalloc_cases [OF K n0] ret obtain b t fs' where
    k: "kmalloc s ?n = Some (fst b + 24, t)" "kheap t fs' (b # us)" and rb: "round_size ?n \<le> snd b"
    and d: "\<forall>u \<in> set us. block_data (mem t) u = block_data (mem s) u" by blast
  have le: "?n \<le> snd b" using round_size_ge [of ?n] rb u z(2) by (simp add: order.trans)
  have dj: "disjoint_blocks (b # us)" using k(2) by (simp add: kheap_def heap_layout_def sorted_wrt_append)
  have nb: "b \<notin> set us" using dj extent_nonempty [of b] by auto
  let ?m = "memset (mem t) (fst b + 24) 0 ?n"
  have M: "kheap (t\<lparr>mem := ?m\<rparr>) fs' (b # us)" "\<And>u. u \<in> set us \<Longrightarrow> block_data ?m u = block_data (mem t) u"
    using memset_data [OF k(2) _ le, where c = 0] nb by auto
  have "kcalloc s nmemb sz = Some (fst b + 24, t\<lparr>mem := ?m\<rparr>)"
    using k(1) used_not_NULL [OF k(2), of b] by (simp add: kcalloc_def)
  then show ?thesis using M d le block_data_memset [OF le, of "mem t"] unfolding u [symmetric]
    by (intro exI [of _ b] exI [of _ "t\<lparr>mem := ?m\<rparr>"] exI [of _ fs']) (simp add: word_le_nat_alt)
qed

lemma add_pools_kheap:
  assumes "kheap s fs us" "\<forall>b \<in> set fs. snd b = 16360"
  shows "\<exists>t gs. add_pools n s = Some t \<and> kheap t (gs @ fs) us \<and> length gs \<le> n \<and> (\<forall>b \<in> set gs. snd b = 16360)"
  using assms
proof (induction n arbitrary: s fs)
  case (Suc n)
  from add_pool_step [OF Suc.prems(1)] show ?case
  proof (elim disjE exE conjE)
    assume a: "add_pool s = Some (unlock_pmm s)"
    from Suc.IH [OF kheap_unlock(2) [OF Suc.prems(1)] Suc.prems(2)] a show ?thesis by (fastforce intro: le_SucI)
  next
    fix i t assume a: "add_pool s = Some t" and k: "kheap t (pool_block i # fs) us"
    have "snd (pool_block i) = 16360" by (simp add: pool_block_def)
    with Suc.IH [OF k] Suc.prems(2) obtain u gs where
      "add_pools n t = Some u" "kheap u (gs @ pool_block i # fs) us" "length gs \<le> n" "\<forall>b \<in> set gs. snd b = 16360"
      by auto
    then show ?thesis using a \<open>snd (pool_block i) = 16360\<close>
      by (intro exI [of _ u] exI [of _ "gs @ [pool_block i]"]) auto
  qed
qed auto

subsection \<open>Properties\<close>

text \<open>
  Claim C6. \<open>kmalloc\<close> refines first fit on the list of free blocks: when some free block holds the
  rounded size, the call returns the address behind the header of the first such block; the block
  is in use afterwards, its tail, if it is big enough to be a block, is free in its place, every
  other block is as before and the contents of the blocks in use are untouched.
\<close>

theorem kmalloc_refines_first_fit:
  assumes "kheap s fs us" and "sz \<noteq> 0" and "alloc_first (round_size sz) fs = Some (b, fs')"
  shows "\<exists>t. kmalloc s sz = Some (fst b + 24, t) \<and> kheap t fs' (b # us) \<and> round_size sz \<le> snd b \<and>
    (\<forall>u \<in> set us. block_data (mem t) u = block_data (mem s) u)"
proof -
  have "round_size sz \<le> snd b"
    using alloc_first_Some [OF assms(3)] by (auto simp: taken_def fit_def)
  then show ?thesis using kmalloc_fits [OF assms] by blast
qed

lemma heap_example_pool: "\<exists>t. add_pool heap_example = Some t \<and> kheap t [pool_block 12] []"
  using add_pool_step [OF heap_example_kheap] heap_example_fit by auto

theorem kmalloc_refines_first_fit_witness:
  "\<exists>s t. add_pool heap_example = Some s \<and> kmalloc s 100 = Some (0xC018, t) \<and>
     kheap t [(0xC088, 16224)] [(0xC000, 112)]"
proof -
  obtain s where s: "add_pool heap_example = Some s" "kheap s [pool_block 12] []" using heap_example_pool by blast
  have q: "round_size 100 = 112" by (simp add: round_size_def)
  have "alloc_first (round_size 100) [pool_block 12] = Some ((0xC000, 112), [(0xC088, 16224)])"
    unfolding q by (simp add: pool_block_def fit_def taken_def remainder_def)
  from kmalloc_refines_first_fit [OF s(2) _ this] s(1) show ?thesis by auto
qed

text \<open>
  When no free block fits but the page allocator has four contiguous pages and the request fits
  a 16 KiB pool, \<open>kmalloc\<close> takes a pool and returns from it: the retry succeeds.
\<close>

theorem kmalloc_takes_pool:
  assumes "kheap s fs us" and "sz \<noteq> 0" and "alloc_first (round_size sz) fs = None"
    and "first_fit s 4 = Some i" and "unat (round_size sz) \<le> 16360"
  shows "\<exists>b t fs'. kmalloc s sz = Some (fst b + 24, t) \<and> kheap t fs' (b # us) \<and>
    round_size sz \<le> snd b \<and> free_set t = free_set s - {i..<i + 4} \<and>
    (\<forall>u \<in> set us. block_data (mem t) u = block_data (mem s) u)"
proof -
  have "round_size sz \<le> snd (taken (round_size sz) (pool_block i))" and
    "fst (taken (round_size sz) (pool_block i)) = fst (pool_block i)"
    using assms(5) fit_pool [of "round_size sz" i] by (simp_all add: taken_def fit_def)
  then show ?thesis using kmalloc_pool [OF assms] by metis
qed

theorem kmalloc_takes_pool_witness:
  "\<exists>b t fs'. kmalloc heap_example 100 = Some (fst b + 24, t) \<and> kheap t fs' [b] \<and> free_set t = {}"
proof -
  have "round_size 100 = 112" by (simp add: round_size_def)
  moreover have "{12..<16} - {12..<12 + 4} = ({} :: nat set)" by auto
  ultimately show ?thesis
    using kmalloc_takes_pool [OF heap_example_kheap _ _ heap_example_fit, of 100] heap_example_free
    by (simp add: fun_eq_iff) metis
qed

text \<open>
  Claim C27. When nothing fits and no pool can help (four contiguous pages are not left, or the rounded
  request exceeds the 16360 bytes of a pool), \<open>kmalloc\<close> never returns: it calls itself for ever
  instead of returning \<open>NULL\<close>.
\<close>

theorem kmalloc_never_returns_NULL:
  assumes "kheap s fs us" and "sz \<noteq> 0" and "\<forall>b \<in> set fs. snd b < round_size sz"
    and "first_fit s 4 = None \<or> 16360 < unat (round_size sz)"
  shows "kmalloc s sz = None"
proof (rule kmalloc_stuck_None)
  have "alloc_first (round_size sz) fs = None" using assms(3) by (simp add: alloc_first_None fit_def not_le)
  then show "kmalloc_stuck s (round_size sz)" using assms(1,4) unfolding kmalloc_stuck_def by blast
qed (rule assms)

theorem kmalloc_never_returns_NULL_witness: "kmalloc heap_example 20000 = None"
  using kmalloc_never_returns_NULL [OF heap_example_kheap, of 20000] by (simp add: round_size_def)

text \<open>
  A request within 15 bytes of \<open>2\<^sup>6\<^sup>4\<close> wraps around when it is rounded: \<open>kmalloc\<close> returns a
  block as if 16 bytes had been asked for.
\<close>

theorem kmalloc_size_wraps:
  assumes "kheap s fs us" and "2 ^ 64 - 16 < unat sz" and "alloc_first 16 fs = Some (b, fs')"
  shows "\<exists>t. kmalloc s sz = Some (fst b + 24, t) \<and> kheap t fs' (b # us) \<and> snd b < sz"
proof -
  have q: "round_size sz = 16" using assms(2) by (rule round_size_wraps)
  have z: "sz \<noteq> 0" using assms(2) by auto
  obtain t where t: "kmalloc s sz = Some (fst b + 24, t)" "kheap t fs' (b # us)"
    using kmalloc_fits [OF assms(1) z] assms(3) unfolding q by blast
  have "block_valid b" using t(2) by (simp add: kheap_def heap_layout_def)
  then have "snd b < sz" using assms(2) by (simp add: block_valid_def word_less_nat_alt)
  then show ?thesis using t by blast
qed

theorem kmalloc_size_wraps_witness:
  "\<exists>s t. add_pool heap_example = Some s \<and> kmalloc s (- 1) = Some (0xC018, t) \<and> kheap t [(0xC028, 16320)] [(0xC000, 16)]"
proof -
  obtain s where s: "add_pool heap_example = Some s" "kheap s [pool_block 12] []" using heap_example_pool by blast
  have "alloc_first 16 [pool_block 12] = Some ((0xC000, 16), [(0xC028, 16320)])"
    by (simp add: pool_block_def fit_def taken_def remainder_def)
  from kmalloc_size_wraps [OF s(2) _ this, of "- 1"] s(1) show ?thesis
    by (auto simp: unsigned_minus_1_eq_mask mask_eq_exp_minus_1)
qed


lemma heap_example_block:
  "\<exists>s t. add_pool heap_example = Some s \<and> kmalloc s 100 = Some (0xC018, t) \<and>
     kheap t [(0xC088, 16224)] [(0xC000, 112)]"
proof -
  obtain s where s: "add_pool heap_example = Some s" "kheap s [pool_block 12] []" using heap_example_pool by blast
  have q: "round_size 100 = 112" by (simp add: round_size_def)
  have "alloc_first (round_size 100) [pool_block 12] = Some ((0xC000, 112), [(0xC088, 16224)])"
    unfolding q by (simp add: pool_block_def fit_def taken_def remainder_def)
  from kmalloc_fits [OF s(2) _ this] s(1) show ?thesis by auto
qed


text \<open>
  Claim C13. Any script of \<open>kmalloc\<close> and \<open>kfree\<close> calls that runs to its end leaves the heap well formed,
  and the pointers the script still holds are those of pairwise disjoint blocks.
\<close>

theorem heap_script_safe:
  assumes "kheap s fs []" and "\<forall>p \<in> set ops. op_ok p" and "run_ops kmalloc kfree s [] ops = Some (t, ps)"
  shows "\<exists>fs' us. kheap t fs' us \<and> ps = map (\<lambda>b. fst b + 24) us \<and>
    sorted_wrt (\<lambda>x y. extent x \<inter> extent y = {}) us"
proof -
  have "heap_live s []" using assms(1) by (auto simp: heap_live_def)
  from kh.run_ops_live [OF this _ assms(2,3)] show ?thesis unfolding heap_live_def by auto
qed

theorem heap_script_safe_witness:
  "\<exists>t p fs' us. run_ops kmalloc kfree heap_example [] [Alloc 100] = Some (t, [p]) \<and> kheap t fs' us \<and> length us = 1"
proof -
  have "round_size 100 = 112" by (simp add: round_size_def)
  then obtain b :: block and t where "kmalloc heap_example 100 = Some (fst b + 24, t)"
    using kmalloc_pool [OF heap_example_kheap _ _ heap_example_fit, of 100] by auto
  then have r: "run_ops kmalloc kfree heap_example [] [Alloc 100] = Some (t, [fst b + 24])" by simp
  moreover have "\<forall>p \<in> set [Alloc 100]. op_ok p" by simp
  from heap_script_safe [OF heap_example_kheap this r] obtain fs' us where
    k: "kheap t fs' us" "[fst b + 24] = map (\<lambda>b. fst b + 24) us" by auto
  then have "length us = 1" by auto
  ultimately show ?thesis using k by blast
qed

text \<open>
  Claim C28. \<open>krealloc\<close> to a larger size, when the new block can be allocated, returns a block of at least
  that size whose first bytes are the old contents, frees the old block, and leaves the contents of
  all other blocks alone.
\<close>

theorem krealloc_keeps_contents:
  assumes "kheap s fs us" and "a \<in> set us" and "snd a < sz" and "unat sz \<le> 2 ^ 64 - 16" and "kmalloc s sz \<noteq> None"
  shows "\<exists>b t fs'. krealloc s (fst a + 24) sz = Some (fst b + 24, t) \<and> kheap t fs' (b # remove1 a us) \<and> sz \<le> snd b \<and>
    take (unat (snd a)) (block_data (mem t) b) = block_data (mem s) a \<and>
    (\<forall>u \<in> set (remove1 a us). block_data (mem t) u = block_data (mem s) u)"
  using krealloc_grow [OF assms] .

theorem krealloc_keeps_contents_witness:
  "\<exists>(s :: kmalloc_state) t u p fs' us'. kmalloc s 100 = Some (0xC018, t) \<and> krealloc t 0xC018 1000 = Some (p, u) \<and> kheap u fs' us'"
proof -
  obtain s t where s: "kmalloc s 100 = Some (0xC018, t :: kmalloc_state)"
    and k: "kheap t [(0xC088, 16224)] [(0xC000, 112)]" using heap_example_block by blast
  have q: "round_size 1000 = 1008" by (simp add: round_size_def)
  have "alloc_first (round_size 1000) [(0xC088, 16224)] = Some ((0xC088, 1008), [(0xC490, 15192)])"
    unfolding q by (simp add: fit_def taken_def remainder_def)
  from kmalloc_fits [OF k _ this] have "kmalloc t 1000 \<noteq> None" by auto
  with krealloc_keeps_contents [OF k, of "(0xC000, 112)" 1000] obtain b u fs' where
    "krealloc t 0xC018 1000 = Some (fst b + 24, u)" "kheap u fs' [b]" by auto
  with s show ?thesis by blast
qed

text \<open>
  \<open>kcalloc\<close>, when the product does not overflow and the block can be allocated, returns a block
  whose first \<open>nmemb * sz\<close> bytes are zero, and leaves the contents of all other blocks alone.
\<close>

theorem kcalloc_zeroes:
  assumes "kheap s fs us" and "unat nmemb * unat sz \<noteq> 0" and "unat nmemb * unat sz \<le> 2 ^ 64 - 16"
    and "kmalloc s (nmemb * sz) \<noteq> None"
  shows "\<exists>b t fs'. kcalloc s nmemb sz = Some (fst b + 24, t) \<and> kheap t fs' (b # us) \<and>
    unat nmemb * unat sz \<le> unat (snd b) \<and>
    take (unat nmemb * unat sz) (block_data (mem t) b) = replicate (unat nmemb * unat sz) 0 \<and>
    (\<forall>u \<in> set us. block_data (mem t) u = block_data (mem s) u)"
  using kcalloc_zero [OF assms] .

theorem kcalloc_zeroes_witness:
  "\<exists>b t fs'. kcalloc heap_example 10 10 = Some (fst b + 24, t) \<and> kheap t fs' [b] \<and>
     take 100 (block_data (mem t) b) = replicate 100 0"
proof -
  have "round_size 100 = 112" by (simp add: round_size_def)
  then have "kmalloc heap_example 100 \<noteq> None"
    using kmalloc_pool [OF heap_example_kheap _ _ heap_example_fit, of 100] by auto
  with kcalloc_zeroes [OF heap_example_kheap, of 10 10] show ?thesis by auto
qed

text \<open>
  \<open>kmalloc_init\<close> on an empty heap always returns, with at most four free blocks of 16360 bytes
  each and nothing in use; it does not fail when the page allocator runs out.
\<close>

theorem kmalloc_init_pools:
  assumes "kheap s [] []"
  shows "\<exists>t fs. kmalloc_init s = Some t \<and> kheap t fs [] \<and> length fs \<le> 4 \<and> (\<forall>b \<in> set fs. snd b = 16360)"
  using add_pools_kheap [OF assms, of 4] by (auto simp: kmalloc_init_def)

theorem kmalloc_init_pools_witness: "\<exists>t fs. kmalloc_init heap_example = Some t \<and> kheap t fs [] \<and> length fs \<le> 4"
  using kmalloc_init_pools [OF heap_example_kheap] by blast

end
