(* ===== verification/Fat32.thy ===== *)
theory Fat32
  imports Kmalloc_Proofs
begin

unbundle bit_operations_syntax

text \<open>
  \<^verbatim>\<open>kernel/src/fat32.c\<close>, \<^verbatim>\<open>kernel/src/fat32.h\<close>, \<^verbatim>\<open>kernel/src/blockdev.h\<close>: the FAT32 file system on a
  block device. A block device is a structure of function pointers; here it is a record of
  functions on a device state \<open>'d\<close>, a null pointer being \<open>None\<close>. Sector buffers and C strings are
  byte lists (a string without its terminating NUL), structures read from a sector are decoded
  from its bytes. The mounted file system is passed as a value, since nothing changes it after
  \<open>fat32_mount\<close>. The kernel state is extended by the device state, the lock of the sector cache
  and the table of open files, whose entries are named by their index.

  The outer \<open>option\<close> is \<open>None\<close> when control does not come back: a null pointer is called or
  followed, a division by zero, a held lock, or a loop that does not end (a cluster chain with a
  cycle). \<^verbatim>\<open>klog\<close> calls only print and are left out.
\<close>

record 'd blockdev =
  bd_read :: "('d \<Rightarrow> u32 \<Rightarrow> u32 \<Rightarrow> int \<times> u8 list \<times> 'd) option"
  bd_write :: "('d \<Rightarrow> u32 \<Rightarrow> u32 \<Rightarrow> u8 list \<Rightarrow> int \<times> 'd) option"
  bd_flush :: "('d \<Rightarrow> int \<times> 'd) option"
  sector_size :: u32

text \<open>Little-endian fields of a byte list.\<close>

definition rd8 :: "u8 list \<Rightarrow> nat \<Rightarrow> u8" where "rd8 b i = (if i < length b then b ! i else 0)"
definition rd16 :: "u8 list \<Rightarrow> nat \<Rightarrow> u16" where
  "rd16 b i = ucast (rd8 b i) OR push_bit 8 (ucast (rd8 b (i + 1)))"
definition rd32 :: "u8 list \<Rightarrow> nat \<Rightarrow> u32" where
  "rd32 b i = ucast (rd8 b i) OR push_bit 8 (ucast (rd8 b (i + 1)))
     OR push_bit 16 (ucast (rd8 b (i + 2))) OR push_bit 24 (ucast (rd8 b (i + 3)))"
definition bytes16 :: "u16 \<Rightarrow> u8 list" where "bytes16 v = [ucast v, ucast (drop_bit 8 v)]"
definition bytes32 :: "u32 \<Rightarrow> u8 list" where
  "bytes32 v = [ucast v, ucast (drop_bit 8 v), ucast (drop_bit 16 v), ucast (drop_bit 24 v)]"

text \<open>Overwriting part of a buffer (\<^verbatim>\<open>memcpy (buf + i, xs, length xs)\<close>).\<close>

definition put :: "u8 list \<Rightarrow> nat \<Rightarrow> u8 list \<Rightarrow> u8 list" where
  "put b i xs = take i b @ xs @ drop (i + length xs) b"

record fat32_bpb =
  jmp :: "u8 list"
  bytes_per_sector :: u16
  sectors_per_cluster :: u8
  reserved_sectors :: u16
  num_fats :: u8
  total_sectors_32 :: u32
  sectors_per_fat :: u32
  root_cluster :: u32
  fs_type :: "u8 list"

definition bpb_of :: "u8 list \<Rightarrow> fat32_bpb" where
  "bpb_of b = \<lparr>jmp = [rd8 b 0, rd8 b 1, rd8 b 2], bytes_per_sector = rd16 b 11, sectors_per_cluster = rd8 b 13,
     reserved_sectors = rd16 b 14, num_fats = rd8 b 16, total_sectors_32 = rd32 b 32, sectors_per_fat = rd32 b 36,
     root_cluster = rd32 b 44, fs_type = take 8 (drop 82 b)\<rparr>"

record fat32_dirent =
  de_name :: "u8 list"
  de_ext :: "u8 list"
  de_attr :: u8
  de_ntres :: u8
  de_ctime_tenth :: u8
  de_ctime :: u16
  de_cdate :: u16
  de_adate :: u16
  cluster_hi :: u16
  de_mtime :: u16
  de_mdate :: u16
  cluster_lo :: u16
  de_size :: u32

definition dirent_of :: "u8 list \<Rightarrow> fat32_dirent" where
  "dirent_of b = \<lparr>de_name = take 8 b, de_ext = take 3 (drop 8 b), de_attr = rd8 b 11, de_ntres = rd8 b 12,
     de_ctime_tenth = rd8 b 13, de_ctime = rd16 b 14, de_cdate = rd16 b 16, de_adate = rd16 b 18,
     cluster_hi = rd16 b 20, de_mtime = rd16 b 22, de_mdate = rd16 b 24, cluster_lo = rd16 b 26,
     de_size = rd32 b 28\<rparr>"

definition dirent_bytes :: "fat32_dirent \<Rightarrow> u8 list" where
  "dirent_bytes d = de_name d @ de_ext d @ [de_attr d, de_ntres d, de_ctime_tenth d] @ bytes16 (de_ctime d) @
     bytes16 (de_cdate d) @ bytes16 (de_adate d) @ bytes16 (cluster_hi d) @ bytes16 (de_mtime d) @
     bytes16 (de_mdate d) @ bytes16 (cluster_lo d) @ bytes32 (de_size d)"

text \<open>\<^verbatim>\<open>memset(&entry, 0, sizeof(entry))\<close>\<close>

definition zero_dirent :: fat32_dirent where
  "zero_dirent = \<lparr>de_name = replicate 8 0, de_ext = replicate 3 0, de_attr = 0, de_ntres = 0, de_ctime_tenth = 0,
     de_ctime = 0, de_cdate = 0, de_adate = 0, cluster_hi = 0, de_mtime = 0, de_mdate = 0, cluster_lo = 0, de_size = 0\<rparr>"

definition dirent_cluster :: "fat32_dirent \<Rightarrow> u32" where
  "dirent_cluster d = ucast (cluster_lo d) OR push_bit 16 (ucast (cluster_hi d))"

record 'd fat32_fs =
  bpb :: fat32_bpb
  dev :: "'d blockdev option"
  fat_start :: u32
  data_start :: u32
  bytes_per_cluster :: u32

record 'd fat32_file =
  f_used :: bool
  f_mode :: u8
  f_fs :: "'d fat32_fs option"
  first_cluster :: u32
  curr_cluster :: u32
  curr_offset :: u32
  file_size :: u32
  file_pos :: u32

record 'd fat_state = kmalloc_state +
  dev_state :: 'd
  cache_lock :: spinlock
  open_files :: "'d fat32_file list"

abbreviation (input) MAX_OPEN_FILES :: nat where "MAX_OPEN_FILES \<equiv> 64"
abbreviation (input) FAT32_EOC_MIN :: u32 where "FAT32_EOC_MIN \<equiv> 0x0FFFFFF8"
abbreviation (input) FAT32_BAD_CLUSTER :: u32 where "FAT32_BAD_CLUSTER \<equiv> 0x0FFFFFF7"
abbreviation (input) FAT32_FREE_CLUSTER :: u32 where "FAT32_FREE_CLUSTER \<equiv> 0"
abbreviation (input) NO_CLUSTER :: u32 where "NO_CLUSTER \<equiv> 0xFFFFFFFF"
abbreviation (input) FAT32_ATTR_DIRECTORY :: u8 where "FAT32_ATTR_DIRECTORY \<equiv> 0x10"
abbreviation (input) FAT32_ATTR_ARCHIVE :: u8 where "FAT32_ATTR_ARCHIVE \<equiv> 0x20"

text \<open>\<^verbatim>\<open>DOT_NAME\<close> is initialised from a string of 10 characters, so its last byte is NUL; likewise \<^verbatim>\<open>DOTDOT_NAME\<close>.\<close>

definition DOT_NAME :: "u8 list" where "DOT_NAME = 0x2E # replicate 9 0x20 @ [0]"
definition DOTDOT_NAME :: "u8 list" where "DOTDOT_NAME = [0x2E, 0x2E] @ replicate 8 0x20 @ [0]"

definition spinlock_init :: "spinlock \<Rightarrow> spinlock" where
  "spinlock_init l = l\<lparr>lock := 0, cpu_id := 0\<rparr>"

definition validate_fs :: "'d fat32_fs option \<Rightarrow> bool" where
  "validate_fs fs = (case fs of
     None \<Rightarrow> False
   | Some fs \<Rightarrow> dev fs \<noteq> None \<and> bytes_per_sector (bpb fs) = 512 \<and> sectors_per_cluster (bpb fs) \<noteq> 0 \<and>
       num_fats (bpb fs) \<noteq> 0 \<and> \<not> root_cluster (bpb fs) < 2)"

subsection \<open>Sector access\<close>

definition cache_read_sector :: "'d fat32_fs \<Rightarrow> u32 \<Rightarrow> ('d, 'a) fat_state_scheme \<Rightarrow>
    (int \<times> u8 list \<times> ('d, 'a) fat_state_scheme) option" where
  "cache_read_sector fs sector st = do {
     l \<leftarrow> spinlock_lock (cache_lock st);
     dv \<leftarrow> dev fs;
     rd \<leftarrow> bd_read dv;
     let (ret, buf, d) = rd (dev_state st) sector 1;
     Some (ret, buf, st\<lparr>dev_state := d, cache_lock := spinlock_unlock l\<rparr>)
   }"

definition cache_write_sector :: "'d fat32_fs \<Rightarrow> u32 \<Rightarrow> u8 list \<Rightarrow> ('d, 'a) fat_state_scheme \<Rightarrow>
    (int \<times> ('d, 'a) fat_state_scheme) option" where
  "cache_write_sector fs sector buf st = do {
     l \<leftarrow> spinlock_lock (cache_lock st);
     dv \<leftarrow> dev fs;
     wr \<leftarrow> bd_write dv;
     let (ret, d) = wr (dev_state st) sector 1 buf;
     Some (ret, st\<lparr>dev_state := d, cache_lock := spinlock_unlock l\<rparr>)
   }"

subsection \<open>The file allocation table\<close>

definition fat_sector_of :: "'d fat32_fs \<Rightarrow> u32 \<Rightarrow> u32" where
  "fat_sector_of fs cluster = fat_start fs + (cluster * 4) div 512"

definition fat_offset_of :: "u32 \<Rightarrow> nat" where
  "fat_offset_of cluster = unat ((cluster * 4) mod 512)"

definition read_fat_entry :: "'d fat32_fs \<Rightarrow> u32 \<Rightarrow> ('d, 'a) fat_state_scheme \<Rightarrow>
    (u32 \<times> ('d, 'a) fat_state_scheme) option" where
  "read_fat_entry fs cluster st = do {
     (ret, sector, st) \<leftarrow> cache_read_sector fs (fat_sector_of fs cluster) st;
     if ret \<noteq> 0 then Some (FAT32_BAD_CLUSTER, st)
     else Some (rd32 sector (fat_offset_of cluster) AND 0x0FFFFFFF, st)
   }"

definition write_fat_entry :: "'d fat32_fs \<Rightarrow> u32 \<Rightarrow> u32 \<Rightarrow> ('d, 'a) fat_state_scheme \<Rightarrow>
    (int \<times> ('d, 'a) fat_state_scheme) option" where
  "write_fat_entry fs cluster value st = do {
     (ret, sector, st) \<leftarrow> cache_read_sector fs (fat_sector_of fs cluster) st;
     if ret \<noteq> 0 then Some (-1, st)
     else
       let old = rd32 sector (fat_offset_of cluster);
           new = (value AND 0x0FFFFFFF) OR (old AND 0xF0000000)
       in cache_write_sector fs (fat_sector_of fs cluster) (put sector (fat_offset_of cluster) (bytes32 new)) st
   }"

definition fat32_next_cluster :: "'d fat32_fs \<Rightarrow> u32 \<Rightarrow> ('d, 'a) fat_state_scheme \<Rightarrow>
    (u32 \<times> ('d, 'a) fat_state_scheme) option" where
  "fat32_next_cluster fs cluster st = do {
     (nxt, st) \<leftarrow> read_fat_entry fs cluster st;
     if nxt \<ge> FAT32_EOC_MIN then Some (NO_CLUSTER, st)
     else if nxt = FAT32_BAD_CLUSTER then Some (NO_CLUSTER, st)
     else Some (nxt, st)
   }"

text \<open>The search loop of \<open>allocate_cluster\<close>; the result 0 means failure.\<close>

function alloc_loop :: "'d fat32_fs \<Rightarrow> u32 \<Rightarrow> u32 \<Rightarrow> ('d, 'a) fat_state_scheme \<Rightarrow>
    (u32 \<times> ('d, 'a) fat_state_scheme) option" where
  "alloc_loop fs prev_cluster cluster st =
     (if cluster < 0x0FFFFFF0 then do {
        (e, st) \<leftarrow> read_fat_entry fs cluster st;
        if e = FAT32_FREE_CLUSTER then do {
          (r, st) \<leftarrow> write_fat_entry fs cluster 0x0FFFFFFF st;
          if r < 0 then Some (0, st)
          else if prev_cluster \<noteq> 0 then do {
            (r, st) \<leftarrow> write_fat_entry fs prev_cluster cluster st;
            if r < 0 then do {
              (_, st) \<leftarrow> write_fat_entry fs cluster FAT32_FREE_CLUSTER st;
              Some (0, st)
            } else Some (cluster, st)
          } else Some (cluster, st)
        } else alloc_loop fs prev_cluster (cluster + 1) st
      } else Some (0, st))"
  by pat_completeness auto
termination
proof (relation "measure (\<lambda>(fs, p, c, st). unat (0x0FFFFFF0 - c))", goal_cases)
  case (2 fs p c)
  then show ?case by (simp add: word_less_nat_alt unat_sub_if' unat_plus_if')
qed simp

declare alloc_loop.simps [simp del]

definition allocate_cluster :: "'d fat32_fs \<Rightarrow> u32 \<Rightarrow> ('d, 'a) fat_state_scheme \<Rightarrow>
    (u32 \<times> ('d, 'a) fat_state_scheme) option" where
  "allocate_cluster fs prev_cluster st = alloc_loop fs prev_cluster 2 st"

subsection \<open>8.3 names\<close>

definition upcase :: "u8 \<Rightarrow> u8" where
  "upcase c = (let c = (if 0x61 \<le> c \<and> c \<le> 0x7A then c - 32 else c) in if c = 0x20 then 0x5F else c)"

definition to_8_3 :: "u8 list \<Rightarrow> u8 list" where
  "to_8_3 src =
     (let name = replicate 8 0x20; ext = replicate 3 0x20;
          stem = takeWhile (\<lambda>c. c \<noteq> 0x2E) src;
          from_dot = dropWhile (\<lambda>c. c \<noteq> 0x2E) src
      in if from_dot \<noteq> [] \<and> stem \<noteq> [] then
           put name 0 (map upcase (take 8 stem)) @ put ext 0 (map upcase (take 3 (tl from_dot)))
         else put name 0 (map upcase (take 8 src)) @ ext)"

definition from_8_3 :: "fat32_dirent \<Rightarrow> u8 list" where
  "from_8_3 entry = de_name entry @ de_ext entry"

definition compare_8_3 :: "u8 list \<Rightarrow> u8 list \<Rightarrow> bool" where
  "compare_8_3 a b \<longleftrightarrow> a = b"

subsection \<open>Directories\<close>

definition cluster_sector :: "'d fat32_fs \<Rightarrow> u32 \<Rightarrow> u32" where
  "cluster_sector fs cluster = data_start fs + (cluster - 2) * ucast (sectors_per_cluster (bpb fs))"

definition entry_at :: "u8 list \<Rightarrow> nat \<Rightarrow> u8 list" where
  "entry_at sector ent = take 32 (drop (ent * 32) sector)"

text \<open>
  What the loops over the entries of a sector, the sectors of a cluster and the clusters of a
  directory report: a hit, a \<^verbatim>\<open>return -1\<close>, or the end of the loop.
\<close>

datatype 'r scan = Found 'r | Fail | Continue

fun scan_entries :: "u8 list \<Rightarrow> u8 list \<Rightarrow> nat \<Rightarrow> nat \<Rightarrow> (fat32_dirent \<times> u8) scan" where
  "scan_entries target sector 0 ent = Continue"
| "scan_entries target sector (Suc n) ent =
     (let de = dirent_of (entry_at sector ent); c = rd8 (entry_at sector ent) 0 in
      if c = 0 then Fail
      else if c = 0xE5 \<or> de_attr de = 0x0F then scan_entries target sector n (ent + 1)
      else if compare_8_3 (from_8_3 de) target then Found (de, of_nat ent)
      else scan_entries target sector n (ent + 1))"

function find_sectors :: "'d fat32_fs \<Rightarrow> u32 \<Rightarrow> u8 list \<Rightarrow> u32 \<Rightarrow> ('d, 'a) fat_state_scheme \<Rightarrow>
    ((fat32_dirent \<times> u32 \<times> u8) scan \<times> ('d, 'a) fat_state_scheme) option" where
  "find_sectors fs first_sector target sec st =
     (if sec < ucast (sectors_per_cluster (bpb fs)) then do {
        (ret, sector, st) \<leftarrow> cache_read_sector fs (first_sector + sec) st;
        if ret \<noteq> 0 then Some (Fail, st)
        else (case scan_entries target sector 16 0 of
                Found (de, ent) \<Rightarrow> Some (Found (de, first_sector + sec, ent), st)
              | Fail \<Rightarrow> Some (Fail, st)
              | Continue \<Rightarrow> find_sectors fs first_sector target (sec + 1) st)
      } else Some (Continue, st))"
  by pat_completeness auto
termination
proof (relation "measure (\<lambda>(fs, f, t, sec, st). unat (ucast (sectors_per_cluster (bpb fs)) - sec))", goal_cases)
  case (2 fs f t sec)
  then show ?case by unat_arith
qed simp

declare find_sectors.simps [simp del]

text \<open>
  \<open>Some r\<close> is a return of 0 with the entry, its sector and its index; \<open>None\<close> a return of -1.
\<close>

partial_function (option) fat32_find :: "'d fat32_fs \<Rightarrow> u32 \<Rightarrow> u8 list \<Rightarrow> ('d, 'a) fat_state_scheme \<Rightarrow>
    ((fat32_dirent \<times> u32 \<times> u8) option \<times> ('d, 'a) fat_state_scheme) option" where
  "fat32_find fs cur target st =
     (if cur \<noteq> NO_CLUSTER then do {
        (r, st) \<leftarrow> find_sectors fs (cluster_sector fs cur) target 0 st;
        (case r of
           Found x \<Rightarrow> Some (Some x, st)
         | Fail \<Rightarrow> Some (None, st)
         | Continue \<Rightarrow> do { (nxt, st) \<leftarrow> fat32_next_cluster fs cur st; fat32_find fs nxt target st })
      } else Some (None, st))"

fun scan_free :: "u8 list \<Rightarrow> nat \<Rightarrow> nat \<Rightarrow> u8 option" where
  "scan_free sector 0 ent = None"
| "scan_free sector (Suc n) ent =
     (let c = rd8 (entry_at sector ent) 0 in
      if c = 0 \<or> c = 0xE5 then Some (of_nat ent) else scan_free sector n (ent + 1))"

function slot_sectors :: "'d fat32_fs \<Rightarrow> u32 \<Rightarrow> u32 \<Rightarrow> ('d, 'a) fat_state_scheme \<Rightarrow>
    ((u32 \<times> u8) scan \<times> ('d, 'a) fat_state_scheme) option" where
  "slot_sectors fs first_sector sec st =
     (if sec < ucast (sectors_per_cluster (bpb fs)) then do {
        (ret, sector, st) \<leftarrow> cache_read_sector fs (first_sector + sec) st;
        if ret \<noteq> 0 then Some (Fail, st)
        else (case scan_free sector 16 0 of
                Some ent \<Rightarrow> Some (Found (first_sector + sec, ent), st)
              | None \<Rightarrow> slot_sectors fs first_sector (sec + 1) st)
      } else Some (Continue, st))"
  by pat_completeness auto
termination
proof (relation "measure (\<lambda>(fs, f, sec, st). unat (ucast (sectors_per_cluster (bpb fs)) - sec))", goal_cases)
  case (2 fs f sec)
  then show ?case by unat_arith
qed simp

declare slot_sectors.simps [simp del]

partial_function (option) find_free_dirent_slot :: "'d fat32_fs \<Rightarrow> u32 \<Rightarrow> ('d, 'a) fat_state_scheme \<Rightarrow>
    ((u32 \<times> u8) option \<times> ('d, 'a) fat_state_scheme) option" where
  "find_free_dirent_slot fs cur st =
     (if cur \<noteq> NO_CLUSTER then do {
        (r, st) \<leftarrow> slot_sectors fs (cluster_sector fs cur) 0 st;
        (case r of
           Found x \<Rightarrow> Some (Some x, st)
         | Fail \<Rightarrow> Some (None, st)
         | Continue \<Rightarrow> do { (nxt, st) \<leftarrow> fat32_next_cluster fs cur st; find_free_dirent_slot fs nxt st })
      } else Some (None, st))"

subsection \<open>Path resolution\<close>

text \<open>
  The loop over the components. The result is \<open>None\<close> for a return of -1, otherwise the cluster
  reached and the last component (\<open>None\<close> when \<^verbatim>\<open>last_component\<close> stays \<^verbatim>\<open>NULL\<close>).
\<close>

lemma tl_dropWhile_shorter: "dropWhile P xs \<noteq> [] \<Longrightarrow> length (tl (dropWhile P xs)) < length xs"
  using length_dropWhile_le [of P xs] by (cases "dropWhile P xs") auto

function resolve_loop :: "'d fat32_fs \<Rightarrow> u32 \<Rightarrow> u8 list \<Rightarrow> ('d, 'a) fat_state_scheme \<Rightarrow>
    ((u32 \<times> u8 list option) option \<times> ('d, 'a) fat_state_scheme) option" where
  "resolve_loop fs cur start st =
     (if start = [] then Some (Some (cur, None), st)
      else
        let part = takeWhile (\<lambda>c. c \<noteq> 0x2F) start; rest = dropWhile (\<lambda>c. c \<noteq> 0x2F) start in
        if rest = [] then Some (Some (cur, Some part), st)
        else if part = [] then resolve_loop fs cur (tl rest) st
        else do {
          (r, st) \<leftarrow> fat32_find fs cur (to_8_3 part) st;
          (case r of
             None \<Rightarrow> Some (None, st)
           | Some (de, _, _) \<Rightarrow>
               if de_attr de AND FAT32_ATTR_DIRECTORY = 0 then Some (None, st)
               else resolve_loop fs (dirent_cluster de) (tl rest) st)
        })"
  by pat_completeness auto
termination
proof (relation "measure (\<lambda>(fs, c, start, st). length start)", goal_cases)
  case (2 fs cur start st part rest)
  then show ?case using tl_dropWhile_shorter [of "\<lambda>c. c \<noteq> 0x2F" start] by simp
next
  case (3 fs cur start st part rest)
  then show ?case using tl_dropWhile_shorter [of "\<lambda>c. c \<noteq> 0x2F" start] by simp
qed simp

declare resolve_loop.simps [simp del]

text \<open>
  The result is \<open>None\<close> for -1, otherwise the parent cluster and the 11 bytes of the name buffer;
  only its first byte is set, to NUL, when there is no last component, and no caller looks at the
  others then.
\<close>

definition fat32_resolve :: "'d fat32_fs option \<Rightarrow> u8 list option \<Rightarrow> ('d, 'a) fat_state_scheme \<Rightarrow>
    ((u32 \<times> u8 list) option \<times> ('d, 'a) fat_state_scheme) option" where
  "fat32_resolve fs path st =
     (case (fs, path) of
        (Some fs, Some path) \<Rightarrow>
          if path = [] \<or> path = [0x2F] then Some (Some (root_cluster (bpb fs), replicate 11 0), st)
          else
            let cur = (if hd path = 0x2F then tl path else path) in
            if length cur \<ge> 256 then Some (None, st)
            else do {
              (r, st) \<leftarrow> resolve_loop fs (root_cluster (bpb fs)) cur st;
              (case r of
                 None \<Rightarrow> Some (None, st)
               | Some (c, Some part) \<Rightarrow> Some (Some (c, to_8_3 part), st)
               | Some (c, None) \<Rightarrow> Some (Some (c, replicate 11 0), st))
            }
      | _ \<Rightarrow> Some (None, st))"

subsection \<open>Mounting\<close>

definition is_fat32_direct :: "u8 list \<Rightarrow> bool" where
  "is_fat32_direct sector =
     (let b = bpb_of sector; t = fs_type b; spc = sectors_per_cluster b; j0 = jmp b ! 0; j2 = jmp b ! 2 in
      bytes_per_sector b = 512 \<and>
      ((take 5 t = [0x46, 0x41, 0x54, 0x33, 0x32] \<or> take 3 t = [0x46, 0x41, 0x54] \<or>
          take 5 t = [0x4D, 0x53, 0x44, 0x4F, 0x53]) \<or>
       (((j0 = 0xEB \<and> j2 = 0x90) \<or> j0 = 0xE9 \<or> j0 = 0xE8) \<and> spc \<in> {1, 2, 4, 8, 16, 32, 64, 128})))"

definition is_fat_partition :: "u8 \<Rightarrow> bool" where
  "is_fat_partition type \<longleftrightarrow> type \<in> {0x0B, 0x0C, 0x1B, 0x1C, 0x0E, 0x1E}"

text \<open>The LBA of the first FAT partition in the table, 0 when there is none.\<close>

definition mbr_lba :: "u8 list \<Rightarrow> u32" where
  "mbr_lba sector =
     (case List.find (\<lambda>i. is_fat_partition (rd8 sector (0x1BE + i * 16 + 4))) [0..<4] of
        None \<Rightarrow> 0 | Some i \<Rightarrow> rd32 sector (0x1BE + i * 16 + 8))"

definition has_fat_partition :: "u8 list \<Rightarrow> bool" where
  "has_fat_partition sector \<longleftrightarrow> list_ex (\<lambda>i. is_fat_partition (rd8 sector (0x1BE + i * 16 + 4))) [0..<4]"

text \<open>
  Steps 1 to 3 of \<open>fat32_mount\<close>: the boot sector and \<^verbatim>\<open>is_fat32_direct\<close>. The partition offset is
  found in a variable \<^verbatim>\<open>fat32_lba\<close> of the inner block that hides the outer one, so the outer one,
  which step 6 uses, is always 0. The result is \<open>None\<close> for a return of \<^verbatim>\<open>NULL\<close>.
\<close>

definition mount_probe :: "'d blockdev option \<Rightarrow> ('d, 'a) fat_state_scheme \<Rightarrow>
    (u8 list \<times> bool) option \<times> ('d, 'a) fat_state_scheme" where
  "mount_probe dv st =
     (case dv of
        None \<Rightarrow> (None, st)
      | Some dv \<Rightarrow> (case bd_read dv of
          None \<Rightarrow> (None, st)
        | Some rd \<Rightarrow>
            let (ret, sector, d) = rd (dev_state st) 0 1; st = st\<lparr>dev_state := d\<rparr> in
            if ret \<noteq> 0 then (None, st)
            else if is_fat32_direct sector then (Some (sector, True), st)
            else if rd8 sector 510 = 0x55 \<and> rd8 sector 511 = 0xAA then
              if has_fat_partition sector then
                let lba = mbr_lba sector; (ret, sector, d) = rd (dev_state st) lba 1; st = st\<lparr>dev_state := d\<rparr> in
                if ret \<noteq> 0 then (None, st)
                else if lba = 0 then (None, st)
                else (Some (sector, False), st)
              else (None, st)
            else (None, st)))"

definition fat32_mount :: "'d blockdev option \<Rightarrow> ('d, 'a) fat_state_scheme \<Rightarrow>
    ('d fat32_fs option \<times> ('d, 'a) fat_state_scheme) option" where
  "fat32_mount dv st =
     (case mount_probe dv st of
        (None, st) \<Rightarrow> Some (None, st)
      | (Some (sector, direct), st) \<Rightarrow>
          let b = bpb_of sector; fat32_lba = (0 :: u32) in
          if bytes_per_sector b \<noteq> 512 then Some (None, st)
          else if sectors_per_cluster b = 0 then Some (None, st)
          else if num_fats b = 0 then Some (None, st)
          else do {
            (ptr, st) \<leftarrow> kmalloc st 536;
            if ptr = NULL then Some (None, st)
            else
              let fstart = ucast (reserved_sectors b) + (if direct \<and> fat32_lba > 0 then fat32_lba else 0);
                  dstart = fstart + ucast (num_fats b) * sectors_per_fat b;
                  bpc = ucast (bytes_per_sector b) * ucast (sectors_per_cluster b)
              in Some (Some \<lparr>bpb = b, dev = dv, fat_start = fstart, data_start = dstart, bytes_per_cluster = bpc\<rparr>, st)
          })"

subsection \<open>Files\<close>

definition free_slot :: "'d fat32_file list \<Rightarrow> nat option" where
  "free_slot files = List.find (\<lambda>i. \<not> f_used (files ! i)) [0..<MAX_OPEN_FILES]"

text \<open>\<^verbatim>\<open>write_fat_entry(fs, cluster, FAT32_FREE_CLUSTER); return NULL / -1;\<close>\<close>

definition undo_cluster :: "'d fat32_fs \<Rightarrow> u32 \<Rightarrow> ('d, 'a) fat_state_scheme \<Rightarrow>
    ('r option \<times> ('d, 'a) fat_state_scheme) option" where
  "undo_cluster fs cluster st = do { (_, st) \<leftarrow> write_fat_entry fs cluster FAT32_FREE_CLUSTER st; Some (None, st) }"

text \<open>The part of \<open>fat32_open\<close> that creates the directory entry of a new file.\<close>

definition create_entry :: "'d fat32_fs \<Rightarrow> u32 \<Rightarrow> u8 list \<Rightarrow> ('d, 'a) fat_state_scheme \<Rightarrow>
    (fat32_dirent option \<times> ('d, 'a) fat_state_scheme) option" where
  "create_entry fs parent target st = do {
     let entry = zero_dirent\<lparr>de_name := take 8 target, de_ext := take 3 (drop 8 target), de_attr := FAT32_ATTR_ARCHIVE\<rparr>;
     (c, st) \<leftarrow> allocate_cluster fs 0 st;
     if c = 0 then Some (None, st)
     else do {
       let entry = entry\<lparr>cluster_lo := ucast (c AND 0xFFFF), cluster_hi := ucast (drop_bit 16 c AND 0xFFFF)\<rparr>;
       (slot, st) \<leftarrow> find_free_dirent_slot fs parent st;
       (case slot of
          None \<Rightarrow> undo_cluster fs c st
        | Some (dir_sector, dir_entry) \<Rightarrow> do {
            (ret, sector, st) \<leftarrow> cache_read_sector fs dir_sector st;
            if ret \<noteq> 0 then undo_cluster fs c st
            else do {
              (ret, st) \<leftarrow> cache_write_sector fs dir_sector (put sector (unat dir_entry * 32) (dirent_bytes entry)) st;
              if ret \<noteq> 0 then undo_cluster fs c st else Some (Some entry, st)
            }
          })
     }
   }"

definition mode_char :: "u8 list \<Rightarrow> u8" where
  "mode_char mode = (if mode = [] then 0 else hd mode)"

definition fat32_open :: "'d fat32_fs option \<Rightarrow> u8 list option \<Rightarrow> u8 list \<Rightarrow> ('d, 'a) fat_state_scheme \<Rightarrow>
    (nat option \<times> ('d, 'a) fat_state_scheme) option" where
  "fat32_open fso path mode st =
     (if \<not> validate_fs fso then Some (None, st)
      else do {
        fs \<leftarrow> fso;
        (r, st) \<leftarrow> fat32_resolve (Some fs) path st;
        (case r of
           None \<Rightarrow> Some (None, st)
         | Some (parent, target) \<Rightarrow>
             if rd8 target 0 = 0 then Some (None, st)
             else do {
               (found, st) \<leftarrow> fat32_find fs parent target st;
               (entry, st) \<leftarrow>
                 (case found of
                    Some (de, _, _) \<Rightarrow> Some (Some de, st)
                  | None \<Rightarrow>
                      if mode_char mode \<noteq> 0x77 \<and> mode_char mode \<noteq> 0x61 then Some (None, st)
                      else create_entry fs parent target st);
               (case entry of
                  None \<Rightarrow> Some (None, st)
                | Some de \<Rightarrow>
                    (case free_slot (open_files st) of
                       None \<Rightarrow> Some (None, st)
                     | Some i \<Rightarrow>
                         let c = dirent_cluster de;
                             file = \<lparr>f_used = True, f_mode = 0, f_fs = Some fs, first_cluster = c, curr_cluster = c,
                                      curr_offset = 0, file_size = de_size de, file_pos = 0\<rparr>;
                             file = (if mode_char mode = 0x77 then file\<lparr>f_mode := 1, file_size := 0, file_pos := 0\<rparr>
                                     else if mode_char mode = 0x61 then file\<lparr>f_mode := 1, file_pos := de_size de\<rparr>
                                     else file\<lparr>f_mode := 0\<rparr>)
                         in Some (Some i, st\<lparr>open_files := (open_files st)[i := file]\<rparr>)))
             })
      })"

text \<open>
  Sizes are C \<open>int\<close>s, kept as 32-bit words and compared as signed where the code does. The loop
  over \<^verbatim>\<open>cluster_offset\<close> ends early (\<^verbatim>\<open>goto done\<close>) at the end of the chain: \<open>None\<close>.
\<close>

fun skip_clusters :: "'d fat32_fs \<Rightarrow> nat \<Rightarrow> u32 \<Rightarrow> ('d, 'a) fat_state_scheme \<Rightarrow>
    (u32 option \<times> ('d, 'a) fat_state_scheme) option" where
  "skip_clusters fs 0 target st = Some (Some target, st)"
| "skip_clusters fs (Suc n) target st = do {
     (target, st) \<leftarrow> fat32_next_cluster fs target st;
     if target = NO_CLUSTER then Some (None, st) else skip_clusters fs n target st }"

partial_function (option) read_loop :: "'d fat32_fs \<Rightarrow> 'd fat32_file \<Rightarrow> u32 \<Rightarrow> u8 list \<Rightarrow> u32 \<Rightarrow>
    ('d, 'a) fat_state_scheme \<Rightarrow> (u32 \<times> u8 list \<times> 'd fat32_file \<times> ('d, 'a) fat_state_scheme) option" where
  "read_loop fs file sz dst bytes_read st =
     (if sint sz > 0 then
        if bytes_per_cluster fs = 0 then None
        else do {
          let cluster_offset = curr_offset file div bytes_per_cluster fs;
          let sector_in_cluster = (curr_offset file mod bytes_per_cluster fs) div 512;
          (t, st) \<leftarrow> skip_clusters fs (unat cluster_offset) (curr_cluster file) st;
          (case t of
             None \<Rightarrow> Some (bytes_read, dst, file, st)
           | Some target_cluster \<Rightarrow> do {
               (ret, buf, st) \<leftarrow> cache_read_sector fs (cluster_sector fs target_cluster + sector_in_cluster) st;
               if ret \<noteq> 0 then Some (bytes_read, dst, file, st)
               else do {
                 let offset_in_sector = curr_offset file mod 512;
                 let bytes_in_sector = 512 - offset_in_sector;
                 let to_copy = (if sz < bytes_in_sector then sz else bytes_in_sector);
                 let dst = dst @ take (unat to_copy) (drop (unat offset_in_sector) buf);
                 let bytes_read = bytes_read + to_copy;
                 let file = file\<lparr>file_pos := file_pos file + to_copy, curr_offset := curr_offset file + to_copy\<rparr>;
                 let sz = sz - to_copy;
                 if curr_offset file \<ge> bytes_per_cluster fs then do {
                   (c, st) \<leftarrow> fat32_next_cluster fs (curr_cluster file) st;
                   let file = file\<lparr>curr_offset := 0, curr_cluster := c\<rparr>;
                   if c = NO_CLUSTER then Some (bytes_read, dst, file, st)
                   else read_loop fs file sz dst bytes_read st
                 } else read_loop fs file sz dst bytes_read st
               }
             })
        }
      else Some (bytes_read, dst, file, st))"

text \<open>The result of \<open>fat32_read\<close>: the return value and the bytes stored in the buffer.\<close>

definition fat32_read :: "nat option \<Rightarrow> u32 \<Rightarrow> ('d, 'a) fat_state_scheme \<Rightarrow>
    (int \<times> u8 list \<times> ('d, 'a) fat_state_scheme) option" where
  "fat32_read fp sz st =
     (case fp of
        None \<Rightarrow> Some (-1, [], st)
      | Some i \<Rightarrow>
          let file = open_files st ! i in
          if \<not> f_used file \<or> f_mode file \<noteq> 0 then Some (-1, [], st)
          else if sint sz \<le> 0 then Some (0, [], st)
          else if file_pos file \<ge> file_size file then Some (0, [], st)
          else do {
            let sz = (if file_pos file + sz > file_size file then file_size file - file_pos file else sz);
            fs \<leftarrow> f_fs file;
            (n, dst, file, st) \<leftarrow> read_loop fs file sz [] 0 st;
            Some (sint n, dst, st\<lparr>open_files := (open_files st)[i := file]\<rparr>)
          })"

partial_function (option) write_loop :: "'d fat32_fs \<Rightarrow> 'd fat32_file \<Rightarrow> u32 \<Rightarrow> u8 list \<Rightarrow> u32 \<Rightarrow>
    ('d, 'a) fat_state_scheme \<Rightarrow> (u32 \<times> 'd fat32_file \<times> ('d, 'a) fat_state_scheme) option" where
  "write_loop fs file sz src bytes_written st =
     (if sint sz > 0 then do {
        (go, file, st) \<leftarrow>
          (if curr_cluster file = 0 then do {
             (c, st) \<leftarrow> allocate_cluster fs 0 st;
             let file = file\<lparr>first_cluster := c\<rparr>;
             if c = 0 then Some (False, file, st)
             else Some (True, file\<lparr>curr_cluster := c, curr_offset := 0\<rparr>, st)
           } else Some (True, file, st));
        if \<not> go then Some (bytes_written, file, st)
        else do {
          let sector_in_cluster = curr_offset file div 512;
          let offset_in_sector = curr_offset file mod 512;
          let sector = cluster_sector fs (curr_cluster file) + sector_in_cluster;
          (ret, buf, st) \<leftarrow> cache_read_sector fs sector st;
          let buf = (if ret \<noteq> 0 then replicate 512 0 else buf);
          let bytes_in_sector = 512 - offset_in_sector;
          let to_copy = (if sz < bytes_in_sector then sz else bytes_in_sector);
          let buf = put buf (unat offset_in_sector) (take (unat to_copy) src);
          (ret, st) \<leftarrow> cache_write_sector fs sector buf st;
          if ret \<noteq> 0 then Some (bytes_written, file, st)
          else do {
            let src = drop (unat to_copy) src;
            let bytes_written = bytes_written + to_copy;
            let file = file\<lparr>file_pos := file_pos file + to_copy, curr_offset := curr_offset file + to_copy\<rparr>;
            let sz = sz - to_copy;
            let file = (if file_pos file > file_size file then file\<lparr>file_size := file_pos file\<rparr> else file);
            if curr_offset file \<ge> bytes_per_cluster fs then do {
              (nxt, st) \<leftarrow> fat32_next_cluster fs (curr_cluster file) st;
              if nxt = NO_CLUSTER then do {
                (nxt, st) \<leftarrow> allocate_cluster fs (curr_cluster file) st;
                if nxt = 0 then Some (bytes_written, file, st)
                else write_loop fs (file\<lparr>curr_cluster := nxt, curr_offset := 0\<rparr>) sz src bytes_written st
              }
              else write_loop fs (file\<lparr>curr_cluster := nxt, curr_offset := 0\<rparr>) sz src bytes_written st
            } else write_loop fs file sz src bytes_written st
          }
        }
      }
      else Some (bytes_written, file, st))"

definition fat32_write :: "nat option \<Rightarrow> u8 list \<Rightarrow> u32 \<Rightarrow> ('d, 'a) fat_state_scheme \<Rightarrow>
    (int \<times> ('d, 'a) fat_state_scheme) option" where
  "fat32_write fp buffer sz st =
     (case fp of
        None \<Rightarrow> Some (-1, st)
      | Some i \<Rightarrow>
          let file = open_files st ! i in
          if \<not> f_used file \<or> f_mode file \<noteq> 1 then Some (-1, st)
          else if sint sz \<le> 0 then Some (0, st)
          else do {
            fs \<leftarrow> f_fs file;
            (n, file, st) \<leftarrow> write_loop fs file sz buffer 0 st;
            Some (sint n, st\<lparr>open_files := (open_files st)[i := file]\<rparr>)
          })"

definition fat32_close :: "nat option \<Rightarrow> ('d, 'a) fat_state_scheme \<Rightarrow> ('d, 'a) fat_state_scheme" where
  "fat32_close fp st =
     (case fp of
        None \<Rightarrow> st
      | Some i \<Rightarrow>
          let file = open_files st ! i in
          if f_used file then st\<lparr>open_files := (open_files st)[i := file\<lparr>f_used := False\<rparr>]\<rparr> else st)"

definition mkdir_entry :: "u8 list \<Rightarrow> u32 \<Rightarrow> fat32_dirent" where
  "mkdir_entry name c = zero_dirent\<lparr>de_name := take 8 name, de_ext := take 3 (drop 8 name), de_attr := FAT32_ATTR_DIRECTORY,
     cluster_lo := ucast (c AND 0xFFFF), cluster_hi := ucast (drop_bit 16 c AND 0xFFFF)\<rparr>"

text \<open>The loop that clears the new cluster; \<open>False\<close> when a write fails.\<close>

function clear_sectors :: "'d fat32_fs \<Rightarrow> u32 \<Rightarrow> u32 \<Rightarrow> ('d, 'a) fat_state_scheme \<Rightarrow>
    (bool \<times> ('d, 'a) fat_state_scheme) option" where
  "clear_sectors fs first_sector i st =
     (if i < ucast (sectors_per_cluster (bpb fs)) then do {
        (ret, st) \<leftarrow> cache_write_sector fs (first_sector + i) (replicate 512 0) st;
        if ret \<noteq> 0 then Some (False, st) else clear_sectors fs first_sector (i + 1) st
      } else Some (True, st))"
  by pat_completeness auto
termination
proof (relation "measure (\<lambda>(fs, f, i, st). unat (ucast (sectors_per_cluster (bpb fs)) - i))", goal_cases)
  case (2 fs f i)
  then show ?case by unat_arith
qed simp

declare clear_sectors.simps [simp del]

text \<open>\<open>fat32_mkdir\<close> from the allocation of the cluster on; \<open>Some ()\<close> is a return of 0, \<open>None\<close> of -1.\<close>

definition mkdir_cluster :: "'d fat32_fs \<Rightarrow> u32 \<Rightarrow> u8 list \<Rightarrow> u32 \<Rightarrow> ('d, 'a) fat_state_scheme \<Rightarrow>
    (unit option \<times> ('d, 'a) fat_state_scheme) option" where
  "mkdir_cluster fs parent name c st = do {
     let first_sector = cluster_sector fs c;
     (ok, st) \<leftarrow> clear_sectors fs first_sector 0 st;
     if \<not> ok then undo_cluster fs c st
     else do {
       (ret, sector, st) \<leftarrow> cache_read_sector fs first_sector st;
       if ret \<noteq> 0 then undo_cluster fs c st
       else do {
         let sector = put sector 0 (dirent_bytes (mkdir_entry DOT_NAME c));
         let sector = put sector 32 (dirent_bytes (mkdir_entry DOTDOT_NAME parent));
         (ret, st) \<leftarrow> cache_write_sector fs first_sector sector st;
         if ret \<noteq> 0 then undo_cluster fs c st
         else do {
           (slot, st) \<leftarrow> find_free_dirent_slot fs parent st;
           (case slot of
              None \<Rightarrow> undo_cluster fs c st
            | Some (dir_sector, dir_entry) \<Rightarrow> do {
                (ret, sector, st) \<leftarrow> cache_read_sector fs dir_sector st;
                if ret \<noteq> 0 then undo_cluster fs c st
                else do {
                  (ret, st) \<leftarrow> cache_write_sector fs dir_sector
                    (put sector (unat dir_entry * 32) (dirent_bytes (mkdir_entry name c))) st;
                  if ret \<noteq> 0 then undo_cluster fs c st else Some (Some (), st)
                }
              })
         }
       }
     }
   }"

definition fat32_mkdir :: "'d fat32_fs option \<Rightarrow> u8 list option \<Rightarrow> ('d, 'a) fat_state_scheme \<Rightarrow>
    (int \<times> ('d, 'a) fat_state_scheme) option" where
  "fat32_mkdir fso path st =
     (if \<not> validate_fs fso then Some (-1, st)
      else do {
        fs \<leftarrow> fso;
        (r, st) \<leftarrow> fat32_resolve (Some fs) path st;
        (case r of
           None \<Rightarrow> Some (-1, st)
         | Some (parent, name) \<Rightarrow>
             if rd8 name 0 = 0 then Some (-1, st)
             else do {
               (existing, st) \<leftarrow> fat32_find fs parent name st;
               if existing \<noteq> None then Some (-1, st)
               else do {
                 (c, st) \<leftarrow> allocate_cluster fs 0 st;
                 if c = 0 then Some (-1, st)
                 else do {
                   (r, st) \<leftarrow> mkdir_cluster fs parent name c st;
                   Some (if r = None then -1 else 0, st)
                 }
               }
             })
      })"

end
