(* ===== verification/Vfs.thy ===== *)
theory Vfs
  imports Kmalloc
begin

unbundle bit_operations_syntax

text \<open>
  \<^verbatim>\<open>kernel/src/vfs.c\<close>, \<^verbatim>\<open>kernel/src/vfs.h\<close>: the virtual file system, a table of mount points with path
  translation in front of file system drivers. C strings are byte lists without their NUL, a null
  pointer is \<open>None\<close>. A driver is the record of its function pointers on the kernel state \<open>'s\<close>; where the
  C functions take the mount structure the drivers get its \<^verbatim>\<open>private_data\<close>, the only field they read.
  The structures the code allocates with \<open>kmalloc\<close> (mount points and open files) are kept
  as records under the address that \<open>kmalloc\<close> returned, apart from the bytes of the heap block, and
  disappear when they are freed: following a pointer to one that is gone is \<open>None\<close>, as is a call that
  does not come back. \<^verbatim>\<open>klog\<close> calls only print and are left out.
\<close>

record vfs_stat_rec =
  st_mode :: u32
  st_size :: u32
  st_blocks :: u32
  st_atime :: u32
  st_mtime :: u32
  st_ctime :: u32

record vfs_dirent =
  d_ino :: u32
  d_type :: u8
  d_name :: "u8 list"

text \<open>
  \<^verbatim>\<open>struct vfs_fs_ops\<close>. \<open>op_open\<close> and \<open>op_opendir\<close> return with the code the handle they store
  (0 when they store none), \<open>op_read\<close> the bytes it stores in the buffer.
\<close>

record ('s, 'p) vfs_fs_ops =
  op_open :: "('p \<Rightarrow> u8 list \<Rightarrow> u32 \<Rightarrow> 's \<Rightarrow> (int \<times> u64 \<times> 's) option) option"
  op_close :: "(u64 \<Rightarrow> 's \<Rightarrow> (int \<times> 's) option) option"
  op_read :: "(u64 \<Rightarrow> u64 \<Rightarrow> 's \<Rightarrow> (int \<times> u8 list \<times> 's) option) option"
  op_write :: "(u64 \<Rightarrow> u8 list \<Rightarrow> u64 \<Rightarrow> 's \<Rightarrow> (int \<times> 's) option) option"
  op_seek :: "(u64 \<Rightarrow> u64 \<Rightarrow> int \<Rightarrow> 's \<Rightarrow> (int \<times> 's) option) option"
  op_tell :: "(u64 \<Rightarrow> 's \<Rightarrow> (u64 \<times> 's) option) option"
  op_truncate :: "(u64 \<Rightarrow> u64 \<Rightarrow> 's \<Rightarrow> (int \<times> 's) option) option"
  op_sync :: "(u64 \<Rightarrow> 's \<Rightarrow> (int \<times> 's) option) option"
  op_mkdir :: "('p \<Rightarrow> u8 list \<Rightarrow> 's \<Rightarrow> (int \<times> 's) option) option"
  op_rmdir :: "('p \<Rightarrow> u8 list \<Rightarrow> 's \<Rightarrow> (int \<times> 's) option) option"
  op_unlink :: "('p \<Rightarrow> u8 list \<Rightarrow> 's \<Rightarrow> (int \<times> 's) option) option"
  op_rename :: "('p \<Rightarrow> u8 list \<Rightarrow> u8 list \<Rightarrow> 's \<Rightarrow> (int \<times> 's) option) option"
  op_stat :: "('p \<Rightarrow> u8 list \<Rightarrow> vfs_stat_rec \<Rightarrow> 's \<Rightarrow> (int \<times> vfs_stat_rec \<times> 's) option) option"
  op_opendir :: "('p \<Rightarrow> u8 list \<Rightarrow> 's \<Rightarrow> (int \<times> u64 \<times> 's) option) option"
  op_readdir :: "(u64 \<Rightarrow> vfs_dirent \<Rightarrow> 's \<Rightarrow> (int \<times> vfs_dirent \<times> 's) option) option"
  op_closedir :: "(u64 \<Rightarrow> 's \<Rightarrow> (int \<times> 's) option) option"
  op_sync_fs :: "('p \<Rightarrow> 's \<Rightarrow> (int \<times> 's) option) option"
  op_statfs :: "('p \<Rightarrow> 's \<Rightarrow> (int \<times> u64 \<times> u64 \<times> 's) option) option"

record ('s, 'p) vfs_mount_rec =
  m_addr :: u64
  m_path :: "u8 list"
  m_path_addr :: u64
  m_ops :: "('s, 'p) vfs_fs_ops"
  private_data :: 'p

record vfs_file =
  f_mount :: u64
  fs_handle :: u64
  f_flags :: u32
  f_pos :: u64
  f_is_dir :: bool

text \<open>The globals of \<^verbatim>\<open>vfs.c\<close>, and the open files by address.\<close>

record ('s, 'p) vfs =
  mounts :: "('s, 'p) vfs_mount_rec list"
  root_bind :: u64
  vfs_initialized :: bool
  vfs_files :: "u64 \<Rightarrow> vfs_file option"

abbreviation (input) VFS_READ :: u32 where "VFS_READ \<equiv> 0x01"
abbreviation (input) VFS_WRITE :: u32 where "VFS_WRITE \<equiv> 0x02"
abbreviation (input) VFS_TYPE_FILE :: u32 where "VFS_TYPE_FILE \<equiv> 0x01"
abbreviation (input) VFS_TYPE_DIR :: u32 where "VFS_TYPE_DIR \<equiv> 0x02"
abbreviation (input) SEEK_SET :: int where "SEEK_SET \<equiv> 0"
abbreviation (input) SEEK_CUR :: int where "SEEK_CUR \<equiv> 1"
abbreviation (input) VFS_OK :: int where "VFS_OK \<equiv> 0"
abbreviation (input) VFS_ERR_GENERIC :: int where "VFS_ERR_GENERIC \<equiv> -1"
abbreviation (input) VFS_ERR_NOMEM :: int where "VFS_ERR_NOMEM \<equiv> -2"
abbreviation (input) VFS_ERR_NOTFOUND :: int where "VFS_ERR_NOTFOUND \<equiv> -3"
abbreviation (input) VFS_ERR_EXISTS :: int where "VFS_ERR_EXISTS \<equiv> -4"
abbreviation (input) VFS_ERR_NOTDIR :: int where "VFS_ERR_NOTDIR \<equiv> -5"
abbreviation (input) VFS_ERR_PERM :: int where "VFS_ERR_PERM \<equiv> -7"
abbreviation (input) VFS_ERR_NOTSUPP :: int where "VFS_ERR_NOTSUPP \<equiv> -9"

abbreviation (input) SLASH :: u8 where "SLASH \<equiv> 0x2F"

text \<open>\<^verbatim>\<open>"/mnt"\<close>\<close>

definition MNT_PATH :: "u8 list" where "MNT_PATH = [0x2F, 0x6D, 0x6E, 0x74]"

subsection \<open>Path translation\<close>

text \<open>\<open>char\<close> is signed: bytes from \<open>0x80\<close> on compare as negative.\<close>

definition printable :: "u8 \<Rightarrow> bool" where
  "printable c \<longleftrightarrow> sint c \<ge> 32 \<and> sint c \<le> 126"

text \<open>The copying loop of \<open>normalize_path\<close>: \<open>dst\<close> is what has been written so far.\<close>

fun norm_loop :: "u8 list \<Rightarrow> bool \<Rightarrow> u8 list \<Rightarrow> u8 list" where
  "norm_loop [] last_slash dst = dst"
| "norm_loop (c # src) last_slash dst =
     (if c = SLASH then
        if \<not> last_slash then norm_loop src True (dst @ [SLASH]) else norm_loop src last_slash dst
      else if printable c then norm_loop src False (dst @ [c])
      else norm_loop src last_slash dst)"

text \<open>\<open>None\<close> is the return of -1, which leaves the path as it was.\<close>

definition normalize_path :: "u8 list \<Rightarrow> u8 list option" where
  "normalize_path path =
     (if path = [] then None
      else if hd path \<noteq> SLASH then None
      else
        let dst = norm_loop path False [];
            dst = (if length dst > 1 \<and> last dst = SLASH then butlast dst else dst)
        in Some (if dst = [] then [SLASH] else dst))"

text \<open>\<open>bnd\<close> is the path of \<open>root_bind\<close>; the result is the contents of \<^verbatim>\<open>real_path\<close>, \<open>None\<close> a return of -1.\<close>

definition translate_path :: "u8 list option \<Rightarrow> u8 list option \<Rightarrow> nat \<Rightarrow> u8 list option" where
  "translate_path bnd user_path sz =
     (case user_path of
        None \<Rightarrow> None
      | Some user \<Rightarrow>
          if sz < 2 then None
          else if user = [] \<or> hd user \<noteq> SLASH then None
          else (case bnd of
              None \<Rightarrow> normalize_path (take (sz - 1) user)
            | Some mnt \<Rightarrow>
                if length user = 1 \<and> hd user = SLASH then Some (take (sz - 1) mnt)
                else if length mnt + length user \<ge> sz then None
                else normalize_path (mnt @ user)))"

subsection \<open>Mount points\<close>

definition mount_at :: "('s, 'p) vfs \<Rightarrow> u64 \<Rightarrow> ('s, 'p) vfs_mount_rec option" where
  "mount_at v a = List.find (\<lambda>m. m_addr m = a) (mounts v)"

text \<open>\<^verbatim>\<open>root_bind->path\<close>, or no bind.\<close>

definition bind_path :: "('s, 'p) vfs \<Rightarrow> u8 list option" where
  "bind_path v = (if root_bind v = NULL then None else map_option m_path (mount_at v (root_bind v)))"

definition char_at :: "u8 list \<Rightarrow> nat \<Rightarrow> u8" where
  "char_at s i = (if i < length s then s ! i else 0)"

fun mount_loop :: "u8 list \<Rightarrow> ('s, 'p) vfs_mount_rec list \<Rightarrow> ('s, 'p) vfs_mount_rec option \<Rightarrow> nat \<Rightarrow>
    ('s, 'p) vfs_mount_rec option \<times> nat" where
  "mount_loop real_path [] best best_len = (best, best_len)"
| "mount_loop real_path (m # ms) best best_len =
     (let mlen = length (m_path m) in
      if take mlen real_path = m_path m \<and> (char_at real_path mlen = SLASH \<or> char_at real_path mlen = 0) \<and> mlen > best_len
      then mount_loop real_path ms (Some m) mlen
      else mount_loop real_path ms best best_len)"

definition find_mount_for_real_path :: "('s, 'p) vfs \<Rightarrow> u8 list \<Rightarrow> (('s, 'p) vfs_mount_rec \<times> u8 list) option" where
  "find_mount_for_real_path v real_path =
     (if real_path = [] then None
      else (case mount_loop real_path (mounts v) None 0 of
          (None, _) \<Rightarrow> None
        | (Some m, best_len) \<Rightarrow> Some (m, dropWhile (\<lambda>c. c = SLASH) (drop best_len real_path))))"

definition vfs_init :: "('s, 'p) vfs \<Rightarrow> ('s, 'p) vfs" where
  "vfs_init v = (if vfs_initialized v then v else v\<lparr>mounts := [], root_bind := NULL, vfs_initialized := True\<rparr>)"

definition vfs_mount :: "u8 list option \<Rightarrow> ('a kmalloc_state_scheme, 'p) vfs_fs_ops option \<Rightarrow> 'p \<Rightarrow>
    ('a kmalloc_state_scheme, 'p) vfs \<Rightarrow> 'a kmalloc_state_scheme \<Rightarrow>
    (int \<times> ('a kmalloc_state_scheme, 'p) vfs \<times> 'a kmalloc_state_scheme) option" where
  "vfs_mount path ops priv v s =
     (let v = (if vfs_initialized v then v else vfs_init v) in
      case (path, ops) of
        (Some path, Some ops) \<Rightarrow>
          (case normalize_path (take 255 path) of
             None \<Rightarrow> Some (VFS_ERR_GENERIC, v, s)
           | Some norm_path \<Rightarrow>
               if norm_path \<in> set (map m_path (mounts v)) then Some (VFS_ERR_EXISTS, v, s)
               else do {
                 (m, s) \<leftarrow> kmalloc s 32;
                 if m = NULL then Some (VFS_ERR_NOMEM, v, s)
                 else do {
                   (p, s) \<leftarrow> kmalloc s (of_nat (length norm_path) + 1);
                   if p = NULL then do { s \<leftarrow> kfree s m; Some (VFS_ERR_NOMEM, v, s) }
                   else
                     let mp = \<lparr>m_addr = m, m_path = norm_path, m_path_addr = p, m_ops = ops, private_data = priv\<rparr>;
                         v = v\<lparr>mounts := mp # mounts v\<rparr>;
                         v = (if norm_path = MNT_PATH then v\<lparr>root_bind := m\<rparr> else v)
                     in Some (VFS_OK, v, s)
                 }
               })
      | _ \<Rightarrow> Some (VFS_ERR_GENERIC, v, s))"

text \<open>The loop of \<open>vfs_umount\<close> that unlinks the first mount point with the path.\<close>

fun unlink_mount :: "u8 list \<Rightarrow> ('s, 'p) vfs_mount_rec list \<Rightarrow> (('s, 'p) vfs_mount_rec \<times> ('s, 'p) vfs_mount_rec list) option" where
  "unlink_mount norm_path [] = None"
| "unlink_mount norm_path (m # ms) =
     (if m_path m = norm_path then Some (m, ms)
      else map_option (\<lambda>(x, xs). (x, m # xs)) (unlink_mount norm_path ms))"

definition vfs_umount :: "u8 list option \<Rightarrow> ('a kmalloc_state_scheme, 'p) vfs \<Rightarrow> 'a kmalloc_state_scheme \<Rightarrow>
    (int \<times> ('a kmalloc_state_scheme, 'p) vfs \<times> 'a kmalloc_state_scheme) option" where
  "vfs_umount path v s =
     (case path of
        None \<Rightarrow> Some (VFS_ERR_GENERIC, v, s)
      | Some path \<Rightarrow>
          let norm_path = (case normalize_path (take 255 path) of None \<Rightarrow> take 255 path | Some p \<Rightarrow> p) in
          (case unlink_mount norm_path (mounts v) of
             None \<Rightarrow> Some (VFS_ERR_NOTFOUND, v, s)
           | Some (m, ms) \<Rightarrow> do {
               let v = v\<lparr>mounts := ms\<rparr>;
               let v = (if m_addr m = root_bind v then v\<lparr>root_bind := NULL\<rparr> else v);
               s \<leftarrow> kfree s (m_path_addr m);
               s \<leftarrow> kfree s (m_addr m);
               Some (VFS_OK, v, s)
             }))"

text \<open>
  The first part of every operation on a path: translation and lookup. \<open>Inl\<close> is the failure of the
  translation, \<open>Inr\<close> the mount point and the relative path, or none.
\<close>

definition vfs_route :: "('s, 'p) vfs \<Rightarrow> u8 list option \<Rightarrow> (unit + (('s, 'p) vfs_mount_rec \<times> u8 list) option)" where
  "vfs_route v path =
     (case translate_path (bind_path v) path 256 of
        None \<Rightarrow> Inl ()
      | Some real_path \<Rightarrow> Inr (find_mount_for_real_path v real_path))"

text \<open>\<^verbatim>\<open>!path || path[0] != '/'\<close>\<close>

definition bad_path :: "u8 list option \<Rightarrow> bool" where
  "bad_path path = (case path of None \<Rightarrow> True | Some p \<Rightarrow> p = [] \<or> hd p \<noteq> SLASH)"

subsection \<open>Files\<close>

definition new_vfs_file :: "u64 \<Rightarrow> u32 \<Rightarrow> bool \<Rightarrow> u64 \<Rightarrow> vfs_file" where
  "new_vfs_file m flags is_dir h = \<lparr>f_mount = m, fs_handle = h, f_flags = flags, f_pos = 0, f_is_dir = is_dir\<rparr>"

text \<open>The result is the return code and \<^verbatim>\<open>*file\<close> (0 is \<^verbatim>\<open>NULL\<close>); \<^verbatim>\<open>file\<close> itself is not null.\<close>

definition vfs_open :: "u8 list option \<Rightarrow> u32 \<Rightarrow> ('a kmalloc_state_scheme, 'p) vfs \<Rightarrow> 'a kmalloc_state_scheme \<Rightarrow>
    (int \<times> u64 \<times> ('a kmalloc_state_scheme, 'p) vfs \<times> 'a kmalloc_state_scheme) option" where
  "vfs_open path flags v s =
     (if bad_path path then Some (VFS_ERR_GENERIC, NULL, v, s)
      else (case vfs_route v path of
          Inl _ \<Rightarrow> Some (VFS_ERR_GENERIC, NULL, v, s)
        | Inr None \<Rightarrow> Some (VFS_ERR_NOTFOUND, NULL, v, s)
        | Inr (Some (m, rel_path)) \<Rightarrow>
            (case op_open (m_ops m) of
               None \<Rightarrow> Some (VFS_ERR_NOTSUPP, NULL, v, s)
             | Some drv_open \<Rightarrow> do {
                 (f, s) \<leftarrow> kmalloc s 40;
                 if f = NULL then Some (VFS_ERR_NOMEM, NULL, v, s)
                 else do {
                   (ret, h, s) \<leftarrow> drv_open (private_data m) rel_path flags s;
                   if ret < 0 then do { s \<leftarrow> kfree s f; Some (ret, NULL, v, s) }
                   else Some (VFS_OK, f, v\<lparr>vfs_files := (vfs_files v)(f \<mapsto> new_vfs_file (m_addr m) flags False h)\<rparr>, s)
                 }
               })))"

text \<open>The structure a file pointer points to and the operations of its mount point (\<^verbatim>\<open>file->mount->ops\<close>).\<close>

definition file_ops :: "('s, 'p) vfs \<Rightarrow> u64 \<Rightarrow> (vfs_file \<times> ('s, 'p) vfs_fs_ops) option" where
  "file_ops v file = do { f \<leftarrow> vfs_files v file; m \<leftarrow> mount_at v (f_mount f); Some (f, m_ops m) }"

definition vfs_close :: "u64 \<Rightarrow> ('a kmalloc_state_scheme, 'p) vfs \<Rightarrow> 'a kmalloc_state_scheme \<Rightarrow>
    (int \<times> ('a kmalloc_state_scheme, 'p) vfs \<times> 'a kmalloc_state_scheme) option" where
  "vfs_close file v s =
     (if file = NULL then Some (VFS_ERR_GENERIC, v, s)
      else do {
        (f, ops) \<leftarrow> file_ops v file;
        (ret, s) \<leftarrow>
          (case op_close ops of
             Some drv_close \<Rightarrow> if fs_handle f \<noteq> NULL then drv_close (fs_handle f) s else Some (VFS_OK, s)
           | None \<Rightarrow> Some (VFS_OK, s));
        s \<leftarrow> kfree s file;
        Some (ret, v\<lparr>vfs_files := (vfs_files v)(file := None)\<rparr>, s)
      })"

text \<open>\<^verbatim>\<open>file->pos += ret\<close> for \<^verbatim>\<open>ret > 0\<close>\<close>

definition advance :: "u64 \<Rightarrow> int \<Rightarrow> ('s, 'p) vfs \<Rightarrow> ('s, 'p) vfs" where
  "advance file ret v =
     (if ret > 0 then v\<lparr>vfs_files := (vfs_files v)(file := map_option (\<lambda>f. f\<lparr>f_pos := f_pos f + of_int ret\<rparr>) (vfs_files v file))\<rparr>
      else v)"

text \<open>\<open>buf\<close> tells whether the buffer pointer is not null.\<close>

definition vfs_read :: "u64 \<Rightarrow> bool \<Rightarrow> u64 \<Rightarrow> ('s, 'p) vfs \<Rightarrow> 's \<Rightarrow> (int \<times> u8 list \<times> ('s, 'p) vfs \<times> 's) option" where
  "vfs_read file buf count v s =
     (if file = NULL \<or> \<not> buf then Some (VFS_ERR_GENERIC, [], v, s)
      else do {
        f \<leftarrow> vfs_files v file;
        if f_flags f AND VFS_READ = 0 then Some (VFS_ERR_PERM, [], v, s)
        else do {
          (_, ops) \<leftarrow> file_ops v file;
          (case op_read ops of
             None \<Rightarrow> Some (VFS_ERR_NOTSUPP, [], v, s)
           | Some drv_read \<Rightarrow>
               if count = 0 then Some (0, [], v, s)
               else do {
                 (ret, bytes, s) \<leftarrow> drv_read (fs_handle f) count s;
                 Some (ret, bytes, advance file ret v, s)
               })
        }
      })"

definition vfs_write :: "u64 \<Rightarrow> u8 list option \<Rightarrow> u64 \<Rightarrow> ('s, 'p) vfs \<Rightarrow> 's \<Rightarrow> (int \<times> ('s, 'p) vfs \<times> 's) option" where
  "vfs_write file buf count v s =
     (case buf of
        None \<Rightarrow> Some (VFS_ERR_GENERIC, v, s)
      | Some bytes \<Rightarrow>
          if file = NULL then Some (VFS_ERR_GENERIC, v, s)
          else do {
            f \<leftarrow> vfs_files v file;
            if f_flags f AND VFS_WRITE = 0 then Some (VFS_ERR_PERM, v, s)
            else do {
              (_, ops) \<leftarrow> file_ops v file;
              (case op_write ops of
                 None \<Rightarrow> Some (VFS_ERR_NOTSUPP, v, s)
               | Some drv_write \<Rightarrow>
                   if count = 0 then Some (0, v, s)
                   else do {
                     (ret, s) \<leftarrow> drv_write (fs_handle f) bytes count s;
                     Some (ret, advance file ret v, s)
                   })
            }
          })"

definition set_pos :: "u64 \<Rightarrow> u64 \<Rightarrow> ('s, 'p) vfs \<Rightarrow> ('s, 'p) vfs" where
  "set_pos file p v = v\<lparr>vfs_files := (vfs_files v)(file := map_option (\<lambda>f. f\<lparr>f_pos := p\<rparr>) (vfs_files v file))\<rparr>"

definition vfs_seek :: "u64 \<Rightarrow> u64 \<Rightarrow> int \<Rightarrow> ('s, 'p) vfs \<Rightarrow> 's \<Rightarrow> (int \<times> ('s, 'p) vfs \<times> 's) option" where
  "vfs_seek file offset whence v s =
     (if file = NULL then Some (VFS_ERR_GENERIC, v, s)
      else do {
        (f, ops) \<leftarrow> file_ops v file;
        (case op_seek ops of
           Some drv_seek \<Rightarrow> do {
             (ret, s) \<leftarrow> drv_seek (fs_handle f) offset whence s;
             (case op_tell ops of
                Some drv_tell \<Rightarrow>
                  if ret = 0 then do { (p, s) \<leftarrow> drv_tell (fs_handle f) s; Some (ret, set_pos file p v, s) }
                  else Some (ret, v, s)
              | None \<Rightarrow> Some (ret, v, s))
           }
         | None \<Rightarrow>
             if whence = SEEK_SET then Some (VFS_OK, set_pos file offset v, s)
             else if whence = SEEK_CUR then Some (VFS_OK, set_pos file (f_pos f + offset) v, s)
             else Some (VFS_OK, v, s))
      })"

text \<open>The result is a 64-bit signed value.\<close>

definition vfs_tell :: "u64 \<Rightarrow> ('s, 'p) vfs \<Rightarrow> 's \<Rightarrow> (u64 \<times> 's) option" where
  "vfs_tell file v s =
     (if file = NULL then Some (-1, s)
      else do {
        (f, ops) \<leftarrow> file_ops v file;
        (case op_tell ops of Some drv_tell \<Rightarrow> drv_tell (fs_handle f) s | None \<Rightarrow> Some (f_pos f, s))
      })"

definition vfs_truncate :: "u64 \<Rightarrow> u64 \<Rightarrow> ('s, 'p) vfs \<Rightarrow> 's \<Rightarrow> (int \<times> 's) option" where
  "vfs_truncate file len v s =
     (if file = NULL then Some (VFS_ERR_GENERIC, s)
      else do {
        f \<leftarrow> vfs_files v file;
        if f_flags f AND VFS_WRITE = 0 then Some (VFS_ERR_PERM, s)
        else do {
          (_, ops) \<leftarrow> file_ops v file;
          (case op_truncate ops of None \<Rightarrow> Some (VFS_ERR_NOTSUPP, s) | Some drv_truncate \<Rightarrow> drv_truncate (fs_handle f) len s)
        }
      })"

definition vfs_sync :: "u64 \<Rightarrow> ('s, 'p) vfs \<Rightarrow> 's \<Rightarrow> (int \<times> 's) option" where
  "vfs_sync file v s =
     (if file = NULL then Some (VFS_ERR_GENERIC, s)
      else do {
        (f, ops) \<leftarrow> file_ops v file;
        (case op_sync ops of Some drv_sync \<Rightarrow> drv_sync (fs_handle f) s | None \<Rightarrow> Some (VFS_OK, s))
      })"

subsection \<open>Directories\<close>

text \<open>\<open>vfs_mkdir\<close>, \<open>vfs_rmdir\<close> and \<open>vfs_unlink\<close> differ in the driver operation only.\<close>

definition path_op :: "(('s, 'p) vfs_fs_ops \<Rightarrow> ('p \<Rightarrow> u8 list \<Rightarrow> 's \<Rightarrow> (int \<times> 's) option) option) \<Rightarrow>
    u8 list option \<Rightarrow> ('s, 'p) vfs \<Rightarrow> 's \<Rightarrow> (int \<times> 's) option" where
  "path_op sel path v s =
     (if bad_path path then Some (VFS_ERR_GENERIC, s)
      else (case vfs_route v path of
          Inl _ \<Rightarrow> Some (VFS_ERR_GENERIC, s)
        | Inr None \<Rightarrow> Some (VFS_ERR_NOTSUPP, s)
        | Inr (Some (m, rel_path)) \<Rightarrow>
            (case sel (m_ops m) of None \<Rightarrow> Some (VFS_ERR_NOTSUPP, s) | Some drv \<Rightarrow> drv (private_data m) rel_path s)))"

definition vfs_mkdir :: "u8 list option \<Rightarrow> ('s, 'p) vfs \<Rightarrow> 's \<Rightarrow> (int \<times> 's) option" where
  "vfs_mkdir = path_op op_mkdir"
definition vfs_rmdir :: "u8 list option \<Rightarrow> ('s, 'p) vfs \<Rightarrow> 's \<Rightarrow> (int \<times> 's) option" where
  "vfs_rmdir = path_op op_rmdir"
definition vfs_unlink :: "u8 list option \<Rightarrow> ('s, 'p) vfs \<Rightarrow> 's \<Rightarrow> (int \<times> 's) option" where
  "vfs_unlink = path_op op_unlink"

definition vfs_rename :: "u8 list option \<Rightarrow> u8 list option \<Rightarrow> ('s, 'p) vfs \<Rightarrow> 's \<Rightarrow> (int \<times> 's) option" where
  "vfs_rename oldpath newpath v s =
     (if oldpath = None \<or> newpath = None then Some (VFS_ERR_GENERIC, s)
      else (case (vfs_route v oldpath, vfs_route v newpath) of
          (Inr old, Inr new) \<Rightarrow>
            (case (old, new) of
               (Some (old_m, old_rel), Some (new_m, new_rel)) \<Rightarrow>
                 if m_addr old_m \<noteq> m_addr new_m then Some (VFS_ERR_NOTSUPP, s)
                 else (case op_rename (m_ops old_m) of
                     None \<Rightarrow> Some (VFS_ERR_NOTSUPP, s)
                   | Some drv \<Rightarrow> drv (private_data old_m) old_rel new_rel s)
             | _ \<Rightarrow> Some (VFS_ERR_NOTSUPP, s))
        | _ \<Rightarrow> Some (VFS_ERR_GENERIC, s)))"

text \<open>\<open>st\<close> is the structure the caller passes (\<open>None\<close> for a null pointer).\<close>

definition vfs_stat :: "u8 list option \<Rightarrow> vfs_stat_rec option \<Rightarrow> ('s, 'p) vfs \<Rightarrow> 's \<Rightarrow> (int \<times> vfs_stat_rec option \<times> 's) option" where
  "vfs_stat path st v s =
     (case st of
        None \<Rightarrow> Some (VFS_ERR_GENERIC, None, s)
      | Some st \<Rightarrow>
          if bad_path path then Some (VFS_ERR_GENERIC, Some st, s)
          else (case vfs_route v path of
              Inl _ \<Rightarrow> Some (VFS_ERR_GENERIC, Some st, s)
            | Inr None \<Rightarrow> Some (VFS_ERR_NOTSUPP, Some st, s)
            | Inr (Some (m, rel_path)) \<Rightarrow>
                (case op_stat (m_ops m) of
                   None \<Rightarrow> Some (VFS_ERR_NOTSUPP, Some st, s)
                 | Some drv \<Rightarrow> do { (ret, st, s) \<leftarrow> drv (private_data m) rel_path st s; Some (ret, Some st, s) })))"

definition vfs_opendir :: "u8 list option \<Rightarrow> ('a kmalloc_state_scheme, 'p) vfs \<Rightarrow> 'a kmalloc_state_scheme \<Rightarrow>
    (int \<times> u64 \<times> ('a kmalloc_state_scheme, 'p) vfs \<times> 'a kmalloc_state_scheme) option" where
  "vfs_opendir path v s =
     (if bad_path path then Some (VFS_ERR_GENERIC, NULL, v, s)
      else (case vfs_route v path of
          Inl _ \<Rightarrow> Some (VFS_ERR_GENERIC, NULL, v, s)
        | Inr None \<Rightarrow> Some (VFS_ERR_NOTSUPP, NULL, v, s)
        | Inr (Some (m, rel_path)) \<Rightarrow>
            (case op_opendir (m_ops m) of
               None \<Rightarrow> Some (VFS_ERR_NOTSUPP, NULL, v, s)
             | Some drv_opendir \<Rightarrow> do {
                 (d, s) \<leftarrow> kmalloc s 40;
                 if d = NULL then Some (VFS_ERR_NOMEM, NULL, v, s)
                 else do {
                   (ret, h, s) \<leftarrow> drv_opendir (private_data m) rel_path s;
                   if ret < 0 then do { s \<leftarrow> kfree s d; Some (ret, NULL, v, s) }
                   else Some (VFS_OK, d, v\<lparr>vfs_files := (vfs_files v)(d \<mapsto> new_vfs_file (m_addr m) 0 True h)\<rparr>, s)
                 }
               })))"

definition vfs_readdir :: "u64 \<Rightarrow> vfs_dirent option \<Rightarrow> ('s, 'p) vfs \<Rightarrow> 's \<Rightarrow> (int \<times> vfs_dirent option \<times> ('s, 'p) vfs \<times> 's) option" where
  "vfs_readdir dir dirent v s =
     (if dir = NULL then Some (VFS_ERR_GENERIC, dirent, v, s)
      else do {
        d \<leftarrow> vfs_files v dir;
        if \<not> f_is_dir d then Some (VFS_ERR_GENERIC, dirent, v, s)
        else (case dirent of
            None \<Rightarrow> Some (VFS_ERR_GENERIC, dirent, v, s)
          | Some de \<Rightarrow> do {
              (_, ops) \<leftarrow> file_ops v dir;
              (case op_readdir ops of
                 None \<Rightarrow> Some (VFS_ERR_NOTSUPP, dirent, v, s)
               | Some drv_readdir \<Rightarrow> do {
                   (ret, de, s) \<leftarrow> drv_readdir (fs_handle d) de s;
                   Some (ret, Some de, if ret = 0 then set_pos dir (f_pos d + 1) v else v, s)
                 })
            })
      })"

definition vfs_closedir :: "u64 \<Rightarrow> ('a kmalloc_state_scheme, 'p) vfs \<Rightarrow> 'a kmalloc_state_scheme \<Rightarrow>
    (int \<times> ('a kmalloc_state_scheme, 'p) vfs \<times> 'a kmalloc_state_scheme) option" where
  "vfs_closedir dir v s =
     (if dir = NULL then Some (VFS_ERR_GENERIC, v, s)
      else do {
        d \<leftarrow> vfs_files v dir;
        if \<not> f_is_dir d then Some (VFS_ERR_GENERIC, v, s)
        else do {
          (d, ops) \<leftarrow> file_ops v dir;
          (ret, s) \<leftarrow>
            (case op_closedir ops of
               Some drv_closedir \<Rightarrow> if fs_handle d \<noteq> NULL then drv_closedir (fs_handle d) s else Some (VFS_OK, s)
             | None \<Rightarrow> Some (VFS_OK, s));
          s \<leftarrow> kfree s dir;
          Some (ret, v\<lparr>vfs_files := (vfs_files v)(dir := None)\<rparr>, s)
        }
      })"

subsection \<open>Utilities\<close>

text \<open>The local \<^verbatim>\<open>struct vfs_stat\<close> starts with arbitrary contents \<open>junk\<close>.\<close>

definition vfs_exists :: "vfs_stat_rec \<Rightarrow> u8 list option \<Rightarrow> ('s, 'p) vfs \<Rightarrow> 's \<Rightarrow> (bool \<times> 's) option" where
  "vfs_exists junk path v s = do { (ret, _, s) \<leftarrow> vfs_stat path (Some junk) v s; Some (ret = 0, s) }"

definition vfs_is_dir :: "vfs_stat_rec \<Rightarrow> u8 list option \<Rightarrow> ('s, 'p) vfs \<Rightarrow> 's \<Rightarrow> (bool \<times> 's) option" where
  "vfs_is_dir junk path v s = do {
     (ret, st, s) \<leftarrow> vfs_stat path (Some junk) v s;
     Some (ret \<ge> 0 \<and> (case st of Some st \<Rightarrow> st_mode st AND VFS_TYPE_DIR \<noteq> 0 | None \<Rightarrow> False), s) }"

definition vfs_is_file :: "vfs_stat_rec \<Rightarrow> u8 list option \<Rightarrow> ('s, 'p) vfs \<Rightarrow> 's \<Rightarrow> (bool \<times> 's) option" where
  "vfs_is_file junk path v s = do {
     (ret, st, s) \<leftarrow> vfs_stat path (Some junk) v s;
     Some (ret \<ge> 0 \<and> (case st of Some st \<Rightarrow> st_mode st AND VFS_TYPE_FILE \<noteq> 0 | None \<Rightarrow> False), s) }"

definition vfs_get_size :: "vfs_stat_rec \<Rightarrow> u8 list option \<Rightarrow> ('s, 'p) vfs \<Rightarrow> 's \<Rightarrow> (u32 \<times> 's) option" where
  "vfs_get_size junk path v s = do {
     (ret, st, s) \<leftarrow> vfs_stat path (Some junk) v s;
     Some (if ret < 0 then 0 else (case st of Some st \<Rightarrow> st_size st | None \<Rightarrow> 0), s) }"

fun sync_loop :: "('s, 'p) vfs_mount_rec list \<Rightarrow> u32 \<Rightarrow> 's \<Rightarrow> (u32 \<times> 's) option" where
  "sync_loop [] errors s = Some (errors, s)"
| "sync_loop (m # ms) errors s =
     (case op_sync_fs (m_ops m) of
        None \<Rightarrow> sync_loop ms errors s
      | Some drv_sync_fs \<Rightarrow> do {
          (ret, s) \<leftarrow> drv_sync_fs (private_data m) s;
          sync_loop ms (if ret < 0 then errors + 1 else errors) s
        })"

definition vfs_sync_all :: "('s, 'p) vfs \<Rightarrow> 's \<Rightarrow> (int \<times> 's) option" where
  "vfs_sync_all v s = do {
     (errors, s) \<leftarrow> sync_loop (mounts v) 0 s;
     Some (if errors \<noteq> 0 then VFS_ERR_GENERIC else VFS_OK, s) }"

text \<open>\<open>vfs_dump_mounts\<close> prints each path and whether it is the bind; its lines are its result here.\<close>

definition vfs_dump_mounts :: "('s, 'p) vfs \<Rightarrow> (u8 list \<times> bool) list" where
  "vfs_dump_mounts v = map (\<lambda>m. (m_path m, m_addr m = root_bind v)) (mounts v)"

end
