(* ===== verification/Fat32_Vfs.thy ===== *)
theory Fat32_Vfs
  imports Fat32 Vfs
begin

unbundle bit_operations_syntax

text \<open>
  \<^verbatim>\<open>kernel/src/fat32_vfs.c\<close>: the driver that puts FAT32 behind the VFS, a table of operations. The
  \<^verbatim>\<open>private_data\<close> of the mount point is the context (\<open>None\<close> for a null pointer), a structure that
  nothing changes after its creation, with its address. The handles of open files and directories
  are allocated with \<open>kmalloc\<close>; as in the VFS the kernel state keeps them as records under their
  address. An open file of the FAT driver is named by its index in the table of open files.
\<close>

record 'd fat32_vfs_context =
  ctx_addr :: u64
  fatfs :: "'d fat32_fs option"

record fat32_vfs_handle =
  fat_file :: "nat option"
  h_is_dir :: bool
  dir_cluster :: u32
  dir_index :: u32

record 'd fatvfs_state = "'d fat_state" +
  vfs_handles :: "u64 \<Rightarrow> fat32_vfs_handle option"

text \<open>\<^verbatim>\<open>!ctx || !ctx->fatfs\<close> and the value of \<^verbatim>\<open>ctx->fatfs\<close>.\<close>

definition ctx_fs :: "'d fat32_vfs_context option \<Rightarrow> 'd fat32_fs option" where
  "ctx_fs ctx = Option.bind ctx fatfs"

text \<open>The buffer \<^verbatim>\<open>fat_path\<close>: a slash and at most 254 bytes of the path.\<close>

definition fat_path :: "u8 list \<Rightarrow> u8 list" where
  "fat_path path = SLASH # take 254 path"

subsection \<open>Files\<close>

definition fat32_vfs_open :: "'d fat32_vfs_context option \<Rightarrow> u8 list \<Rightarrow> u32 \<Rightarrow> ('d, 'a) fatvfs_state_scheme \<Rightarrow>
    (int \<times> u64 \<times> ('d, 'a) fatvfs_state_scheme) option" where
  "fat32_vfs_open ctx path flags st =
     (case ctx_fs ctx of
        None \<Rightarrow> Some (VFS_ERR_GENERIC, NULL, st)
      | Some fs \<Rightarrow> do {
          let mode = (if flags AND VFS_WRITE \<noteq> 0 then [0x77] else [0x72]);
          (file, st) \<leftarrow> fat32_open (Some fs) (Some (fat_path path)) mode st;
          if file = None then Some (VFS_ERR_NOTFOUND, NULL, st)
          else do {
            (h, st) \<leftarrow> kmalloc st 24;
            if h = NULL then Some (VFS_ERR_NOMEM, NULL, fat32_close file st)
            else
              let hd = \<lparr>fat_file = file, h_is_dir = False, dir_cluster = 0, dir_index = 0\<rparr>
              in Some (VFS_OK, h, st\<lparr>vfs_handles := (vfs_handles st)(h \<mapsto> hd)\<rparr>)
          }
        })"

definition fat32_vfs_close :: "u64 \<Rightarrow> ('d, 'a) fatvfs_state_scheme \<Rightarrow> (int \<times> ('d, 'a) fatvfs_state_scheme) option" where
  "fat32_vfs_close handle st =
     (if handle = NULL then Some (VFS_ERR_GENERIC, st)
      else do {
        h \<leftarrow> vfs_handles st handle;
        let st = (if fat_file h \<noteq> None then fat32_close (fat_file h) st else st);
        st \<leftarrow> kfree st handle;
        Some (VFS_OK, st\<lparr>vfs_handles := (vfs_handles st)(handle := None)\<rparr>)
      })"

text \<open>The VFS passes a buffer that is not null; \<^verbatim>\<open>(int)count\<close> keeps the low 32 bits.\<close>

definition fat32_vfs_read :: "u64 \<Rightarrow> u64 \<Rightarrow> ('d, 'a) fatvfs_state_scheme \<Rightarrow>
    (int \<times> u8 list \<times> ('d, 'a) fatvfs_state_scheme) option" where
  "fat32_vfs_read handle count st =
     (if handle = NULL then Some (VFS_ERR_GENERIC, [], st)
      else do {
        h \<leftarrow> vfs_handles st handle;
        if fat_file h = None then Some (VFS_ERR_GENERIC, [], st)
        else fat32_read (fat_file h) (ucast count) st
      })"

definition fat32_vfs_write :: "u64 \<Rightarrow> u8 list \<Rightarrow> u64 \<Rightarrow> ('d, 'a) fatvfs_state_scheme \<Rightarrow>
    (int \<times> ('d, 'a) fatvfs_state_scheme) option" where
  "fat32_vfs_write handle buf count st =
     (if handle = NULL then Some (VFS_ERR_GENERIC, st)
      else do {
        h \<leftarrow> vfs_handles st handle;
        if fat_file h = None then Some (VFS_ERR_GENERIC, st)
        else fat32_write (fat_file h) buf (ucast count) st
      })"

text \<open>The loop of \<open>fat32_vfs_seek\<close> that reads and throws away.\<close>

function skip_loop :: "nat option \<Rightarrow> int \<Rightarrow> ('d, 'a) fatvfs_state_scheme \<Rightarrow> ('d, 'a) fatvfs_state_scheme option" where
  "skip_loop file remaining st =
     (if remaining > 0 then do {
        let chunk = (if remaining > 512 then 512 else remaining);
        (r, _, st) \<leftarrow> fat32_read file (of_int chunk) st;
        if r \<le> 0 then Some st else skip_loop file (remaining - r) st
      } else Some st)"
  by pat_completeness auto
termination by (relation "measure (\<lambda>(file, remaining, st). nat remaining)") auto

declare skip_loop.simps [simp del]

definition fat32_vfs_seek :: "u64 \<Rightarrow> u64 \<Rightarrow> int \<Rightarrow> ('d, 'a) fatvfs_state_scheme \<Rightarrow>
    (int \<times> ('d, 'a) fatvfs_state_scheme) option" where
  "fat32_vfs_seek handle offset whence st =
     (if handle = NULL then Some (VFS_ERR_GENERIC, st)
      else do {
        h \<leftarrow> vfs_handles st handle;
        (case fat_file h of
           None \<Rightarrow> Some (VFS_ERR_GENERIC, st)
         | Some i \<Rightarrow>
             if whence = SEEK_SET then do {
               let file = open_files st ! i;
               let file = file\<lparr>curr_cluster := first_cluster file, curr_offset := 0, file_pos := 0\<rparr>;
               let st = st\<lparr>open_files := (open_files st)[i := file]\<rparr>;
               st \<leftarrow> (if sint offset > 0 then skip_loop (Some i) (sint (ucast offset :: u32)) st else Some st);
               Some (VFS_OK, st)
             }
             else Some (VFS_ERR_NOTSUPP, st))
      })"

definition fat32_vfs_tell :: "u64 \<Rightarrow> ('d, 'a) fatvfs_state_scheme \<Rightarrow> (u64 \<times> ('d, 'a) fatvfs_state_scheme) option" where
  "fat32_vfs_tell handle st =
     (if handle = NULL then Some (-1, st)
      else do {
        h \<leftarrow> vfs_handles st handle;
        Some (case fat_file h of None \<Rightarrow> -1 | Some i \<Rightarrow> ucast (file_pos (open_files st ! i)), st)
      })"

definition fat32_vfs_truncate :: "u64 \<Rightarrow> u64 \<Rightarrow> ('d, 'a) fatvfs_state_scheme \<Rightarrow> (int \<times> ('d, 'a) fatvfs_state_scheme) option" where
  "fat32_vfs_truncate handle len st = Some (VFS_ERR_NOTSUPP, st)"

text \<open>\<^verbatim>\<open>if (dev->flush) return dev->flush(); return VFS_OK;\<close>\<close>

definition flush_dev :: "'d fat32_fs \<Rightarrow> ('d, 'a) fatvfs_state_scheme \<Rightarrow> (int \<times> ('d, 'a) fatvfs_state_scheme) option" where
  "flush_dev fs st = do {
     dv \<leftarrow> dev fs;
     (case bd_flush dv of
        Some flush \<Rightarrow> (let (ret, d) = flush (dev_state st) in Some (ret, st\<lparr>dev_state := d\<rparr>))
      | None \<Rightarrow> Some (VFS_OK, st))
   }"

definition fat32_vfs_sync :: "u64 \<Rightarrow> ('d, 'a) fatvfs_state_scheme \<Rightarrow> (int \<times> ('d, 'a) fatvfs_state_scheme) option" where
  "fat32_vfs_sync handle st =
     (if handle = NULL then Some (VFS_ERR_GENERIC, st)
      else do {
        h \<leftarrow> vfs_handles st handle;
        (case fat_file h of
           None \<Rightarrow> Some (VFS_ERR_GENERIC, st)
         | Some i \<Rightarrow>
             (case f_fs (open_files st ! i) of None \<Rightarrow> Some (VFS_ERR_GENERIC, st) | Some fs \<Rightarrow> flush_dev fs st))
      })"

subsection \<open>Directories\<close>

definition fat32_vfs_mkdir :: "'d fat32_vfs_context option \<Rightarrow> u8 list \<Rightarrow> ('d, 'a) fatvfs_state_scheme \<Rightarrow>
    (int \<times> ('d, 'a) fatvfs_state_scheme) option" where
  "fat32_vfs_mkdir ctx path st =
     (case ctx_fs ctx of
        None \<Rightarrow> Some (VFS_ERR_GENERIC, st)
      | Some fs \<Rightarrow>
          if path = [] then Some (VFS_ERR_GENERIC, st)
          else do {
            (ret, st) \<leftarrow> fat32_mkdir (Some fs) (Some (fat_path path)) st;
            Some (if ret = 0 then VFS_OK else VFS_ERR_GENERIC, st)
          })"

definition fat32_vfs_rmdir :: "'d fat32_vfs_context option \<Rightarrow> u8 list \<Rightarrow> ('d, 'a) fatvfs_state_scheme \<Rightarrow>
    (int \<times> ('d, 'a) fatvfs_state_scheme) option" where
  "fat32_vfs_rmdir ctx path st = Some (VFS_ERR_NOTSUPP, st)"

definition fat32_vfs_unlink :: "'d fat32_vfs_context option \<Rightarrow> u8 list \<Rightarrow> ('d, 'a) fatvfs_state_scheme \<Rightarrow>
    (int \<times> ('d, 'a) fatvfs_state_scheme) option" where
  "fat32_vfs_unlink ctx path st = Some (VFS_ERR_NOTSUPP, st)"

definition fat32_vfs_rename :: "'d fat32_vfs_context option \<Rightarrow> u8 list \<Rightarrow> u8 list \<Rightarrow> ('d, 'a) fatvfs_state_scheme \<Rightarrow>
    (int \<times> ('d, 'a) fatvfs_state_scheme) option" where
  "fat32_vfs_rename ctx oldpath newpath st = Some (VFS_ERR_NOTSUPP, st)"

text \<open>\<^verbatim>\<open>memset(st, 0, sizeof(struct vfs_stat))\<close>, and the two ways of filling it.\<close>

definition zero_stat :: vfs_stat_rec where
  "zero_stat = \<lparr>st_mode = 0, st_size = 0, st_blocks = 0, st_atime = 0, st_mtime = 0, st_ctime = 0\<rparr>"

definition dir_stat :: vfs_stat_rec where
  "dir_stat = zero_stat\<lparr>st_mode := VFS_TYPE_DIR, st_size := 0\<rparr>"

definition stat_of :: "fat32_dirent \<Rightarrow> vfs_stat_rec" where
  "stat_of entry =
     (if de_attr entry AND FAT32_ATTR_DIRECTORY \<noteq> 0 then dir_stat
      else zero_stat\<lparr>st_mode := VFS_TYPE_FILE, st_size := de_size entry\<rparr>)"

definition fat32_vfs_stat :: "'d fat32_vfs_context option \<Rightarrow> u8 list \<Rightarrow> vfs_stat_rec \<Rightarrow> ('d, 'a) fatvfs_state_scheme \<Rightarrow>
    (int \<times> vfs_stat_rec \<times> ('d, 'a) fatvfs_state_scheme) option" where
  "fat32_vfs_stat ctx path stat st =
     (case ctx_fs ctx of
        None \<Rightarrow> Some (VFS_ERR_GENERIC, stat, st)
      | Some fs \<Rightarrow>
          if path = [] then Some (VFS_OK, dir_stat, st)
          else do {
            (r, st) \<leftarrow> fat32_resolve (Some fs) (Some (fat_path path)) st;
            (case r of
               None \<Rightarrow> Some (VFS_ERR_NOTFOUND, zero_stat, st)
             | Some (parent, name) \<Rightarrow>
                 if rd8 name 0 = 0 then Some (VFS_OK, dir_stat, st)
                 else do {
                   (found, st) \<leftarrow> fat32_find fs parent name st;
                   (case found of
                      None \<Rightarrow> Some (VFS_ERR_NOTFOUND, zero_stat, st)
                    | Some (entry, _, _) \<Rightarrow> Some (VFS_OK, stat_of entry, st))
                 })
          })"

text \<open>The part of \<open>fat32_vfs_opendir\<close> that finds the cluster: \<open>Inl\<close> is an error code.\<close>

definition opendir_cluster :: "'d fat32_fs \<Rightarrow> u8 list \<Rightarrow> ('d, 'a) fatvfs_state_scheme \<Rightarrow>
    ((int + u32) \<times> ('d, 'a) fatvfs_state_scheme) option" where
  "opendir_cluster fs path st = do {
     (r, st) \<leftarrow> fat32_resolve (Some fs) (Some (fat_path path)) st;
     (case r of
        None \<Rightarrow> Some (Inl VFS_ERR_NOTFOUND, st)
      | Some (parent, name) \<Rightarrow>
          if rd8 name 0 = 0 then Some (Inr parent, st)
          else do {
            (found, st) \<leftarrow> fat32_find fs parent name st;
            (case found of
               None \<Rightarrow> Some (Inl VFS_ERR_NOTFOUND, st)
             | Some (entry, _, _) \<Rightarrow>
                 if de_attr entry AND FAT32_ATTR_DIRECTORY = 0 then Some (Inl VFS_ERR_NOTDIR, st)
                 else Some (Inr (dirent_cluster entry), st))
          })
   }"

definition fat32_vfs_opendir :: "'d fat32_vfs_context option \<Rightarrow> u8 list \<Rightarrow> ('d, 'a) fatvfs_state_scheme \<Rightarrow>
    (int \<times> u64 \<times> ('d, 'a) fatvfs_state_scheme) option" where
  "fat32_vfs_opendir ctx path st =
     (case ctx_fs ctx of
        None \<Rightarrow> Some (VFS_ERR_GENERIC, NULL, st)
      | Some fs \<Rightarrow> do {
          (r, st) \<leftarrow> opendir_cluster fs path st;
          (case r of
             Inl e \<Rightarrow> Some (e, NULL, st)
           | Inr c \<Rightarrow> do {
               (h, st) \<leftarrow> kmalloc st 24;
               if h = NULL then Some (VFS_ERR_NOMEM, NULL, st)
               else
                 let hd = \<lparr>fat_file = None, h_is_dir = True, dir_cluster = c, dir_index = 0\<rparr>
                 in Some (VFS_OK, h, st\<lparr>vfs_handles := (vfs_handles st)(h \<mapsto> hd)\<rparr>)
             })
        })"

definition fat32_vfs_readdir :: "u64 \<Rightarrow> vfs_dirent \<Rightarrow> ('d, 'a) fatvfs_state_scheme \<Rightarrow>
    (int \<times> vfs_dirent \<times> ('d, 'a) fatvfs_state_scheme) option" where
  "fat32_vfs_readdir handle dirent st = Some (VFS_ERR_NOTSUPP, dirent, st)"

definition fat32_vfs_closedir :: "u64 \<Rightarrow> ('d, 'a) fatvfs_state_scheme \<Rightarrow> (int \<times> ('d, 'a) fatvfs_state_scheme) option" where
  "fat32_vfs_closedir handle st =
     (if handle = NULL then Some (VFS_ERR_GENERIC, st)
      else do {
        st \<leftarrow> kfree st handle;
        Some (VFS_OK, st\<lparr>vfs_handles := (vfs_handles st)(handle := None)\<rparr>)
      })"

subsection \<open>The file system\<close>

definition fat32_vfs_sync_fs :: "'d fat32_vfs_context option \<Rightarrow> ('d, 'a) fatvfs_state_scheme \<Rightarrow>
    (int \<times> ('d, 'a) fatvfs_state_scheme) option" where
  "fat32_vfs_sync_fs ctx st = (case ctx_fs ctx of None \<Rightarrow> Some (VFS_ERR_GENERIC, st) | Some fs \<Rightarrow> flush_dev fs st)"

text \<open>Both result pointers are given; they are not written (0 here) when there is no file system.\<close>

definition fat32_vfs_statfs :: "'d fat32_vfs_context option \<Rightarrow> ('d, 'a) fatvfs_state_scheme \<Rightarrow>
    (int \<times> u64 \<times> u64 \<times> ('d, 'a) fatvfs_state_scheme) option" where
  "fat32_vfs_statfs ctx st =
     (case ctx_fs ctx of
        None \<Rightarrow> Some (VFS_ERR_GENERIC, 0, 0, st)
      | Some fs \<Rightarrow>
          if sectors_per_cluster (bpb fs) = 0 then None
          else
            let total_clusters = ucast (total_sectors_32 (bpb fs) div ucast (sectors_per_cluster (bpb fs))) :: u64;
                bytes = total_clusters * ucast (bytes_per_cluster fs)
            in Some (VFS_OK, bytes, bytes div 2, st))"

definition fat32_vfs_ops :: "(('d, 'a) fatvfs_state_scheme, 'd fat32_vfs_context option) vfs_fs_ops" where
  "fat32_vfs_ops = \<lparr>op_open = Some fat32_vfs_open, op_close = Some fat32_vfs_close, op_read = Some fat32_vfs_read,
     op_write = Some fat32_vfs_write, op_seek = Some fat32_vfs_seek, op_tell = Some fat32_vfs_tell,
     op_truncate = Some fat32_vfs_truncate, op_sync = Some fat32_vfs_sync, op_mkdir = Some fat32_vfs_mkdir,
     op_rmdir = Some fat32_vfs_rmdir, op_unlink = Some fat32_vfs_unlink, op_rename = Some fat32_vfs_rename,
     op_stat = Some fat32_vfs_stat, op_opendir = Some fat32_vfs_opendir, op_readdir = Some fat32_vfs_readdir,
     op_closedir = Some fat32_vfs_closedir, op_sync_fs = Some fat32_vfs_sync_fs, op_statfs = Some fat32_vfs_statfs\<rparr>"

definition vfs_get_fat32_ops :: "(('d, 'a) fatvfs_state_scheme, 'd fat32_vfs_context option) vfs_fs_ops" where
  "vfs_get_fat32_ops = fat32_vfs_ops"

definition vfs_create_fat32_context :: "'d fat32_fs option \<Rightarrow> ('d, 'a) fatvfs_state_scheme \<Rightarrow>
    ('d fat32_vfs_context option \<times> ('d, 'a) fatvfs_state_scheme) option" where
  "vfs_create_fat32_context fs st =
     (if fs = None then Some (None, st)
      else do {
        (ctx, st) \<leftarrow> kmalloc st 8;
        if ctx = NULL then Some (None, st)
        else Some (Some \<lparr>ctx_addr = ctx, fatfs = fs\<rparr>, st)
      })"

definition vfs_destroy_fat32_context :: "'d fat32_vfs_context option \<Rightarrow> ('d, 'a) fatvfs_state_scheme \<Rightarrow>
    ('d, 'a) fatvfs_state_scheme option" where
  "vfs_destroy_fat32_context ctx st = (case ctx of None \<Rightarrow> Some st | Some c \<Rightarrow> kfree st (ctx_addr c))"

end
