(* ===== verification/Fat32_Proofs.thy ===== *)
theory Fat32_Proofs
  imports Fat32
begin

unbundle bit_operations_syntax

text \<open>
  The correctness of \<^verbatim>\<open>kernel/src/fat32.c\<close> on a working disk: the file allocation table is an
  array of 28-bit entries, allocation takes the lowest free cluster and extends a chain, directory
  lookup is a search through the entries of the directory's clusters, and reading and writing a
  file move bytes of its cluster chain.
\<close>

subsection \<open>Bytes\<close>

lemma put_length [simp]: "i + length xs \<le> length b \<Longrightarrow> length (put b i xs) = length b"
  by (simp add: put_def)

lemma rd8_put:
  assumes "i + length xs \<le> length b"
  shows "rd8 (put b i xs) j = (if i \<le> j \<and> j < i + length xs then xs ! (j - i) else rd8 b j)"
  using assms by (auto simp: rd8_def put_def nth_append)

lemma bytes32_length [simp]: "length (bytes32 v) = 4" "length (bytes16 w) = 2"
  by (simp_all add: bytes32_def bytes16_def)

lemma u32_bytes:
  "ucast (ucast v :: u8) OR push_bit 8 (ucast (ucast (drop_bit 8 v) :: u8)) OR
     push_bit 16 (ucast (ucast (drop_bit 16 v) :: u8)) OR push_bit 24 (ucast (ucast (drop_bit 24 v) :: u8)) = (v :: u32)" (is "?l = v")
proof (rule bit_word_eqI)
  fix n assume n: "n < LENGTH(32)"
  show "bit ?l n = bit v n"
    by (cases "n < 8"; cases "n < 16"; cases "n < 24") (use n in \<open>auto simp: bit_simps\<close>)
qed

lemma u16_bytes: "ucast (ucast v :: u8) OR push_bit 8 (ucast (ucast (drop_bit 8 v) :: u8)) = (v :: u16)" (is "?l = v")
proof (rule bit_word_eqI)
  fix n assume n: "n < LENGTH(16)"
  show "bit ?l n = bit v n" by (cases "n < 8") (use n in \<open>auto simp: bit_simps\<close>)
qed

lemma rd32_put_same: "i + 4 \<le> length b \<Longrightarrow> rd32 (put b i (bytes32 v)) i = v"
  using u32_bytes [of v] by (simp add: rd32_def rd8_put) (simp add: bytes32_def)

lemma rd32_put_other: "i + 4 \<le> length b \<Longrightarrow> j + 4 \<le> i \<or> i + 4 \<le> j \<Longrightarrow> rd32 (put b i (bytes32 v)) j = rd32 b j"
  by (auto simp: rd32_def rd8_put)

lemma spinlock_idle: "lock l = 0 \<Longrightarrow> spinlock_lock l = Some (l\<lparr>lock := 1\<rparr>) \<and> spinlock_unlock (l\<lparr>lock := 1\<rparr>) = l"
  by (cases l) (simp add: spinlock_lock_def bts0_def spinlock_unlock_def)

subsection \<open>The file allocation table as an array\<close>

type_synonym disk = "u32 \<Rightarrow> u8 list"

definition fat_raw :: "'d fat32_fs \<Rightarrow> disk \<Rightarrow> u32 \<Rightarrow> u32" where
  "fat_raw fs dk c = rd32 (dk (fat_sector_of fs c)) (fat_offset_of c)"

definition fat_get :: "'d fat32_fs \<Rightarrow> disk \<Rightarrow> u32 \<Rightarrow> u32" where
  "fat_get fs dk c = fat_raw fs dk c AND 0x0FFFFFFF"

definition fat_put :: "'d fat32_fs \<Rightarrow> disk \<Rightarrow> u32 \<Rightarrow> u32 \<Rightarrow> disk" where
  "fat_put fs dk c v =
     (let s = fat_sector_of fs c; new = (v AND 0x0FFFFFFF) OR (fat_raw fs dk c AND 0xF0000000)
      in dk(s := put (dk s) (fat_offset_of c) (bytes32 new)))"

definition fat_index :: "u32 \<Rightarrow> bool" where
  "fat_index c \<longleftrightarrow> c < 0x0FFFFFF0"

definition disk512 :: "disk \<Rightarrow> bool" where
  "disk512 dk \<longleftrightarrow> (\<forall>s. length (dk s) = 512)"

lemma fat_offset_bounds: "fat_offset_of c + 4 \<le> 512" "4 dvd fat_offset_of c"
proof -
  have d: "unat ((c * 4) mod 512) = unat (c * 4) mod 512" by (simp add: unat_mod)
  have "unat (c * 4) = unat c * 4 mod 2 ^ 32" by (simp add: unat_word_ariths(2))
  then have "4 dvd unat (c * 4)" by (simp add: dvd_mod)
  then show dv: "4 dvd fat_offset_of c" unfolding fat_offset_of_def d by (simp add: dvd_mod)
  have "fat_offset_of c < 512" unfolding fat_offset_of_def d by simp
  with dv show "fat_offset_of c + 4 \<le> 512" by auto
qed

lemma fat_place_inj:
  assumes "fat_index c" "fat_index e" "c \<noteq> e"
  shows "fat_sector_of fs c \<noteq> fat_sector_of fs e \<or> fat_offset_of c \<noteq> fat_offset_of e"
proof (rule ccontr)
  assume "\<not> ?thesis"
  then have s: "(c * 4) div 512 = (e * 4) div 512" and o: "(c * 4) mod 512 = (e * 4) mod 512"
    by (simp add: fat_sector_of_def, simp add: fat_offset_of_def word_unat_eq_iff)
  then have "c * 4 = e * 4" by (metis word_mod_div_equality)
  then have "unat (c * 4) = unat (e * 4)" by simp
  moreover have "unat (c * 4) = unat c * 4" "unat (e * 4) = unat e * 4"
    using assms(1,2) by (simp_all add: fat_index_def word_less_nat_alt unat_word_ariths(2))
  ultimately show False using assms(3) by (simp add: word_unat_eq_iff)
qed

lemma fat_raw_put:
  assumes "disk512 dk" "fat_index c" "fat_index e"
  shows "fat_raw fs (fat_put fs dk c v) e =
    (if e = c then (v AND 0x0FFFFFFF) OR (fat_raw fs dk c AND 0xF0000000) else fat_raw fs dk e)"
proof (cases "e = c")
  case True
  then show ?thesis using assms(1) fat_offset_bounds(1) [of c]
    by (simp add: fat_raw_def fat_put_def disk512_def rd32_put_same Let_def)
next
  case False
  show ?thesis
  proof (cases "fat_sector_of fs e = fat_sector_of fs c")
    case True
    then have "fat_offset_of e \<noteq> fat_offset_of c" using fat_place_inj [OF assms(2,3), of fs] False by auto
    then have "fat_offset_of e + 4 \<le> fat_offset_of c \<or> fat_offset_of c + 4 \<le> fat_offset_of e"
      using fat_offset_bounds(2) [of c] fat_offset_bounds(2) [of e] by (auto simp: dvd_def)
    then show ?thesis using assms(1) fat_offset_bounds(1) [of c] False True
      by (simp add: fat_raw_def fat_put_def disk512_def rd32_put_other Let_def)
  qed (use False in \<open>simp add: fat_raw_def fat_put_def Let_def\<close>)
qed

lemma disk512_put: "disk512 dk \<Longrightarrow> disk512 (fat_put fs dk c v)"
  using fat_offset_bounds(1) [of c] by (simp add: disk512_def fat_put_def Let_def)

lemma mask_high: "((v AND 0x0FFFFFFF) OR (r AND 0xF0000000)) AND 0x0FFFFFFF = v AND (0x0FFFFFFF :: u32)"
  by (simp add: and.assoc and.left_commute bit.conj_disj_distrib2)

lemma fat_get_put:
  assumes "disk512 dk" "fat_index c" "fat_index e"
  shows "fat_get fs (fat_put fs dk c v) e = (if e = c then v AND 0x0FFFFFFF else fat_get fs dk e)"
  using fat_raw_put [OF assms, of fs v] by (simp add: fat_get_def mask_high)

subsection \<open>Devices in general\<close>

definition reads_with :: "'d fat32_fs \<Rightarrow> ('d \<Rightarrow> u32 \<Rightarrow> u32 \<Rightarrow> int \<times> u8 list \<times> 'd) \<Rightarrow> bool" where
  "reads_with fs rd \<longleftrightarrow> (\<exists>dv. dev fs = Some dv \<and> bd_read dv = Some rd)"

text \<open>
  What the file system expects of a block device, with \<open>holds dk d\<close> saying that the device in state \<open>d\<close> is ready and has the
  contents \<open>dk\<close>: a valid sector reads as its contents, and a write changes that sector alone. The state may change in other ways.
\<close>

locale sector_reader =
  fixes rd :: "'d \<Rightarrow> u32 \<Rightarrow> u32 \<Rightarrow> int \<times> u8 list \<times> 'd"
    and valid :: "u32 \<Rightarrow> bool"
    and holds :: "disk \<Rightarrow> 'd \<Rightarrow> bool"
  assumes read_law: "holds dk d \<Longrightarrow> valid s \<Longrightarrow> \<exists>e. rd d s 1 = (0, dk s, e) \<and> holds dk e"
    and sector_length: "holds dk d \<Longrightarrow> disk512 dk"
begin

lemma cache_read:
  assumes "reads_with fs rd" "lock (cache_lock st) = 0" "holds dk (dev_state st)" "valid s"
  shows "\<exists>d. cache_read_sector fs s st = Some (0, dk s, st\<lparr>dev_state := d\<rparr>) \<and> holds dk d"
proof -
  obtain dv where dv: "dev fs = Some dv" "bd_read dv = Some rd" using assms(1) by (auto simp: reads_with_def)
  obtain d where d: "rd (dev_state st) s 1 = (0, dk s, d)" "holds dk d" using read_law [OF assms(3,4)] by blast
  have "cache_read_sector fs s st = Some (0, dk s, st\<lparr>dev_state := d\<rparr>)"
    using dv d spinlock_idle [OF assms(2)] by (simp add: cache_read_sector_def)
  then show ?thesis using d(2) by blast
qed

lemma read_fat:
  assumes "reads_with fs rd" "lock (cache_lock st) = 0" "holds dk (dev_state st)" "valid (fat_sector_of fs c)"
  shows "\<exists>d. read_fat_entry fs c st = Some (fat_get fs dk c, st\<lparr>dev_state := d\<rparr>) \<and> holds dk d"
proof -
  obtain d where "cache_read_sector fs (fat_sector_of fs c) st = Some (0, dk (fat_sector_of fs c), st\<lparr>dev_state := d\<rparr>)" "holds dk d"
    using cache_read [OF assms] by blast
  then show ?thesis by (intro exI [of _ d]) (simp add: read_fat_entry_def fat_get_def fat_raw_def)
qed

lemma next_cluster:
  assumes "reads_with fs rd" "lock (cache_lock st) = 0" "holds dk (dev_state st)" "valid (fat_sector_of fs c)"
  shows "\<exists>d. fat32_next_cluster fs c st = Some (if fat_get fs dk c \<ge> 0x0FFFFFF7 then NO_CLUSTER else fat_get fs dk c, st\<lparr>dev_state := d\<rparr>) \<and>
    holds dk d"
proof -
  have "(fat_get fs dk c \<ge> 0x0FFFFFF8 \<or> fat_get fs dk c = 0x0FFFFFF7) \<longleftrightarrow> fat_get fs dk c \<ge> 0x0FFFFFF7" by unat_arith
  moreover obtain d where "read_fat_entry fs c st = Some (fat_get fs dk c, st\<lparr>dev_state := d\<rparr>)" "holds dk d" using read_fat [OF assms] by blast
  ultimately show ?thesis by (intro exI [of _ d]) (auto simp: fat32_next_cluster_def)
qed

end

definition uses_device :: "'d fat32_fs \<Rightarrow> ('d \<Rightarrow> u32 \<Rightarrow> u32 \<Rightarrow> int \<times> u8 list \<times> 'd) \<Rightarrow> ('d \<Rightarrow> u32 \<Rightarrow> u32 \<Rightarrow> u8 list \<Rightarrow> int \<times> 'd) \<Rightarrow> bool" where
  "uses_device fs rd wr \<longleftrightarrow> (\<exists>dv. dev fs = Some dv \<and> bd_read dv = Some rd \<and> bd_write dv = Some wr)"

lemma uses_reads: "uses_device fs rd wr \<Longrightarrow> reads_with fs rd"
  by (auto simp: uses_device_def reads_with_def)

locale sector_device = sector_reader +
  fixes wr :: "'d \<Rightarrow> u32 \<Rightarrow> u32 \<Rightarrow> u8 list \<Rightarrow> int \<times> 'd"
  assumes write_law: "holds dk d \<Longrightarrow> valid s \<Longrightarrow> length b = 512 \<Longrightarrow> \<exists>e. wr d s 1 b = (0, e) \<and> holds (dk(s := b)) e"
begin

lemma cache_write:
  assumes "uses_device fs rd wr" "lock (cache_lock st) = 0" "holds dk (dev_state st)" "valid s" "length b = 512"
  shows "\<exists>d. cache_write_sector fs s b st = Some (0, st\<lparr>dev_state := d\<rparr>) \<and> holds (dk(s := b)) d"
proof -
  obtain dv where dv: "dev fs = Some dv" "bd_write dv = Some wr" using assms(1) by (auto simp: uses_device_def)
  obtain d where d: "wr (dev_state st) s 1 b = (0, d)" "holds (dk(s := b)) d" using write_law [OF assms(3-5)] by blast
  have "cache_write_sector fs s b st = Some (0, st\<lparr>dev_state := d\<rparr>)"
    using dv d spinlock_idle [OF assms(2)] by (simp add: cache_write_sector_def)
  then show ?thesis using d(2) by blast
qed

lemma write_fat:
  assumes U: "uses_device fs rd wr" and L: "lock (cache_lock st) = 0" and H: "holds dk (dev_state st)" and V: "valid (fat_sector_of fs c)"
  shows "\<exists>d. write_fat_entry fs c v st = Some (0, st\<lparr>dev_state := d\<rparr>) \<and> holds (fat_put fs dk c v) d"
proof -
  let ?s = "fat_sector_of fs c"
  let ?b = "put (dk ?s) (fat_offset_of c) (bytes32 ((v AND 0x0FFFFFFF) OR (fat_raw fs dk c AND 0xF0000000)))"
  obtain d where d: "cache_read_sector fs ?s st = Some (0, dk ?s, st\<lparr>dev_state := d\<rparr>)" "holds dk d"
    using cache_read [OF uses_reads [OF U] L H V] by blast
  have "length ?b = 512" using fat_offset_bounds(1) [of c] sector_length [OF H] by (simp add: disk512_def)
  from cache_write [OF U, of "st\<lparr>dev_state := d\<rparr>" dk ?s, OF _ _ V this] L d(2) obtain e where
    e: "cache_write_sector fs ?s ?b (st\<lparr>dev_state := d\<rparr>) = Some (0, st\<lparr>dev_state := e\<rparr>)" "holds (dk(?s := ?b)) e" by auto
  then show ?thesis using d(1) by (intro exI [of _ e]) (simp add: write_fat_entry_def fat_put_def fat_raw_def Let_def)
qed

end

subsection \<open>Chains in the table\<close>

text \<open>
  The interface of the table: an array of 28-bit entries. Clients reason about cluster chains:
  \<open>linked get cs\<close> says that each cluster of \<open>cs\<close> points to the next one and the last one holds an
  end mark.
\<close>

fun linked :: "(u32 \<Rightarrow> u32) \<Rightarrow> u32 list \<Rightarrow> bool" where
  "linked nx [] = False"
| "linked nx [c] = (nx c \<ge> 0x0FFFFFF7)"
| "linked nx (c # d # cs) = (nx c = d \<and> d < 0x0FFFFFF7 \<and> linked nx (d # cs))"

lemma linked_cong: "(\<And>c. c \<in> set cs \<Longrightarrow> nx' c = nx c) \<Longrightarrow> linked nx' cs = linked nx cs"
  by (induction nx cs rule: linked.induct) auto

lemma linked_append_one:
  "linked nx (cs @ [l]) \<Longrightarrow> l \<notin> set cs \<Longrightarrow> c \<notin> set (cs @ [l]) \<Longrightarrow> c < 0x0FFFFFF7 \<Longrightarrow> (0x0FFFFFF7 :: u32) \<le> e \<Longrightarrow>
     linked (nx(c := e, l := c)) (cs @ [l, c])"
proof (induction cs)
  case (Cons a cs)
  then show ?case by (cases cs) auto
qed auto

locale entry_table =
  fixes get :: "'t \<Rightarrow> u32 \<Rightarrow> u32"
    and set_entry :: "'t \<Rightarrow> u32 \<Rightarrow> u32 \<Rightarrow> 't"
    and inv :: "'t \<Rightarrow> bool"
    and index :: "u32 \<Rightarrow> bool"
  assumes get_set: "inv t \<Longrightarrow> index c \<Longrightarrow> index e \<Longrightarrow> get (set_entry t c v) e = (if e = c then v AND 0x0FFFFFFF else get t e)"
    and inv_set: "inv t \<Longrightarrow> index c \<Longrightarrow> inv (set_entry t c v)"
begin

lemma linked_set_other:
  assumes "inv t" "index c" "c \<notin> set cs" "\<forall>e \<in> set cs. index e"
  shows "linked (get (set_entry t c v)) cs = linked (get t) cs"
  using assms by (intro linked_cong) (auto simp: get_set)

lemma linked_extend:
  assumes "inv t" "linked (get t) (cs @ [l])" "distinct (cs @ [l])" "\<forall>e \<in> set (cs @ [l]). index e"
    "index c" "c \<notin> set (cs @ [l])" "c < 0x0FFFFFF7"
  shows "linked (get (set_entry (set_entry t c 0x0FFFFFFF) l c)) (cs @ [l, c])"
proof -
  let ?t = "set_entry (set_entry t c 0x0FFFFFFF) l c"
  have m: "c AND 0x0FFFFFFF = c"
  proof -
    have "take_bit 28 c = c" using assms(7) by (simp add: take_bit_eq_mod word_less_nat_alt word_unat_eq_iff unat_mod)
    then show ?thesis by (simp add: take_bit_eq_mask mask_eq_exp_minus_1)
  qed
  have "get ?t e = ((get t)(c := 0x0FFFFFFF, l := c)) e" if "e \<in> set (cs @ [l, c])" for e
    using that assms m by (auto simp: get_set inv_set)
  moreover have "linked ((get t)(c := 0x0FFFFFFF, l := c)) (cs @ [l, c])"
    using assms by (intro linked_append_one) auto
  ultimately show ?thesis using linked_cong [of "cs @ [l, c]" "get ?t"] by blast
qed

end

interpretation ft: entry_table "fat_get fs" "fat_put fs" disk512 fat_index
  by unfold_locales (simp_all add: fat_get_put disk512_put)

subsection \<open>Allocating a cluster\<close>

text \<open>The lowest free cluster from \<open>c\<close> on.\<close>

definition first_free :: "(u32 \<Rightarrow> u32) \<Rightarrow> u32 \<Rightarrow> u32 \<Rightarrow> bool" where
  "first_free nx c e \<longleftrightarrow> c \<le> e \<and> e < 0x0FFFFFF0 \<and> nx e = 0 \<and> (\<forall>x. c \<le> x \<longrightarrow> x < e \<longrightarrow> nx x \<noteq> 0)"

lemma first_free_step:
  assumes "c < 0x0FFFFFF0" "nx c \<noteq> 0"
  shows "first_free nx c e \<longleftrightarrow> first_free nx (c + 1) e"
proof -
  have le: "c \<le> x \<longleftrightarrow> x = c \<or> c + 1 \<le> x" for x
  proof -
    have "unat (c + 1) = Suc (unat c)" using assms(1) by (simp add: word_less_nat_alt unat_plus_if')
    then show ?thesis by (auto simp: word_le_nat_alt word_unat_eq_iff)
  qed
  show ?thesis using assms(2) unfolding first_free_def le by auto
qed

context sector_device
begin

lemma alloc_found:
  assumes U: "uses_device fs rd wr" and L: "lock (cache_lock st) = 0" and H: "holds dk (dev_state st)"
    and V: "valid (fat_sector_of fs c)" "p = 0 \<or> valid (fat_sector_of fs p)" and c: "c < 0x0FFFFFF0" "fat_get fs dk c = 0"
  shows "\<exists>d. alloc_loop fs p c st = Some (c, st\<lparr>dev_state := d\<rparr>) \<and>
    holds (let t = fat_put fs dk c 0x0FFFFFFF in if p = 0 then t else fat_put fs t p c) d"
proof -
  let ?t = "fat_put fs dk c 0x0FFFFFFF"
  obtain d0 where r: "read_fat_entry fs c st = Some (0, st\<lparr>dev_state := d0\<rparr>)" "holds dk d0"
    using read_fat [OF uses_reads [OF U] L H V(1)] c(2) by auto
  have s0: "lock (cache_lock (st\<lparr>dev_state := d0\<rparr>)) = 0" "holds dk (dev_state (st\<lparr>dev_state := d0\<rparr>))" using L r(2) by simp_all
  from write_fat [OF U s0 V(1), of "0x0FFFFFFF"] obtain d where
    d: "write_fat_entry fs c 0x0FFFFFFF (st\<lparr>dev_state := d0\<rparr>) = Some (0, st\<lparr>dev_state := d\<rparr>)" "holds ?t d" by auto
  show ?thesis
  proof (cases "p = 0")
    case True
    then have "alloc_loop fs p c st = Some (c, st\<lparr>dev_state := d\<rparr>)"
      using c d(1) r(1) by (subst alloc_loop.simps) simp
    then show ?thesis using True d(2) by auto
  next
    case False
    then have s1: "lock (cache_lock (st\<lparr>dev_state := d\<rparr>)) = 0" "holds ?t (dev_state (st\<lparr>dev_state := d\<rparr>))" "valid (fat_sector_of fs p)"
      using L d(2) V(2) by simp_all
    from write_fat [OF U s1, of c] obtain e where
      e: "write_fat_entry fs p c (st\<lparr>dev_state := d\<rparr>) = Some (0, st\<lparr>dev_state := e\<rparr>)" "holds (fat_put fs ?t p c) e" by auto
    have "alloc_loop fs p c st = Some (c, st\<lparr>dev_state := e\<rparr>)"
      using False c d(1) e(1) r(1) by (simp add: alloc_loop.simps [of fs p c])
    then show ?thesis using False e(2) by auto
  qed
qed

lemma alloc_step:
  assumes U: "uses_device fs rd wr" and L: "lock (cache_lock st) = 0" and H: "holds dk (dev_state st)"
    and V: "valid (fat_sector_of fs c)" and c: "c < 0x0FFFFFF0" "fat_get fs dk c \<noteq> 0"
  shows "\<exists>d. alloc_loop fs p c st = alloc_loop fs p (c + 1) (st\<lparr>dev_state := d\<rparr>) \<and> holds dk d"
proof -
  obtain d where "read_fat_entry fs c st = Some (fat_get fs dk c, st\<lparr>dev_state := d\<rparr>)" "holds dk d"
    using read_fat [OF uses_reads [OF U] L H V] by blast
  then show ?thesis using c by (intro exI [of _ d]) (simp add: alloc_loop.simps [of fs p c])
qed

lemma alloc_first:
  assumes U: "uses_device fs rd wr" and V: "p = 0 \<or> valid (fat_sector_of fs p)"
  shows "first_free (fat_get fs dk) c e \<Longrightarrow> \<forall>x. c \<le> x \<longrightarrow> x \<le> e \<longrightarrow> valid (fat_sector_of fs x) \<Longrightarrow> lock (cache_lock st) = 0 \<Longrightarrow>
    holds dk (dev_state st) \<Longrightarrow> \<exists>d. alloc_loop fs p c st = Some (e, st\<lparr>dev_state := d\<rparr>) \<and>
      holds (let t = fat_put fs dk e 0x0FFFFFFF in if p = 0 then t else fat_put fs t p e) d"
proof (induction "unat (0x0FFFFFF0 - c)" arbitrary: c st rule: less_induct)
  case less
  have c: "c < 0x0FFFFFF0" "c \<le> e" using less.prems(1) by (auto simp: first_free_def)
  have v: "valid (fat_sector_of fs c)" using less.prems(2) c(2) by simp
  show ?case
  proof (cases "fat_get fs dk c = 0")
    case True
    then have "e = c" using less.prems(1) unfolding first_free_def by (metis order.order_iff_strict order_refl)
    then show ?thesis using alloc_found [OF U less.prems(3,4) v V c(1) True] by (simp only:)
  next
    case False
    from alloc_step [OF U less.prems(3,4) v c(1) False, of p] obtain d where
      d: "alloc_loop fs p c st = alloc_loop fs p (c + 1) (st\<lparr>dev_state := d\<rparr>)" "holds dk d" by blast
    have m: "unat (0x0FFFFFF0 - (c + 1)) < unat (0x0FFFFFF0 - c)" using c(1) by unat_arith
    have "c \<le> c + 1" using c(1) by (simp add: word_le_nat_alt word_less_nat_alt unat_plus_if')
    then have "\<forall>x. c + 1 \<le> x \<longrightarrow> x \<le> e \<longrightarrow> valid (fat_sector_of fs x)" using less.prems(2) order_trans by blast
    from less.hyps [OF m _ this, of "st\<lparr>dev_state := d\<rparr>"] show ?thesis
      using less.prems(1,3) d first_free_step [of c "fat_get fs dk" e, OF c(1) False] by auto
  qed
qed

lemma alloc_none:
  assumes U: "uses_device fs rd wr"
  shows "(\<nexists>e. first_free (fat_get fs dk) c e) \<Longrightarrow> \<forall>x. c \<le> x \<longrightarrow> x < 0x0FFFFFF0 \<longrightarrow> valid (fat_sector_of fs x) \<Longrightarrow> lock (cache_lock st) = 0 \<Longrightarrow>
    holds dk (dev_state st) \<Longrightarrow> \<exists>d. alloc_loop fs p c st = Some (0, st\<lparr>dev_state := d\<rparr>) \<and> holds dk d"
proof (induction "unat (0x0FFFFFF0 - c)" arbitrary: c st rule: less_induct)
  case less
  show ?case
  proof (cases "c < 0x0FFFFFF0")
    case True
    then have g: "fat_get fs dk c \<noteq> 0" using less.prems(1) by (auto simp: first_free_def)
    have v: "valid (fat_sector_of fs c)" using less.prems(2) True by simp
    from alloc_step [OF U less.prems(3,4) v True g, of p] obtain d where
      d: "alloc_loop fs p c st = alloc_loop fs p (c + 1) (st\<lparr>dev_state := d\<rparr>)" "holds dk d" by blast
    have m: "unat (0x0FFFFFF0 - (c + 1)) < unat (0x0FFFFFF0 - c)" using True by unat_arith
    have "c \<le> c + 1" using True by (simp add: word_le_nat_alt word_less_nat_alt unat_plus_if')
    then have "\<forall>x. c + 1 \<le> x \<longrightarrow> x < 0x0FFFFFF0 \<longrightarrow> valid (fat_sector_of fs x)" using less.prems(2) order_trans by blast
    from less.hyps [OF m _ this, of "st\<lparr>dev_state := d\<rparr>"] show ?thesis
      using less.prems(1,3) d first_free_step [of c "fat_get fs dk", OF True g] by auto
  next
    case False
    then have "alloc_loop fs p c st = Some (0, st\<lparr>dev_state := dev_state st\<rparr>)" by (simp add: alloc_loop.simps [of fs p c])
    then show ?thesis using less.prems(4) by blast
  qed
qed

end

subsection \<open>Directory search\<close>

text \<open>
  A directory as the list of its 32-byte entries with their places, and the search of the first
  live entry with a given name before the end mark.
\<close>

type_synonym dir_slot = "u8 list \<times> u32 \<times> u8"

fun search :: "u8 list \<Rightarrow> dir_slot list \<Rightarrow> (fat32_dirent \<times> u32 \<times> u8) scan" where
  "search target [] = Continue"
| "search target ((b, s, e) # xs) =
     (if rd8 b 0 = 0 then Fail
      else if rd8 b 0 = 0xE5 \<or> de_attr (dirent_of b) = 0x0F then search target xs
      else if from_8_3 (dirent_of b) = target then Found (dirent_of b, s, e)
      else search target xs)"

definition sector_entries :: "u8 list \<Rightarrow> u32 \<Rightarrow> dir_slot list" where
  "sector_entries b s = map (\<lambda>e. (entry_at b e, s, of_nat e)) [0..<16]"

definition cluster_sectors :: "'d fat32_fs \<Rightarrow> u32 \<Rightarrow> u32 list" where
  "cluster_sectors fs c = map (\<lambda>k. cluster_sector fs c + of_nat k) [0..<unat (sectors_per_cluster (bpb fs))]"

definition dir_entries :: "'d fat32_fs \<Rightarrow> disk \<Rightarrow> u32 list \<Rightarrow> dir_slot list" where
  "dir_entries fs dk cs = concat (map (\<lambda>c. concat (map (\<lambda>s. sector_entries (dk s) s) (cluster_sectors fs c))) cs)"

fun scan_result :: "'r scan \<Rightarrow> 'r option" where
  "scan_result (Found x) = Some x"
| "scan_result _ = None"

lemma search_append: "search t (xs @ ys) = (case search t xs of Continue \<Rightarrow> search t ys | r \<Rightarrow> r)"
  by (induction t xs rule: search.induct) auto

lemma scan_entries_search:
  "(case scan_entries t b n ent of Found (de, e) \<Rightarrow> Found (de, s, e) | Fail \<Rightarrow> Fail | Continue \<Rightarrow> Continue) =
     search t (map (\<lambda>e. (entry_at b e, s, of_nat e)) [ent..<ent + n])"
proof (induction t b n ent rule: scan_entries.induct)
  case (2 t b n ent)
  have "[ent..<ent + Suc n] = ent # [Suc ent..<Suc ent + n]" by (simp add: upt_rec)
  with 2 show ?case by (simp add: Let_def compare_8_3_def)
qed simp

lemma unat_spc: "unat (ucast (sectors_per_cluster (bpb fs)) :: u32) = unat (sectors_per_cluster (bpb fs))"
proof -
  have "unat (sectors_per_cluster (bpb fs)) < 2 ^ 32"
    using unsigned_less [of "sectors_per_cluster (bpb fs)", where ?'a = nat] by simp
  then show ?thesis by (simp add: unsigned_ucast_eq take_bit_nat_eq_self)
qed

text \<open>The sectors of a chain, in the table and in the data area.\<close>

definition places_ok :: "(u32 \<Rightarrow> bool) \<Rightarrow> 'd fat32_fs \<Rightarrow> u32 list \<Rightarrow> bool" where
  "places_ok valid fs cs \<longleftrightarrow> (\<forall>c \<in> set cs. valid (fat_sector_of fs c) \<and> (\<forall>s \<in> set (cluster_sectors fs c). valid s))"

lemma places_ok_Cons [simp]:
  "places_ok valid fs (c # cs) \<longleftrightarrow> valid (fat_sector_of fs c) \<and> (\<forall>s \<in> set (cluster_sectors fs c). valid s) \<and> places_ok valid fs cs"
  by (auto simp: places_ok_def)

lemma places_ok_all [simp]: "places_ok (\<lambda>_. True) fs cs"
  by (simp add: places_ok_def)

context sector_reader
begin

lemma find_sectors:
  assumes U: "reads_with fs rd" and L: "lock (cache_lock st) = 0" and k: "k \<le> unat (sectors_per_cluster (bpb fs))"
    and V: "\<forall>j \<in> {k..<unat (sectors_per_cluster (bpb fs))}. valid (s + of_nat j)" and H: "holds dk (dev_state st)"
  shows "\<exists>d. find_sectors fs s t (of_nat k) st =
    Some (search t (concat (map (\<lambda>j. sector_entries (dk (s + of_nat j)) (s + of_nat j)) [k..<unat (sectors_per_cluster (bpb fs))])),
      st\<lparr>dev_state := d\<rparr>) \<and> holds dk d"
  using k V L H
proof (induction "unat (sectors_per_cluster (bpb fs)) - k" arbitrary: k st)
  case 0
  then have "k = unat (sectors_per_cluster (bpb fs))" by simp
  then have "\<not> (of_nat k :: u32) < ucast (sectors_per_cluster (bpb fs))" by simp
  then show ?case using 0 by (intro exI [of _ "dev_state st"]) (simp add: find_sectors.simps)
next
  case (Suc n)
  let ?n = "unat (sectors_per_cluster (bpb fs))" and ?b = "dk (s + of_nat k)"
  let ?E = "\<lambda>j. sector_entries (dk (s + of_nat j)) (s + of_nat j)"
  have n: "?n < 256" using unsigned_less [of "sectors_per_cluster (bpb fs)", where ?'a = nat] by simp
  have k: "k < ?n" using Suc.hyps(2) by simp
  then have "unat (of_nat k :: u32) = k" using n by (simp add: unat_of_nat)
  then have lt: "(of_nat k :: u32) < ucast (sectors_per_cluster (bpb fs))" using k by (simp add: word_less_nat_alt unat_spc)
  have "valid (s + of_nat k)" using Suc.prems(2) k by simp
  from cache_read [OF U Suc.prems(3,4) this] obtain d where
    d: "cache_read_sector fs (s + of_nat k) st = Some (0, ?b, st\<lparr>dev_state := d\<rparr>)" "holds dk d" by blast
  have "n = ?n - Suc k" "Suc k \<le> ?n" "\<forall>j \<in> {Suc k..<?n}. valid (s + of_nat j)" using Suc.hyps(2) Suc.prems(2) k by simp_all
  from Suc.hyps(1) [OF this, of "st\<lparr>dev_state := d\<rparr>"] obtain e where
    e: "find_sectors fs s t (of_nat (Suc k)) (st\<lparr>dev_state := d\<rparr>) = Some (search t (concat (map ?E [Suc k..<?n])), st\<lparr>dev_state := e\<rparr>)" "holds dk e"
    using Suc.prems(3) d(2) by auto
  have up: "concat (map ?E [k..<?n]) = ?E k @ concat (map ?E [Suc k..<?n])" using k by (simp add: upt_conv_Cons)
  have sc: "search t (?E k) = (case scan_entries t ?b 16 0 of Found (de, e) \<Rightarrow> Found (de, s + of_nat k, e) | Fail \<Rightarrow> Fail | Continue \<Rightarrow> Continue)"
    using scan_entries_search [of "s + of_nat k" t ?b 16 0] by (simp add: sector_entries_def)
  let ?fin = "if scan_entries t ?b 16 0 = Continue then e else d"
  have "find_sectors fs s t (of_nat k) st = Some (search t (concat (map ?E [k..<?n])), st\<lparr>dev_state := ?fin\<rparr>)"
    using lt d(1) e(1) unfolding up search_append sc
    by (subst find_sectors.simps) (simp add: add.commute split: scan.splits prod.splits)
  then show ?case using d(2) e(2) by (intro exI [of _ ?fin]) simp
qed

lemma find_cluster:
  assumes U: "reads_with fs rd" and L: "lock (cache_lock st) = 0" and V: "\<forall>s \<in> set (cluster_sectors fs c). valid s" and H: "holds dk (dev_state st)"
  shows "\<exists>d. find_sectors fs (cluster_sector fs c) t 0 st =
    Some (search t (concat (map (\<lambda>s. sector_entries (dk s) s) (cluster_sectors fs c))), st\<lparr>dev_state := d\<rparr>) \<and> holds dk d"
  using find_sectors [OF U L, of 0 "cluster_sector fs c" dk t] V H by (simp add: cluster_sectors_def comp_def)

lemma find_chain:
  assumes U: "reads_with fs rd"
    and c: "linked (fat_get fs dk) cs" "hd cs \<noteq> NO_CLUSTER" "places_ok valid fs cs" and L: "lock (cache_lock st) = 0" and H: "holds dk (dev_state st)"
  shows "\<exists>d. fat32_find fs (hd cs) t st = Some (scan_result (search t (dir_entries fs dk cs)), st\<lparr>dev_state := d\<rparr>) \<and> holds dk d"
  using c L H
proof (induction cs arbitrary: st)
  case (Cons c cs)
  let ?nx = "fat_get fs dk" and ?e = "concat (map (\<lambda>s. sector_entries (dk s) s) (cluster_sectors fs c))"
  obtain d1 where f: "find_sectors fs (cluster_sector fs c) t 0 st = Some (search t ?e, st\<lparr>dev_state := d1\<rparr>)" "holds dk d1"
    using find_cluster [OF U Cons.prems(4) _ Cons.prems(5), of c t] Cons.prems(3) by auto
  let ?s1 = "st\<lparr>dev_state := d1\<rparr>"
  obtain d2 where nc: "fat32_next_cluster fs c ?s1 = Some (if ?nx c \<ge> 0x0FFFFFF7 then NO_CLUSTER else ?nx c, st\<lparr>dev_state := d2\<rparr>)" "holds dk d2"
    using next_cluster [OF U, of ?s1 dk c] Cons.prems(3,4) f(2) by auto
  have d: "dir_entries fs dk (c # cs) = ?e @ dir_entries fs dk cs" by (simp add: dir_entries_def)
  show ?case
  proof (cases "search t ?e")
    case Continue
    show ?thesis
    proof (cases cs)
      case Nil
      then have "?nx c \<ge> 0x0FFFFFF7" using Cons.prems by simp
      moreover have "fat32_find fs NO_CLUSTER t x = Some (None, x)" for x :: "('d, 'a) fat_state_scheme" by (simp add: fat32_find.simps)
      ultimately have "fat32_find fs c t st = Some (None, st\<lparr>dev_state := d2\<rparr>)"
        using Cons.prems(2) f(1) nc(1) Continue by (subst fat32_find.simps) simp
      then show ?thesis using Continue nc(2) unfolding d by (simp add: Nil dir_entries_def search_append) blast
    next
      case (Cons e es)
      then have n: "?nx c = e" "e < 0x0FFFFFF7" "linked ?nx cs" using Cons.prems by auto
      then have ne: "\<not> 0x0FFFFFF7 \<le> ?nx c" "e \<noteq> NO_CLUSTER" by auto
      then obtain d3 where r: "fat32_find fs e t (st\<lparr>dev_state := d2\<rparr>) = Some (scan_result (search t (dir_entries fs dk cs)), st\<lparr>dev_state := d3\<rparr>)" "holds dk d3"
        using Cons.IH [of "st\<lparr>dev_state := d2\<rparr>"] Cons.prems(3,4) n(3) nc(2) Cons by auto
      have "fat32_find fs c t st = Some (scan_result (search t (dir_entries fs dk (c # cs))), st\<lparr>dev_state := d3\<rparr>)"
        using Cons.prems(2) f(1) nc(1) r(1) n(1) ne Continue unfolding d by (subst fat32_find.simps) (simp add: search_append)
      then show ?thesis using r(2) by auto
    qed
  next
    case Fail
    then have "fat32_find fs c t st = Some (None, st\<lparr>dev_state := d1\<rparr>)" using Cons.prems(2) f(1) by (subst fat32_find.simps) simp
    then show ?thesis using f(2) Fail unfolding d by (simp add: search_append) blast
  next
    case (Found x)
    then have "fat32_find fs c t st = Some (Some x, st\<lparr>dev_state := d1\<rparr>)" using Cons.prems(2) f(1) by (subst fat32_find.simps) simp
    then show ?thesis using f(2) Found unfolding d by (simp add: search_append) blast
  qed
qed simp

end

subsection \<open>Reading a file\<close>

definition cluster_bytes :: "'d fat32_fs \<Rightarrow> disk \<Rightarrow> u32 \<Rightarrow> u8 list" where
  "cluster_bytes fs dk c = concat (map dk (cluster_sectors fs c))"

definition chain_bytes :: "'d fat32_fs \<Rightarrow> disk \<Rightarrow> u32 list \<Rightarrow> u8 list" where
  "chain_bytes fs dk cs = concat (map (cluster_bytes fs dk) cs)"

definition geometry_ok :: "'d fat32_fs \<Rightarrow> bool" where
  "geometry_ok fs \<longleftrightarrow> sectors_per_cluster (bpb fs) \<noteq> 0 \<and>
     bytes_per_cluster fs = 512 * ucast (sectors_per_cluster (bpb fs))"

lemma concat_slice:
  assumes "\<forall>x \<in> set xs. length (f x) = 512" "k < length xs" "r + n \<le> 512"
  shows "take n (drop (k * 512 + r) (concat (map f xs))) = take n (drop r (f (xs ! k)))"
  using assms(1,2)
proof (induction xs arbitrary: k)
  case (Cons x xs)
  then show ?case using assms(3) by (cases k) (auto simp: add.assoc)
qed simp

lemma unat_bpc:
  assumes "geometry_ok fs"
  shows "unat (bytes_per_cluster fs) = 512 * unat (sectors_per_cluster (bpb fs))"
    "0 < unat (bytes_per_cluster fs)" "unat (bytes_per_cluster fs) < 2 ^ 17" "bytes_per_cluster fs \<noteq> 0"
proof -
  have n: "unat (sectors_per_cluster (bpb fs)) < 256"
    using unsigned_less [of "sectors_per_cluster (bpb fs)", where ?'a = nat] by simp
  then show e: "unat (bytes_per_cluster fs) = 512 * unat (sectors_per_cluster (bpb fs))"
    using assms unat_spc [of fs] by (simp add: geometry_ok_def unat_word_ariths(2))
  show p: "0 < unat (bytes_per_cluster fs)" using e assms by (simp add: geometry_ok_def unat_gt_0)
  show "unat (bytes_per_cluster fs) < 2 ^ 17" using e n by simp
  show "bytes_per_cluster fs \<noteq> 0" using p by auto
qed

lemma cluster_bytes_length:
  assumes "disk512 dk" "geometry_ok fs"
  shows "length (cluster_bytes fs dk c) = unat (bytes_per_cluster fs)"
proof -
  have "length (concat (map dk xs)) = 512 * length xs" for xs
    using assms(1) by (induction xs) (simp_all add: disk512_def)
  moreover have "length (cluster_sectors fs c) = unat (sectors_per_cluster (bpb fs))" by (simp add: cluster_sectors_def)
  ultimately show ?thesis using unat_bpc(1) [OF assms(2)] by (simp add: cluster_bytes_def)
qed

lemma cluster_slice:
  assumes "disk512 dk" "geometry_ok fs" "unat off < unat (bytes_per_cluster fs)" "n \<le> 512 - unat off mod 512"
  shows "take n (drop (unat off) (cluster_bytes fs dk c)) =
     take n (drop (unat off mod 512) (dk (cluster_sector fs c + off div 512)))"
proof -
  let ?k = "unat off div 512"
  have k: "?k < length (cluster_sectors fs c)"
    using assms(3) unat_bpc(1) [OF assms(2)] by (simp add: cluster_sectors_def div_less_iff_less_mult)
  have e: "unat (off div 512) = ?k" by (simp add: unat_div)
  have "(of_nat (unat (off div 512)) :: u32) = of_nat ?k" by (simp only: e)
  then have "of_nat ?k = off div 512" by simp
  then have "cluster_sectors fs c ! ?k = cluster_sector fs c + off div 512"
    using k by (simp add: cluster_sectors_def)
  moreover have "take n (drop (?k * 512 + unat off mod 512) (cluster_bytes fs dk c)) =
     take n (drop (unat off mod 512) (dk (cluster_sectors fs c ! ?k)))"
    unfolding cluster_bytes_def using assms(1,4) k by (intro concat_slice) (auto simp: disk512_def)
  ultimately show ?thesis by simp
qed

lemma drop_add: "drop (a + b) xs = drop b (drop a xs)"
  by (simp add: add.commute)

lemma take_split: "n \<le> k \<Longrightarrow> take k xs = take n xs @ take (k - n) (drop n xs)"
  using take_add [of n "k - n" xs] by simp

lemma chain_bytes_Cons: "chain_bytes fs dk (c # cs) = cluster_bytes fs dk c @ chain_bytes fs dk cs"
  by (simp add: chain_bytes_def)

lemma sint_small: "unat (sz :: u32) < 2 ^ 31 \<Longrightarrow> sint sz = int (unat sz)"
proof -
  assume "unat sz < 2 ^ 31"
  then have "int (unat sz) < int (2 ^ 31)" by (simp only: of_nat_less_iff)
  then have "uint sz < 2 ^ 31" by simp
  moreover have "- (2 ^ 31) \<le> uint sz" by (rule order_trans [OF _ uint_ge_0]) simp
  ultimately have "signed_take_bit 31 (uint sz) = uint sz" by (intro signed_take_bit_int_eq_self)
  then show ?thesis by (simp add: sint_uint)
qed

lemma sint_positive: "unat (sz :: u32) < 2 ^ 31 \<Longrightarrow> 0 < sint sz \<longleftrightarrow> sz \<noteq> 0"
  by (simp only: sint_small of_nat_0_less_iff unat_gt_0)

text \<open>The number of bytes one turn of the loop copies.\<close>

definition turn :: "u32 \<Rightarrow> u32 \<Rightarrow> u32" where
  "turn sz off = (if sz < 512 - off mod 512 then sz else 512 - off mod 512)"

lemma unat_turn: "unat (turn sz off) = min (unat sz) (512 - unat off mod 512)"
proof -
  have m: "unat (off mod 512) = unat off mod 512" by (simp add: unat_mod)
  have "unat off mod 512 < 512" by simp
  then have "unat (512 - off mod 512) = 512 - unat off mod 512"
    using m by (subst unat_sub) (simp_all add: word_le_nat_alt)
  then show ?thesis by (auto simp: turn_def word_less_nat_alt)
qed


lemma turn_bounds:
  fixes sz off :: u32
  assumes G: "geometry_ok fs" and o: "unat off < unat (bytes_per_cluster fs)"
  defines "n \<equiv> turn sz off"
  shows "unat n \<le> unat sz" "sz \<noteq> 0 \<Longrightarrow> 0 < unat n" "unat (sz - n) = unat sz - unat n"
    "unat (off + n) = unat off + unat n" "unat off + unat n \<le> unat (bytes_per_cluster fs)"
    "unat n \<le> 512 - unat off mod 512"
proof -
  have un: "unat n = min (unat sz) (512 - unat off mod 512)" unfolding n_def by (rule unat_turn)
  then show le: "unat n \<le> unat sz" and "sz \<noteq> 0 \<Longrightarrow> 0 < unat n" and al: "unat n \<le> 512 - unat off mod 512"
    by (simp_all add: unat_gt_0)
  then show "unat (sz - n) = unat sz - unat n" by (simp add: unat_sub word_le_nat_alt)
  have "unat n \<le> 512" using al by linarith
  then have "unat off + unat n < 2 ^ 32" using o unat_bpc(3) [OF G] by simp
  then show "unat (off + n) = unat off + unat n" by (subst unat_plus_if') simp
  obtain k where k: "unat (bytes_per_cluster fs) = 512 * k" using unat_bpc(1) [OF G] by blast
  have "unat off div 512 < k" using o k by (simp add: div_less_iff_less_mult mult.commute)
  then have "512 * (unat off div 512) + 512 \<le> unat (bytes_per_cluster fs)" using k by simp
  moreover have "unat off = 512 * (unat off div 512) + unat off mod 512" "unat off mod 512 < 512" by simp_all
  ultimately show "unat off + unat n \<le> unat (bytes_per_cluster fs)" using al by linarith
qed

lemma cluster_local:
  assumes "geometry_ok fs" "unat off < unat (bytes_per_cluster fs)"
  shows "off div bytes_per_cluster fs = 0" "off mod bytes_per_cluster fs = off"
  using assms(2) unat_bpc(2) [OF assms(1)] by (simp_all add: word_unat_eq_iff unat_div unat_mod)

lemma cluster_sector_in:
  assumes "geometry_ok fs" "unat off < unat (bytes_per_cluster fs)"
  shows "cluster_sector fs c + off div 512 \<in> set (cluster_sectors fs c)"
proof -
  let ?k = "unat off div 512"
  have k: "?k < unat (sectors_per_cluster (bpb fs))" using assms(2) unat_bpc(1) [OF assms(1)] by (simp add: div_less_iff_less_mult)
  have "(of_nat (unat (off div 512)) :: u32) = of_nat ?k" by (simp only: unat_div) simp
  then have "of_nat ?k = off div 512" by simp
  then show ?thesis using k by (auto simp: cluster_sectors_def image_iff intro!: bexI [of _ ?k])
qed

context sector_reader
begin

text \<open>One turn of the loop copies a piece of the current cluster.\<close>

lemma read_turn:
  fixes f :: "'d fat32_file" and sz br :: u32 and st :: "('d, 'a) fat_state_scheme" and dst :: "u8 list"
  assumes U: "reads_with fs rd" and L: "lock (cache_lock st) = 0" and H: "holds dk (dev_state st)" and G: "geometry_ok fs"
    and V: "\<forall>s \<in> set (cluster_sectors fs (curr_cluster f)). valid s"
    and o: "unat (curr_offset f) < unat (bytes_per_cluster fs)" and sz: "sz \<noteq> 0" "unat sz < 2 ^ 31"
  defines "n \<equiv> turn sz (curr_offset f)"
  defines "g \<equiv> f\<lparr>file_pos := file_pos f + n, curr_offset := curr_offset f + n\<rparr>"
    and "b \<equiv> dst @ take (unat n) (drop (unat (curr_offset f)) (cluster_bytes fs dk (curr_cluster f)))"
  shows "\<exists>d. holds dk d \<and> read_loop fs f sz dst br st =
    (let st = st\<lparr>dev_state := d\<rparr> in
     if bytes_per_cluster fs \<le> curr_offset f + n then do {
       (e, st) \<leftarrow> fat32_next_cluster fs (curr_cluster f) st;
       let file = g\<lparr>curr_offset := 0, curr_cluster := e\<rparr>;
       if e = NO_CLUSTER then Some (br + n, b, file, st) else read_loop fs file (sz - n) b (br + n) st }
     else read_loop fs g (sz - n) b (br + n) st)"
proof -
  let ?s = "cluster_sector fs (curr_cluster f) + curr_offset f div 512"
  have um: "unat (curr_offset f mod 512) = unat (curr_offset f) mod 512" by (simp add: unat_mod)
  note d5 = sector_length [OF H]
  have b: "b = dst @ take (unat n) (drop (unat (curr_offset f mod 512)) (dk ?s))"
    unfolding b_def um n_def using turn_bounds(6) [OF G o] d5 by (subst cluster_slice [OF _ G o]) simp_all
  have "valid ?s" using V cluster_sector_in [OF G o] by blast
  from cache_read [OF U L H this] obtain d where d: "cache_read_sector fs ?s st = Some (0, dk ?s, st\<lparr>dev_state := d\<rparr>)" "holds dk d" by blast
  show ?thesis unfolding b unfolding n_def g_def turn_def
    by (rule exI [of _ d], rule conjI [OF d(2)], subst read_loop.simps)
      (use sz unat_bpc(4) [OF G] cluster_local [OF G o] d(1) in \<open>simp add: sint_positive Let_def split del: if_split cong: if_cong\<close>)
qed

lemma read_loop:
  fixes st :: "('d, 'a) fat_state_scheme"
  assumes U: "reads_with fs rd" and L: "lock (cache_lock st) = 0" and G: "geometry_ok fs"
    and "linked (fat_get fs dk) (c # cs)" "places_ok valid fs (c # cs)" "curr_cluster f = c"
    "unat (curr_offset f) < unat (bytes_per_cluster fs)" "unat sz < 2 ^ 31"
    "unat (curr_offset f) + unat sz \<le> length (chain_bytes fs dk (c # cs))" "holds dk (dev_state st)"
  shows "\<exists>cc co d. read_loop fs f sz dst br st =
    Some (br + sz, dst @ take (unat sz) (drop (unat (curr_offset f)) (chain_bytes fs dk (c # cs))),
      f\<lparr>curr_cluster := cc, curr_offset := co, file_pos := file_pos f + sz\<rparr>, st\<lparr>dev_state := d\<rparr>) \<and> holds dk d"
  using assms(4-10) L
proof (induction "unat sz" arbitrary: c cs f sz dst br st rule: less_induct)
  case less
  let ?o = "curr_offset f" and ?bpc = "unat (bytes_per_cluster fs)"
  let ?C = "chain_bytes fs dk (c # cs)" and ?n = "turn sz (curr_offset f)"
  let ?f = "f\<lparr>file_pos := file_pos f + ?n, curr_offset := ?o + ?n\<rparr>"
  let ?d = "dst @ take (unat ?n) (drop (unat ?o) (cluster_bytes fs dk (curr_cluster f)))"
  note tb = turn_bounds [OF G less.prems(4), of sz] and d5 = sector_length [OF less.prems(7)]
  show ?case
  proof (cases "sz = 0")
    case True
    then show ?thesis using less.prems(7)
      by (intro exI [of _ "curr_cluster f"] exI [of _ "curr_offset f"] exI [of _ "dev_state st"]) (simp add: read_loop.simps)
  next
    case False
    have "\<forall>s \<in> set (cluster_sectors fs (curr_cluster f)). valid s" using less.prems(2,3) by simp
    from read_turn [OF U less.prems(8,7) G this less.prems(4) False less.prems(5), of dst br] obtain d1 where
      d1: "holds dk d1" and step: "read_loop fs f sz dst br st =
    (let st = st\<lparr>dev_state := d1\<rparr> in
     if bytes_per_cluster fs \<le> ?o + ?n then do {
       (e, st) \<leftarrow> fat32_next_cluster fs (curr_cluster f) st;
       let file = ?f\<lparr>curr_offset := 0, curr_cluster := e\<rparr>;
       if e = NO_CLUSTER then Some (br + ?n, ?d, file, st) else read_loop fs file (sz - ?n) ?d (br + ?n) st }
     else read_loop fs ?f (sz - ?n) ?d (br + ?n) st)" by blast
    let ?st = "st\<lparr>dev_state := d1\<rparr>"
    have len: "length (cluster_bytes fs dk c) = ?bpc" using d5 G by (simp add: cluster_bytes_length)
    have e1: "?d = dst @ take (unat ?n) (drop (unat ?o) ?C)"
      using less.prems(3) tb(5) len by (simp add: chain_bytes_Cons)
    have cat: "?d @ take (unat sz - unat ?n) (drop (unat ?o + unat ?n) ?C) = dst @ take (unat sz) (drop (unat ?o) ?C)"
      unfolding e1 append_assoc drop_add take_split [OF tb(1)] ..
    have lt: "unat (sz - ?n) < unat sz" and sm: "unat (sz - ?n) < 2 ^ 31"
      using tb(1-3) False less.prems(5) by linarith+
    show ?thesis
    proof (cases "bytes_per_cluster fs \<le> ?o + ?n")
      case True
      then have eq: "unat ?o + unat ?n = ?bpc" using tb(4,5) by (simp add: word_le_nat_alt)
      have "valid (fat_sector_of fs c)" "lock (cache_lock ?st) = 0" "holds dk (dev_state ?st)" using less.prems(2,8) d1 by simp_all
      from next_cluster [OF U this(2,3,1)] obtain d2 where
        nc: "fat32_next_cluster fs c ?st = Some (if fat_get fs dk c \<ge> 0x0FFFFFF7 then NO_CLUSTER else fat_get fs dk c, st\<lparr>dev_state := d2\<rparr>)" "holds dk d2" by auto
      show ?thesis
      proof (cases cs)
        case Nil
        then have "unat sz = unat ?n" using less.prems(6) eq len tb(1) by (simp add: chain_bytes_def)
        then have szn: "?n = sz" by (simp add: word_unat_eq_iff)
        have "fat_get fs dk c \<ge> 0x0FFFFFF7" using less.prems(1) Nil by simp
        then have "read_loop fs f sz dst br st = Some (br + ?n, ?d, ?f\<lparr>curr_offset := 0, curr_cluster := NO_CLUSTER\<rparr>, st\<lparr>dev_state := d2\<rparr>)"
          unfolding step using True less.prems(3) nc(1) by (simp add: Let_def)
        then show ?thesis using cat szn nc(2) by (intro exI [of _ NO_CLUSTER] exI [of _ 0] exI [of _ d2]) simp
      next
        case (Cons d ds)
        let ?g = "?f\<lparr>curr_offset := 0, curr_cluster := d\<rparr>" and ?t = "st\<lparr>dev_state := d2\<rparr>"
        have nx: "fat_get fs dk c = d" "d < 0x0FFFFFF7" and lk: "linked (fat_get fs dk) (d # ds)" and pl: "places_ok valid fs (d # ds)"
          using less.prems(1,2) Cons by auto
        then have "d \<noteq> NO_CLUSTER" "\<not> 0x0FFFFFF7 \<le> d" by auto
        then have st1: "read_loop fs f sz dst br st = read_loop fs ?g (sz - ?n) ?d (br + ?n) ?t"
          unfolding step using True nx(1) less.prems(3) nc(1) by (simp add: Let_def)
        have dr: "drop (unat ?o + unat ?n) ?C = chain_bytes fs dk (d # ds)"
          and ln: "length ?C = ?bpc + length (chain_bytes fs dk (d # ds))"
          using eq len Cons by (simp_all add: chain_bytes_Cons [of fs _ c])
        have g: "curr_cluster ?g = d" "unat (curr_offset ?g) < ?bpc" "holds dk (dev_state ?t)" "lock (cache_lock ?t) = 0"
          using unat_bpc(2) [OF G] nc(2) less.prems(8) by simp_all
        have "unat (sz - ?n) \<le> length (chain_bytes fs dk (d # ds))" using less.prems(6) ln eq tb(1,3) by linarith
        then have "unat (curr_offset ?g) + unat (sz - ?n) \<le> length (chain_bytes fs dk (d # ds))" by simp
        from less.hyps [OF lt lk pl g(1,2) sm this g(3,4), of ?d "br + ?n"] show ?thesis
          using cat unfolding st1 tb(3) by (auto simp: dr)
      qed
    next
      case False
      then have st1: "read_loop fs f sz dst br st = read_loop fs ?f (sz - ?n) ?d (br + ?n) ?st" unfolding step by simp
      have in_cl: "unat (curr_offset ?f) < ?bpc" using False by (simp add: word_le_nat_alt)
      have cc: "curr_cluster ?f = c" and co: "unat (curr_offset ?f) + unat (sz - ?n) \<le> length ?C"
        using less.prems(3,6) tb by simp_all
      have "holds dk (dev_state ?st)" "lock (cache_lock ?st) = 0" using d1 less.prems(8) by simp_all
      from less.hyps [OF lt less.prems(1,2) cc in_cl sm co this, of ?d "br + ?n"] show ?thesis
        using cat unfolding st1 tb(3) by (auto simp: tb(4))
    qed
  qed
qed

lemma file_read:
  fixes st :: "('d, 'a) fat_state_scheme"
  assumes U: "reads_with fs rd" and L: "lock (cache_lock st) = 0" and H: "holds dk (dev_state st)" and G: "geometry_ok fs"
    and f: "open_files st ! i = f" "f_used f" "f_mode f = 0" "f_fs f = Some fs"
    and ch: "linked (fat_get fs dk) (curr_cluster f # cs)" "places_ok valid fs (curr_cluster f # cs)" "curr_offset f < bytes_per_cluster fs"
      "unat (curr_offset f) + (unat (file_size f) - unat (file_pos f)) \<le> length (chain_bytes fs dk (curr_cluster f # cs))"
    and sz: "0 < unat sz" "unat sz < 2 ^ 31" "file_pos f < file_size f" "unat (file_pos f) + unat sz < 2 ^ 32"
  defines "n \<equiv> min (unat sz) (unat (file_size f) - unat (file_pos f))"
  shows "\<exists>cc co d. fat32_read (Some i) sz st =
    Some (int n, take n (drop (unat (curr_offset f)) (chain_bytes fs dk (curr_cluster f # cs))), st\<lparr>dev_state := d,
      open_files := (open_files st)[i := f\<lparr>curr_cluster := cc, curr_offset := co, file_pos := file_pos f + of_nat n\<rparr>]\<rparr>) \<and> holds dk d"
proof -
  let ?sz = "if file_size f < file_pos f + sz then file_size f - file_pos f else sz"
  have "unat (file_pos f + sz) = unat (file_pos f) + unat sz" using sz(4) by (simp add: unat_plus_if')
  then have u: "unat ?sz = n" using sz(3) by (auto simp: n_def word_less_nat_alt unat_sub word_le_nat_alt)
  then have n: "n < 2 ^ 31" "n \<le> unat (file_size f) - unat (file_pos f)" using sz(2) by (simp_all add: n_def)
  have on: "?sz = of_nat n" unfolding u [symmetric] by simp
  have sp: "0 < sint sz" using sint_positive [OF sz(2)] sz(1) by (simp add: unat_gt_0)
  have o: "unat (curr_offset f) < unat (bytes_per_cluster fs)" using ch(3) by (simp add: word_less_nat_alt)
  have le: "unat (curr_offset f) + unat ?sz \<le> length (chain_bytes fs dk (curr_cluster f # cs))"
    using ch(4) n(2) unfolding u by linarith
  from read_loop [OF U L G ch(1,2) refl o _ le H, of "[]" 0] n(1) obtain cc co d where
    r: "read_loop fs f ?sz [] 0 st = Some (?sz, take n (drop (unat (curr_offset f)) (chain_bytes fs dk (curr_cluster f # cs))),
      f\<lparr>curr_cluster := cc, curr_offset := co, file_pos := file_pos f + ?sz\<rparr>, st\<lparr>dev_state := d\<rparr>)" "holds dk d"
    unfolding u by auto
  have si: "sint ?sz = int n" using n(1) unfolding u [symmetric] by (rule sint_small)
  have "\<not> file_size f \<le> file_pos f" using sz(3) by simp
  then have "fat32_read (Some i) sz st = Some (sint ?sz, take n (drop (unat (curr_offset f)) (chain_bytes fs dk (curr_cluster f # cs))), st\<lparr>dev_state := d,
      open_files := (open_files st)[i := f\<lparr>curr_cluster := cc, curr_offset := co, file_pos := file_pos f + ?sz\<rparr>]\<rparr>)"
    using f sp r(1) by (simp add: fat32_read_def Let_def split del: if_split)
  then show ?thesis using r(2) unfolding si unfolding on by blast
qed

end

subsection \<open>Writing a file\<close>

text \<open>
  The places of a chain are apart: its data sectors are pairwise different and none of them holds
  a table entry of the chain.
\<close>

definition chain_ok :: "'d fat32_fs \<Rightarrow> u32 list \<Rightarrow> bool" where
  "chain_ok fs cs \<longleftrightarrow> distinct (concat (map (cluster_sectors fs) cs)) \<and>
     (\<forall>e \<in> set cs. fat_sector_of fs e \<notin> set (concat (map (cluster_sectors fs) cs)))"

lemma put_append_left: "i + length xs \<le> length a \<Longrightarrow> put (a @ b) i xs = put a i xs @ b"
  by (simp add: put_def)

lemma put_append_right: "length a \<le> i \<Longrightarrow> put (a @ b) i xs = a @ put b (i - length a) xs"
  by (simp add: put_def)

lemma put_put: "i + length xs + length ys \<le> length b \<Longrightarrow> put (put b i xs) (i + length xs) ys = put b i (xs @ ys)"
  by (simp add: put_def add.commute add.left_commute)

lemma put_nil [simp]: "i \<le> length b \<Longrightarrow> put b i [] = b"
  by (simp add: put_def)

lemma concat_put:
  assumes "distinct xs" "\<forall>x \<in> set xs. length (f x) = 512" "k < length xs" "r + length ys \<le> 512"
  shows "concat (map (f(xs ! k := put (f (xs ! k)) r ys)) xs) = put (concat (map f xs)) (k * 512 + r) ys"
  using assms(1-3)
proof (induction xs arbitrary: k)
  case (Cons x xs)
  then have same: "map (f(x := v)) xs = map f xs" for v by auto
  show ?case
  proof (cases k)
    case 0
    then show ?thesis using Cons.prems assms(4) by (simp add: put_append_left same fun_upd_same del: fun_upd_apply)
  next
    case (Suc j)
    then have "xs ! j \<in> set xs" using Cons.prems(3) by simp
    then have "xs ! j \<noteq> x" using Cons.prems(1) by auto
    then show ?thesis using Cons Suc assms(4) by (simp add: put_append_right add.assoc)
  qed
qed simp

lemma cluster_put:
  assumes "disk512 dk" "geometry_ok fs" "unat off < unat (bytes_per_cluster fs)" "length xs \<le> 512 - unat off mod 512"
    "distinct (cluster_sectors fs c)"
  defines "s \<equiv> cluster_sector fs c + off div 512"
  shows "cluster_bytes fs (dk(s := put (dk s) (unat off mod 512) xs)) c = put (cluster_bytes fs dk c) (unat off) xs"
    "s \<in> set (cluster_sectors fs c)"
proof -
  let ?k = "unat off div 512"
  have k: "?k < length (cluster_sectors fs c)"
    using assms(3) unat_bpc(1) [OF assms(2)] by (simp add: cluster_sectors_def div_less_iff_less_mult)
  have "(of_nat (unat (off div 512)) :: u32) = of_nat ?k" by (simp only: unat_div) simp
  then have "of_nat ?k = off div 512" by simp
  then have s: "cluster_sectors fs c ! ?k = s" using k by (simp add: cluster_sectors_def s_def)
  then show "s \<in> set (cluster_sectors fs c)" using k by (metis nth_mem)
  show "cluster_bytes fs (dk(s := put (dk s) (unat off mod 512) xs)) c = put (cluster_bytes fs dk c) (unat off) xs"
    using concat_put [OF assms(5), of dk ?k "unat off mod 512" xs] assms(1,4) k unfolding s
    by (simp add: cluster_bytes_def disk512_def)
qed

lemma chain_bytes_cong:
  "(\<And>s. s \<in> set (concat (map (cluster_sectors fs) cs)) \<Longrightarrow> dk' s = dk s) \<Longrightarrow> chain_bytes fs dk' cs = chain_bytes fs dk cs"
  unfolding chain_bytes_def cluster_bytes_def by (intro arg_cong [of _ _ concat] map_cong) auto

lemma fat_get_cong: "dk' (fat_sector_of fs c) = dk (fat_sector_of fs c) \<Longrightarrow> fat_get fs dk' c = fat_get fs dk c"
  by (simp add: fat_get_def fat_raw_def)

text \<open>Where the bytes of a write end up, and that nothing else changes.\<close>

definition written :: "'d fat32_fs \<Rightarrow> u32 list \<Rightarrow> disk \<Rightarrow> nat \<Rightarrow> u8 list \<Rightarrow> disk \<Rightarrow> bool" where
  "written fs cs dk off xs dk' \<longleftrightarrow> chain_bytes fs dk' cs = put (chain_bytes fs dk cs) off xs \<and>
     (\<forall>s. s \<notin> set (concat (map (cluster_sectors fs) cs)) \<longrightarrow> dk' s = dk s)"

lemma written_first:
  assumes "disk512 dk" "geometry_ok fs" "unat off < unat (bytes_per_cluster fs)" "length xs \<le> 512 - unat off mod 512"
    "unat off + length xs \<le> unat (bytes_per_cluster fs)" "chain_ok fs (c # cs)"
  defines "s \<equiv> cluster_sector fs c + off div 512"
  shows "written fs (c # cs) dk (unat off) xs (dk(s := put (dk s) (unat off mod 512) xs))"
proof -
  have ds: "distinct (cluster_sectors fs c)" using assms(6) by (simp add: chain_ok_def)
  note cp = cluster_put [OF assms(1-4) ds, folded s_def]
  have "s \<notin> set (concat (map (cluster_sectors fs) cs))" using cp(2) assms(6) by (auto simp: chain_ok_def)
  then have "chain_bytes fs (dk(s := put (dk s) (unat off mod 512) xs)) cs = chain_bytes fs dk cs"
    by (intro chain_bytes_cong) auto
  then show ?thesis using cp assms(5) cluster_bytes_length [OF assms(1,2), of c]
    by (auto simp: written_def chain_bytes_Cons put_append_left)
qed

lemma written_trans:
  assumes "written fs cs dk off xs dk'" "written fs cs dk' (off + length xs) ys dk''"
    "off + length xs + length ys \<le> length (chain_bytes fs dk cs)"
  shows "written fs cs dk off (xs @ ys) dk''"
  using assms by (simp add: written_def put_put)

lemma written_tail:
  assumes "written fs cs dk off xs dk'" "chain_ok fs (c # cs)"
  shows "written fs (c # cs) dk (length (cluster_bytes fs dk c) + off) xs dk'"
proof -
  have "set (cluster_sectors fs c) \<inter> set (concat (map (cluster_sectors fs) cs)) = {}"
    using assms(2) unfolding chain_ok_def list.map concat.simps distinct_append by blast
  then have "\<forall>s \<in> set (cluster_sectors fs c). dk' s = dk s"
    using assms(1) unfolding written_def by blast
  then have "cluster_bytes fs dk' c = cluster_bytes fs dk c"
    using chain_bytes_cong [of fs "[c]" dk' dk] by (simp add: chain_bytes_def)
  then show ?thesis using assms(1) by (auto simp: written_def chain_bytes_Cons put_append_right)
qed

lemma written_linked:
  assumes "written fs cs dk off xs dk'" "chain_ok fs cs"
  shows "linked (fat_get fs dk') cs = linked (fat_get fs dk) cs"
  using assms by (intro linked_cong fat_get_cong) (auto simp: written_def chain_ok_def)

definition grown :: "'d fat32_file \<Rightarrow> u32 \<Rightarrow> u32" where
  "grown f sz = (if sz = 0 then file_size f else max (file_size f) (file_pos f + sz))"

lemma grown_step:
  fixes sz n :: u32
  assumes "n \<noteq> 0" "unat n \<le> unat sz" "unat (file_pos f) + unat sz < 2 ^ 32"
    "file_pos g = file_pos f + n" "file_size g = max (file_size f) (file_pos f + n)"
  shows "grown g (sz - n) = grown f sz"
proof -
  have "unat n \<noteq> 0" using assms(1) by (simp add: word_unat_eq_iff)
  then have "sz \<noteq> 0" using assms(2) by auto
  moreover have "file_pos f + n \<le> file_pos f + sz"
    using assms(2,3) by (simp add: word_le_nat_alt unat_plus_if')
  ultimately show ?thesis using assms(4,5) by (auto simp: grown_def max.assoc max_absorb2)
qed

lemma chain_ok_tl: "chain_ok fs (c # cs) \<Longrightarrow> chain_ok fs cs"
  by (auto simp: chain_ok_def)

text \<open>A run of the loop that writes all its bytes at \<open>off\<close> of the chain.\<close>

definition wrote where
  "wrote fs holds dk cs off f sz src bw st r \<longleftrightarrow> (\<exists>cc co d dk'. r = Some (bw + sz,
      f\<lparr>curr_cluster := cc, curr_offset := co, file_size := grown f sz, file_pos := file_pos f + sz\<rparr>, st\<lparr>dev_state := d\<rparr>) \<and>
     holds dk' d \<and> written fs cs dk off (take (unat sz) src) dk')"

lemma wrote_step:
  fixes sz n :: u32 and st :: "('d, 'a) fat_state_scheme"
  assumes "wrote fs holds dk1 cs (off + unat n) h (sz - n) (drop (unat n) src) (bw + n) (st\<lparr>dev_state := d\<rparr>) r"
    "written fs cs dk off (take (unat n) src) dk1"
    "h = f\<lparr>file_pos := file_pos f + n, curr_offset := a, file_size := max (file_size f) (file_pos f + n), curr_cluster := b\<rparr>"
    "n \<noteq> 0" "unat n \<le> unat sz" "unat sz \<le> length src" "unat (file_pos f) + unat sz < 2 ^ 32"
    "off + unat sz \<le> length (chain_bytes fs dk cs)"
  shows "wrote fs holds dk cs off f sz src bw st r"
proof -
  have gr: "grown h (sz - n) = grown f sz" using assms(3,4,5,7) by (intro grown_step) simp_all
  have us: "unat (sz - n) = unat sz - unat n" using assms(5) by (simp add: unat_sub word_le_nat_alt)
  have tk: "take (unat n) src @ take (unat (sz - n)) (drop (unat n) src) = take (unat sz) src"
    unfolding us using take_split [OF assms(5), of src] by simp
  obtain cc co e dk2 where r: "r = Some (bw + n + (sz - n), h\<lparr>curr_cluster := cc, curr_offset := co, file_size := grown h (sz - n),
        file_pos := file_pos h + (sz - n)\<rparr>, st\<lparr>dev_state := e\<rparr>)" "holds dk2 e"
    "written fs cs dk1 (off + unat n) (take (unat (sz - n)) (drop (unat n) src)) dk2"
    using assms(1) by (auto simp: wrote_def)
  have "written fs cs dk off (take (unat sz) src) dk2"
    unfolding tk [symmetric] using r(3) assms(5,6,8) us by (intro written_trans [OF assms(2)]) simp_all
  then show ?thesis using r(1,2) assms(3) gr unfolding wrote_def by auto
qed

lemma wrote_tail:
  "wrote fs holds dk cs off f sz src bw st r \<Longrightarrow> chain_ok fs (c # cs) \<Longrightarrow>
     wrote fs holds dk (c # cs) (length (cluster_bytes fs dk c) + off) f sz src bw st r"
  unfolding wrote_def using written_tail by blast

context sector_device
begin

text \<open>One turn of the loop overwrites a piece of the current cluster.\<close>

lemma write_turn:
  fixes f :: "'d fat32_file" and sz bw :: u32 and st :: "('d, 'a) fat_state_scheme" and src :: "u8 list"
  assumes U: "uses_device fs rd wr" and L: "lock (cache_lock st) = 0" and H: "holds dk (dev_state st)" and G: "geometry_ok fs"
    and V: "\<forall>s \<in> set (cluster_sectors fs (curr_cluster f)). valid s"
    and o: "unat (curr_offset f) < unat (bytes_per_cluster fs)" and sz: "sz \<noteq> 0" "unat sz < 2 ^ 31"
    and c: "curr_cluster f \<noteq> 0" and src: "unat sz \<le> length src"
  defines "n \<equiv> turn sz (curr_offset f)" and "s \<equiv> cluster_sector fs (curr_cluster f) + curr_offset f div 512"
  defines "g \<equiv> f\<lparr>file_pos := file_pos f + n, curr_offset := curr_offset f + n,
      file_size := max (file_size f) (file_pos f + n)\<rparr>"
  shows "\<exists>d. holds (dk(s := put (dk s) (unat (curr_offset f) mod 512) (take (unat n) src))) d \<and>
    write_loop fs f sz src bw st =
      (let st = st\<lparr>dev_state := d\<rparr> in
       if bytes_per_cluster fs \<le> curr_offset f + n then do {
         (e, st) \<leftarrow> fat32_next_cluster fs (curr_cluster f) st;
         if e = NO_CLUSTER then do {
           (e, st) \<leftarrow> allocate_cluster fs (curr_cluster f) st;
           if e = 0 then Some (bw + n, g, st)
           else write_loop fs (g\<lparr>curr_cluster := e, curr_offset := 0\<rparr>) (sz - n) (drop (unat n) src) (bw + n) st }
         else write_loop fs (g\<lparr>curr_cluster := e, curr_offset := 0\<rparr>) (sz - n) (drop (unat n) src) (bw + n) st }
       else write_loop fs g (sz - n) (drop (unat n) src) (bw + n) st)"
proof -
  have um: "unat (curr_offset f mod 512) = unat (curr_offset f) mod 512" by (simp add: unat_mod)
  have n: "n = (if sz < 512 - curr_offset f mod 512 then sz else 512 - curr_offset f mod 512)"
    by (simp add: n_def turn_def)
  let ?b = "put (dk s) (unat (curr_offset f) mod 512) (take (unat n) src)"
  have "unat n \<le> 512 - unat (curr_offset f) mod 512" unfolding n_def by (rule turn_bounds(6) [OF G o])
  then have l: "length ?b = 512" using sector_length [OF H] by (simp add: disk512_def)
  have v: "valid s" unfolding s_def using V cluster_sector_in [OF G o] by blast
  from cache_read [OF uses_reads [OF U] L H v] obtain d0 where
    r: "cache_read_sector fs s st = Some (0, dk s, st\<lparr>dev_state := d0\<rparr>)" "holds dk d0" by blast
  from cache_write [OF U, of "st\<lparr>dev_state := d0\<rparr>" dk s ?b] L r(2) v l obtain d where
    d: "cache_write_sector fs s ?b (st\<lparr>dev_state := d0\<rparr>) = Some (0, st\<lparr>dev_state := d\<rparr>)" "holds (dk(s := ?b)) d" by auto
  have g: "(if file_size f < file_pos f + n then f\<lparr>file_pos := file_pos f + n, curr_offset := curr_offset f + n,
      file_size := file_pos f + n\<rparr> else f\<lparr>file_pos := file_pos f + n, curr_offset := curr_offset f + n\<rparr>) = g"
    by (simp add: g_def max_def not_less)
  have gs: "curr_offset g = curr_offset f + n" "curr_cluster g = curr_cluster f" by (simp_all add: g_def)
  have "write_loop fs f sz src bw st = (let st = st\<lparr>dev_state := d\<rparr> in
       if bytes_per_cluster fs \<le> curr_offset f + n then do {
         (e, st) \<leftarrow> fat32_next_cluster fs (curr_cluster f) st;
         if e = NO_CLUSTER then do {
           (e, st) \<leftarrow> allocate_cluster fs (curr_cluster f) st;
           if e = 0 then Some (bw + n, g, st)
           else write_loop fs (g\<lparr>curr_cluster := e, curr_offset := 0\<rparr>) (sz - n) (drop (unat n) src) (bw + n) st }
         else write_loop fs (g\<lparr>curr_cluster := e, curr_offset := 0\<rparr>) (sz - n) (drop (unat n) src) (bw + n) st }
       else write_loop fs g (sz - n) (drop (unat n) src) (bw + n) st)"
    using d(1) r(1) sz c g gs unfolding s_def um
    by (subst write_loop.simps)
       (simp add: sint_positive Let_def um flip: n split del: if_split cong: if_cong)
  then show ?thesis using d(2) by blast
qed

lemma write_loop:
  fixes st :: "('d, 'a) fat_state_scheme"
  assumes U: "uses_device fs rd wr" and G: "geometry_ok fs"
    and "lock (cache_lock st) = 0" "linked (fat_get fs dk) (c # cs)" "chain_ok fs (c # cs)"
    "0 \<notin> set (c # cs)" "curr_cluster f = c" "unat (curr_offset f) < unat (bytes_per_cluster fs)" "unat sz < 2 ^ 31"
    "unat (curr_offset f) + unat sz < length (chain_bytes fs dk (c # cs))" "unat sz \<le> length src"
    "unat (file_pos f) + unat sz < 2 ^ 32" "holds dk (dev_state st)" "places_ok valid fs (c # cs)"
  shows "wrote fs holds dk (c # cs) (unat (curr_offset f)) f sz src bw st (write_loop fs f sz src bw st)"
  using assms(3-14)
proof (induction "unat sz" arbitrary: c cs f sz src bw st dk rule: less_induct)
  case less
  let ?o = "curr_offset f" and ?bpc = "unat (bytes_per_cluster fs)"
  let ?C = "chain_bytes fs dk (c # cs)" and ?n = "turn sz (curr_offset f)"
  let ?g = "f\<lparr>file_pos := file_pos f + ?n, curr_offset := ?o + ?n, file_size := max (file_size f) (file_pos f + ?n)\<rparr>"
  note tb = turn_bounds [OF G less.prems(6), of sz] and d5 = sector_length [OF less.prems(11)]
  show ?case
  proof (cases "sz = 0")
    case True
    then show ?thesis using less.prems(8,11) unfolding wrote_def
      by (intro exI [of _ "curr_cluster f"] exI [of _ "curr_offset f"] exI [of _ "dev_state st"] exI [of _ dk])
        (simp add: write_loop.simps grown_def written_def)
  next
    case False
    have c0: "curr_cluster f \<noteq> 0" "\<forall>s \<in> set (cluster_sectors fs (curr_cluster f)). valid s" using less.prems(4,5,12) by auto
    define dk1 where "dk1 = dk(cluster_sector fs c + ?o div 512 :=
          put (dk (cluster_sector fs c + ?o div 512)) (unat ?o mod 512) (take (unat ?n) src))"
    obtain d where d: "holds dk1 d"
      and step: "write_loop fs f sz src bw st =
      (let st = st\<lparr>dev_state := d\<rparr> in
       if bytes_per_cluster fs \<le> ?o + ?n then do {
         (e, st) \<leftarrow> fat32_next_cluster fs c st;
         if e = NO_CLUSTER then do {
           (e, st) \<leftarrow> allocate_cluster fs c st;
           if e = 0 then Some (bw + ?n, ?g, st)
           else write_loop fs (?g\<lparr>curr_cluster := e, curr_offset := 0\<rparr>) (sz - ?n) (drop (unat ?n) src) (bw + ?n) st }
         else write_loop fs (?g\<lparr>curr_cluster := e, curr_offset := 0\<rparr>) (sz - ?n) (drop (unat ?n) src) (bw + ?n) st }
       else write_loop fs ?g (sz - ?n) (drop (unat ?n) src) (bw + ?n) st)"
      using write_turn [OF U less.prems(1,11) G c0(2) less.prems(6) False less.prems(7) c0(1) less.prems(9), of bw] less.prems(5)
      unfolding dk1_def by auto
    let ?st = "st\<lparr>dev_state := d\<rparr>" and ?src = "drop (unat ?n) src"
    have ln: "length (take (unat ?n) src) = unat ?n" using tb(1) less.prems(9) by simp
    have w1: "written fs (c # cs) dk (unat ?o) (take (unat ?n) src) dk1"
      unfolding dk1_def using d5 less.prems(6) tb(5,6) ln less.prems(3) by (intro written_first [OF _ G]) simp_all
    have lk: "linked (fat_get fs dk1) (c # cs)" using written_linked [OF w1 less.prems(3)] less.prems(2) by simp
    note e5 = sector_length [OF d]
    have len: "length (chain_bytes fs dk1 (c # cs)) = length ?C" "length (cluster_bytes fs dk1 c) = ?bpc"
      using w1 ln tb(1) less.prems(8) e5 G by (simp_all add: written_def cluster_bytes_length)
    have n0: "?n \<noteq> 0" using tb(2) False by auto
    have lt: "unat (sz - ?n) < unat sz" and sm: "unat (sz - ?n) < 2 ^ 31" using tb(1-3) False less.prems(7) by linarith+
    have L: "lock (cache_lock ?st) = 0" "holds dk1 (dev_state ?st)" using less.prems(1) d by simp_all
    have sl: "unat (sz - ?n) \<le> length ?src" using tb(1,3) less.prems(9) by simp
    have fp: "unat (file_pos f + ?n) + unat (sz - ?n) < 2 ^ 32"
      using tb(1,3) less.prems(10) by (simp add: unat_plus_if')
    note fin = wrote_step [OF _ w1 _ n0 tb(1) less.prems(9,10)]
    show ?thesis
    proof (cases "bytes_per_cluster fs \<le> ?o + ?n")
      case True
      then have eq: "unat ?o + unat ?n = ?bpc" using tb(4,5) by (simp add: word_le_nat_alt)
      have "length ?C > ?bpc" using eq tb(1) less.prems(8) by linarith
      then obtain e es where cs: "cs = e # es"
        using d5 G by (cases cs) (simp_all add: chain_bytes_def cluster_bytes_length)
      let ?h = "?g\<lparr>curr_cluster := e, curr_offset := 0\<rparr>"
      have nx: "fat_get fs dk1 c = e" "e < 0x0FFFFFF7" and le: "linked (fat_get fs dk1) (e # es)"
        using lk cs by auto
      then have ne: "e \<noteq> NO_CLUSTER" "\<not> 0x0FFFFFF7 \<le> e" by auto
      have "valid (fat_sector_of fs c)" using less.prems(12) by simp
      from next_cluster [OF uses_reads [OF U] L this] nx(1) ne(2) obtain d2 where
        nc: "fat32_next_cluster fs c ?st = Some (e, st\<lparr>dev_state := d2\<rparr>)" "holds dk1 d2" by auto
      let ?t = "st\<lparr>dev_state := d2\<rparr>"
      have st1: "write_loop fs f sz src bw st = write_loop fs ?h (sz - ?n) ?src (bw + ?n) ?t"
        unfolding step using True ne nc(1) by (simp add: Let_def)
      have ck: "chain_ok fs (e # es)" "0 \<notin> set (e # es)" using chain_ok_tl [of fs c cs] less.prems(3,4) cs by auto
      have h: "curr_cluster ?h = e" "unat (curr_offset ?h) < ?bpc" using unat_bpc(2) [OF G] by simp_all
      have tl: "unat (curr_offset ?h) + unat (sz - ?n) < length (chain_bytes fs dk1 (e # es))"
        using less.prems(8) len eq tb(1,3) cs by (simp add: chain_bytes_Cons [of fs _ c])
      have fph: "unat (file_pos ?h) + unat (sz - ?n) < 2 ^ 32" using fp by simp
      have t: "lock (cache_lock ?t) = 0" "holds dk1 (dev_state ?t)" "places_ok valid fs (e # es)" using less.prems(1,12) nc(2) cs by simp_all
      have "wrote fs holds dk1 (c # e # es) (length (cluster_bytes fs dk1 c) + unat (curr_offset ?h))
          ?h (sz - ?n) ?src (bw + ?n) ?t (write_loop fs f sz src bw st)"
        unfolding st1 using less.prems(3) cs
        by (intro wrote_tail less.hyps [OF lt t(1) le ck h sm tl sl fph t(2,3)]) simp
      then show ?thesis using eq len(2) cs less.prems(8)
        by (intro fin [where h = ?h and a = 0 and b = e]) simp_all
    next
      case False
      then have st1: "write_loop fs f sz src bw st = write_loop fs ?g (sz - ?n) ?src (bw + ?n) ?st" unfolding step by simp
      have g: "curr_cluster ?g = c" "unat (curr_offset ?g) < ?bpc" using False less.prems(5) by (simp_all add: word_le_nat_alt)
      have tl: "unat (curr_offset ?g) + unat (sz - ?n) < length (chain_bytes fs dk1 (c # cs))"
        using less.prems(8) len tb by simp
      have fpg: "unat (file_pos ?g) + unat (sz - ?n) < 2 ^ 32" using fp by simp
      have "wrote fs holds dk1 (c # cs) (unat ?o + unat ?n) ?g (sz - ?n) ?src (bw + ?n) ?st (write_loop fs f sz src bw st)"
        unfolding st1 using less.hyps [OF lt L(1) lk less.prems(3,4) g sm tl sl fpg L(2) less.prems(12)] tb(4) by simp
      then show ?thesis using less.prems(8)
        by (intro fin [where h = ?g and a = "?o + ?n" and b = "curr_cluster f"]) simp_all
    qed
  qed
qed

end

subsection \<open>Creating a file\<close>

text \<open>The search of a free slot over the entries of the directory.\<close>

fun free_search :: "dir_slot list \<Rightarrow> (u32 \<times> u8) scan" where
  "free_search [] = Continue"
| "free_search ((b, s, e) # xs) = (if rd8 b 0 = 0 \<or> rd8 b 0 = 0xE5 then Found (s, e) else free_search xs)"

lemma free_search_append: "free_search (xs @ ys) = (case free_search xs of Continue \<Rightarrow> free_search ys | r \<Rightarrow> r)"
  by (induction xs rule: free_search.induct) auto

lemma scan_free_search:
  "(case scan_free b n ent of Some e \<Rightarrow> Found (s, e) | None \<Rightarrow> Continue) =
     free_search (map (\<lambda>e. (entry_at b e, s, of_nat e)) [ent..<ent + n])"
proof (induction b n ent rule: scan_free.induct)
  case (2 b n ent)
  have "[ent..<ent + Suc n] = ent # [Suc ent..<Suc ent + n]" by (simp add: upt_rec)
  with 2 show ?case by (simp add: Let_def)
qed simp

context sector_reader
begin

lemma slot_sectors:
  assumes U: "reads_with fs rd" and L: "lock (cache_lock st) = 0" and k: "k \<le> unat (sectors_per_cluster (bpb fs))"
    and V: "\<forall>j \<in> {k..<unat (sectors_per_cluster (bpb fs))}. valid (s + of_nat j)" and H: "holds dk (dev_state st)"
  shows "\<exists>d. slot_sectors fs s (of_nat k) st =
    Some (free_search (concat (map (\<lambda>j. sector_entries (dk (s + of_nat j)) (s + of_nat j)) [k..<unat (sectors_per_cluster (bpb fs))])),
      st\<lparr>dev_state := d\<rparr>) \<and> holds dk d"
  using k V L H
proof (induction "unat (sectors_per_cluster (bpb fs)) - k" arbitrary: k st)
  case 0
  then have "k = unat (sectors_per_cluster (bpb fs))" by simp
  then have "\<not> (of_nat k :: u32) < ucast (sectors_per_cluster (bpb fs))" by simp
  then show ?case using 0 by (intro exI [of _ "dev_state st"]) (simp add: slot_sectors.simps)
next
  case (Suc n)
  let ?n = "unat (sectors_per_cluster (bpb fs))" and ?b = "dk (s + of_nat k)"
  let ?E = "\<lambda>j. sector_entries (dk (s + of_nat j)) (s + of_nat j)"
  have n: "?n < 256" using unsigned_less [of "sectors_per_cluster (bpb fs)", where ?'a = nat] by simp
  have k: "k < ?n" using Suc.hyps(2) by simp
  then have "unat (of_nat k :: u32) = k" using n by (simp add: unat_of_nat)
  then have lt: "(of_nat k :: u32) < ucast (sectors_per_cluster (bpb fs))" using k by (simp add: word_less_nat_alt unat_spc)
  have "valid (s + of_nat k)" using Suc.prems(2) k by simp
  from cache_read [OF U Suc.prems(3,4) this] obtain d where
    d: "cache_read_sector fs (s + of_nat k) st = Some (0, ?b, st\<lparr>dev_state := d\<rparr>)" "holds dk d" by blast
  have "n = ?n - Suc k" "Suc k \<le> ?n" "\<forall>j \<in> {Suc k..<?n}. valid (s + of_nat j)" using Suc.hyps(2) Suc.prems(2) k by simp_all
  from Suc.hyps(1) [OF this, of "st\<lparr>dev_state := d\<rparr>"] obtain e where
    e: "slot_sectors fs s (of_nat (Suc k)) (st\<lparr>dev_state := d\<rparr>) = Some (free_search (concat (map ?E [Suc k..<?n])), st\<lparr>dev_state := e\<rparr>)" "holds dk e"
    using Suc.prems(3) d(2) by auto
  have up: "concat (map ?E [k..<?n]) = ?E k @ concat (map ?E [Suc k..<?n])" using k by (simp add: upt_conv_Cons)
  have sc: "free_search (?E k) = (case scan_free ?b 16 0 of Some e \<Rightarrow> Found (s + of_nat k, e) | None \<Rightarrow> Continue)"
    using scan_free_search [of "s + of_nat k" ?b 16 0] by (simp add: sector_entries_def)
  let ?fin = "if scan_free ?b 16 0 = None then e else d"
  have "slot_sectors fs s (of_nat k) st = Some (free_search (concat (map ?E [k..<?n])), st\<lparr>dev_state := ?fin\<rparr>)"
    using lt d(1) e(1) unfolding up free_search_append sc
    by (subst slot_sectors.simps) (simp add: add.commute split: option.splits)
  then show ?case using d(2) e(2) by (intro exI [of _ ?fin]) simp
qed

lemma slot_chain:
  assumes U: "reads_with fs rd"
    and c: "linked (fat_get fs dk) cs" "hd cs \<noteq> NO_CLUSTER" "places_ok valid fs cs" and L: "lock (cache_lock st) = 0" and H: "holds dk (dev_state st)"
  shows "\<exists>d. find_free_dirent_slot fs (hd cs) st = Some (scan_result (free_search (dir_entries fs dk cs)), st\<lparr>dev_state := d\<rparr>) \<and> holds dk d"
  using c L H
proof (induction cs arbitrary: st)
  case (Cons c cs)
  let ?nx = "fat_get fs dk" and ?e = "concat (map (\<lambda>s. sector_entries (dk s) s) (cluster_sectors fs c))"
  obtain d1 where f: "slot_sectors fs (cluster_sector fs c) 0 st = Some (free_search ?e, st\<lparr>dev_state := d1\<rparr>)" "holds dk d1"
    using slot_sectors [OF U Cons.prems(4), of 0 "cluster_sector fs c" dk] Cons.prems(3,5) by (auto simp: cluster_sectors_def comp_def)
  let ?s1 = "st\<lparr>dev_state := d1\<rparr>"
  obtain d2 where nc: "fat32_next_cluster fs c ?s1 = Some (if ?nx c \<ge> 0x0FFFFFF7 then NO_CLUSTER else ?nx c, st\<lparr>dev_state := d2\<rparr>)" "holds dk d2"
    using next_cluster [OF U, of ?s1 dk c] Cons.prems(3,4) f(2) by auto
  have d: "dir_entries fs dk (c # cs) = ?e @ dir_entries fs dk cs" by (simp add: dir_entries_def)
  show ?case
  proof (cases "free_search ?e")
    case Continue
    show ?thesis
    proof (cases cs)
      case Nil
      then have "?nx c \<ge> 0x0FFFFFF7" using Cons.prems by simp
      moreover have "find_free_dirent_slot fs NO_CLUSTER x = Some (None, x)" for x :: "('d, 'a) fat_state_scheme" by (simp add: find_free_dirent_slot.simps)
      ultimately have "find_free_dirent_slot fs c st = Some (None, st\<lparr>dev_state := d2\<rparr>)"
        using Cons.prems(2) f(1) nc(1) Continue by (subst find_free_dirent_slot.simps) simp
      then show ?thesis using Continue nc(2) unfolding d by (simp add: Nil dir_entries_def free_search_append) blast
    next
      case (Cons e es)
      then have n: "?nx c = e" "e < 0x0FFFFFF7" "linked ?nx cs" using Cons.prems by auto
      then have ne: "\<not> 0x0FFFFFF7 \<le> ?nx c" "e \<noteq> NO_CLUSTER" by auto
      then obtain d3 where r: "find_free_dirent_slot fs e (st\<lparr>dev_state := d2\<rparr>) = Some (scan_result (free_search (dir_entries fs dk cs)), st\<lparr>dev_state := d3\<rparr>)" "holds dk d3"
        using Cons.IH [of "st\<lparr>dev_state := d2\<rparr>"] Cons.prems(3,4) n(3) nc(2) Cons by auto
      have "find_free_dirent_slot fs c st = Some (scan_result (free_search (dir_entries fs dk (c # cs))), st\<lparr>dev_state := d3\<rparr>)"
        using Cons.prems(2) f(1) nc(1) r(1) n(1) ne Continue unfolding d by (subst find_free_dirent_slot.simps) (simp add: free_search_append)
      then show ?thesis using r(2) by auto
    qed
  next
    case Fail
    then have "find_free_dirent_slot fs c st = Some (None, st\<lparr>dev_state := d1\<rparr>)" using Cons.prems(2) f(1) by (subst find_free_dirent_slot.simps) simp
    then show ?thesis using f(2) Fail unfolding d by (simp add: free_search_append) blast
  next
    case (Found x)
    then have "find_free_dirent_slot fs c st = Some (Some x, st\<lparr>dev_state := d1\<rparr>)" using Cons.prems(2) f(1) by (subst find_free_dirent_slot.simps) simp
    then show ?thesis using f(2) Found unfolding d by (simp add: free_search_append) blast
  qed
qed simp

end

text \<open>The byte image of an entry decodes to the entry.\<close>

definition dirent_ok :: "fat32_dirent \<Rightarrow> bool" where
  "dirent_ok de \<longleftrightarrow> length (de_name de) = 8 \<and> length (de_ext de) = 3"

lemma dirent_bytes_length: "dirent_ok de \<Longrightarrow> length (dirent_bytes de) = 32"
  by (simp add: dirent_ok_def dirent_bytes_def)

lemma dirent_of_bytes:
  assumes "dirent_ok de"
  shows "dirent_of (dirent_bytes de) = de"
proof -
  let ?b = "dirent_bytes de"
  have l: "length (de_name de) = 8" "length (de_ext de) = 3" using assms by (simp_all add: dirent_ok_def)
  have "take 8 ?b = de_name de" "take 3 (drop 8 ?b) = de_ext de" using l by (simp_all add: dirent_bytes_def)
  moreover have "rd8 ?b 11 = de_attr de" "rd8 ?b 12 = de_ntres de" "rd8 ?b 13 = de_ctime_tenth de"
    using l by (simp_all add: rd8_def dirent_bytes_def nth_append)
  moreover have "rd16 ?b 14 = de_ctime de" "rd16 ?b 16 = de_cdate de" "rd16 ?b 18 = de_adate de" "rd16 ?b 20 = cluster_hi de"
    "rd16 ?b 22 = de_mtime de" "rd16 ?b 24 = de_mdate de" "rd16 ?b 26 = cluster_lo de" "rd32 ?b 28 = de_size de"
    using l by (simp_all add: rd16_def rd32_def rd8_def dirent_bytes_def bytes16_def bytes32_def nth_append u16_bytes u32_bytes)
  ultimately show ?thesis by (simp add: dirent_of_def)
qed

text \<open>Storing an entry in a slot replaces exactly one element of the directory.\<close>

lemma entry_at_put:
  assumes "length b = 512" "i < 16" "j < 16" "length xs = 32"
  shows "entry_at (put b (i * 32) xs) j = (if j = i then xs else entry_at b j)"
proof (rule nth_equalityI)
  have l: "length (put b (i * 32) xs) = 512" using assms by simp
  show "length (entry_at (put b (i * 32) xs) j) = length (if j = i then xs else entry_at b j)"
    using l assms by (simp add: entry_at_def)
  fix k assume "k < length (entry_at (put b (i * 32) xs) j)"
  then have k: "k < 32" by (simp add: entry_at_def)
  have "entry_at (put b (i * 32) xs) j ! k = put b (i * 32) xs ! (j * 32 + k)"
    using k l assms by (simp add: entry_at_def)
  also have "\<dots> = (if j = i then xs else entry_at b j) ! k"
  proof (cases "j = i")
    case False
    then have "j * 32 + k < i * 32 \<or> i * 32 + 32 \<le> j * 32 + k" using k by arith
    then show ?thesis using False k assms by (auto simp: put_def entry_at_def nth_append)
  qed (use k assms in \<open>simp add: put_def nth_append\<close>)
  finally show "entry_at (put b (i * 32) xs) j ! k = (if j = i then xs else entry_at b j) ! k" .
qed

lemma sector_entries_put:
  assumes "length b = 512" "i < 16" "length xs = 32"
  shows "sector_entries (put b (i * 32) xs) s = (sector_entries b s)[i := (xs, s, of_nat i)]"
  using assms by (intro nth_equalityI) (auto simp: sector_entries_def entry_at_put nth_list_update)

lemma concat_entries_update:
  assumes "distinct ss" "s \<in> set ss" "length (dk s) = 512" "i < 16" "length xs = 32"
  shows "\<exists>us vs. concat (map (\<lambda>s. sector_entries (dk s) s) ss) = us @ (entry_at (dk s) i, s, of_nat i) # vs \<and>
     concat (map (\<lambda>t. sector_entries ((dk(s := put (dk s) (i * 32) xs)) t) t) ss) = us @ (xs, s, of_nat i) # vs"
proof -
  from assms(2) obtain as bs where ss: "ss = as @ s # bs" by (meson split_list)
  then have ns: "s \<notin> set as" "s \<notin> set bs" using assms(1) by auto
  let ?E = "sector_entries (dk s) s"
  have l: "length ?E = 16" "?E ! i = (entry_at (dk s) i, s, of_nat i)" using assms(4) by (simp_all add: sector_entries_def)
  then have e: "?E = take i ?E @ (entry_at (dk s) i, s, of_nat i) # drop (Suc i) ?E"
    using assms(4) by (metis id_take_nth_drop)
  have u: "?E[i := (xs, s, of_nat i)] = take i ?E @ (xs, s, of_nat i) # drop (Suc i) ?E"
    using l assms(4) by (simp add: upd_conv_take_nth_drop)
  let ?A = "concat (map (\<lambda>s. sector_entries (dk s) s) as)" and ?B = "concat (map (\<lambda>s. sector_entries (dk s) s) bs)"
  have c: "concat (map (\<lambda>t. sector_entries ((dk(s := put (dk s) (i * 32) xs)) t) t) as) = ?A"
    "concat (map (\<lambda>t. sector_entries ((dk(s := put (dk s) (i * 32) xs)) t) t) bs) = ?B"
    using ns by (auto intro!: arg_cong [of _ _ concat] map_cong)
  have "concat (map (\<lambda>s. sector_entries (dk s) s) ss) = ?A @ (take i ?E @ (entry_at (dk s) i, s, of_nat i) # drop (Suc i) ?E) @ ?B"
    unfolding e [symmetric] ss by simp
  moreover have "concat (map (\<lambda>t. sector_entries ((dk(s := put (dk s) (i * 32) xs)) t) t) ss) =
      ?A @ (take i ?E @ (xs, s, of_nat i) # drop (Suc i) ?E) @ ?B"
    unfolding u [symmetric] ss using c sector_entries_put [OF assms(3-5), of s] by simp
  ultimately show ?thesis
    by (intro exI [of _ "?A @ take i ?E"] exI [of _ "drop (Suc i) ?E @ ?B"]) simp
qed

text \<open>A well-formed chain of clusters on the disk.\<close>

definition chain_at :: "'d fat32_fs \<Rightarrow> disk \<Rightarrow> u32 list \<Rightarrow> bool" where
  "chain_at fs dk cs \<longleftrightarrow> linked (fat_get fs dk) cs \<and> chain_ok fs cs \<and> (\<forall>c \<in> set cs. 2 \<le> c \<and> fat_index c)"

lemma chain_at_facts:
  assumes "chain_at fs dk cs"
  shows "cs \<noteq> []" "hd cs \<noteq> NO_CLUSTER" "0 \<notin> set cs"
proof -
  have i: "\<forall>c \<in> set cs. 2 \<le> c \<and> fat_index c" using assms by (simp add: chain_at_def)
  show "cs \<noteq> []" using assms by (auto simp: chain_at_def)
  then have "fat_index (hd cs)" using i by simp
  then show "hd cs \<noteq> NO_CLUSTER" by (auto simp: fat_index_def)
  show "0 \<notin> set cs" using i by auto
qed

lemma linked_nonzero: "linked nx cs \<Longrightarrow> 0 \<notin> set cs \<Longrightarrow> c \<in> set cs \<Longrightarrow> nx c \<noteq> 0"
  by (induction nx cs rule: linked.induct) auto

definition dir_sectors :: "'d fat32_fs \<Rightarrow> u32 list \<Rightarrow> u32 list" where
  "dir_sectors fs cs = concat (map (cluster_sectors fs) cs)"

lemma dir_entries_flat: "dir_entries fs dk cs = concat (map (\<lambda>s. sector_entries (dk s) s) (dir_sectors fs cs))"
  by (induction cs) (simp_all add: dir_entries_def dir_sectors_def)

lemma dir_entries_cong: "(\<And>s. s \<in> set (dir_sectors fs cs) \<Longrightarrow> dk' s = dk s) \<Longrightarrow> dir_entries fs dk' cs = dir_entries fs dk cs"
  unfolding dir_entries_flat by (intro arg_cong [of _ _ concat] map_cong) auto

lemma sector_keys: "map snd (sector_entries b s) = map (\<lambda>e. (s, of_nat e)) [0..<16]"
  by (simp add: sector_entries_def)

lemma dir_keys_distinct: "distinct ss \<Longrightarrow> distinct (map snd (concat (map (\<lambda>s. sector_entries (dk s) s) ss)))"
proof (induction ss)
  case (Cons s ss)
  have "distinct (map snd (sector_entries (dk s) s))" by (simp add: sector_keys upt_rec)
  moreover have "fst ` set (map snd (sector_entries (dk s) s)) \<subseteq> {s}" by (auto simp: sector_keys)
  moreover have "fst ` set (map snd (concat (map (\<lambda>s. sector_entries (dk s) s) ss))) \<subseteq> set ss"
    by (auto simp: sector_entries_def)
  ultimately show ?case using Cons unfolding list.map concat.simps map_append distinct_append by fastforce
qed simp

lemma unique_split:
  "distinct (map snd (us @ a # vs)) \<Longrightarrow> us @ a # vs = us' @ a' # vs' \<Longrightarrow> snd a = snd a' \<Longrightarrow> us = us' \<and> vs = vs'"
proof (induction us arbitrary: us')
  case Nil
  then show ?case by (cases us') auto
next
  case (Cons u us)
  show ?case
  proof (cases us')
    case Nil
    then have "snd u = snd a" using Cons.prems(2,3) by simp
    then show ?thesis using Cons.prems(1) by simp
  next
    case us': (Cons x xs)
    have "distinct (map snd (us @ a # vs))" using Cons.prems(1) by simp
    from Cons.IH [OF this _ Cons.prems(3)] show ?thesis using Cons.prems(2) us' by simp
  qed
qed

lemma free_search_split:
  "free_search xs = Found (s, e) \<Longrightarrow>
     \<exists>us b vs. xs = us @ (b, s, e) # vs \<and> (rd8 b 0 = 0 \<or> rd8 b 0 = 0xE5) \<and> (\<forall>x \<in> set us. rd8 (fst x) 0 \<noteq> 0)"
proof (induction xs rule: free_search.induct)
  case (2 b s' e' xs)
  show ?case
  proof (cases "rd8 b 0 = 0 \<or> rd8 b 0 = 0xE5")
    case True
    then show ?thesis using 2(2) by (intro exI [of _ "[]"] exI [of _ b] exI [of _ xs]) auto
  next
    case False
    then obtain us b' vs where "xs = us @ (b', s, e) # vs" "rd8 b' 0 = 0 \<or> rd8 b' 0 = 0xE5" "\<forall>x \<in> set us. rd8 (fst x) 0 \<noteq> 0"
      using 2 by auto
    then show ?thesis using False by (intro exI [of _ "(b, s', e') # us"] exI [of _ b'] exI [of _ vs]) auto
  qed
qed simp

text \<open>No entry in use follows the end mark of a directory.\<close>

fun tidy :: "dir_slot list \<Rightarrow> bool" where
  "tidy [] = True"
| "tidy ((b, s, e) # xs) = (if rd8 b 0 = 0 then list_all (\<lambda>x. rd8 (fst x) 0 = 0) xs else tidy xs)"

lemma tidy_append: "tidy (us @ vs) \<Longrightarrow> \<forall>x \<in> set us. rd8 (fst x) 0 \<noteq> 0 \<Longrightarrow> tidy vs"
  by (induction us rule: tidy.induct) auto

lemma search_free: "\<forall>x \<in> set us. rd8 (fst x) 0 \<noteq> 0 \<Longrightarrow> search t us \<noteq> Fail"
  by (induction t us rule: search.induct) auto

lemma search_ended: "list_all (\<lambda>x. rd8 (fst x) 0 = 0) xs \<Longrightarrow> scan_result (search t xs) = None"
  by (induction t xs rule: search.induct) auto

text \<open>Lookup after an insertion in a free slot of a directory.\<close>

lemma search_update:
  assumes us: "\<forall>x \<in> set us. rd8 (fst x) 0 \<noteq> 0" and b: "rd8 b 0 = 0 \<or> rd8 b 0 = 0xE5"
    and t: "tidy (us @ (b, s, e) # vs)" and none: "scan_result (search n (us @ (b, s, e) # vs)) = None"
    and x: "rd8 x 0 \<noteq> 0" "rd8 x 0 \<noteq> 0xE5" "de_attr (dirent_of x) \<noteq> 0x0F" "from_8_3 (dirent_of x) = n"
  shows "scan_result (search m (us @ (x, s, e) # vs)) =
    (if m = n then Some (dirent_of x, s, e) else scan_result (search m (us @ (b, s, e) # vs)))"
proof -
  have "search n us = Continue" using none search_free [OF us, of n] by (auto simp: search_append split: scan.splits)
  moreover have "scan_result (search m vs) = None" if "rd8 b 0 = 0"
    using tidy_append [OF t us] that search_ended by simp
  ultimately show ?thesis using b x by (auto simp: search_append split: scan.splits)
qed

lemma dirent_cluster_split:
  fixes c :: u32
  shows "ucast (ucast (c AND 0xFFFF) :: u16) OR push_bit 16 (ucast (ucast (drop_bit 16 c AND 0xFFFF) :: u16)) = c" (is "?l = c")
proof (rule bit_word_eqI)
  have m: "(0xFFFF :: u32) = mask 16" by (simp add: mask_eq_exp_minus_1)
  fix n assume n: "n < LENGTH(32)"
  show "bit ?l n = bit c n" unfolding m by (cases "n < 16") (use n in \<open>auto simp: bit_simps\<close>)
qed

lemma insert_entry:
  assumes ch: "chain_ok fs cs" and dk: "disk512 dk"
    and sl: "free_search (dir_entries fs dk cs) = Found (s, e)" and de: "dirent_ok de" "rd8 (dirent_bytes de) 0 \<noteq> 0"
      "rd8 (dirent_bytes de) 0 \<noteq> 0xE5" "de_attr de \<noteq> 0x0F"
    and t: "tidy (dir_entries fs dk cs)" and none: "scan_result (search (from_8_3 de) (dir_entries fs dk cs)) = None"
  defines "dk' \<equiv> dk(s := put (dk s) (unat e * 32) (dirent_bytes de))"
  shows "s \<in> set (dir_sectors fs cs)" "unat e < 16"
    "scan_result (search m (dir_entries fs dk' cs)) =
      (if m = from_8_3 de then Some (de, s, e) else scan_result (search m (dir_entries fs dk cs)))"
proof -
  have ds: "distinct (dir_sectors fs cs)" using ch by (simp add: chain_ok_def dir_sectors_def)
  from free_search_split [OF sl] obtain us b vs where E: "dir_entries fs dk cs = us @ (b, s, e) # vs"
    and b: "rd8 b 0 = 0 \<or> rd8 b 0 = 0xE5" and us: "\<forall>x \<in> set us. rd8 (fst x) 0 \<noteq> 0" by blast
  then have "(b, s, e) \<in> set (dir_entries fs dk cs)" by simp
  then show s: "s \<in> set (dir_sectors fs cs)" and e: "unat e < 16"
    by (auto simp: dir_entries_flat sector_entries_def unat_of_nat)
  have oe: "of_nat (unat e) = e" by simp
  obtain us' vs' where U: "dir_entries fs dk cs = us' @ (entry_at (dk s) (unat e), s, e) # vs'"
    and U': "dir_entries fs dk' cs = us' @ (dirent_bytes de, s, e) # vs'"
    using concat_entries_update [OF ds s _ e dirent_bytes_length [OF de(1)], of dk] dk
    unfolding dir_entries_flat dk'_def oe by (auto simp: disk512_def)
  have "distinct (map snd (us @ (b, s, e) # vs))" unfolding E [symmetric] dir_entries_flat by (rule dir_keys_distinct [OF ds])
  from unique_split [OF this, of us' "(entry_at (dk s) (unat e), s, e)" vs'] have "us = us'" "vs = vs'"
    unfolding E [symmetric] U [symmetric] by simp_all
  then have "dir_entries fs dk' cs = us @ (dirent_bytes de, s, e) # vs" using U' by simp
  moreover have "scan_result (search m (us @ (dirent_bytes de, s, e) # vs)) =
      (if m = from_8_3 de then Some (dirent_of (dirent_bytes de), s, e) else scan_result (search m (us @ (b, s, e) # vs)))"
    using t none de dirent_of_bytes [OF de(1)] unfolding E by (intro search_update [OF us b]) simp_all
  ultimately show "scan_result (search m (dir_entries fs dk' cs)) =
      (if m = from_8_3 de then Some (de, s, e) else scan_result (search m (dir_entries fs dk cs)))"
    using dirent_of_bytes [OF de(1)] E by simp
qed

lemma chain_at_fat_put:
  assumes "chain_at fs dk cs" "disk512 dk" "fat_index e" "fat_get fs dk e = 0" "fat_sector_of fs e \<notin> set (dir_sectors fs cs)"
  shows "chain_at fs (fat_put fs dk e v) cs" "dir_entries fs (fat_put fs dk e v) cs = dir_entries fs dk cs"
proof -
  have "e \<notin> set cs" using linked_nonzero [of _ cs e] chain_at_facts(3) [OF assms(1)] assms(1,4) by (auto simp: chain_at_def)
  then show "chain_at fs (fat_put fs dk e v) cs"
    using ft.linked_set_other [of dk e cs fs v] assms(1-3) by (simp add: chain_at_def)
  show "dir_entries fs (fat_put fs dk e v) cs = dir_entries fs dk cs"
    using assms(5) by (intro dir_entries_cong) (auto simp: fat_put_def Let_def)
qed

lemma chain_at_dir_write:
  assumes "chain_at fs dk cs" "s \<in> set (dir_sectors fs cs)"
  shows "chain_at fs (dk(s := b)) cs"
proof -
  have "linked (fat_get fs (dk(s := b))) cs = linked (fat_get fs dk) cs"
    using assms by (intro linked_cong fat_get_cong) (auto simp: chain_at_def chain_ok_def dir_sectors_def)
  then show ?thesis using assms(1) by (simp add: chain_at_def)
qed

text \<open>The entry that \<open>create_entry\<close> stores for a new file.\<close>

definition new_entry :: "u8 list \<Rightarrow> u32 \<Rightarrow> fat32_dirent" where
  "new_entry target c = zero_dirent\<lparr>de_name := take 8 target, de_ext := take 3 (drop 8 target), de_attr := FAT32_ATTR_ARCHIVE,
     cluster_lo := ucast (c AND 0xFFFF), cluster_hi := ucast (drop_bit 16 c AND 0xFFFF)\<rparr>"

lemma new_entry_facts:
  assumes "length target = 11"
  shows "dirent_ok (new_entry target c)" "from_8_3 (new_entry target c) = target" "de_attr (new_entry target c) = 0x20"
    "dirent_cluster (new_entry target c) = c" "rd8 (dirent_bytes (new_entry target c)) 0 = target ! 0"
proof -
  have "take 8 target @ take 3 (drop 8 target) = target"
    using take_add [of 8 3 target] assms by simp
  then show "from_8_3 (new_entry target c) = target" by (simp add: from_8_3_def new_entry_def)
  show "dirent_ok (new_entry target c)" "de_attr (new_entry target c) = 0x20"
    using assms by (simp_all add: dirent_ok_def new_entry_def)
  show "dirent_cluster (new_entry target c) = c" using dirent_cluster_split [of c]
    by (simp add: dirent_cluster_def new_entry_def zero_dirent_def)
  show "rd8 (dirent_bytes (new_entry target c)) 0 = target ! 0"
    using assms by (simp add: rd8_def dirent_bytes_def new_entry_def nth_append)
qed

context sector_device
begin

lemma create_entry:
  fixes st :: "('d, 'a) fat_state_scheme"
  assumes U: "uses_device fs rd wr" and L: "lock (cache_lock st) = 0" and H: "holds dk (dev_state st)"
    and ch: "chain_at fs dk cs" "places_ok valid fs cs"
    and e: "first_free (fat_get fs dk) 2 e" "fat_sector_of fs e \<notin> set (dir_sectors fs cs)" "\<forall>x. 2 \<le> x \<longrightarrow> x \<le> e \<longrightarrow> valid (fat_sector_of fs x)"
    and sl: "free_search (dir_entries fs dk cs) = Found (s, i)"
    and tg: "length target = 11" "target ! 0 \<noteq> 0" "target ! 0 \<noteq> 0xE5"
    and td: "tidy (dir_entries fs dk cs)" and no: "scan_result (search target (dir_entries fs dk cs)) = None"
  shows "\<exists>d dk'. create_entry fs (hd cs) target st = Some (Some (new_entry target e), st\<lparr>dev_state := d\<rparr>) \<and> holds dk' d \<and> chain_at fs dk' cs \<and>
    (\<forall>m. scan_result (search m (dir_entries fs dk' cs)) =
      (if m = target then Some (new_entry target e, s, i) else scan_result (search m (dir_entries fs dk cs))))"
proof -
  let ?de = "new_entry target e" let ?dk1 = "fat_put fs dk e 0x0FFFFFFF"
  let ?b = "put (?dk1 s) (unat i * 32) (dirent_bytes ?de)"
  note ne = new_entry_facts [OF tg(1), of e]
  have ei: "fat_index e" "fat_get fs dk e = 0" "e \<noteq> 0" using e(1) by (auto simp: first_free_def fat_index_def)
  note c1 = chain_at_fat_put [OF ch(1) sector_length [OF H] ei(1,2) e(2), of "0x0FFFFFFF"]
  obtain d1 where al: "allocate_cluster fs 0 st = Some (e, st\<lparr>dev_state := d1\<rparr>)" "holds ?dk1 d1"
    using alloc_first [OF U _ e(1,3) L H, of 0] by (auto simp: allocate_cluster_def Let_def)
  note d5 = sector_length [OF al(2)]
  have s1: "lock (cache_lock (st\<lparr>dev_state := d1\<rparr>)) = 0" "holds ?dk1 (dev_state (st\<lparr>dev_state := d1\<rparr>))" using L al(2) by simp_all
  obtain d2 where slot: "find_free_dirent_slot fs (hd cs) (st\<lparr>dev_state := d1\<rparr>) = Some (Some (s, i), st\<lparr>dev_state := d2\<rparr>)" "holds ?dk1 d2"
    using slot_chain [OF uses_reads [OF U] _ chain_at_facts(2) [OF ch(1)] ch(2) s1] c1 sl by (auto simp: chain_at_def)
  have ins: "s \<in> set (dir_sectors fs cs)" "unat i < 16"
    "\<And>m. scan_result (search m (dir_entries fs (?dk1(s := ?b)) cs)) =
      (if m = target then Some (?de, s, i) else scan_result (search m (dir_entries fs dk cs)))"
    using insert_entry [of fs cs ?dk1 s i ?de] ch d5 sl td no tg ne c1(2) by (simp_all add: chain_at_def)
  have l: "length ?b = 512" using ins(2) d5 dirent_bytes_length [OF ne(1)] by (simp add: disk512_def)
  have v: "valid s" using ins(1) ch(2) by (auto simp: dir_sectors_def places_ok_def)
  obtain d3 where rd: "cache_read_sector fs s (st\<lparr>dev_state := d2\<rparr>) = Some (0, ?dk1 s, st\<lparr>dev_state := d3\<rparr>)" "holds ?dk1 d3"
    using cache_read [OF uses_reads [OF U], of "st\<lparr>dev_state := d2\<rparr>" ?dk1 s] L slot(2) v by auto
  obtain d4 where wr: "cache_write_sector fs s ?b (st\<lparr>dev_state := d3\<rparr>) = Some (0, st\<lparr>dev_state := d4\<rparr>)" "holds (?dk1(s := ?b)) d4"
    using cache_write [OF U, of "st\<lparr>dev_state := d3\<rparr>" ?dk1 s ?b] L rd(2) v l by auto
  have "create_entry fs (hd cs) target st = Some (Some ?de, st\<lparr>dev_state := d4\<rparr>)"
    using al(1) slot(1) rd(1) wr(1) ei(3) by (simp add: create_entry_def new_entry_def Let_def)
  then show ?thesis using chain_at_dir_write [OF c1(1) ins(1)] wr(2) ins(3) by blast
qed

lemma file_write:
  fixes st :: "('d, 'a) fat_state_scheme"
  assumes U: "uses_device fs rd wr" and L: "lock (cache_lock st) = 0" and H: "holds dk (dev_state st)" and G: "geometry_ok fs"
    and f: "open_files st ! i = f" "f_used f" "f_mode f = 1" "f_fs f = Some fs"
    and ch: "chain_at fs dk (curr_cluster f # cs)" "places_ok valid fs (curr_cluster f # cs)" "curr_offset f < bytes_per_cluster fs"
      "unat (curr_offset f) + unat sz < length (chain_bytes fs dk (curr_cluster f # cs))"
    and sz: "0 < unat sz" "unat sz < 2 ^ 31" "unat sz \<le> length buffer" "unat (file_pos f) + unat sz < 2 ^ 32"
  shows "\<exists>cc co d dk'. fat32_write (Some i) buffer sz st = Some (int (unat sz), st\<lparr>dev_state := d,
       open_files := (open_files st)[i := f\<lparr>curr_cluster := cc, curr_offset := co,
         file_size := max (file_size f) (file_pos f + sz), file_pos := file_pos f + sz\<rparr>]\<rparr>) \<and> holds dk' d \<and>
     chain_bytes fs dk' (curr_cluster f # cs) =
       put (chain_bytes fs dk (curr_cluster f # cs)) (unat (curr_offset f)) (take (unat sz) buffer) \<and>
     (\<forall>s. s \<notin> set (dir_sectors fs (curr_cluster f # cs)) \<longrightarrow> dk' s = dk s)"
proof -
  let ?cs = "curr_cluster f # cs"
  have lk: "linked (fat_get fs dk) ?cs" "chain_ok fs ?cs" using ch(1) by (simp_all add: chain_at_def)
  have o: "unat (curr_offset f) < unat (bytes_per_cluster fs)" using ch(3) by (simp add: word_less_nat_alt)
  have z: "sz \<noteq> 0" using sz(1) by auto
  then have sp: "0 < sint sz" using sint_positive [OF sz(2)] by simp
  obtain cc co d dk' where w: "write_loop fs f sz buffer 0 st = Some (sz, f\<lparr>curr_cluster := cc, curr_offset := co,
       file_size := max (file_size f) (file_pos f + sz), file_pos := file_pos f + sz\<rparr>, st\<lparr>dev_state := d\<rparr>)" "holds dk' d"
    "written fs ?cs dk (unat (curr_offset f)) (take (unat sz) buffer) dk'"
    using write_loop [OF U G L lk chain_at_facts(3) [OF ch(1)] refl o sz(2) ch(4) sz(3,4) H ch(2), of 0] z
    by (auto simp: wrote_def grown_def)
  have "fat32_write (Some i) buffer sz st = Some (int (unat sz), st\<lparr>dev_state := d,
       open_files := (open_files st)[i := f\<lparr>curr_cluster := cc, curr_offset := co,
         file_size := max (file_size f) (file_pos f + sz), file_pos := file_pos f + sz\<rparr>]\<rparr>)"
    using f sp w(1) sint_small [OF sz(2)] by (simp add: fat32_write_def Let_def)
  then show ?thesis using w(2,3) unfolding written_def dir_sectors_def by blast
qed

end

subsection \<open>A disk in memory\<close>

text \<open>A store of sectors as a device, and an empty volume with 1-sector clusters on it.\<close>

definition ram_sec :: "disk \<Rightarrow> disk" where
  "ram_sec d s = (if length (d s) = 512 then d s else replicate 512 0)"

definition ram_disk :: "disk blockdev" where
  "ram_disk = \<lparr>bd_read = Some (\<lambda>d s n. (0, ram_sec d s, d)), bd_write = Some (\<lambda>d s n b. (0, d(s := b))),
     bd_flush = None, sector_size = 512\<rparr>"

definition ram_fs :: "disk fat32_fs" where
  "ram_fs = \<lparr>bpb = \<lparr>jmp = [0xEB, 0, 0x90], bytes_per_sector = 512, sectors_per_cluster = 1, reserved_sectors = 32, num_fats = 1,
       total_sectors_32 = 1000, sectors_per_fat = 8, root_cluster = 2, fs_type = replicate 8 0\<rparr>,
     dev = Some ram_disk, fat_start = 32, data_start = 40, bytes_per_cluster = 512\<rparr>"

definition ram_state :: "disk \<Rightarrow> disk fat32_file list \<Rightarrow> disk fat_state" where
  "ram_state d fl = kmalloc_state.extend heap_example (fat_state.fields d SPINLOCK_INIT fl)"

text \<open>Reading leaves it in its state.\<close>

definition ram_rd :: "disk \<Rightarrow> u32 \<Rightarrow> u32 \<Rightarrow> int \<times> u8 list \<times> disk" where
  "ram_rd d s n = (0, ram_sec d s, d)"

definition ram_still :: "disk \<Rightarrow> disk \<Rightarrow> disk \<Rightarrow> bool" where
  "ram_still d0 dk d \<longleftrightarrow> d = d0 \<and> dk = ram_sec d0"

lemma ram_reader: "sector_reader ram_rd (\<lambda>_. True) (ram_still d0)" "reads_with ram_fs ram_rd" "bd_read ram_disk = Some ram_rd"
  by (auto simp: sector_reader_def ram_still_def ram_rd_def disk512_def ram_sec_def reads_with_def ram_fs_def ram_disk_def fun_eq_iff)

definition ram_wr :: "disk \<Rightarrow> u32 \<Rightarrow> u32 \<Rightarrow> u8 list \<Rightarrow> int \<times> disk" where
  "ram_wr d s n b = (0, d(s := b))"

definition ram_holds :: "disk \<Rightarrow> disk \<Rightarrow> bool" where
  "ram_holds dk d \<longleftrightarrow> dk = ram_sec d"

lemma ram_device: "sector_device ram_rd (\<lambda>_. True) ram_holds ram_wr" "uses_device ram_fs ram_rd ram_wr"
proof -
  have "ram_sec (d(s := b)) = (ram_sec d)(s := b)" if "length b = 512" for d s b using that by (auto simp: ram_sec_def)
  then show "sector_device ram_rd (\<lambda>_. True) ram_holds ram_wr"
    by unfold_locales (auto simp: ram_holds_def ram_rd_def ram_wr_def disk512_def ram_sec_def)
  show "uses_device ram_fs ram_rd ram_wr" by (simp add: uses_device_def ram_fs_def ram_disk_def ram_rd_def ram_wr_def fun_eq_iff)
qed

lemma ram_state_simps [simp]: "dev_state (ram_state d fl) = d" "lock (cache_lock (ram_state d fl)) = 0"
  "open_files (ram_state d fl) = fl"
  by (simp_all add: ram_state_def fat_state.defs kmalloc_state.defs SPINLOCK_INIT_def)

subsection \<open>Properties\<close>

text \<open>
  Claim C16. On every block device that reads and writes correctly, writing a table entry succeeds; reading it back gives the 28 low bits
  of the value, its four reserved bits are kept, and every other entry reads as before.
\<close>

theorem fat_entry_roundtrip:
  fixes st :: "('d, 'a) fat_state_scheme"
  assumes D: "sector_device rd valid holds wr" "uses_device fs rd wr" and L: "lock (cache_lock st) = 0" and H: "holds dk (dev_state st)"
    and c: "fat_index c" "valid (fat_sector_of fs c)"
  shows "\<exists>d dk'. write_fat_entry fs c v st = Some (0, st\<lparr>dev_state := d\<rparr>) \<and> holds dk' d \<and>
    map_option fst (read_fat_entry fs c (st\<lparr>dev_state := d\<rparr>)) = Some (v AND 0x0FFFFFFF) \<and>
    fat_raw fs dk' c AND 0xF0000000 = fat_raw fs dk c AND 0xF0000000 \<and>
    (\<forall>e. fat_index e \<longrightarrow> valid (fat_sector_of fs e) \<longrightarrow> e \<noteq> c \<longrightarrow>
       map_option fst (read_fat_entry fs e (st\<lparr>dev_state := d\<rparr>)) = map_option fst (read_fat_entry fs e st))"
proof -
  note R = sector_reader.read_fat [OF sector_device.axioms(1) [OF D(1)] uses_reads [OF D(2)]]
  obtain d where d: "write_fat_entry fs c v st = Some (0, st\<lparr>dev_state := d\<rparr>)" "holds (fat_put fs dk c v) d"
    using sector_device.write_fat [OF D L H c(2)] by blast
  note k = sector_reader.sector_length [OF sector_device.axioms(1) [OF D(1)] H]
  have "(0x0FFFFFFF AND 0xF0000000 :: u32) = 0" by simp
  then have h: "fat_raw fs (fat_put fs dk c v) c AND 0xF0000000 = fat_raw fs dk c AND 0xF0000000"
    using fat_raw_put [OF k c(1,1), of fs v] by (simp add: bit.conj_disj_distrib2 and.assoc)
  have n: "map_option fst (read_fat_entry fs e (st\<lparr>dev_state := d\<rparr>)) = Some (fat_get fs (fat_put fs dk c v) e)"
    "map_option fst (read_fat_entry fs e st) = Some (fat_get fs dk e)" if "valid (fat_sector_of fs e)" for e
    using R [of "st\<lparr>dev_state := d\<rparr>" "fat_put fs dk c v" e] R [OF L H that] L d(2) that by auto
  have g: "fat_get fs (fat_put fs dk c v) e = (if e = c then v AND 0x0FFFFFFF else fat_get fs dk e)" if "fat_index e" for e
    using fat_get_put [OF k c(1) that] .
  have "map_option fst (read_fat_entry fs c (st\<lparr>dev_state := d\<rparr>)) = Some (v AND 0x0FFFFFFF)" unfolding n(1) [OF c(2)] using g [OF c(1)] by simp
  moreover have "map_option fst (read_fat_entry fs e (st\<lparr>dev_state := d\<rparr>)) = map_option fst (read_fat_entry fs e st)"
    if "fat_index e" "valid (fat_sector_of fs e)" "e \<noteq> c" for e unfolding n [OF that(2)] using g [OF that(1)] that(3) by simp
  ultimately show ?thesis using d h by blast
qed

theorem fat_entry_roundtrip_witness:
  "\<exists>d. map_option fst (read_fat_entry ram_fs 5 ((ram_state (\<lambda>_. []) [])\<lparr>dev_state := d\<rparr>)) = Some 6"
proof -
  have "fat_index 5" "ram_holds (ram_sec (\<lambda>_. [])) (dev_state (ram_state (\<lambda>_. []) []))" by (simp_all add: fat_index_def ram_holds_def)
  from fat_entry_roundtrip [OF ram_device, OF _ this(2,1), of 6] show ?thesis by auto
qed

text \<open>
  Claim C29. On a device that has the table sectors it looks at, \<open>allocate_cluster\<close> returns. It finds the lowest cluster from 2 on whose
  entry is 0, marks it as the end of a chain and links the previous cluster to it; when no entry below
  \<open>0x0FFFFFF0\<close> is 0 it returns 0 and changes nothing.
\<close>

theorem allocate_cluster_correct:
  fixes st :: "('d, 'a) fat_state_scheme"
  assumes D: "sector_device rd valid holds wr" "uses_device fs rd wr" and L: "lock (cache_lock st) = 0" and H: "holds dk (dev_state st)"
    and p: "p = 0 \<or> valid (fat_sector_of fs p)"
  shows "(\<forall>e. first_free (fat_get fs dk) 2 e \<longrightarrow> (\<forall>x. 2 \<le> x \<longrightarrow> x \<le> e \<longrightarrow> valid (fat_sector_of fs x)) \<longrightarrow>
      (\<exists>d. allocate_cluster fs p st = Some (e, st\<lparr>dev_state := d\<rparr>) \<and>
        holds (let t = fat_put fs dk e 0x0FFFFFFF in if p = 0 then t else fat_put fs t p e) d)) \<and>
    ((\<nexists>e. first_free (fat_get fs dk) 2 e) \<longrightarrow> (\<forall>x. 2 \<le> x \<longrightarrow> x < 0x0FFFFFF0 \<longrightarrow> valid (fat_sector_of fs x)) \<longrightarrow>
      (\<exists>d. allocate_cluster fs p st = Some (0, st\<lparr>dev_state := d\<rparr>) \<and> holds dk d))"
  using sector_device.alloc_first [OF D p _ _ L H] sector_device.alloc_none [OF D _ _ L H, of 2 p] unfolding allocate_cluster_def by blast

lemma ram_fat_zero: "fat_get ram_fs (ram_sec (\<lambda>_. [])) c = 0"
proof -
  have z: "rd8 (replicate 512 0) i = 0" for i by (simp add: rd8_def)
  show ?thesis by (simp add: fat_get_def fat_raw_def ram_sec_def rd32_def z)
qed

lemma ram_first_free: "first_free (fat_get ram_fs (ram_sec (\<lambda>_. []))) 2 e \<longleftrightarrow> e = 2"
  unfolding first_free_def ram_fat_zero by (auto intro: order.antisym simp: not_less)

theorem allocate_cluster_correct_witness:
  "\<exists>d. allocate_cluster ram_fs 0 (ram_state (\<lambda>_. []) []) = Some (2, (ram_state (\<lambda>_. []) [])\<lparr>dev_state := d\<rparr>)"
proof -
  have "ram_holds (ram_sec (\<lambda>_. [])) (dev_state (ram_state (\<lambda>_. []) []))" by (simp add: ram_holds_def)
  from allocate_cluster_correct [OF ram_device, OF _ this, of 0] show ?thesis by (auto simp: ram_first_free)
qed

text \<open>
  Allocating after the last cluster of a chain extends exactly that chain: the chain then ends with
  the new cluster, and every chain that does not contain its last cluster is untouched.
\<close>

theorem allocate_extends_chain:
  fixes st :: "('d, 'a) fat_state_scheme"
  assumes D: "sector_device rd valid holds wr" "uses_device fs rd wr" and L: "lock (cache_lock st) = 0" and H: "holds dk (dev_state st)"
    and ch: "linked (fat_get fs dk) (cs @ [l])" "distinct (cs @ [l])" "\<forall>c \<in> set (cs @ [l]). 2 \<le> c \<and> fat_index c" "valid (fat_sector_of fs l)"
    and e: "first_free (fat_get fs dk) 2 e" "\<forall>x. 2 \<le> x \<longrightarrow> x \<le> e \<longrightarrow> valid (fat_sector_of fs x)"
  shows "\<exists>d dk'. allocate_cluster fs l st = Some (e, st\<lparr>dev_state := d\<rparr>) \<and> holds dk' d \<and>
    linked (fat_get fs dk') (cs @ [l, e]) \<and> e \<notin> set (cs @ [l]) \<and>
    (\<forall>ds. linked (fat_get fs dk) ds \<longrightarrow> (\<forall>c \<in> set ds. 2 \<le> c \<and> fat_index c) \<longrightarrow> l \<notin> set ds \<longrightarrow> linked (fat_get fs dk') ds)"
proof -
  let ?dk1 = "fat_put fs dk e 0x0FFFFFFF" let ?dk2 = "fat_put fs ?dk1 l e"
  have ei: "fat_index e" "fat_get fs dk e = 0" using e by (simp_all add: first_free_def fat_index_def)
  have e7: "e < 0x0FFFFFF7" using ei(1) unfolding fat_index_def by (rule order.strict_trans) simp
  have l: "fat_index l" "l \<noteq> 0" using ch(3) by auto
  have free: "e \<notin> set ds" if "linked (fat_get fs dk) ds" "\<forall>c \<in> set ds. 2 \<le> c \<and> fat_index c" for ds
    using linked_nonzero [OF that(1), of e] that(2) ei(2) by force
  obtain d where d: "allocate_cluster fs l st = Some (e, st\<lparr>dev_state := d\<rparr>)" "holds ?dk2 d"
    using sector_device.alloc_first [OF D _ e L H, of l] l(2) ch(4) by (auto simp: Let_def allocate_cluster_def)
  have d5: "disk512 dk" "disk512 ?dk1"
    using sector_reader.sector_length [OF sector_device.axioms(1) [OF D(1)] H] by (simp_all add: disk512_put)
  have "linked (fat_get fs ?dk2) (cs @ [l, e])"
    using ch ei e7 free [OF ch(1,3)] by (intro ft.linked_extend [OF d5(1)]) auto
  moreover have "linked (fat_get fs ?dk2) ds"
    if "linked (fat_get fs dk) ds" "\<forall>c \<in> set ds. 2 \<le> c \<and> fat_index c" "l \<notin> set ds" for ds
    using that free [OF that(1,2)] ei(1) l(1)
    by (simp add: ft.linked_set_other [OF d5(2)] ft.linked_set_other [OF d5(1)])
  ultimately show ?thesis using d free [OF ch(1,3)] by blast
qed

text \<open>A volume in memory whose root directory is the single cluster 2, with \<open>b\<close> as its sector.\<close>

definition ram_root :: "u8 list \<Rightarrow> disk" where
  "ram_root b = (fat_put ram_fs (ram_sec (\<lambda>_. [])) 2 0x0FFFFFFF)(40 := b)"

lemma ram_root_sec: "length b = 512 \<Longrightarrow> ram_sec (ram_root b) = ram_root b"
proof -
  assume "length b = 512"
  moreover have "disk512 (ram_sec (\<lambda>_. []))" by (simp add: disk512_def ram_sec_def)
  ultimately show ?thesis using disk512_put [of "ram_sec (\<lambda>_. [])" ram_fs 2 "0x0FFFFFFF"]
    by (auto simp: ram_root_def ram_sec_def disk512_def fun_eq_iff)
qed

lemma ram_root_512: "length b = 512 \<Longrightarrow> disk512 (ram_root b)"
  using ram_root_sec [of b] sector_reader.sector_length [OF ram_reader(1), of "ram_root b" "ram_sec (ram_root b)" "ram_root b"] by (simp add: ram_still_def)

lemma ram_root_get: "fat_index c \<Longrightarrow> fat_sector_of ram_fs c \<noteq> 40 \<Longrightarrow>
    fat_get ram_fs (ram_root b) c = (if c = 2 then 0x0FFFFFFF else 0)"
proof -
  assume c: "fat_index c" "fat_sector_of ram_fs c \<noteq> 40"
  have d: "disk512 (ram_sec (\<lambda>_. []))" by (simp add: disk512_def ram_sec_def)
  have i: "fat_index 2" by (simp add: fat_index_def)
  have "fat_get ram_fs (ram_root b) c = fat_get ram_fs (fat_put ram_fs (ram_sec (\<lambda>_. [])) 2 0x0FFFFFFF) c"
    using c(2) unfolding ram_root_def by (intro fat_get_cong) simp
  then show ?thesis using fat_get_put [OF d i c(1), of ram_fs "0x0FFFFFFF"] ram_fat_zero by simp
qed

lemma ram_root_chain: "length b = 512 \<Longrightarrow> chain_at ram_fs (ram_root b) [2]"
  using ram_root_get [of 2 b]
  by (simp add: chain_at_def chain_ok_def fat_index_def fat_sector_of_def ram_fs_def cluster_sectors_def cluster_sector_def)

lemma ram_root_free: "length b = 512 \<Longrightarrow> first_free (fat_get ram_fs (ram_root b)) 2 3"
proof -
  have two: "x = 2" if "2 \<le> x" "x < 3" for x :: u32 using that by unat_arith
  have g: "fat_get ram_fs (ram_root b) 2 \<noteq> 0" "fat_get ram_fs (ram_root b) 3 = 0"
    using ram_root_get [of 2 b] ram_root_get [of 3 b] by (simp_all add: fat_index_def fat_sector_of_def ram_fs_def)
  have "fat_get ram_fs (ram_root b) x \<noteq> 0" if "2 \<le> x" "x < 3" for x using two [OF that] g(1) by simp
  then show ?thesis using g(2) by (simp add: first_free_def)
qed

theorem allocate_extends_chain_witness:
  "\<exists>dk. linked (fat_get ram_fs dk) [2, 3]"
proof -
  let ?b = "replicate 512 0" let ?st = "ram_state (ram_root ?b) []"
  have "ram_holds (ram_root ?b) (dev_state ?st)" using ram_root_sec [of ?b] by (simp add: ram_holds_def)
  moreover have "chain_at ram_fs (ram_root ?b) [2]" "first_free (fat_get ram_fs (ram_root ?b)) 2 3"
    using ram_root_chain [of ?b] ram_root_free [of ?b] by simp_all
  ultimately show ?thesis using allocate_extends_chain [OF ram_device, of ?st "ram_root ?b" "[]" 2 3] by (auto simp: chain_at_def)
qed

text \<open>The entries of a directory that a lookup considers.\<close>

definition live_entries :: "dir_slot list \<Rightarrow> dir_slot list" where
  "live_entries xs = filter (\<lambda>(b, s, e). rd8 b 0 \<noteq> 0xE5 \<and> de_attr (dirent_of b) \<noteq> 0x0F) (takeWhile (\<lambda>(b, s, e). rd8 b 0 \<noteq> 0) xs)"

lemma search_find: "scan_result (search t xs) =
    map_option (\<lambda>(b, s, e). (dirent_of b, s, e)) (List.find (\<lambda>(b, s, e). from_8_3 (dirent_of b) = t) (live_entries xs))"
  by (induction t xs rule: search.induct) (simp_all add: live_entries_def)

text \<open>
  Claim C14. On every block device that reads correctly, \<open>fat32_find\<close> terminates on a directory whose cluster chain ends, and returns the first
  entry with the wanted name among the entries before the end mark that are neither deleted nor long-name
  parts, with its sector and index; it fails exactly when there is none.
\<close>

theorem fat32_find_first_match:
  fixes st :: "('d, 'a) fat_state_scheme"
  assumes D: "sector_reader rd valid holds" "reads_with fs rd" and L: "lock (cache_lock st) = 0" and H: "holds dk (dev_state st)"
    and c: "linked (fat_get fs dk) cs" "hd cs \<noteq> NO_CLUSTER" "places_ok valid fs cs"
  shows "\<exists>d. fat32_find fs (hd cs) t st =
    Some (map_option (\<lambda>(b, s, e). (dirent_of b, s, e))
       (List.find (\<lambda>(b, s, e). from_8_3 (dirent_of b) = t) (live_entries (dir_entries fs dk cs))), st\<lparr>dev_state := d\<rparr>) \<and> holds dk d"
  using sector_reader.find_chain [OF D c L H, of t] by (simp add: search_find)

theorem fat32_find_first_match_witness:
  "fat32_find ram_fs 2 (replicate 11 0x41) (ram_state (ram_root (replicate 512 0)) []) =
     Some (None, ram_state (ram_root (replicate 512 0)) [])"
proof -
  let ?b = "replicate 512 0" let ?st = "ram_state (ram_root ?b) []"
  have s: "ram_sec (dev_state ?st) = ram_root ?b" using ram_root_sec [of ?b] by simp
  have "entry_at ?b i = (replicate (min 32 (512 - i * 32)) 0)" for i by (simp add: entry_at_def)
  then have "live_entries (dir_entries ram_fs (ram_root ?b) [2]) = []"
    by (simp add: live_entries_def dir_entries_def cluster_sectors_def cluster_sector_def ram_fs_def ram_root_def
        sector_entries_def upt_rec rd8_def)
  moreover have h: "ram_still (dev_state ?st) (ram_root ?b) (dev_state ?st)" "linked (fat_get ram_fs (ram_root ?b)) [2]"
    using s ram_root_chain [of ?b] by (simp_all add: ram_still_def chain_at_def)
  ultimately show ?thesis using fat32_find_first_match [OF ram_reader(1,2) _ h, of "replicate 11 0x41"]
    by (auto simp: ram_still_def)
qed

lemma to_8_3_length: "length (to_8_3 src) = 11"
  by (simp add: to_8_3_def Let_def put_def)

lemma to_8_3_first:
  assumes "src \<noteq> []"
  shows "to_8_3 src ! 0 = upcase (hd src)"
proof -
  have p: "put (replicate 8 0x20) 0 (map upcase (take 8 xs)) = map upcase (take 8 xs) @ drop (length (take 8 xs)) (replicate 8 0x20)"
    for xs by (simp add: put_def)
  obtain a xs where src: "src = a # xs" using assms by (cases src) auto
  show ?thesis unfolding to_8_3_def Let_def p src by (simp add: nth_append)
qed

lemma upcase_marks: "c \<noteq> 0 \<Longrightarrow> c \<noteq> 0xE5 \<Longrightarrow> upcase c \<noteq> 0 \<and> upcase c \<noteq> 0xE5"
proof -
  assume c: "c \<noteq> 0" "c \<noteq> 0xE5"
  have "c - 32 \<noteq> 0 \<and> c - 32 \<noteq> 0xE5" if "0x61 \<le> c" "c \<le> 0x7A" using that by unat_arith
  then show ?thesis using c by (auto simp: upcase_def Let_def)
qed

text \<open>Resolution of a path without a slash: the root directory and the 8.3 form of the path.\<close>

lemma resolve_plain:
  assumes "path \<noteq> []" "0x2F \<notin> set path" "length path < 256"
  shows "fat32_resolve (Some fs) (Some path) st = Some (Some (root_cluster (bpb fs), to_8_3 path), st)"
proof -
  have n: "hd path \<noteq> 0x2F" "path \<noteq> [0x2F]" using assms(1,2) by (cases path; auto)+
  have "takeWhile (\<lambda>c. c \<noteq> 0x2F) path = path" "dropWhile (\<lambda>c. c \<noteq> 0x2F) path = []"
    using assms(2) by (auto simp: takeWhile_eq_all_conv dropWhile_eq_Nil_conv)
  then have "resolve_loop fs c path st = Some (Some (c, Some path), st)" for c
    using assms(1) by (simp add: resolve_loop.simps)
  then show ?thesis using assms n by (simp add: fat32_resolve_def)
qed

text \<open>The handle that opening a new file for writing gives.\<close>

definition new_file :: "'d fat32_fs \<Rightarrow> u32 \<Rightarrow> 'd fat32_file" where
  "new_file fs c = \<lparr>f_used = True, f_mode = 1, f_fs = Some fs, first_cluster = c, curr_cluster = c, curr_offset = 0,
     file_size = 0, file_pos = 0\<rparr>"

text \<open>
  Claim C30. Opening a name that the root directory does not have, for writing, creates it: the handle is a
  free one and points to a newly allocated cluster, the new entry is in the first free slot, looking
  the name up finds it, and every other name is found or missing as before.
\<close>

theorem fat32_open_creates:
  fixes st :: "('d, 'a) fat_state_scheme"
  assumes D: "sector_device rd valid holds wr" "uses_device fs rd wr" and L: "lock (cache_lock st) = 0" and H: "holds dk (dev_state st)"
    and W: "validate_fs (Some fs)"
    and ch: "chain_at fs dk cs" "places_ok valid fs cs" "hd cs = root_cluster (bpb fs)" "tidy (dir_entries fs dk cs)"
    and path: "path \<noteq> []" "0x2F \<notin> set path" "length path < 256" "hd path \<noteq> 0" "hd path \<noteq> 0xE5"
    and none: "map_option fst (fat32_find fs (root_cluster (bpb fs)) (to_8_3 path) st) = Some None"
    and slot: "map_option fst (find_free_dirent_slot fs (root_cluster (bpb fs)) st) = Some (Some (s, i))"
    and e: "first_free (fat_get fs dk) 2 e" "fat_sector_of fs e \<notin> set (dir_sectors fs cs)" "\<forall>x. 2 \<le> x \<longrightarrow> x \<le> e \<longrightarrow> valid (fat_sector_of fs x)"
    and h: "free_slot (open_files st) = Some h"
  shows "\<exists>d. let st' = st\<lparr>dev_state := d, open_files := (open_files st)[h := new_file fs e]\<rparr> in
    fat32_open (Some fs) (Some path) [0x77] st = Some (Some h, st') \<and>
    (\<forall>m. map_option fst (fat32_find fs (root_cluster (bpb fs)) m st') =
       (if m = to_8_3 path then Some (Some (new_entry m e, s, i))
        else map_option fst (fat32_find fs (root_cluster (bpb fs)) m st)))"
proof -
  let ?t = "to_8_3 path"
  note R = sector_device.axioms(1) [OF D(1)] and nc = chain_at_facts(2) [OF ch(1)]
  note f = sector_reader.find_chain [OF R uses_reads [OF D(2)] _ nc ch(2)]
  have lk: "linked (fat_get fs dk) cs" using ch(1) by (simp add: chain_at_def)
  have t: "length ?t = 11" "?t ! 0 \<noteq> 0" "?t ! 0 \<noteq> 0xE5" "rd8 ?t 0 \<noteq> 0"
    using to_8_3_length to_8_3_first [OF path(1)] upcase_marks [OF path(4,5)] by (simp_all add: rd8_def)
  have old: "map_option fst (fat32_find fs (hd cs) m st) = Some (scan_result (search m (dir_entries fs dk cs)))" for m
    using f [OF lk L H, of m] by auto
  obtain d0 where f0: "fat32_find fs (hd cs) ?t st = Some (None, st\<lparr>dev_state := d0\<rparr>)" "holds dk d0"
    and no: "scan_result (search ?t (dir_entries fs dk cs)) = None"
    using f [OF lk L H, of ?t] none ch(3) by auto
  have fr: "free_search (dir_entries fs dk cs) = Found (s, i)"
    using sector_reader.slot_chain [OF R uses_reads [OF D(2)] lk nc ch(2) L H] slot ch(3)
    by (cases "free_search (dir_entries fs dk cs)") auto
  have s0: "lock (cache_lock (st\<lparr>dev_state := d0\<rparr>)) = 0" "holds dk (dev_state (st\<lparr>dev_state := d0\<rparr>))" using L f0(2) by simp_all
  obtain d dk' where d: "create_entry fs (hd cs) ?t (st\<lparr>dev_state := d0\<rparr>) = Some (Some (new_entry ?t e), st\<lparr>dev_state := d\<rparr>)"
    and cd: "holds dk' d" "chain_at fs dk' cs" "\<And>m. scan_result (search m (dir_entries fs dk' cs)) =
      (if m = ?t then Some (new_entry ?t e, s, i) else scan_result (search m (dir_entries fs dk cs)))"
    using sector_device.create_entry [OF D s0 ch(1,2) e fr t(1-3) ch(4) no] by auto
  let ?st = "st\<lparr>dev_state := d, open_files := (open_files st)[h := new_file fs e]\<rparr>"
  have "fat32_open (Some fs) (Some path) [0x77] st = Some (Some h, ?st)"
    using W resolve_plain [OF path(1-3), of fs st] t(4) f0(1) d ch(3) h new_entry_facts(4) [OF t(1), of e]
    by (simp add: fat32_open_def mode_char_def new_file_def Let_def)
  moreover have "map_option fst (fat32_find fs (hd cs) m ?st) =
      (if m = ?t then Some (Some (new_entry m e, s, i)) else map_option fst (fat32_find fs (hd cs) m st))" for m
    unfolding old using f [of dk' ?st m] L cd by (auto simp: chain_at_def)
  ultimately show ?thesis unfolding Let_def ch(3) [symmetric] by blast
qed

definition closed_file :: "'d fat32_file" where
  "closed_file = \<lparr>f_used = False, f_mode = 0, f_fs = None, first_cluster = 0, curr_cluster = 0, curr_offset = 0,
     file_size = 0, file_pos = 0\<rparr>"

lemma ram_root_sectors: "dir_sectors ram_fs [2] = [40]"
  by (simp add: dir_sectors_def cluster_sectors_def cluster_sector_def ram_fs_def)

lemma ram_empty_root:
  fixes fl :: "disk fat32_file list"
  defines "st \<equiv> ram_state (ram_root (replicate 512 0)) fl"
  shows "find_free_dirent_slot ram_fs 2 st = Some (Some (40, 0), st)"
    "tidy (dir_entries ram_fs (ram_sec (dev_state st)) [2])" "fat32_find ram_fs 2 t st = Some (None, st)"
    "chain_at ram_fs (ram_sec (dev_state st)) [2]" "first_free (fat_get ram_fs (ram_sec (dev_state st))) 2 3"
proof -
  let ?b = "replicate 512 0"
  have s: "ram_sec (dev_state st) = ram_root ?b" using ram_root_sec [of ?b] by (simp add: st_def)
  show ch: "chain_at ram_fs (ram_sec (dev_state st)) [2]" "first_free (fat_get ram_fs (ram_sec (dev_state st))) 2 3"
    unfolding s using ram_root_chain [of ?b] ram_root_free [of ?b] by simp_all
  have e: "rd8 (entry_at ?b i) 0 = 0" for i by (simp add: entry_at_def rd8_def)
  have E: "dir_entries ram_fs (ram_sec (dev_state st)) [2] = (entry_at ?b 0, 40, 0) # map (\<lambda>i. (entry_at ?b i, 40, of_nat i)) [1..<16]"
    unfolding s dir_entries_flat ram_root_sectors by (simp add: ram_root_def sector_entries_def upt_rec [of 0])
  show "tidy (dir_entries ram_fs (ram_sec (dev_state st)) [2])" unfolding E using e by (simp add: list_all_iff)
  have lk: "linked (fat_get ram_fs (ram_sec (dev_state st))) [2]" "lock (cache_lock st) = 0"
    using ch(1) by (simp_all add: chain_at_def st_def)
  have h: "ram_still (dev_state st) (ram_sec (dev_state st)) (dev_state st)" by (simp add: ram_still_def)
  show "find_free_dirent_slot ram_fs 2 st = Some (Some (40, 0), st)"
    using sector_reader.slot_chain [OF ram_reader(1,2), OF lk(1) _ _ lk(2) h] e unfolding E by (auto simp: ram_still_def)
  show "fat32_find ram_fs 2 t st = Some (None, st)"
    using sector_reader.find_chain [OF ram_reader(1,2), OF lk(1) _ _ lk(2) h, of t] e unfolding E by (auto simp: ram_still_def)
qed

theorem fat32_open_creates_witness:
  "\<exists>st'. fat32_open (Some ram_fs) (Some [0x61]) [0x77] (ram_state (ram_root (replicate 512 0)) (replicate 64 closed_file)) =
     Some (Some 0, st') \<and> map_option fst (fat32_find ram_fs 2 (to_8_3 [0x61]) st') = Some (Some (new_entry (to_8_3 [0x61]) 3, 40, 0))"
proof -
  let ?st = "ram_state (ram_root (replicate 512 0)) (replicate 64 closed_file)"
  note r = ram_empty_root [where fl = "replicate 64 closed_file"]
  have v: "validate_fs (Some ram_fs)" "root_cluster (bpb ram_fs) = 2" by (simp_all add: validate_fs_def ram_fs_def)
  have h: "free_slot (open_files ?st) = Some 0" by (simp add: free_slot_def closed_file_def upt_rec [of 0])
  have p: "[0x61] \<noteq> ([] :: u8 list)" "0x2F \<notin> set [0x61 :: u8]" "length [0x61 :: u8] < 256" "hd [0x61 :: u8] \<noteq> 0" "hd [0x61 :: u8] \<noteq> 0xE5"
    by simp_all
  have s: "fat_sector_of ram_fs 3 \<notin> set (dir_sectors ram_fs [2])" unfolding ram_root_sectors by (simp add: fat_sector_of_def ram_fs_def)
  have hd: "hd [2] = root_cluster (bpb ram_fs)" "lock (cache_lock ?st) = 0" "ram_holds (ram_sec (dev_state ?st)) (dev_state ?st)"
    "places_ok (\<lambda>_. True) ram_fs [2]" "\<forall>x. 2 \<le> x \<longrightarrow> x \<le> (3 :: u32) \<longrightarrow> (\<lambda>_. True) (fat_sector_of ram_fs x)"
    using v(2) by (simp_all add: ram_holds_def)
  have fs: "map_option fst (fat32_find ram_fs 2 (to_8_3 [0x61]) ?st) = Some None" "map_option fst (find_free_dirent_slot ram_fs 2 ?st) = Some (Some (40, 0))"
    using r(1,3) by simp_all
  from fat32_open_creates [OF ram_device, OF hd(2,3) v(1) r(4) hd(4,1) r(2) p, unfolded v(2), OF fs r(5) s hd(5) h]
  obtain d where "let st' = ?st\<lparr>dev_state := d, open_files := (open_files ?st)[0 := new_file ram_fs 3]\<rparr> in
      fat32_open (Some ram_fs) (Some [0x61]) [0x77] ?st = Some (Some 0, st') \<and>
      map_option fst (fat32_find ram_fs 2 (to_8_3 [0x61]) st') = Some (Some (new_entry (to_8_3 [0x61]) 3, 40, 0))"
    unfolding Let_def by metis
  then show ?thesis unfolding Let_def by blast
qed

text \<open>
  Claim C9. On every block device that reads correctly, reading from an open file returns the next bytes of its cluster chain from the current
  position, as many as were asked for but not beyond the file size, and advances the position by that
  number; a cluster boundary is crossed along the chain. The contents of the device stay as they are.
\<close>

theorem fat32_read_contents:
  fixes st :: "('d, 'a) fat_state_scheme"
  assumes D: "sector_reader rd valid holds" "reads_with fs rd" and L: "lock (cache_lock st) = 0" and H: "holds dk (dev_state st)"
    and G: "geometry_ok fs" and f: "open_files st ! i = f" "f_used f" "f_mode f = 0" "f_fs f = Some fs"
    and ch: "linked (fat_get fs dk) (curr_cluster f # cs)" "places_ok valid fs (curr_cluster f # cs)" "curr_offset f < bytes_per_cluster fs"
      "unat (curr_offset f) + (unat (file_size f) - unat (file_pos f)) \<le> length (chain_bytes fs dk (curr_cluster f # cs))"
    and sz: "0 < unat sz" "unat sz < 2 ^ 31" "file_pos f < file_size f" "unat (file_pos f) + unat sz < 2 ^ 32"
  defines "n \<equiv> min (unat sz) (unat (file_size f) - unat (file_pos f))"
  shows "\<exists>cc co d. fat32_read (Some i) sz st =
    Some (int n, take n (drop (unat (curr_offset f)) (chain_bytes fs dk (curr_cluster f # cs))), st\<lparr>dev_state := d,
      open_files := (open_files st)[i := f\<lparr>curr_cluster := cc, curr_offset := co, file_pos := file_pos f + of_nat n\<rparr>]\<rparr>) \<and> holds dk d"
  using sector_reader.file_read [OF D L H G f ch sz] unfolding n_def .

lemma ram_chain_bytes: "length b = 512 \<Longrightarrow> chain_bytes ram_fs (ram_root b) [2] = b"
  by (simp add: chain_bytes_def cluster_bytes_def cluster_sectors_def cluster_sector_def ram_fs_def ram_root_def)

lemma ram_geometry: "geometry_ok ram_fs"
  by (simp add: geometry_ok_def ram_fs_def)

lemma ram_linked: "length b = 512 \<Longrightarrow> linked (fat_get ram_fs (ram_sec (ram_root b))) [2]"
  using ram_root_chain [of b] ram_root_sec [of b] by (simp add: chain_at_def)

theorem fat32_read_contents_witness:
  "\<exists>st'. fat32_read (Some 0) 100 (ram_state (ram_root ([72, 105] @ replicate 510 0))
     [(new_file ram_fs 2)\<lparr>f_mode := 0, file_size := 2\<rparr>]) = Some (2, [72, 105], st')"
proof -
  let ?b = "[72, 105] @ replicate 510 0 :: u8 list" and ?f = "(new_file ram_fs 2)\<lparr>f_mode := 0, file_size := 2\<rparr>"
  let ?st = "ram_state (ram_root ?b) [?f]"
  have b: "length ?b = 512" by simp
  have c: "chain_bytes ram_fs (ram_sec (dev_state ?st)) (curr_cluster ?f # []) = ?b"
    using ram_chain_bytes [OF b] ram_root_sec [OF b] by (simp add: new_file_def)
  have "linked (fat_get ram_fs (ram_sec (dev_state ?st))) (curr_cluster ?f # [])"
    using ram_linked [OF b] by (simp add: new_file_def)
  moreover have h: "ram_still (dev_state ?st) (ram_sec (dev_state ?st)) (dev_state ?st)" by (simp add: ram_still_def)
  ultimately show ?thesis using fat32_read_contents [OF ram_reader(1,2) _ h ram_geometry, of 0 ?f "[]" 100]
    unfolding c by (simp add: new_file_def ram_fs_def) blast
qed

text \<open>
  Claim C10. On every block device that reads and writes correctly, writing within the clusters a file has stores all the bytes: the contents of the chain are the old ones
  with the bytes of the buffer at the current position, no sector outside the chain changes (so the
  table, the directories and the other files are as before), and the position and the size in the handle grow.
\<close>

theorem fat32_write_contents:
  fixes st :: "('d, 'a) fat_state_scheme"
  assumes D: "sector_device rd valid holds wr" "uses_device fs rd wr" and L: "lock (cache_lock st) = 0" and H: "holds dk (dev_state st)"
    and G: "geometry_ok fs" and f: "open_files st ! i = f" "f_used f" "f_mode f = 1" "f_fs f = Some fs"
    and ch: "chain_at fs dk (curr_cluster f # cs)" "places_ok valid fs (curr_cluster f # cs)" "curr_offset f < bytes_per_cluster fs"
      "unat (curr_offset f) + unat sz < length (chain_bytes fs dk (curr_cluster f # cs))"
    and sz: "0 < unat sz" "unat sz < 2 ^ 31" "unat sz \<le> length buffer" "unat (file_pos f) + unat sz < 2 ^ 32"
  shows "\<exists>cc co d dk'. fat32_write (Some i) buffer sz st = Some (int (unat sz), st\<lparr>dev_state := d,
       open_files := (open_files st)[i := f\<lparr>curr_cluster := cc, curr_offset := co,
         file_size := max (file_size f) (file_pos f + sz), file_pos := file_pos f + sz\<rparr>]\<rparr>) \<and> holds dk' d \<and>
     chain_bytes fs dk' (curr_cluster f # cs) =
       put (chain_bytes fs dk (curr_cluster f # cs)) (unat (curr_offset f)) (take (unat sz) buffer) \<and>
     (\<forall>s. s \<notin> set (dir_sectors fs (curr_cluster f # cs)) \<longrightarrow> dk' s = dk s)"
  using sector_device.file_write [OF D L H G f ch sz] .

theorem fat32_write_contents_witness:
  "\<exists>st'. fat32_write (Some 0) [72, 105] 2 (ram_state (ram_root (replicate 512 0)) [new_file ram_fs 2]) = Some (2, st') \<and>
     chain_bytes ram_fs (ram_sec (dev_state st')) [2] = [72, 105] @ replicate 510 0"
proof -
  let ?b = "replicate 512 0 :: u8 list" and ?f = "new_file ram_fs 2"
  let ?st = "ram_state (ram_root ?b) [?f]"
  have b: "length ?b = 512" by simp
  have cf: "curr_cluster ?f # [] = [2]" by (simp add: new_file_def)
  have h: "ram_holds (ram_root ?b) (dev_state ?st)" "chain_bytes ram_fs (ram_root ?b) [2] = ?b"
    using ram_root_sec [OF b] ram_chain_bytes [OF b] by (simp_all add: ram_holds_def)
  have k: "chain_at ram_fs (ram_root ?b) (curr_cluster ?f # [])" unfolding cf using ram_root_chain [OF b] .
  have u: "0 < unat (2 :: u32)" "unat (2 :: u32) < 2 ^ 31" "unat (2 :: u32) \<le> length [72, 105 :: u8]" "unat (file_pos ?f) + unat (2 :: u32) < 2 ^ 32"
    "curr_offset ?f < bytes_per_cluster ram_fs" "unat (curr_offset ?f) + unat (2 :: u32) < length (chain_bytes ram_fs (ram_root ?b) (curr_cluster ?f # []))"
    "places_ok (\<lambda>_. True) ram_fs (curr_cluster ?f # [])" "f_used ?f" "f_mode ?f = 1" "f_fs ?f = Some ram_fs" "open_files ?st ! 0 = ?f"
    unfolding cf h(2) by (simp_all add: new_file_def ram_fs_def)
  have l: "lock (cache_lock ?st) = 0" by simp
  from fat32_write_contents [OF ram_device, OF l h(1) ram_geometry u(11,8-10) k u(7,5,6) u(1-4)] obtain cc co d where
    "fat32_write (Some 0) [72, 105] 2 ?st = Some (2, ?st\<lparr>dev_state := d, open_files := (open_files ?st)[0 := ?f\<lparr>curr_cluster := cc,
       curr_offset := co, file_size := max (file_size ?f) (file_pos ?f + 2), file_pos := file_pos ?f + 2\<rparr>]\<rparr>)"
    "chain_bytes ram_fs (ram_sec d) [2] = put ?b 0 [72, 105]"
    unfolding cf h(2) ram_holds_def by (auto simp: new_file_def)
  then show ?thesis by (auto simp: put_def)
qed

text \<open>
  Claim C31. Whatever \<open>fat32_mount\<close> accepts has 512-byte sectors, a non-zero cluster size with the matching
  number of bytes per cluster and at least one table. The table starts at the number of reserved sectors
  of the boot record: also for a volume found through the partition table of the disk, where the boot
  record was read from the first sector of the partition, that sector is not added.
\<close>

theorem fat32_mount_geometry:
  fixes st :: "('d, 'a) fat_state_scheme"
  assumes "fat32_mount dv st = Some (Some fs, st')"
  shows "dev fs = dv \<and> bytes_per_sector (bpb fs) = 512 \<and> geometry_ok fs \<and> num_fats (bpb fs) \<noteq> 0 \<and>
    fat_start fs = ucast (reserved_sectors (bpb fs)) \<and>
    data_start fs = fat_start fs + ucast (num_fats (bpb fs)) * sectors_per_fat (bpb fs)"
proof -
  obtain x s1 where p: "mount_probe dv st = (x, s1)" by fastforce
  then obtain b dr where x: "x = Some (b, dr)" using assms by (cases x) (auto simp: fat32_mount_def)
  have "bytes_per_sector (bpb_of b) = 512" "sectors_per_cluster (bpb_of b) \<noteq> 0" "num_fats (bpb_of b) \<noteq> 0"
    using assms p x by (auto simp: fat32_mount_def Let_def split: if_splits)
  moreover from this obtain ptr s2 where "kmalloc s1 536 = Some (ptr, s2)" "ptr \<noteq> 0"
    using assms p x by (auto simp: fat32_mount_def Let_def bind_eq_Some_conv split: if_splits)
  ultimately show ?thesis using assms p x by (auto simp: fat32_mount_def Let_def geometry_ok_def)
qed

text \<open>A disk with a partition table whose only partition, of type \<open>0x0C\<close>, starts at sector 63.\<close>

definition mbr_sector :: "u8 list" where
  "mbr_sector = put (put (put (replicate 512 0) 0x1C2 [0x0C]) 0x1C6 (bytes32 63)) 510 [0x55, 0xAA]"

definition boot_sector :: "u8 list" where
  "boot_sector = put (put (put (replicate 512 0) 11 ([0, 2, 1] @ bytes16 32 @ [1])) 36 (bytes32 8)) 44 (bytes32 2)"

definition mbr_disk :: disk where
  "mbr_disk = (\<lambda>_. [])(0 := mbr_sector, 63 := boot_sector)"

lemma kheap_cong:
  fixes s :: "'a kmalloc_state_scheme" and t :: "'b kmalloc_state_scheme"
  assumes "mem s = mem t" "bitmap s = bitmap t" "total_pages s = total_pages t" "stack_top s = stack_top t"
    "frames_stack s = frames_stack t" "pmm_lock s = pmm_lock t" "free_list s = free_list t" "kmalloc_lock s = kmalloc_lock t"
  shows "kheap s fs us = kheap t fs us" "first_fit s n = first_fit t n"
proof -
  have g: "bitmap_get s = bitmap_get t" using assms by (simp add: fun_eq_iff bitmap_get_bit)
  have f: "free_set s = free_set t" using assms by (simp add: free_set_def g)
  show "kheap s fs us = kheap t fs us"
    using assms by (simp add: kheap_def pmm_ready_def pmm_wf_def pmm_private_def pmm_meta_def in_use_def f g)
  have r: "run_free s = run_free t" using assms by (simp add: fun_eq_iff run_free_def g)
  show "first_fit s n = first_fit t n" using assms by (simp add: first_fit_def r)
qed

lemma ram_kmalloc: "\<exists>b t. kmalloc (ram_state d fl) 536 = Some (b, t) \<and> b \<noteq> 0"
proof -
  have f: "mem (ram_state d fl) = mem heap_example" "bitmap (ram_state d fl) = bitmap heap_example"
    "total_pages (ram_state d fl) = total_pages heap_example" "stack_top (ram_state d fl) = stack_top heap_example"
    "frames_stack (ram_state d fl) = frames_stack heap_example" "pmm_lock (ram_state d fl) = pmm_lock heap_example"
    "free_list (ram_state d fl) = free_list heap_example" "kmalloc_lock (ram_state d fl) = kmalloc_lock heap_example"
    by (simp_all add: ram_state_def kmalloc_state.defs)
  have k: "kheap (ram_state d fl) [] []" "first_fit (ram_state d fl) 4 = Some 12"
    using kheap_cong [OF f] heap_example_kheap heap_example_fit by simp_all
  have r: "round_size 536 = 544" by (simp add: round_size_def)
  obtain t where t: "kmalloc (ram_state d fl) 536 = Some (fst (pool_block 12) + 24, t)"
    "kheap t (remainder 544 (pool_block 12)) [taken 544 (pool_block 12)]"
    using kmalloc_pool [OF k(1) _ _ k(2), of 536] by (auto simp: r)
  have "fst (taken 544 (pool_block 12)) = fst (pool_block 12)" by (simp add: taken_def)
  then show ?thesis using t(1) used_not_NULL [OF t(2), of "taken 544 (pool_block 12)"] by auto
qed

theorem fat32_mount_geometry_witness:
  "\<exists>fs st'. fat32_mount (Some ram_disk) (ram_state mbr_disk []) = Some (Some fs, st') \<and> mbr_lba mbr_sector = 63 \<and>
     fat_start fs = 32 \<and> data_start fs = 40"
proof -
  have l: "length mbr_sector = 512" "length boot_sector = 512" by (simp_all add: mbr_sector_def boot_sector_def)
  have s: "ram_sec mbr_disk 0 = mbr_sector" "ram_sec mbr_disk 63 = boot_sector" using l by (simp_all add: ram_sec_def mbr_disk_def)
  have m: "bytes_per_sector (bpb_of mbr_sector) = 0"
    by (simp add: bpb_of_def rd16_def mbr_sector_def rd8_put) (simp add: rd8_def)
  have t: "rd8 mbr_sector 450 = 0x0C" "rd8 mbr_sector 510 = 0x55" "rd8 mbr_sector 511 = 0xAA"
    by (simp_all add: mbr_sector_def rd8_put)
  have "rd32 mbr_sector 454 = 63" by (simp add: rd32_def mbr_sector_def rd8_put) (simp add: bytes32_def)
  then have lba: "mbr_lba mbr_sector = 63" "has_fat_partition mbr_sector"
    using t by (simp_all add: mbr_lba_def has_fat_partition_def is_fat_partition_def upt_rec)
  have b: "bytes_per_sector (bpb_of boot_sector) = 512" "sectors_per_cluster (bpb_of boot_sector) = 1"
    "num_fats (bpb_of boot_sector) = 1" "reserved_sectors (bpb_of boot_sector) = 32" "sectors_per_fat (bpb_of boot_sector) = 8"
    by (simp_all add: bpb_of_def rd16_def rd32_def boot_sector_def rd8_put) (simp_all add: bytes16_def bytes32_def nth_append)
  have p: "mount_probe (Some ram_disk) (ram_state mbr_disk []) = (Some (boot_sector, False), ram_state mbr_disk [])"
    using m t lba s by (simp add: mount_probe_def ram_disk_def is_fat32_direct_def Let_def)
  obtain fs st' where mt: "fat32_mount (Some ram_disk) (ram_state mbr_disk []) = Some (Some fs, st')" "bpb fs = bpb_of boot_sector"
    using p b ram_kmalloc [of mbr_disk "[]"] by (auto simp: fat32_mount_def Let_def)
  then show ?thesis using fat32_mount_geometry [OF mt(1)] b lba(1) by auto
qed

lemma chain_at_other_write:
  assumes "chain_at fs dk ds" "\<forall>s. s \<notin> S \<longrightarrow> dk' s = dk s" "set (dir_sectors fs ds) \<inter> S = {}" "\<forall>c \<in> set ds. fat_sector_of fs c \<notin> S"
  shows "chain_at fs dk' ds" "dir_entries fs dk' ds = dir_entries fs dk ds"
proof -
  have "linked (fat_get fs dk') ds = linked (fat_get fs dk) ds"
    using assms(2,4) by (intro linked_cong fat_get_cong) blast
  then show "chain_at fs dk' ds" using assms(1) by (simp add: chain_at_def)
  show "dir_entries fs dk' ds = dir_entries fs dk ds" using assms(2,3) by (intro dir_entries_cong) blast
qed

text \<open>
  Claim C32. The size of a written file is not recorded: after a write and \<open>fat32_close\<close>, every lookup in a directory that
  shares no sector with the file returns the entry, with its size and first cluster, that it
  returned before the write.
\<close>

theorem fat32_close_keeps_old_size:
  fixes st :: "('d, 'a) fat_state_scheme"
  assumes D: "sector_device rd valid holds wr" "uses_device fs rd wr" and L: "lock (cache_lock st) = 0" and H: "holds dk (dev_state st)"
    and G: "geometry_ok fs" and f: "open_files st ! i = f" "f_used f" "f_mode f = 1" "f_fs f = Some fs"
    and ch: "chain_at fs dk (curr_cluster f # cs)" "places_ok valid fs (curr_cluster f # cs)" "curr_offset f < bytes_per_cluster fs"
      "unat (curr_offset f) + unat sz < length (chain_bytes fs dk (curr_cluster f # cs))"
    and sz: "0 < unat sz" "unat sz < 2 ^ 31" "unat sz \<le> length buffer" "unat (file_pos f) + unat sz < 2 ^ 32"
    and dir: "chain_at fs dk ds" "places_ok valid fs ds" "set (dir_sectors fs ds) \<inter> set (dir_sectors fs (curr_cluster f # cs)) = {}"
      "\<forall>c \<in> set ds. fat_sector_of fs c \<notin> set (dir_sectors fs (curr_cluster f # cs))"
  shows "\<exists>st'. fat32_write (Some i) buffer sz st = Some (int (unat sz), st') \<and>
    (\<forall>m. map_option fst (fat32_find fs (hd ds) m (fat32_close (Some i) st')) = map_option fst (fat32_find fs (hd ds) m st))"
proof -
  note F = sector_reader.find_chain [OF sector_device.axioms(1) [OF D(1)] uses_reads [OF D(2)] _ chain_at_facts(2) [OF dir(1)] dir(2)]
  obtain g d dk' where w: "fat32_write (Some i) buffer sz st = Some (int (unat sz), st\<lparr>dev_state := d, open_files := g\<rparr>)" "holds dk' d"
    "\<forall>s. s \<notin> set (dir_sectors fs (curr_cluster f # cs)) \<longrightarrow> dk' s = dk s"
    using sector_device.file_write [OF D L H G f ch sz] by blast
  let ?st = "fat32_close (Some i) (st\<lparr>dev_state := d, open_files := g\<rparr>)"
  have c: "holds dk' (dev_state ?st)" "lock (cache_lock ?st) = 0" using L w(2) by (simp_all add: fat32_close_def Let_def)
  note o = chain_at_other_write [OF dir(1) w(3) dir(3,4)]
  have "linked (fat_get fs dk) ds" "linked (fat_get fs dk') ds" using dir(1) o(1) by (simp_all add: chain_at_def)
  then have "map_option fst (fat32_find fs (hd ds) m ?st) = map_option fst (fat32_find fs (hd ds) m st)" for m
    using F [OF _ c(2,1), of m] F [OF _ L H, of m] o(2) by auto
  then show ?thesis using w(1) by blast
qed

lemma ram_data_chain:
  "chain_at ram_fs (fat_put ram_fs (ram_root b) 3 0x0FFFFFFF) [3]" if "length b = 512"
proof -
  note d = ram_root_512 [OF that]
  have i: "fat_index 3" by (simp add: fat_index_def)
  show ?thesis using fat_get_put [OF d i i, of ram_fs "0x0FFFFFFF"]
    by (simp add: chain_at_def chain_ok_def fat_index_def cluster_sectors_def cluster_sector_def fat_sector_of_def ram_fs_def)
qed

theorem fat32_close_keeps_old_size_witness:
  "\<exists>(st :: disk fat_state) st'. fat32_write (Some 0) [72, 105] 2 st = Some (2, st') \<and>
     map_option fst (fat32_find ram_fs 2 (to_8_3 [0x61]) (fat32_close (Some 0) st')) = map_option fst (fat32_find ram_fs 2 (to_8_3 [0x61]) st)"
proof -
  let ?b = "replicate 512 0 :: u8 list" and ?f = "new_file ram_fs 3"
  let ?dk = "fat_put ram_fs (ram_root ?b) 3 0x0FFFFFFF" let ?st = "ram_state ?dk [?f]"
  have b: "length ?b = 512" by simp
  note d0 = ram_root_512 [OF b]
  then have d1: "disk512 ?dk" by (rule disk512_put)
  then have h: "ram_holds ?dk (dev_state ?st)" "lock (cache_lock ?st) = 0" by (simp_all add: ram_holds_def ram_sec_def disk512_def fun_eq_iff)
  have cf: "curr_cluster ?f # [] = [3]" by (simp add: new_file_def)
  have r: "chain_at ram_fs ?dk [2]" using chain_at_fat_put(1) [OF ram_root_chain [OF b] d0, of 3 "0x0FFFFFFF"] ram_root_get [of 3 ?b] ram_root_sectors
    by (simp add: fat_index_def fat_sector_of_def ram_fs_def)
  have k: "chain_at ram_fs ?dk (curr_cluster ?f # [])" unfolding cf using ram_data_chain [OF b] .
  have ln: "length (chain_bytes ram_fs ?dk (curr_cluster ?f # [])) = 512"
    using cluster_bytes_length [OF d1 ram_geometry, of 3] unfolding cf by (simp add: chain_bytes_def ram_fs_def)
  have se: "dir_sectors ram_fs (curr_cluster ?f # []) = [41]"
    unfolding cf by (simp add: dir_sectors_def cluster_sectors_def cluster_sector_def ram_fs_def)
  have s: "\<forall>c \<in> set [2]. fat_sector_of ram_fs c \<notin> set (dir_sectors ram_fs (curr_cluster ?f # []))"
    "set (dir_sectors ram_fs [2]) \<inter> set (dir_sectors ram_fs (curr_cluster ?f # [])) = {}"
    unfolding se ram_root_sectors by (simp_all add: fat_sector_of_def ram_fs_def)
  have u: "0 < unat (2 :: u32)" "unat (2 :: u32) < 2 ^ 31" "unat (2 :: u32) \<le> length [72, 105 :: u8]" "unat (file_pos ?f) + unat (2 :: u32) < 2 ^ 32"
    "curr_offset ?f < bytes_per_cluster ram_fs" "unat (curr_offset ?f) + unat (2 :: u32) < length (chain_bytes ram_fs ?dk (curr_cluster ?f # []))"
    "f_used ?f" "f_mode ?f = 1" "f_fs ?f = Some ram_fs" "open_files ?st ! 0 = ?f"
    unfolding ln by (simp_all add: new_file_def ram_fs_def)
  from fat32_close_keeps_old_size [OF ram_device, OF h(2,1) ram_geometry u(10,7-9) k places_ok_all u(5,6) u(1-4) r places_ok_all s(2,1)]
  obtain st' where "fat32_write (Some 0) [72, 105] 2 ?st = Some (2, st')"
    "\<forall>m. map_option fst (fat32_find ram_fs 2 m (fat32_close (Some 0) st')) = map_option fst (fat32_find ram_fs 2 m ?st)" by auto
  then show ?thesis by blast
qed

end
