(* ===== verification/Vfs_Proofs.thy ===== *)
theory Vfs_Proofs
  imports Vfs Kmalloc_Proofs "HOL-Library.Sublist"
begin

unbundle bit_operations_syntax

text \<open>
  The correctness of \<^verbatim>\<open>kernel/src/vfs.c\<close>: path normalisation computes the canonical path of a list of
  components, the lookup in the mount table is the longest match on components, and mounting and
  unmounting keep the table well formed and its structures in live heap blocks.
\<close>

subsection \<open>Canonical paths\<close>

text \<open>
  The components of a path: the pieces between slashes, without the bytes that are not printable,
  the empty ones left out. \<open>path_of\<close> writes a list of components as a path.
\<close>

fun split_slash :: "u8 list \<Rightarrow> u8 list list" where
  "split_slash [] = [[]]"
| "split_slash (c # cs) =
     (if c = SLASH then [] # split_slash cs else (case split_slash cs of [] \<Rightarrow> [[c]] | x # xs \<Rightarrow> (c # x) # xs))"

definition clean :: "u8 list list \<Rightarrow> u8 list list" where
  "clean ss = filter (\<lambda>x. x \<noteq> []) (map (filter printable) ss)"

definition path_parts :: "u8 list \<Rightarrow> u8 list list" where
  "path_parts p = clean (split_slash p)"

definition join :: "u8 list list \<Rightarrow> u8 list" where
  "join ps = concat (map (Cons SLASH) ps)"

definition path_of :: "u8 list list \<Rightarrow> u8 list" where
  "path_of ps = (if ps = [] then [SLASH] else join ps)"

definition part_ok :: "u8 list \<Rightarrow> bool" where
  "part_ok p \<longleftrightarrow> p \<noteq> [] \<and> SLASH \<notin> set p \<and> (\<forall>c \<in> set p. printable c)"

lemma join_simps [simp]: "join [] = []" "join (p # ps) = SLASH # p @ join ps" "join (ps @ qs) = join ps @ join qs"
  by (simp_all add: join_def)

lemma clean_simps [simp]: "clean [] = []"
  "clean (s # ss) = (if filter printable s = [] then clean ss else filter printable s # clean ss)"
  by (simp_all add: clean_def)

lemma split_slash_nonempty [simp]: "split_slash p \<noteq> []"
  by (induction p rule: split_slash.induct) (auto split: list.splits)

lemma split_slash_no_slash: "s \<in> set (split_slash p) \<Longrightarrow> SLASH \<notin> set s"
  by (induction p arbitrary: s rule: split_slash.induct) (auto split: if_splits list.splits)

lemma clean_ok: "\<forall>s \<in> set ss. SLASH \<notin> set s \<Longrightarrow> \<forall>p \<in> set (clean ss). part_ok p"
  by (induction ss) (auto simp: part_ok_def)

lemma path_parts_ok: "p \<in> set (path_parts q) \<Longrightarrow> part_ok p"
  using clean_ok [of "split_slash q"] split_slash_no_slash unfolding path_parts_def by blast

text \<open>What the copying loop writes for a list of pieces, each but the first after a slash.\<close>

fun emit :: "bool \<Rightarrow> u8 list list \<Rightarrow> u8 list" where
  "emit last_slash [] = []"
| "emit last_slash (s # ss) =
     (if last_slash then [] else [SLASH]) @ filter printable s @ emit (filter printable s = []) ss"

lemma norm_loop_dst: "norm_loop src l dst = dst @ norm_loop src l []"
proof (induction src arbitrary: l dst)
  case (Cons c src)
  show ?case
    using Cons [of True "dst @ [SLASH]"] Cons [of True "[SLASH]"] Cons [of l dst] Cons [of True dst] Cons [of False "dst @ [c]"] Cons [of False "[c]"]
    by simp
qed simp

lemma norm_loop_emit:
  "norm_loop src l [] = (case split_slash src of s # ss \<Rightarrow> filter printable s @ emit (l \<and> filter printable s = []) ss | [] \<Rightarrow> [])"
proof (induction src arbitrary: l)
  case (Cons c src)
  obtain s ss where s: "split_slash src = s # ss" using split_slash_nonempty [of src] by (cases "split_slash src") auto
  show ?case
    using Cons [of True] Cons [of l] Cons [of False] s norm_loop_dst [of src True "[SLASH]"] norm_loop_dst [of src False "[c]"]
    by auto
qed simp

lemma emit_join:
  "\<exists>t \<in> {[], [SLASH]}. emit False ss = (if clean ss = [] then (if ss = [] then [] else [SLASH]) else join (clean ss) @ t)"
  "\<exists>t \<in> {[], [SLASH]}. emit True ss = (if clean ss = [] then [] else tl (join (clean ss)) @ t)"
proof (induction ss)
  case (Cons s ss)
  { case 1 show ?case using Cons by (cases "clean ss") auto }
  { case 2 show ?case using Cons by (cases "clean ss") auto }
qed auto

lemma last_join: "ps \<noteq> [] \<Longrightarrow> \<forall>p \<in> set ps. part_ok p \<Longrightarrow> last (join ps) \<noteq> SLASH \<and> join ps \<noteq> [] \<and> 1 < length (join ps)"
proof (induction ps)
  case (Cons p ps)
  then have "p \<noteq> []" "SLASH \<notin> set p" by (auto simp: part_ok_def)
  then have "last p \<noteq> SLASH" "0 < length p" by (auto dest: last_in_set)
  then show ?case using Cons by (cases "ps = []") auto
qed simp

lemma normalize_canonical:
  "normalize_path p = (if p \<noteq> [] \<and> hd p = SLASH then Some (path_of (path_parts p)) else None)"
proof (cases "p \<noteq> [] \<and> hd p = SLASH")
  case True
  then obtain q where p: "p = SLASH # q" by (cases p) auto
  have n: "norm_loop p False [] = emit False (split_slash q)" using norm_loop_emit [of p False] p by simp
  have pp: "path_parts p = clean (split_slash q)" by (simp add: p path_parts_def)
  obtain t where t: "t \<in> {[], [SLASH]}" "emit False (split_slash q) =
      (if clean (split_slash q) = [] then [SLASH] else join (clean (split_slash q)) @ t)"
    using emit_join(1) [of "split_slash q"] by (simp only: split_slash_nonempty if_False) blast
  show ?thesis
  proof (cases "clean (split_slash q) = []")
    case True
    then show ?thesis using t p n pp by (simp add: normalize_path_def path_of_def)
  next
    case False
    have "\<forall>x \<in> set (path_parts p). part_ok x" using path_parts_ok by blast
    with False have "last (join (clean (split_slash q))) \<noteq> SLASH" "join (clean (split_slash q)) \<noteq> []" "1 < length (join (clean (split_slash q)))"
      using last_join [of "clean (split_slash q)"] pp by auto
    then show ?thesis using False t p n pp by (auto simp: normalize_path_def path_of_def Let_def)
  qed
qed (auto simp: normalize_path_def)

text \<open>Canonical paths are exactly the values of \<open>path_of\<close>.\<close>

lemma split_slash_part: "SLASH \<notin> set p \<Longrightarrow> split_slash (p @ q) =
    (case split_slash q of [] \<Rightarrow> [p] | x # xs \<Rightarrow> (p @ x) # xs)"
proof (induction p)
  case Nil
  then show ?case by (cases "split_slash q") auto
next
  case (Cons c p)
  then show ?case by (cases "split_slash q") auto
qed

lemma split_slash_join: "\<forall>p \<in> set ps. part_ok p \<Longrightarrow> split_slash (join ps) = [] # ps"
proof (induction ps)
  case (Cons p ps)
  then have "SLASH \<notin> set p" by (simp add: part_ok_def)
  then show ?case using Cons by (simp add: split_slash_part)
qed simp

lemma filter_part: "part_ok p \<Longrightarrow> filter printable p = p"
  by (simp add: part_ok_def)

lemma clean_parts: "\<forall>p \<in> set ps. part_ok p \<Longrightarrow> clean ps = ps"
  by (induction ps) (auto simp: filter_part part_ok_def)

lemma path_parts_join: "\<forall>p \<in> set ps. part_ok p \<Longrightarrow> path_parts (join ps) = ps"
  by (simp add: path_parts_def split_slash_join clean_parts)

lemma path_parts_of: "\<forall>p \<in> set ps. part_ok p \<Longrightarrow> path_parts (path_of ps) = ps"
  by (simp add: path_of_def path_parts_join) (simp add: path_parts_def)

lemma path_of_hd: "path_of ps \<noteq> [] \<and> hd (path_of ps) = SLASH"
  by (cases ps) (simp_all add: path_of_def)

lemma normalize_path_of: "\<forall>p \<in> set ps. part_ok p \<Longrightarrow> normalize_path (path_of ps) = Some (path_of ps)"
  by (simp add: normalize_canonical path_of_hd path_parts_of)

subsection \<open>Mount lookup\<close>

definition canonical :: "u8 list \<Rightarrow> bool" where
  "canonical p \<longleftrightarrow> normalize_path p = Some p"

lemma canonical_iff: "canonical p \<longleftrightarrow> p = path_of (path_parts p)"
  unfolding canonical_def using normalize_canonical [of p] path_of_hd by (metis option.inject option.distinct(1))

lemma canonical_path_of: "\<forall>p \<in> set ps. part_ok p \<Longrightarrow> canonical (path_of ps)"
  by (simp add: canonical_def normalize_path_of)

text \<open>
  A mount point covers a path when its components are a prefix of those of the path; the code lets
  a mount point \<^verbatim>\<open>/\<close> cover the path \<^verbatim>\<open>/\<close> only.
\<close>

definition covers :: "u8 list list \<Rightarrow> u8 list list \<Rightarrow> bool" where
  "covers ps qs \<longleftrightarrow> (if ps = [] then qs = [] else prefix ps qs)"

definition path_match :: "u8 list \<Rightarrow> u8 list \<Rightarrow> bool" where
  "path_match real p \<longleftrightarrow> take (length p) real = p \<and> (char_at real (length p) = SLASH \<or> char_at real (length p) = 0)"

lemma path_match_iff: "path_match real p \<longleftrightarrow> (\<exists>r. real = p @ r \<and> (r = [] \<or> hd r = SLASH \<or> hd r = 0))"
proof
  assume "path_match real p"
  then have "real = p @ drop (length p) real" "drop (length p) real = [] \<or> hd (drop (length p) real) = char_at real (length p)"
    unfolding path_match_def char_at_def by (metis append_take_drop_id, metis drop_eq_Nil hd_drop_conv_nth not_le)
  then show "\<exists>r. real = p @ r \<and> (r = [] \<or> hd r = SLASH \<or> hd r = 0)"
    using \<open>path_match real p\<close> unfolding path_match_def by metis
next
  assume "\<exists>r. real = p @ r \<and> (r = [] \<or> hd r = SLASH \<or> hd r = 0)"
  then show "path_match real p" by (auto simp: path_match_def char_at_def hd_conv_nth nth_append)
qed

lemma printable_nonzero: "printable c \<Longrightarrow> c \<noteq> 0"
  by (auto simp: printable_def)

lemma part_hd: "part_ok p \<Longrightarrow> hd (p @ r) \<noteq> SLASH \<and> hd (p @ r) \<noteq> 0"
  by (cases p) (auto simp: part_ok_def printable_nonzero)

lemma part_split:
  assumes "SLASH \<notin> set p" "SLASH \<notin> set q" "p @ x = q @ y" "x = [] \<or> hd x = SLASH \<or> hd x = 0" "y = [] \<or> hd y = SLASH"
    "\<forall>c \<in> set q. c \<noteq> 0"
  shows "p = q \<and> x = y"
  using assms
proof (induction p arbitrary: q)
  case Nil
  then show ?case by (cases q) auto
next
  case (Cons c p)
  then show ?case by (cases q) auto
qed

lemma join_match:
  "\<forall>p \<in> set ps. part_ok p \<Longrightarrow> \<forall>q \<in> set qs. part_ok q \<Longrightarrow>
     (\<exists>r. join qs = join ps @ r \<and> (r = [] \<or> hd r = SLASH \<or> hd r = 0)) \<longleftrightarrow> prefix ps qs"
proof (induction ps arbitrary: qs)
  case Nil
  then show ?case by (cases qs) auto
next
  case (Cons p ps)
  show ?case
  proof (cases qs)
    case (Cons q rs)
    have ok: "part_ok p" "part_ok q" using Cons.prems Cons by auto
    have j: "join xs = [] \<or> hd (join xs) = SLASH" for xs by (cases xs) auto
    have eq: "(q @ join rs = (p @ join ps) @ r) \<longleftrightarrow> p = q \<and> join rs = join ps @ r" if "r = [] \<or> hd r = SLASH \<or> hd r = 0" for r
    proof
      assume e: "q @ join rs = (p @ join ps) @ r"
      have "join ps @ r = [] \<or> hd (join ps @ r) = SLASH \<or> hd (join ps @ r) = 0" using that j [of ps] by (cases ps) auto
      then show "p = q \<and> join rs = join ps @ r"
        using part_split [of p q "join ps @ r" "join rs"] ok e j [of rs] printable_nonzero by (auto simp: part_ok_def)
    qed simp
    have "(join qs = join (p # ps) @ r) = (q @ join rs = (p @ join ps) @ r)" for r using Cons by simp
    then have "(\<exists>r. join qs = join (p # ps) @ r \<and> (r = [] \<or> hd r = SLASH \<or> hd r = 0)) \<longleftrightarrow>
        p = q \<and> (\<exists>r. join rs = join ps @ r \<and> (r = [] \<or> hd r = SLASH \<or> hd r = 0))" using eq by blast
    then show ?thesis using Cons.IH [of rs] Cons.prems Cons by simp
  qed auto
qed

lemma match_covers:
  assumes "\<forall>p \<in> set ps. part_ok p" "\<forall>q \<in> set qs. part_ok q"
  shows "path_match (path_of qs) (path_of ps) \<longleftrightarrow> covers ps qs"
proof (cases "ps = []")
  case True
  show ?thesis
  proof (cases qs)
    case (Cons q rs)
    then have "hd (q @ join rs) \<noteq> SLASH \<and> hd (q @ join rs) \<noteq> 0" "q \<noteq> []" using part_hd assms(2) by (auto simp: part_ok_def)
    then show ?thesis using True Cons by (auto simp: path_match_iff covers_def path_of_def)
  qed (use True in \<open>auto simp: path_match_iff covers_def path_of_def\<close>)
next
  case False
  then have "1 < length (join ps)" using last_join assms(1) by blast
  then have "\<not> path_match [SLASH] (join ps)" by (auto simp: path_match_iff dest: arg_cong [of _ _ length])
  then show ?thesis using False join_match [OF assms] by (cases "qs = []") (auto simp: path_match_iff covers_def path_of_def)
qed

text \<open>The loop finds a matching mount point with the longest path.\<close>

definition matches :: "u8 list \<Rightarrow> ('s, 'p) vfs_mount_rec \<Rightarrow> bool" where
  "matches real m \<longleftrightarrow> path_match real (m_path m)"

lemma mount_loop_spec:
  assumes "mount_loop real ms b n = (r, k)" "\<And>m. b = Some m \<Longrightarrow> matches real m \<and> length (m_path m) = n"
    "b = None \<Longrightarrow> n = 0" "\<forall>m \<in> set ms. m_path m \<noteq> []"
  shows "n \<le> k \<and> (\<forall>m \<in> set ms. matches real m \<longrightarrow> length (m_path m) \<le> k) \<and>
    (case r of None \<Rightarrow> b = None \<and> k = 0 | Some m \<Rightarrow> (b = Some m \<or> m \<in> set ms) \<and> matches real m \<and> length (m_path m) = k)"
  using assms
proof (induction real ms b n arbitrary: r k rule: mount_loop.induct)
  case (2 real m ms b n)
  show ?case
  proof (cases "matches real m \<and> length (m_path m) > n")
    case True
    then have s: "mount_loop real ms (Some m) (length (m_path m)) = (r, k)"
      using 2(3) by (auto simp: matches_def path_match_def Let_def)
    have "length (m_path m) \<le> k \<and> (\<forall>x \<in> set ms. matches real x \<longrightarrow> length (m_path x) \<le> k) \<and>
      (case r of None \<Rightarrow> Some m = None \<and> k = 0 | Some x \<Rightarrow> (Some m = Some x \<or> x \<in> set ms) \<and> matches real x \<and> length (m_path x) = k)"
      using True 2(6) by (intro 2(1) [OF refl _ s]) (auto simp: matches_def path_match_def)
    then show ?thesis using True by (cases r) auto
  next
    case False
    then have s: "mount_loop real ms b n = (r, k)" using 2(3) by (auto simp: matches_def path_match_def Let_def)
    have "n \<le> k \<and> (\<forall>x \<in> set ms. matches real x \<longrightarrow> length (m_path x) \<le> k) \<and>
      (case r of None \<Rightarrow> b = None \<and> k = 0 | Some x \<Rightarrow> (b = Some x \<or> x \<in> set ms) \<and> matches real x \<and> length (m_path x) = k)"
      using False 2(4-6) by (intro 2(2) [OF refl _ s]) (auto simp: matches_def path_match_def)
    then show ?thesis using False by (cases r) auto
  qed
qed (auto split: option.splits)

lemma prefix_join_length: "prefix ps qs \<Longrightarrow> ps \<noteq> qs \<Longrightarrow> length (join ps) < length (join qs)"
proof -
  assume "prefix ps qs" "ps \<noteq> qs"
  then obtain q rs where "qs = ps @ q # rs" by (metis prefix_def append_Nil2 neq_Nil_conv)
  then show ?thesis by simp
qed

lemma covers_longest:
  assumes "covers ps qs" "covers ps' qs" "length (path_of ps') \<le> length (path_of ps)"
  shows "prefix ps' ps"
proof (cases "ps = [] \<or> ps' = []")
  case False
  then have "prefix ps qs" "prefix ps' qs" "length (join ps') \<le> length (join ps)"
    using assms by (simp_all add: covers_def path_of_def)
  then show ?thesis using prefix_same_cases prefix_join_length by (metis not_le order_refl)
qed (use assms in \<open>auto simp: covers_def split: if_splits\<close>)

text \<open>The path relative to a mount point.\<close>

definition rel_of :: "u8 list list \<Rightarrow> u8 list" where
  "rel_of rs = tl (join rs)"

lemma rel_of_parts: "\<forall>p \<in> set rs. part_ok p \<Longrightarrow> path_parts (rel_of rs) = rs \<and> (rel_of rs = [] \<or> hd (rel_of rs) \<noteq> SLASH)"
proof (cases rs)
  case (Cons r rs')
  moreover assume "\<forall>p \<in> set rs. part_ok p"
  ultimately have ok: "part_ok r" "\<forall>p \<in> set rs'. part_ok p" by auto
  then have "split_slash (r @ join rs') = r # rs'" by (simp add: split_slash_part split_slash_join part_ok_def)
  then show ?thesis using Cons ok clean_parts [of rs] part_hd [of r "join rs'"] by (auto simp: rel_of_def path_parts_def)
qed (simp add: rel_of_def path_parts_def)

lemma drop_mount:
  assumes "covers ps qs" "\<forall>q \<in> set qs. part_ok q"
  shows "dropWhile (\<lambda>c. c = SLASH) (drop (length (path_of ps)) (path_of qs)) = rel_of (drop (length ps) qs)"
proof (cases "ps = []")
  case False
  then obtain rs where qs: "qs = ps @ rs" using assms(1) by (auto simp: covers_def prefix_def)
  show ?thesis
  proof (cases rs)
    case (Cons r rs')
    then have "hd (r @ join rs') \<noteq> SLASH" "r \<noteq> []" using qs assms(2) part_hd [of r] by (auto simp: part_ok_def)
    then show ?thesis using False qs Cons by (cases r) (auto simp: path_of_def rel_of_def)
  qed (use False qs in \<open>simp add: path_of_def rel_of_def\<close>)
qed (use assms in \<open>simp add: covers_def path_of_def rel_of_def\<close>)

definition table_ok :: "('s, 'p) vfs \<Rightarrow> bool" where
  "table_ok v \<longleftrightarrow> (\<forall>m \<in> set (mounts v). canonical (m_path m))"

definition parts :: "('s, 'p) vfs_mount_rec \<Rightarrow> u8 list list" where
  "parts m = path_parts (m_path m)"

text \<open>The mount point a path belongs to: the deepest one that covers it, with the rest of the path.\<close>

definition routes_to :: "('s, 'p) vfs \<Rightarrow> u8 list list \<Rightarrow> (('s, 'p) vfs_mount_rec \<times> u8 list) option \<Rightarrow> bool" where
  "routes_to v qs r \<longleftrightarrow> (case r of
     None \<Rightarrow> \<forall>m \<in> set (mounts v). \<not> covers (parts m) qs
   | Some (m, rel) \<Rightarrow> m \<in> set (mounts v) \<and> qs = parts m @ path_parts rel \<and> (rel = [] \<or> hd rel \<noteq> SLASH) \<and>
       covers (parts m) qs \<and> (\<forall>m' \<in> set (mounts v). covers (parts m') qs \<longrightarrow> prefix (parts m') (parts m)))"

lemma find_mount_routes:
  assumes T: "table_ok v" and q: "\<forall>q \<in> set qs. part_ok q"
  shows "routes_to v qs (find_mount_for_real_path v (path_of qs))"
proof -
  have mp: "m_path m = path_of (parts m)" "\<forall>p \<in> set (parts m). part_ok p" if "m \<in> set (mounts v)" for m
    using that T canonical_iff [of "m_path m"] path_parts_ok by (auto simp: table_ok_def parts_def)
  have mt: "matches (path_of qs) m \<longleftrightarrow> covers (parts m) qs" if "m \<in> set (mounts v)" for m
    using match_covers [OF mp(2) [OF that] q] mp(1) [OF that] by (simp add: matches_def)
  obtain r k where l: "mount_loop (path_of qs) (mounts v) None 0 = (r, k)" by fastforce
  have "\<forall>m \<in> set (mounts v). m_path m \<noteq> []" using mp(1) path_of_hd by metis
  with mount_loop_spec [OF l] have s: "\<forall>m \<in> set (mounts v). matches (path_of qs) m \<longrightarrow> length (m_path m) \<le> k"
    "case r of None \<Rightarrow> k = 0 | Some m \<Rightarrow> m \<in> set (mounts v) \<and> matches (path_of qs) m \<and> length (m_path m) = k"
    by (auto split: option.splits)
  show ?thesis
  proof (cases r)
    case None
    then have "\<forall>m \<in> set (mounts v). \<not> matches (path_of qs) m" using s \<open>\<forall>m \<in> set (mounts v). m_path m \<noteq> []\<close> by auto
    then show ?thesis using None l mt path_of_hd [of qs] by (simp add: routes_to_def find_mount_for_real_path_def)
  next
    case (Some m)
    then have m: "m \<in> set (mounts v)" "covers (parts m) qs" "length (m_path m) = k" using s(2) mt by auto
    have "prefix (parts m') (parts m)" if "m' \<in> set (mounts v)" "covers (parts m') qs" for m'
      using covers_longest [OF m(2) that(2)] s(1) mt that m(3) mp(1) [OF that(1)] mp(1) [OF m(1)] by auto
    moreover have "find_mount_for_real_path v (path_of qs) = Some (m, rel_of (drop (length (parts m)) qs))"
      using l Some drop_mount [OF m(2) q] path_of_hd [of qs] m(3) mp(1) [OF m(1)] by (simp add: find_mount_for_real_path_def)
    moreover have "qs = parts m @ drop (length (parts m)) qs"
      using m(2) by (auto simp: covers_def prefix_def split: if_splits)
    moreover have "path_parts (rel_of (drop (length (parts m)) qs)) = drop (length (parts m)) qs \<and>
        (rel_of (drop (length (parts m)) qs) = [] \<or> hd (rel_of (drop (length (parts m)) qs)) \<noteq> SLASH)"
      using q by (intro rel_of_parts) (auto dest: in_set_dropD)
    ultimately show ?thesis using m by (simp add: routes_to_def)
  qed
qed

definition MNT_NAME :: "u8 list" where "MNT_NAME = [0x6D, 0x6E, 0x74]"

lemma mnt_facts: "MNT_PATH = path_of [MNT_NAME]" "part_ok MNT_NAME" "length MNT_PATH = 4"
  by (simp_all add: MNT_PATH_def MNT_NAME_def path_of_def part_ok_def printable_def)

lemma translate_bound:
  assumes "user \<noteq> []" "hd user = SLASH" "length user < 252"
  shows "translate_path (Some MNT_PATH) (Some user) 256 = Some (path_of (MNT_NAME # path_parts user))"
proof -
  obtain u where u: "user = SLASH # u" using assms(1,2) by (cases user) auto
  show ?thesis
  proof (cases "length user = 1")
    case True
    then show ?thesis using u by (simp add: translate_path_def mnt_facts(3)) (simp add: mnt_facts(1) path_parts_def)
  next
    case False
    have "split_slash (MNT_PATH @ user) = [] # MNT_NAME # split_slash u"
      unfolding u by (simp add: MNT_PATH_def MNT_NAME_def)
    then have "path_parts (MNT_PATH @ user) = MNT_NAME # path_parts user"
      using u filter_part [OF mnt_facts(2)] by (simp add: path_parts_def) (simp add: MNT_NAME_def)
    moreover have "MNT_PATH @ user \<noteq> [] \<and> hd (MNT_PATH @ user) = SLASH" by (simp add: MNT_PATH_def)
    ultimately show ?thesis using False assms by (simp add: translate_path_def normalize_canonical mnt_facts(3))
  qed
qed

lemma route_bound:
  assumes "table_ok v" "bind_path v = Some MNT_PATH" "user \<noteq> []" "hd user = SLASH" "length user < 252"
  shows "\<exists>r. vfs_route v (Some user) = Inr r \<and> routes_to v (MNT_NAME # path_parts user) r"
  using find_mount_routes [OF assms(1), of "MNT_NAME # path_parts user"] translate_bound [OF assms(3-5)] assms(2)
    mnt_facts(2) path_parts_ok by (auto simp: vfs_route_def)

subsection \<open>The mount table\<close>

text \<open>Addresses of structures that a component has allocated and not freed.\<close>

definition owned_by :: "block list \<Rightarrow> u64 list \<Rightarrow> bool" where
  "owned_by us xs \<longleftrightarrow> distinct xs \<and> set xs \<subseteq> (\<lambda>b. fst b + 24) ` set us"

lemma owned_by_new:
  assumes "\<forall>u \<in> set us. extent a \<inter> extent u = {}" "owned_by us xs"
  shows "owned_by (a # us) ((fst a + 24) # xs)"
proof -
  have "fst a + 24 \<notin> set xs"
  proof
    assume "fst a + 24 \<in> set xs"
    then obtain u where u: "u \<in> set us" "fst u = fst a" using assms(2) by (auto simp: owned_by_def)
    then have "unat (fst a) \<in> extent u" "unat (fst a) \<in> extent a" by (simp_all add: extent_def)
    then show False using assms(1) u(1) by blast
  qed
  then show ?thesis using assms(2) by (auto simp: owned_by_def)
qed

lemma owned_by_remove:
  assumes "owned_by us xs" "b \<in> set us" "a = fst b + 24"
  shows "owned_by (remove1 b us) (remove1 a xs)"
proof -
  have d: "distinct xs" "set xs \<subseteq> (\<lambda>b. fst b + 24) ` set us" using assms(1) by (simp_all add: owned_by_def)
  have "x \<in> (\<lambda>b. fst b + 24) ` set (remove1 b us)" if "x \<in> set (remove1 a xs)" for x
  proof -
    have "x \<noteq> a" "x \<in> set xs" using that d(1) by simp_all
    then obtain u where "u \<in> set us" "x = fst u + 24" "u \<noteq> b" using d(2) assms(3) by blast
    then show ?thesis by auto
  qed
  then show ?thesis using d(1) by (auto simp: owned_by_def)
qed

context heap_allocator
begin

lemma own_alloc:
  assumes "live s us" "owned_by us xs" "n \<noteq> 0" "unat n \<le> 2 ^ 64 - 16" "alloc s n = Some (p, t)"
  shows "\<exists>us'. live t us' \<and> owned_by us' (p # xs)"
proof -
  from alloc_live [OF assms(1,3,4,5)] obtain b where b: "p = fst b + 24" "live t (b # us)" by blast
  have "\<forall>u \<in> set us. extent b \<inter> extent u = {}" using live_disjoint [OF b(2)] by simp
  from owned_by_new [OF this assms(2)] show ?thesis using b by blast
qed

lemma own_free:
  assumes "live s us" "owned_by us xs" "a \<in> set xs"
  shows "\<exists>t us'. free s a = Some t \<and> live t us' \<and> owned_by us' (remove1 a xs)"
proof -
  obtain b where b: "b \<in> set us" "a = fst b + 24" using assms(2,3) by (auto simp: owned_by_def)
  from free_live [OF assms(1) b(1)] obtain t where "free s a = Some t" "live t (remove1 b us)" using b(2) by blast
  then show ?thesis using owned_by_remove [OF assms(2) b] by blast
qed

end

definition mount_addrs :: "('s, 'p) vfs_mount_rec list \<Rightarrow> u64 list" where
  "mount_addrs ms = map m_path_addr ms @ map m_addr ms"

definition bind_ok :: "('s, 'p) vfs \<Rightarrow> bool" where
  "bind_ok v \<longleftrightarrow> root_bind v = (case List.find (\<lambda>m. m_path m = MNT_PATH) (mounts v) of None \<Rightarrow> NULL | Some m \<Rightarrow> m_addr m)"

text \<open>
  The state of the mount table: initialised, canonical and pairwise different paths, the bind exactly
  on \<^verbatim>\<open>/mnt\<close>, and every structure in a heap block of its own.
\<close>

definition vfs_ok :: "('a kmalloc_state_scheme, 'p) vfs \<Rightarrow> 'a kmalloc_state_scheme \<Rightarrow> bool" where
  "vfs_ok v s \<longleftrightarrow> vfs_initialized v \<and> table_ok v \<and> distinct (map m_path (mounts v)) \<and> bind_ok v \<and>
     (\<exists>us. heap_live s us \<and> owned_by us (mount_addrs (mounts v)))"

lemma owned_by_set: "owned_by us xs \<Longrightarrow> set ys = set xs \<Longrightarrow> length ys = length xs \<Longrightarrow> owned_by us ys"
  unfolding owned_by_def by (metis card_distinct distinct_card)

lemma normalize_Some:
  assumes "normalize_path p = Some q"
  shows "canonical q" "normalize_path q = Some q" "q \<noteq> []" "length q \<le> length p"
proof -
  have q: "q = path_of (path_parts p)" using assms by (simp add: normalize_canonical split: if_splits)
  then show "canonical q" "normalize_path q = Some q" "q \<noteq> []"
    using path_parts_ok canonical_path_of path_of_hd by (blast, metis normalize_path_of, metis)
  have "length (norm_loop a l b) \<le> length a + length b" for a l b
  proof (induction a l b rule: norm_loop.induct)
    case (2 c src l dst)
    then show ?case by (cases "c = SLASH"; cases l; cases "printable c") auto
  qed simp
  from this [of p False "[]"] show "length q \<le> length p"
    using assms by (auto simp: normalize_path_def Let_def Suc_le_eq split: if_splits)
qed

lemma mount_cases:
  assumes K: "vfs_ok v s" and r: "vfs_mount path ops priv v s = Some (ret, v', s')"
  shows "vfs_ok v' s' \<and> (ret \<noteq> 0 \<and> v' = v \<or>
    ret = 0 \<and> (\<exists>p q m. path = Some p \<and> normalize_path (take 255 p) = Some q \<and> q \<notin> set (map m_path (mounts v)) \<and> m_path m = q \<and>
      v' = v\<lparr>mounts := m # mounts v, root_bind := (if q = MNT_PATH then m_addr m else root_bind v)\<rparr>))"
proof (cases "\<exists>p o' q. path = Some p \<and> ops = Some o' \<and> normalize_path (take 255 p) = Some q \<and> q \<notin> set (map m_path (mounts v))")
  case False
  then have "v' = v \<and> s' = s \<and> ret \<noteq> 0" using r K
    by (auto simp: vfs_mount_def vfs_ok_def split: option.splits if_splits)
  then show ?thesis using K by simp
next
  case True
  then obtain p o' q where pq: "path = Some p" "ops = Some o'" "normalize_path (take 255 p) = Some q" "q \<notin> set (map m_path (mounts v))" by blast
  have init: "vfs_initialized v" using K by (simp add: vfs_ok_def)
  obtain us where us: "heap_live s us" "owned_by us (mount_addrs (mounts v))" using K by (auto simp: vfs_ok_def)
  obtain m s1 where m: "kmalloc s 32 = Some (m, s1)" using r pq init by (cases "kmalloc s 32") (auto simp: vfs_mount_def)
  from kh.own_alloc [OF us _ _ m] obtain us1 where us1: "heap_live s1 us1" "owned_by us1 (m # mount_addrs (mounts v))" by auto
  have q: "canonical q" "q \<noteq> []" "length q \<le> 255" using normalize_Some [OF pq(3)] by auto
  let ?n = "of_nat (length q) + 1 :: u64"
  have n: "unat ?n = length q + 1" using q(3) unat_of_nat64 [of "length q + 1"] by (simp add: add.commute)
  then have n0: "?n \<noteq> 0" "unat ?n \<le> 2 ^ 64 - 16" using q(3) by auto
  show ?thesis
  proof (cases "m = 0")
    case True
    then have "v' = v \<and> s' = s1 \<and> ret \<noteq> 0" using r pq init m by (auto simp: vfs_mount_def)
    then show ?thesis using K us1 unfolding vfs_ok_def owned_by_def by auto
  next
    case m0: False
    obtain a s2 where a: "kmalloc s1 ?n = Some (a, s2)"
      using r pq init m m0 by (cases "kmalloc s1 ?n") (auto simp: vfs_mount_def)
    from kh.own_alloc [OF us1 n0 a] obtain us2 where us2: "heap_live s2 us2" "owned_by us2 (a # m # mount_addrs (mounts v))" by auto
    show ?thesis
    proof (cases "a = 0")
      case True
      then obtain s3 where "kfree s2 m = Some s3" "v' = v \<and> s' = s3 \<and> ret \<noteq> 0"
        using r pq init m m0 a by (auto simp: vfs_mount_def bind_eq_Some_conv)
      moreover obtain us3 t where "kfree s2 m = Some t" "heap_live t us3" "owned_by us3 (remove1 m (a # m # mount_addrs (mounts v)))"
        using kh.own_free [OF us2, of m] by auto
      moreover have "a \<noteq> m" using us2(2) by (auto simp: owned_by_def)
      ultimately show ?thesis using K unfolding vfs_ok_def owned_by_def by auto
    next
      case a0: False
      let ?m = "\<lparr>m_addr = m, m_path = q, m_path_addr = a, m_ops = o', private_data = priv\<rparr>"
      have v': "v' = v\<lparr>mounts := ?m # mounts v, root_bind := (if q = MNT_PATH then m else root_bind v)\<rparr>" "s' = s2" "ret = 0"
        using r pq init m m0 a a0 by (auto simp: vfs_mount_def Let_def)
      have "owned_by us2 (mount_addrs (?m # mounts v))"
        by (rule owned_by_set [OF us2(2)]) (auto simp: mount_addrs_def)
      moreover have "bind_ok v'" using K v' pq(4) by (auto simp: vfs_ok_def bind_ok_def)
      ultimately have "vfs_ok v' s'" using K v' us2(1) q(1) pq(4) unfolding vfs_ok_def table_ok_def by auto
      then show ?thesis using v' pq by (intro conjI disjI2 exI [of _ p] exI [of _ q] exI [of _ ?m]) simp_all
    qed
  qed
qed

lemma unlink_mount_split:
  "unlink_mount q ms = Some (m, ms') \<Longrightarrow> \<exists>xs ys. ms = xs @ m # ys \<and> ms' = xs @ ys \<and> m_path m = q \<and> q \<notin> set (map m_path xs)"
proof (induction q ms arbitrary: ms' rule: unlink_mount.induct)
  case (2 q x xs)
  show ?case
  proof (cases "m_path x = q")
    case True
    then show ?thesis using 2(2) by (intro exI [of _ "[]"] exI [of _ xs]) auto
  next
    case False
    then obtain xs' where "unlink_mount q xs = Some (m, xs')" "ms' = x # xs'" using 2(2) by auto
    with 2(1) [OF False] obtain as bs where "xs = as @ m # bs" "xs' = as @ bs" "m_path m = q" "q \<notin> set (map m_path as)" by blast
    then show ?thesis using False \<open>ms' = x # xs'\<close> by (intro exI [of _ "x # as"] exI [of _ bs]) auto
  qed
qed simp

lemma find_split: "List.find P (xs @ ys) = (case List.find P xs of None \<Rightarrow> List.find P ys | Some x \<Rightarrow> Some x)"
  by (induction xs) auto

lemma bind_ok_unlink:
  assumes B: "bind_ok v" and ms: "mounts v = xs @ m # ys" and p: "distinct (map m_path (mounts v))" and a: "distinct (map m_addr (mounts v))"
  shows "bind_ok (v\<lparr>mounts := xs @ ys, root_bind := (if m_addr m = root_bind v then NULL else root_bind v)\<rparr>)"
proof (cases "m_path m = MNT_PATH")
  case True
  then have "\<forall>x \<in> set xs. m_path x \<noteq> MNT_PATH" "\<forall>x \<in> set ys. m_path x \<noteq> MNT_PATH" using p ms by (simp_all add: image_iff) metis+
  then have "List.find (\<lambda>m. m_path m = MNT_PATH) xs = None" "List.find (\<lambda>m. m_path m = MNT_PATH) ys = None"
    by (simp_all add: find_None_iff)
  then show ?thesis using B True ms by (simp add: bind_ok_def find_split)
next
  case False
  then have e: "List.find (\<lambda>m. m_path m = MNT_PATH) (xs @ ys) = List.find (\<lambda>m. m_path m = MNT_PATH) (mounts v)"
    using ms by (simp add: find_split split: option.splits)
  show ?thesis
  proof (cases "List.find (\<lambda>m. m_path m = MNT_PATH) (mounts v)")
    case None
    then show ?thesis using B e by (simp add: bind_ok_def)
  next
    case (Some m')
    then have "m' \<in> set (xs @ ys)" using e by (metis find_Some_iff nth_mem)
    then have "m_addr m' \<noteq> m_addr m" using a ms by (auto simp: image_iff)
    then show ?thesis using B Some e by (simp add: bind_ok_def)
  qed
qed

lemma umount_cases:
  assumes K: "vfs_ok v s"
  shows "\<exists>ret v' s'. vfs_umount path v s = Some (ret, v', s') \<and> vfs_ok v' s'"
proof (cases path)
  case (Some p)
  let ?q = "case normalize_path (take 255 p) of None \<Rightarrow> take 255 p | Some q \<Rightarrow> q"
  show ?thesis
  proof (cases "unlink_mount ?q (mounts v)")
    case None
    then show ?thesis using K Some by (simp add: vfs_umount_def)
  next
    case u: (Some mm)
    obtain m ms where mm: "mm = (m, ms)" by fastforce
    then obtain xs ys where x: "mounts v = xs @ m # ys" "ms = xs @ ys" "m_path m = ?q" "?q \<notin> set (map m_path xs)"
      using unlink_mount_split u by blast
    obtain us where us: "heap_live s us" "owned_by us (mount_addrs (mounts v))" using K by (auto simp: vfs_ok_def)
    from kh.own_free [OF us, of "m_path_addr m"] x(1) obtain s1 us1 where
      f1: "kfree s (m_path_addr m) = Some s1" "heap_live s1 us1" "owned_by us1 (remove1 (m_path_addr m) (mount_addrs (mounts v)))"
      by (auto simp: mount_addrs_def)
    have d: "distinct (mount_addrs (mounts v))" using us(2) by (simp add: owned_by_def)
    then have "m_addr m \<in> set (remove1 (m_path_addr m) (mount_addrs (mounts v)))" using x(1) by (auto simp: mount_addrs_def)
    from kh.own_free [OF f1(2,3) this] obtain s2 us2 where
      f2: "kfree s1 (m_addr m) = Some s2" "heap_live s2 us2"
        "owned_by us2 (remove1 (m_addr m) (remove1 (m_path_addr m) (mount_addrs (mounts v))))" by auto
    let ?v = "v\<lparr>mounts := ms, root_bind := (if m_addr m = root_bind v then NULL else root_bind v)\<rparr>"
    have "owned_by us2 (mount_addrs ms)"
      using f2(3) d x(1,2) by (intro owned_by_set [OF f2(3)]) (auto simp: mount_addrs_def length_remove1)
    moreover have "distinct (map m_addr (mounts v))" using d by (simp add: mount_addrs_def)
    then have "bind_ok (v\<lparr>mounts := ms, root_bind := (if m_addr m = root_bind v then NULL else root_bind v)\<rparr>)"
      using bind_ok_unlink [of v xs m ys] K x(1,2) by (simp add: vfs_ok_def)
    moreover have "vfs_umount path v s = Some (VFS_OK, v\<lparr>mounts := ms, root_bind := (if m_addr m = root_bind v then NULL else root_bind v)\<rparr>, s2)"
      using Some u mm f1(1) f2(1) by (simp add: vfs_umount_def Let_def)
    moreover have "table_ok (v\<lparr>mounts := ms\<rparr>)" "distinct (map m_path ms)"
      using K x(1,2) by (simp_all add: vfs_ok_def table_ok_def)
    ultimately have "vfs_umount path v s = Some (VFS_OK, ?v, s2)" "vfs_ok ?v s2"
      using K f2(2) unfolding vfs_ok_def table_ok_def by (simp_all) blast
    then show ?thesis by blast
  qed
qed (use K in \<open>simp add: vfs_umount_def\<close>)

text \<open>States that mounting and unmounting can produce from an empty table.\<close>

inductive vfs_reachable :: "('a kmalloc_state_scheme, 'p) vfs \<Rightarrow> 'a kmalloc_state_scheme \<Rightarrow> bool" where
  start: "heap_live s us \<Longrightarrow> vfs_initialized v \<Longrightarrow> mounts v = [] \<Longrightarrow> root_bind v = NULL \<Longrightarrow> vfs_reachable v s"
| mount: "vfs_reachable v s \<Longrightarrow> vfs_mount path ops priv v s = Some (ret, v', s') \<Longrightarrow> vfs_reachable v' s'"
| umount: "vfs_reachable v s \<Longrightarrow> vfs_umount path v s = Some (ret, v', s') \<Longrightarrow> vfs_reachable v' s'"

lemma reachable_ok: "vfs_reachable v s \<Longrightarrow> vfs_ok v s"
proof (induction rule: vfs_reachable.induct)
  case (start s us v)
  then have "table_ok v" "bind_ok v" "distinct (map m_path (mounts v))" "owned_by us (mount_addrs (mounts v))"
    by (simp_all add: table_ok_def bind_ok_def owned_by_def mount_addrs_def)
  then show ?case using start unfolding vfs_ok_def by blast
next
  case (mount v s path ops priv ret v' s')
  show ?case using mount_cases [OF mount.IH mount.hyps(2)] by (rule conjunct1)
next
  case (umount v s path ret v' s')
  then show ?case using umount_cases [of v s path] by auto
qed

lemma ok_bind_path: "vfs_ok v s \<Longrightarrow> m \<in> set (mounts v) \<Longrightarrow> m_path m = MNT_PATH \<Longrightarrow> m_addr m \<noteq> NULL \<Longrightarrow> bind_path v = Some MNT_PATH"
proof -
  assume K: "vfs_ok v s" and m: "m \<in> set (mounts v)" "m_path m = MNT_PATH" "m_addr m \<noteq> NULL"
  obtain us where "owned_by us (mount_addrs (mounts v))" using K by (auto simp: vfs_ok_def)
  then have a: "distinct (map m_addr (mounts v))" by (simp add: owned_by_def mount_addrs_def)
  obtain x where x: "List.find (\<lambda>m. m_path m = MNT_PATH) (mounts v) = Some x"
    using m by (cases "List.find (\<lambda>m. m_path m = MNT_PATH) (mounts v)") (auto simp: find_None_iff)
  then have "x \<in> set (mounts v)" "m_path x = MNT_PATH" by (auto simp: find_Some_iff)
  then have xm: "x = m" using K m by (metis (mono_tags) distinct_map inj_onD vfs_ok_def)
  then have rb: "root_bind v = m_addr m" using K x by (simp add: vfs_ok_def bind_ok_def)
  have "mount_at v (m_addr m) = Some m"
  proof -
    obtain y where y: "List.find (\<lambda>x. m_addr x = m_addr m) (mounts v) = Some y"
      using m(1) by (cases "List.find (\<lambda>x. m_addr x = m_addr m) (mounts v)") (auto simp: find_None_iff)
    then have "y \<in> set (mounts v)" "m_addr y = m_addr m" by (auto simp: find_Some_iff)
    then have "y = m" using a m(1) by (metis (mono_tags) distinct_map inj_onD)
    then show ?thesis using y by (simp add: mount_at_def)
  qed
  then show ?thesis using rb m(2,3) by (simp add: bind_path_def)
qed

subsection \<open>Room on the heap\<close>

text \<open>
  A heap with a free block of at least \<open>k\<close> bytes in which the structures at \<open>xs\<close> are allocated: such a heap serves
  requests that fit in \<open>k\<close> bytes.
\<close>

definition room :: "'a kmalloc_state_scheme \<Rightarrow> nat \<Rightarrow> u64 list \<Rightarrow> bool" where
  "room s k xs \<longleftrightarrow> (\<exists>fs us. kheap s fs us \<and> (\<exists>b :: block \<in> set fs. k \<le> unat (snd b)) \<and> owned_by us xs)"

lemma room_live: "room s k xs \<Longrightarrow> \<exists>us. heap_live s us \<and> owned_by us xs"
  unfolding room_def heap_live_def by blast

lemma room_mono: "room s k xs \<Longrightarrow> j \<le> k \<Longrightarrow> room s j xs"
  unfolding room_def by (meson order.trans)

lemma room_set: "room s k xs \<Longrightarrow> set ys = set xs \<Longrightarrow> length ys = length xs \<Longrightarrow> room s k ys"
  unfolding room_def using owned_by_set by metis

lemma alloc_first_room:
  assumes "alloc_first q fs = Some (a, fs')" "b \<in> set fs" "k \<le> unat (snd b)" "unat q + 40 \<le> k" "\<forall>b \<in> set fs. block_valid b"
  shows "\<exists>b' \<in> set fs'. k - unat q - 24 \<le> unat (snd b')"
proof -
  from alloc_first_Some [OF assms(1)] obtain xs c ys where fs: "fs = xs @ c # ys" "fs' = xs @ remainder q c @ ys" by blast
  show ?thesis
  proof (cases "b = c")
    case True
    have "block_valid (fst c, snd c)" using assms(5) fs(1) by simp
    from unat_block_parts(2) [OF this, of q] have "k - unat q - 24 \<le> unat (snd c - q - 24)" using assms(3,4) True by simp
    moreover have "remainder q c = [(fst c + 24 + q, snd c - q - 24)]" using assms(3,4) True by (simp add: remainder_def)
    ultimately show ?thesis using fs(2) by auto
  next
    case False
    then have "b \<in> set fs'" using assms(2) fs by auto
    then show ?thesis using assms(3) by (metis diff_le_self order.trans)
  qed
qed

lemma room_kmalloc:
  assumes "room s k xs" "sz \<noteq> 0" "unat (round_size sz) + 40 \<le> k"
  shows "\<exists>p t. kmalloc s sz = Some (p, t) \<and> p \<noteq> NULL \<and> room t (k - unat (round_size sz) - 24) (p # xs)"
proof -
  let ?q = "round_size sz"
  obtain fs us b where K: "kheap s fs us" "b \<in> set fs" "k \<le> unat (snd b)" "owned_by us xs" using assms(1) unfolding room_def by blast
  have f: "fit ?q b" using K(3) assms(3) by (simp add: fit_def word_le_nat_alt)
  then have "alloc_first ?q fs \<noteq> None" using K(2) by (auto simp: alloc_first_None)
  then obtain a fs' where a: "alloc_first ?q fs = Some (a, fs')" by (cases "alloc_first ?q fs") auto
  from kmalloc_fits [OF K(1) assms(2) a] obtain t where t: "kmalloc s sz = Some (fst a + 24, t)" "kheap t fs' (a # us)" by blast
  have v: "\<forall>b \<in> set fs. block_valid b" using K(1) by (auto simp: kheap_def heap_layout_def)
  have "\<forall>u \<in> set us. extent a \<inter> extent u = {}" using t(2) by (simp add: kheap_def heap_layout_def sorted_wrt_append)
  from owned_by_new [OF this K(4)]
  have "room t (k - unat ?q - 24) ((fst a + 24) # xs)"
    using t(2) alloc_first_room [OF a K(2,3) assms(3) v] unfolding room_def by blast
  then show ?thesis using t(1) used_not_NULL [OF t(2), of a] by auto
qed

lemma room_kfree:
  assumes R: "room s k xs" and a: "a \<in> set xs"
  shows "\<exists>t. kfree s a = Some t \<and> room t k (remove1 a xs)"
proof -
  obtain fs us c where K: "kheap s fs us" "c \<in> set fs" "k \<le> unat (snd c)" "owned_by us xs" using R unfolding room_def by blast
  obtain b where b: "b \<in> set us" "a = fst b + 24" using K(4) a by (auto simp: owned_by_def)
  from kfree_correct [OF K(1) b(1)] obtain t where t: "kfree s a = Some t" "kheap t (release b fs) (remove1 b us)" unfolding b(2) by blast
  have "block_valid b" "\<forall>c \<in> set fs. block_valid c" using K(1) b(1) by (auto simp: kheap_def heap_layout_def)
  from release_grows [OF this K(2)] obtain d where "d \<in> set (release b fs)" "k \<le> unat (snd d)" using K(3) order_trans by blast
  then have "room t k (remove1 a xs)" using t(2) owned_by_remove [OF K(4) b] unfolding room_def by blast
  then show ?thesis using t(1) by blast
qed

lemma heap_example_room: "\<exists>s :: kmalloc_state. room s 16360 []"
proof -
  obtain t :: kmalloc_state where "kheap t [pool_block 12] []"
    using add_pool_step [OF heap_example_kheap] heap_example_fit by auto
  moreover have "16360 \<le> unat (snd (pool_block 12))" by (simp add: pool_block_def)
  moreover have "owned_by [] []" by (simp add: owned_by_def)
  ultimately show ?thesis unfolding room_def by (meson list.set_intros(1))
qed

lemma owned_not_NULL: "heap_live s us \<Longrightarrow> owned_by us xs \<Longrightarrow> x \<in> set xs \<Longrightarrow> x \<noteq> NULL"
  using used_not_NULL unfolding heap_live_def owned_by_def by fastforce

subsection \<open>Properties\<close>


text \<open>
  Claim C34. In every state that mounting and unmounting produce, the table has canonical and pairwise different
  paths, the structures of the mount points are in live heap blocks of their own, and
  \<open>root_bind\<close> is the mount point \<^verbatim>\<open>/mnt\<close> when there is one and \<open>NULL\<close> otherwise; unmounting always returns.
\<close>

theorem vfs_table_invariant:
  fixes v :: "('a kmalloc_state_scheme, 'p) vfs"
  assumes "vfs_reachable v s"
  shows "vfs_ok v s \<and> (\<exists>ret v' s'. vfs_umount path v s = Some (ret, v', s'))"
  using reachable_ok [OF assms] umount_cases [OF reachable_ok [OF assms], of path] by blast

definition empty_vfs :: "('s, 'p) vfs" where
  "empty_vfs = \<lparr>mounts = [], root_bind = NULL, vfs_initialized = True, vfs_files = Map.empty\<rparr>"

definition no_ops :: "('s, 'p) vfs_fs_ops" where
  "no_ops = \<lparr>op_open = None, op_close = None, op_read = None, op_write = None, op_seek = None, op_tell = None,
     op_truncate = None, op_sync = None, op_mkdir = None, op_rmdir = None, op_unlink = None, op_rename = None, op_stat = None,
     op_opendir = None, op_readdir = None, op_closedir = None, op_sync_fs = None, op_statfs = None\<rparr>"

lemma empty_reachable: "heap_live s us \<Longrightarrow> vfs_reachable empty_vfs s"
  by (rule vfs_reachable.start) (simp_all add: empty_vfs_def)

lemma mount_mnt:
  fixes s :: "'a kmalloc_state_scheme"
  assumes "room s 1000 xs" "vfs_initialized v" "mounts v = []"
  shows "\<exists>m t. vfs_mount (Some MNT_PATH) (Some ops) priv v s =
      Some (0, v\<lparr>mounts := [m], root_bind := m_addr m\<rparr>, t) \<and> m_path m = MNT_PATH \<and> m_ops m = ops \<and>
        private_data m = priv \<and> m_addr m \<noteq> NULL \<and> room t 800 (m_path_addr m # m_addr m # xs)"
proof -
  have r: "round_size 32 = 32" "round_size 5 = 16" by (simp_all add: round_size_def)
  obtain m s1 where m: "kmalloc s 32 = Some (m, s1)" "m \<noteq> NULL" "room s1 944 (m # xs)"
    using room_kmalloc [OF assms(1), of 32] by (auto simp: r)
  obtain p s2 where p: "kmalloc s1 5 = Some (p, s2)" "p \<noteq> NULL" "room s2 904 (p # m # xs)"
    using room_kmalloc [OF m(3), of 5] by (auto simp: r)
  have n: "normalize_path (take 255 MNT_PATH) = Some MNT_PATH"
    using normalize_path_of [of "[MNT_NAME]"] mnt_facts by simp
  have l: "of_nat (length MNT_PATH) + 1 = (5 :: u64)" by (simp add: mnt_facts(3))
  have "room s2 800 (p # m # xs)" using p(3) by (rule room_mono) simp
  then show ?thesis using m(1,2) p(1,2) n l assms(2,3)
    by (intro exI [of _ "\<lparr>m_addr = m, m_path = MNT_PATH, m_path_addr = p, m_ops = ops, private_data = priv\<rparr>"] exI [of _ s2])
      (simp add: vfs_mount_def Let_def)
qed

text \<open>A state with one mount point, \<^verbatim>\<open>/mnt\<close>.\<close>

lemma mnt_example:
  "\<exists>(s :: kmalloc_state) m t. vfs_reachable (empty_vfs :: (kmalloc_state, unit) vfs) s \<and> m_path m = MNT_PATH \<and>
     vfs_mount (Some MNT_PATH) (Some no_ops) () (empty_vfs :: (kmalloc_state, unit) vfs) s =
       Some (0, empty_vfs\<lparr>mounts := [m], root_bind := m_addr m\<rparr>, t) \<and>
     vfs_reachable (empty_vfs\<lparr>mounts := [m], root_bind := m_addr m\<rparr>) t"
proof -
  let ?v = "empty_vfs :: (kmalloc_state, unit) vfs"
  obtain s :: kmalloc_state where "room s 16360 []" using heap_example_room by blast
  then have s: "room s 1000 []" by (rule room_mono) simp
  then obtain us where "heap_live s us" using room_live by blast
  then have e: "vfs_reachable ?v s" by (rule empty_reachable)
  have "vfs_initialized ?v" "mounts ?v = []" by (simp_all add: empty_vfs_def)
  from mount_mnt [OF s this, of no_ops "()"] obtain m t where
    m: "vfs_mount (Some MNT_PATH) (Some no_ops) () ?v s = Some (0, ?v\<lparr>mounts := [m], root_bind := m_addr m\<rparr>, t)" "m_path m = MNT_PATH"
    by blast
  with e vfs_reachable.mount [OF e m(1)] show ?thesis by blast
qed

theorem vfs_table_invariant_witness:
  "\<exists>(v :: (kmalloc_state, unit) vfs) s m. mounts v = [m] \<and> m_path m = MNT_PATH \<and> vfs_ok v s"
proof -
  let ?w = "\<lambda>m. (empty_vfs :: (kmalloc_state, unit) vfs)\<lparr>mounts := [m], root_bind := m_addr m\<rparr>"
  obtain m t where m: "m_path m = MNT_PATH" "vfs_reachable (?w m) t" using mnt_example by blast
  have "vfs_ok (?w m) t" using vfs_table_invariant [OF m(2)] by (rule conjunct1)
  moreover have "mounts (?w m) = [m]" by simp
  ultimately show ?thesis using m(1) by blast
qed

text \<open>
  Claim C19. With \<^verbatim>\<open>/mnt\<close> mounted, every absolute path of fewer than 252 bytes is taken below \<^verbatim>\<open>/mnt\<close>, and the lookup
  returns the deepest mount point whose path covers it, with the remaining components as the path
  relative to it, or no mount point when none covers it.
\<close>

theorem vfs_route_longest_mount:
  fixes v :: "('a kmalloc_state_scheme, 'p) vfs"
  assumes R: "vfs_reachable v s" and m: "MNT_PATH \<in> set (map m_path (mounts v))"
    and u: "user \<noteq> []" "hd user = SLASH" "length user < 252"
  shows "\<exists>r. vfs_route v (Some user) = Inr r \<and> routes_to v (MNT_NAME # path_parts user) r"
proof -
  have K: "vfs_ok v s" using R by (rule reachable_ok)
  obtain us where us: "heap_live s us" "owned_by us (mount_addrs (mounts v))" using K by (auto simp: vfs_ok_def)
  obtain b where b: "b \<in> set (mounts v)" "m_path b = MNT_PATH" using m by auto
  then have "m_addr b \<noteq> NULL" using owned_not_NULL [OF us, of "m_addr b"] by (simp add: mount_addrs_def)
  from ok_bind_path [OF K b this] show ?thesis using route_bound [OF _ _ u, of v] K unfolding vfs_ok_def by blast
qed

theorem vfs_route_longest_mount_witness:
  "\<exists>(v :: (kmalloc_state, unit) vfs) m rel. mounts v = [m] \<and> m_path m = MNT_PATH \<and>
     vfs_route v (Some [SLASH, 0x41, SLASH, SLASH, 0x42]) = Inr (Some (m, rel)) \<and> path_parts rel = [[0x41], [0x42]]"
proof -
  let ?u = "[SLASH, 0x41, SLASH, SLASH, 0x42]"
  let ?w = "\<lambda>m. (empty_vfs :: (kmalloc_state, unit) vfs)\<lparr>mounts := [m], root_bind := m_addr m\<rparr>"
  obtain m t where m: "m_path m = MNT_PATH" "vfs_reachable (?w m) t" using mnt_example by blast
  obtain r where r: "vfs_route (?w m) (Some ?u) = Inr r" "routes_to (?w m) (MNT_NAME # path_parts ?u) r"
    using vfs_route_longest_mount [OF m(2), of ?u] m(1) by auto
  have "parts m = [MNT_NAME]" using m(1) mnt_facts(1,2) path_parts_of [of "[MNT_NAME]"] by (simp add: parts_def)
  moreover have "path_parts ?u = [[0x41], [0x42]]" by (simp add: path_parts_def printable_def)
  ultimately obtain rel where "r = Some (m, rel)" "path_parts rel = [[0x41], [0x42]]"
    using r(2) by (cases r) (auto simp: routes_to_def covers_def)
  moreover have "mounts (?w m) = [m]" by simp
  ultimately show ?thesis using r(1) m(1) by blast
qed

text \<open>
  Unmounting what was just mounted, by the path it was mounted with, succeeds and gives back
  the mount table and the bind of before.
\<close>

theorem vfs_mount_umount:
  fixes v :: "('a kmalloc_state_scheme, 'p) vfs"
  assumes R: "vfs_reachable v s" and r: "vfs_mount path ops priv v s = Some (0, v1, s1)"
  shows "\<exists>s2. vfs_umount path v1 s1 = Some (0, v, s2)"
proof -
  have K: "vfs_ok v s" using R by (rule reachable_ok)
  from mount_cases [OF K r] obtain p q m where K1: "vfs_ok v1 s1" and p: "path = Some p" "normalize_path (take 255 p) = Some q"
    "q \<notin> set (map m_path (mounts v))" "m_path m = q"
    and v1: "v1 = v\<lparr>mounts := m # mounts v, root_bind := (if q = MNT_PATH then m_addr m else root_bind v)\<rparr>" by auto
  have u: "unlink_mount q (mounts v1) = Some (m, mounts v)" using p(4) v1 by simp
  obtain us where us: "heap_live s1 us" "owned_by us (mount_addrs (m # mounts v))" using K1 v1 by (auto simp: vfs_ok_def)
  have d: "distinct (mount_addrs (m # mounts v))" using us(2) by (simp add: owned_by_def)
  have n: "m_addr m \<noteq> NULL" using owned_not_NULL [OF us, of "m_addr m"] by (simp add: mount_addrs_def)
  have b: "bind_ok v" using K by (simp add: vfs_ok_def)
  have bk: "(if m_addr m = root_bind v1 then NULL else root_bind v1) = root_bind v"
  proof (cases "q = MNT_PATH")
    case True
    then have "List.find (\<lambda>m. m_path m = MNT_PATH) (mounts v) = None" using p(3) by (force simp: find_None_iff)
    then show ?thesis using b v1 True by (simp add: bind_ok_def)
  next
    case False
    have "root_bind v = NULL \<or> root_bind v \<in> m_addr ` set (mounts v)"
      using b by (auto simp: bind_ok_def find_Some_iff split: option.splits)
    then have "m_addr m \<noteq> root_bind v" using n d by (auto simp: mount_addrs_def)
    then show ?thesis using v1 False by simp
  qed
  have "v1\<lparr>mounts := mounts v, root_bind := root_bind v\<rparr> = v" using v1 by simp
  moreover have "v1\<lparr>mounts := mounts v\<rparr> = v" if "root_bind v1 = root_bind v" using that v1 by (cases v) simp
  moreover obtain ret v2 s2 where "vfs_umount path v1 s1 = Some (ret, v2, s2)" using umount_cases [OF K1] by blast
  ultimately show ?thesis using u p(1,2) bk by (auto simp: vfs_umount_def Let_def bind_eq_Some_conv split: if_splits)
qed

theorem vfs_mount_umount_witness:
  "\<exists>(v1 :: (kmalloc_state, unit) vfs) s1 s2. mounts v1 \<noteq> [] \<and> vfs_umount (Some MNT_PATH) v1 s1 = Some (0, empty_vfs, s2)"
proof -
  let ?w = "\<lambda>m. (empty_vfs :: (kmalloc_state, unit) vfs)\<lparr>mounts := [m], root_bind := m_addr m\<rparr>"
  obtain s m t where m: "vfs_reachable (empty_vfs :: (kmalloc_state, unit) vfs) s"
    "vfs_mount (Some MNT_PATH) (Some no_ops) () empty_vfs s = Some (0, ?w m, t)" using mnt_example by blast
  obtain s2 where "vfs_umount (Some MNT_PATH) (?w m) t = Some (0, empty_vfs, s2)" using vfs_mount_umount [OF m] by blast
  moreover have "mounts (?w m) \<noteq> []" by simp
  ultimately show ?thesis by blast
qed

end
