(* ===== verification/Fat32_Vfs_Proofs.thy ===== *)
theory Fat32_Vfs_Proofs
  imports Fat32_Vfs Fat32_Proofs Vfs_Proofs
begin

unbundle bit_operations_syntax

text \<open>
  The composition of VFS, FAT32 driver and heap: a path is resolved along the directory tree on the
  disk, and opening, reading and closing a file through the VFS delivers the bytes of its cluster chain.
\<close>

subsection \<open>The allocators change only their own part of the kernel state\<close>

lemma set_range_more: "pmm_state.more (set_range s i e) = pmm_state.more s"
proof (induction s i e rule: set_range.induct)
  case (1 s i e)
  then show ?case by (subst set_range.simps) (simp add: bitmap_set_def Let_def)
qed

lemma pmalloc_more: "pmalloc s n = Some (p, t) \<Longrightarrow> pmm_state.more t = pmm_state.more s"
  by (auto simp: pmalloc_def lock_pmm_def unlock_pmm_def stack_pop_def set_range_more Let_def bind_eq_Some_conv
      split: option.splits if_splits prod.splits)

lemma more_up: "pmm_state.more t = pmm_state.more s \<Longrightarrow> kmalloc_state.more t = kmalloc_state.more s"
  by (cases s; cases t) simp

lemma add_pool_more: "add_pool s = Some t \<Longrightarrow> kmalloc_state.more t = kmalloc_state.more s"
  by (auto simp: add_pool_def Let_def bind_eq_Some_conv dest!: pmalloc_more more_up split: if_splits)

lemma kmalloc_more:
  assumes "kmalloc s n = Some r"
  shows "kmalloc_state.more (snd r) = kmalloc_state.more s"
  using assms
proof (rule kmalloc.raw_induct [of "\<lambda>s n r. kmalloc_state.more (snd r) = kmalloc_state.more s", rotated], goal_cases)
  case (1 rec s n r)
  have "kmalloc_state.more (snd r) = kmalloc_state.more s" if "add_pool (s\<lparr>kmalloc_lock := l\<rparr>) = Some t" "rec t q = Some r" for l t q
    using "1"(1) [OF that(2)] add_pool_more [OF that(1)] by simp
  then show ?case using "1"(2)
    by (auto simp: lock_kmalloc_def unlock_kmalloc_def take_block_def Let_def bind_eq_Some_conv split: if_splits)
qed

lemma kfree_more: "kfree s a = Some t \<Longrightarrow> kmalloc_state.more t = kmalloc_state.more s"
  by (auto simp: kfree_def lock_kmalloc_def unlock_kmalloc_def Let_def bind_eq_Some_conv split: if_splits)

lemma more_fields:
  fixes s t :: "('d, 'a) fatvfs_state_scheme"
  assumes "kmalloc_state.more t = kmalloc_state.more s"
  shows "dev_state t = dev_state s" "cache_lock t = cache_lock s" "open_files t = open_files s" "vfs_handles t = vfs_handles s"
  using assms by (cases s; cases t; simp)+

subsection \<open>Walking the directory tree\<close>

text \<open>The entry that a lookup in the directory with the clusters \<open>ds\<close> finds; all its sectors are valid ones.\<close>

definition dir_lookup :: "(u32 \<Rightarrow> bool) \<Rightarrow> 'd fat32_fs \<Rightarrow> disk \<Rightarrow> u32 \<Rightarrow> u8 list \<Rightarrow> fat32_dirent \<Rightarrow> bool" where
  "dir_lookup valid fs dk c p de \<longleftrightarrow> (\<exists>ds s i. linked (fat_get fs dk) ds \<and> hd ds = c \<and> c \<noteq> NO_CLUSTER \<and> places_ok valid fs ds \<and>
     scan_result (search (to_8_3 p) (dir_entries fs dk ds)) = Some (de, s, i))"

text \<open>The components of a path lead from one directory to another.\<close>

inductive dir_walk :: "(u32 \<Rightarrow> bool) \<Rightarrow> 'd fat32_fs \<Rightarrow> disk \<Rightarrow> u32 \<Rightarrow> u8 list list \<Rightarrow> u32 \<Rightarrow> bool" for valid fs dk where
  here: "dir_walk valid fs dk c [] c"
| down: "dir_lookup valid fs dk c p de \<Longrightarrow> de_attr de AND FAT32_ATTR_DIRECTORY \<noteq> 0 \<Longrightarrow> dir_walk valid fs dk (dirent_cluster de) ps d \<Longrightarrow>
    dir_walk valid fs dk c (p # ps) d"

context sector_reader
begin

lemma find_lookup:
  assumes U: "reads_with fs rd" and L: "lock (cache_lock st) = 0" and H: "holds dk (dev_state st)" and e: "dir_lookup valid fs dk c p de"
  shows "\<exists>s i d. fat32_find fs c (to_8_3 p) st = Some (Some (de, s, i), st\<lparr>dev_state := d\<rparr>) \<and> holds dk d"
proof -
  obtain ds s i where "linked (fat_get fs dk) ds" "hd ds = c" "c \<noteq> NO_CLUSTER" "places_ok valid fs ds"
    "scan_result (search (to_8_3 p) (dir_entries fs dk ds)) = Some (de, s, i)" using e unfolding dir_lookup_def by blast
  then show ?thesis using find_chain [OF U _ _ _ L H, of ds "to_8_3 p"] by auto
qed

lemma resolve_walk:
  assumes U: "reads_with fs rd"
  shows "dir_walk valid fs dk c ps d \<Longrightarrow> \<forall>p \<in> set (ps @ [n]). p \<noteq> [] \<and> SLASH \<notin> set p \<Longrightarrow> lock (cache_lock st) = 0 \<Longrightarrow> holds dk (dev_state st) \<Longrightarrow>
    \<exists>e. resolve_loop fs c (rel_of (ps @ [n])) st = Some (Some (d, Some n), st\<lparr>dev_state := e\<rparr>) \<and> holds dk e"
proof (induction arbitrary: st rule: dir_walk.induct)
  case (here c)
  then have "takeWhile (\<lambda>x. x \<noteq> SLASH) n = n" "dropWhile (\<lambda>x. x \<noteq> SLASH) n = []" "n \<noteq> []"
    by (auto simp: takeWhile_eq_all_conv dropWhile_eq_Nil_conv)
  then have "resolve_loop fs c (rel_of ([] @ [n])) st = Some (Some (c, Some n), st\<lparr>dev_state := dev_state st\<rparr>)"
    by (simp add: rel_of_def resolve_loop.simps)
  then show ?case using here by blast
next
  case (down c p de ps d)
  obtain s i e where f: "fat32_find fs c (to_8_3 p) st = Some (Some (de, s, i), st\<lparr>dev_state := e\<rparr>)" "holds dk e"
    using find_lookup [OF U down.prems(2,3) down.hyps(1)] by blast
  have "\<forall>p \<in> set (ps @ [n]). p \<noteq> [] \<and> SLASH \<notin> set p" using down.prems(1) by simp
  from down.IH [OF this, of "st\<lparr>dev_state := e\<rparr>"] obtain e' where
    g: "resolve_loop fs (dirent_cluster de) (rel_of (ps @ [n])) (st\<lparr>dev_state := e\<rparr>) = Some (Some (d, Some n), st\<lparr>dev_state := e'\<rparr>)" "holds dk e'"
    using f(2) down.prems(2) by auto
  have "join (ps @ [n]) = SLASH # rel_of (ps @ [n])" by (cases ps) (simp_all add: rel_of_def)
  then have r: "rel_of ((p # ps) @ [n]) = p @ SLASH # rel_of (ps @ [n])" by (simp add: rel_of_def)
  have p: "\<forall>x \<in> set p. x \<noteq> SLASH" "p \<noteq> []" using down.prems by auto
  have "takeWhile (\<lambda>x. x \<noteq> SLASH) (p @ SLASH # rel_of (ps @ [n])) = p"
    "dropWhile (\<lambda>x. x \<noteq> SLASH) (p @ SLASH # rel_of (ps @ [n])) = SLASH # rel_of (ps @ [n])"
    using p(1) by (simp_all add: takeWhile_append2 dropWhile_append2)
  then have "resolve_loop fs c (rel_of ((p # ps) @ [n])) st = Some (Some (d, Some n), st\<lparr>dev_state := e'\<rparr>)"
    using p(2) f(1) g(1) down.hyps(2) unfolding r by (simp add: resolve_loop.simps [of fs c])
  then show ?case using g(2) by blast
qed

end

lemma part_ok_slash: "part_ok p \<Longrightarrow> p \<noteq> [] \<and> SLASH \<notin> set p"
  by (simp add: part_ok_def)

lemma rel_of_snoc: "rel_of (ps @ [n]) \<noteq> []" if "n \<noteq> []"
  using that by (cases ps) (simp_all add: rel_of_def)

context sector_reader
begin

lemma resolve_path:
  assumes U: "reads_with fs rd" and L: "lock (cache_lock st) = 0" and H: "holds dk (dev_state st)"
    and w: "dir_walk valid fs dk (root_cluster (bpb fs)) ps d" and ok: "\<forall>p \<in> set (ps @ [n]). part_ok p"
    and len: "length (rel_of (ps @ [n])) \<le> 254"
  shows "\<exists>e. fat32_resolve (Some fs) (Some (fat_path (rel_of (ps @ [n])))) st = Some (Some (d, to_8_3 n), st\<lparr>dev_state := e\<rparr>) \<and> holds dk e"
proof -
  obtain e where "resolve_loop fs (root_cluster (bpb fs)) (rel_of (ps @ [n])) st = Some (Some (d, Some n), st\<lparr>dev_state := e\<rparr>)" "holds dk e"
    using resolve_walk [OF U w _ L H] ok part_ok_slash by blast
  moreover have "rel_of (ps @ [n]) \<noteq> []" using rel_of_snoc ok part_ok_slash by auto
  ultimately show ?thesis using len by (intro exI [of _ e]) (simp add: fat32_resolve_def fat_path_def)
qed

end

text \<open>Opening an existing file for reading or writing; for writing its size counts as zero.\<close>

definition fresh_handle :: "bool \<Rightarrow> 'd fat32_fs \<Rightarrow> fat32_dirent \<Rightarrow> 'd fat32_file" where
  "fresh_handle w fs de = \<lparr>f_used = True, f_mode = (if w then 1 else 0), f_fs = Some fs, first_cluster = dirent_cluster de,
     curr_cluster = dirent_cluster de, curr_offset = 0, file_size = (if w then 0 else de_size de), file_pos = 0\<rparr>"

definition open_mode :: "bool \<Rightarrow> u8 list" where
  "open_mode w = (if w then [0x77] else [0x72])"

definition open_flag :: "bool \<Rightarrow> u32" where
  "open_flag w = (if w then VFS_WRITE else VFS_READ)"

lemma open_flags: "open_flag False = VFS_READ" "open_flag True = VFS_WRITE"
  by (simp_all add: open_flag_def)

lemma to_8_3_rd8: "n \<noteq> [] \<Longrightarrow> hd n \<noteq> 0 \<Longrightarrow> hd n \<noteq> 0xE5 \<Longrightarrow> rd8 (to_8_3 n) 0 \<noteq> 0"
  using to_8_3_length [of n] to_8_3_first [of n] upcase_marks [of "hd n"] by (simp add: rd8_def)

lemma printable_marks: "printable c \<Longrightarrow> c \<noteq> 0 \<and> c \<noteq> 0xE5"
  by (auto simp: printable_def)

lemma part_rd8: "part_ok n \<Longrightarrow> rd8 (to_8_3 n) 0 \<noteq> 0"
  using to_8_3_rd8 [of n] printable_marks [of "hd n"] by (cases n) (auto simp: part_ok_def)

context sector_reader
begin

lemma open_existing:
  assumes W: "validate_fs (Some fs)" and U: "reads_with fs rd" and L: "lock (cache_lock st) = 0" and H: "holds dk (dev_state st)"
    and w: "dir_walk valid fs dk (root_cluster (bpb fs)) ps d" and ok: "\<forall>p \<in> set (ps @ [n]). part_ok p"
    and len: "length (rel_of (ps @ [n])) \<le> 254" and e: "dir_lookup valid fs dk d n de"
    and h: "free_slot (open_files st) = Some i"
  shows "\<exists>e. fat32_open (Some fs) (Some (fat_path (rel_of (ps @ [n])))) (open_mode w) st =
    Some (Some i, st\<lparr>dev_state := e, open_files := (open_files st)[i := fresh_handle w fs de]\<rparr>) \<and> holds dk e"
proof -
  obtain e1 where r: "fat32_resolve (Some fs) (Some (fat_path (rel_of (ps @ [n])))) st = Some (Some (d, to_8_3 n), st\<lparr>dev_state := e1\<rparr>)" "holds dk e1"
    using resolve_path [OF U L H w ok len] by blast
  obtain s j e2 where f: "fat32_find fs d (to_8_3 n) (st\<lparr>dev_state := e1\<rparr>) = Some (Some (de, s, j), st\<lparr>dev_state := e2\<rparr>)" "holds dk e2"
    using find_lookup [OF U, of "st\<lparr>dev_state := e1\<rparr>" dk d n de] L r(2) e by auto
  have "rd8 (to_8_3 n) 0 \<noteq> 0" using part_rd8 ok by simp
  then show ?thesis using W r(1) f h by (intro exI [of _ e2]) (simp add: fat32_open_def open_mode_def mode_char_def fresh_handle_def Let_def)
qed

end

subsection \<open>From a user path to the driver\<close>

lemma path_of_single: "length (path_of ps) \<ge> length (rel_of ps)"
  by (simp add: path_of_def rel_of_def)

lemma covers_mnt: "covers [MNT_NAME] (MNT_NAME # ps)"
  by (simp add: covers_def)

lemma route_single:
  assumes "mounts v = [m]" "root_bind v = m_addr m" "m_addr m \<noteq> NULL" "m_path m = MNT_PATH"
    "user \<noteq> []" "hd user = SLASH" "length user < 252"
  shows "vfs_route v (Some user) = Inr (Some (m, rel_of (path_parts user)))" "length (rel_of (path_parts user)) \<le> 254"
proof -
  let ?qs = "MNT_NAME # path_parts user"
  have q: "\<forall>q \<in> set ?qs. part_ok q" using mnt_facts(2) path_parts_ok by auto
  have b: "bind_path v = Some MNT_PATH" using assms(1-4) by (simp add: bind_path_def mount_at_def)
  have "matches (path_of ?qs) m" using match_covers [of "[MNT_NAME]" ?qs] q assms(4) mnt_facts(1) covers_mnt
    by (simp add: matches_def)
  then have "mount_loop (path_of ?qs) (mounts v) None 0 = (Some m, length (m_path m))"
    using assms(1,4) mnt_facts(3) by (simp add: matches_def path_match_def Let_def)
  moreover have "dropWhile (\<lambda>c. c = SLASH) (drop (length (m_path m)) (path_of ?qs)) = rel_of (path_parts user)"
    using drop_mount [OF covers_mnt, of "path_parts user"] q assms(4) mnt_facts(1) by simp
  ultimately show "vfs_route v (Some user) = Inr (Some (m, rel_of (path_parts user)))"
    using translate_bound [OF assms(5-7)] b path_of_hd [of ?qs] by (simp add: vfs_route_def find_mount_for_real_path_def)
  have "normalize_path user = Some (path_of (path_parts user))" using assms(5,6) by (simp add: normalize_canonical)
  from normalize_Some(4) [OF this] show "length (rel_of (path_parts user)) \<le> 254"
    using path_of_single [of "path_parts user"] assms(7) by linarith
qed

subsection \<open>Opening, reading and closing a file\<close>

lemma kheap_update:
  fixes st :: "('d, 'a) fatvfs_state_scheme"
  shows "kheap (st\<lparr>dev_state := d\<rparr>) fs us = kheap st fs us" "kheap (st\<lparr>open_files := fl\<rparr>) fs us = kheap st fs us"
    "kheap (st\<lparr>vfs_handles := h\<rparr>) fs us = kheap st fs us"
  by (rule kheap_cong(1); simp)+

lemma room_update [simp]:
  fixes st :: "('d, 'a) fatvfs_state_scheme"
  shows "room (st\<lparr>dev_state := d\<rparr>) k xs = room st k xs" "room (st\<lparr>open_files := fl\<rparr>) k xs = room st k xs"
    "room (st\<lparr>vfs_handles := h\<rparr>) k xs = room st k xs"
  by (simp_all add: room_def kheap_update)

text \<open>The file system mounted the way the kernel does it: alone, on \<^verbatim>\<open>/mnt\<close>.\<close>

definition fat_mounted :: "(('d, 'a) fatvfs_state_scheme, 'd fat32_vfs_context option) vfs \<Rightarrow> 'd fat32_fs \<Rightarrow> bool" where
  "fat_mounted v fs \<longleftrightarrow> (\<exists>m. mounts v = [m] \<and> root_bind v = m_addr m \<and> m_addr m \<noteq> NULL \<and> m_path m = MNT_PATH \<and>
     m_ops m = fat32_vfs_ops \<and> ctx_fs (private_data m) = Some fs)"

definition file_at :: "(u32 \<Rightarrow> bool) \<Rightarrow> 'd fat32_fs \<Rightarrow> disk \<Rightarrow> u8 list \<Rightarrow> fat32_dirent \<Rightarrow> bool" where
  "file_at valid fs dk path de \<longleftrightarrow> (\<exists>ps n d. path_parts path = ps @ [n] \<and> dir_walk valid fs dk (root_cluster (bpb fs)) ps d \<and>
     dir_lookup valid fs dk d n de)"

definition file_bytes :: "(u32 \<Rightarrow> bool) \<Rightarrow> 'd fat32_fs \<Rightarrow> disk \<Rightarrow> fat32_dirent \<Rightarrow> u8 list \<Rightarrow> bool" where
  "file_bytes valid fs dk de bytes \<longleftrightarrow> (\<exists>cs. linked (fat_get fs dk) (dirent_cluster de # cs) \<and> places_ok valid fs (dirent_cluster de # cs) \<and>
     unat (de_size de) \<le> length (chain_bytes fs dk (dirent_cluster de # cs)) \<and>
     bytes = take (unat (de_size de)) (chain_bytes fs dk (dirent_cluster de # cs)))"

context sector_reader
begin

lemma read_fresh:
  fixes st :: "('d, 'a) fat_state_scheme"
  assumes U: "reads_with fs rd" and L: "lock (cache_lock st) = 0" and H: "holds dk (dev_state st)" and G: "geometry_ok fs"
    and f: "open_files st ! i = fresh_handle False fs de" and b: "file_bytes valid fs dk de bytes"
    and sz: "0 < unat sz" "unat sz < 2 ^ 31"
  shows "\<exists>file d. fat32_read (Some i) sz st =
    Some (int (length (take (unat sz) bytes)), take (unat sz) bytes, st\<lparr>dev_state := d, open_files := (open_files st)[i := file]\<rparr>) \<and>
    f_used file \<and> holds dk d"
proof (cases "de_size de = 0")
  case True
  then have "bytes = []" using b by (auto simp: file_bytes_def)
  moreover have "fat32_read (Some i) sz st = Some (0, [], st)"
    using f True sz by (simp add: fat32_read_def fresh_handle_def Let_def)
  moreover have "(open_files st)[i := fresh_handle False fs de] = open_files st" using f by (metis list_update_id)
  moreover have "f_used (fresh_handle False fs de)" by (simp add: fresh_handle_def)
  ultimately have "fat32_read (Some i) sz st = Some (int (length (take (unat sz) bytes)), take (unat sz) bytes,
      st\<lparr>dev_state := dev_state st, open_files := (open_files st)[i := fresh_handle False fs de]\<rparr>) \<and> f_used (fresh_handle False fs de)" by simp
  then show ?thesis using H by blast
next
  case False
  let ?f = "fresh_handle False fs de"
  have ff: "f_used ?f" "f_mode ?f = 0" "f_fs ?f = Some fs" by (simp_all add: fresh_handle_def)
  obtain cs where cs: "linked (fat_get fs dk) (curr_cluster ?f # cs)" "places_ok valid fs (curr_cluster ?f # cs)"
    "unat (curr_offset ?f) + (unat (file_size ?f) - unat (file_pos ?f)) \<le> length (chain_bytes fs dk (curr_cluster ?f # cs))"
    "bytes = take (unat (de_size de)) (chain_bytes fs dk (curr_cluster ?f # cs))"
    using b by (auto simp: file_bytes_def fresh_handle_def)
  have o: "curr_offset ?f < bytes_per_cluster fs" using unat_bpc(2) [OF G] by (simp add: fresh_handle_def word_less_nat_alt)
  have p: "file_pos ?f < file_size ?f" "unat (file_pos ?f) + unat sz < 2 ^ 32"
    using False sz(2) by (simp_all add: fresh_handle_def word_neq_0_conv)
  let ?n = "min (unat sz) (unat (de_size de))"
  have k: "file_size ?f = de_size de" "unat (file_pos ?f) = 0" "unat (curr_offset ?f) = 0" by (simp_all add: fresh_handle_def)
  from file_read [OF U L H G f ff cs(1,2) o cs(3) sz p] obtain cc co d where
    r: "fat32_read (Some i) sz st = Some (int ?n, take ?n (chain_bytes fs dk (curr_cluster ?f # cs)), st\<lparr>dev_state := d,
      open_files := (open_files st)[i := ?f\<lparr>curr_cluster := cc, curr_offset := co, file_pos := file_pos ?f + of_nat ?n\<rparr>]\<rparr>)" "holds dk d"
    unfolding k diff_zero drop0 by blast
  have l: "unat (de_size de) \<le> length (chain_bytes fs dk (curr_cluster ?f # cs))" using cs(3) by (simp add: fresh_handle_def)
  have "take (unat sz) bytes = take ?n (chain_bytes fs dk (curr_cluster ?f # cs))" "length (take (unat sz) bytes) = ?n"
    using cs(4) l by simp_all
  then have "fat32_read (Some i) sz st = Some (int (length (take (unat sz) bytes)), take (unat sz) bytes, st\<lparr>dev_state := d,
      open_files := (open_files st)[i := ?f\<lparr>curr_cluster := cc, curr_offset := co, file_pos := file_pos ?f + of_nat ?n\<rparr>]\<rparr>)" using r(1) by (simp only:)
  moreover have "f_used (?f\<lparr>curr_cluster := cc, curr_offset := co, file_pos := file_pos ?f + of_nat ?n\<rparr>)" using ff(1) by simp
  ultimately show ?thesis using r(2) by blast
qed

end

lemma close_handle:
  fixes st :: "('d, 'a) fatvfs_state_scheme"
  assumes "room st k (h # xs)" "h \<noteq> NULL" "vfs_handles st h = Some r" "fat_file r = Some i"
  shows "\<exists>t. fat32_vfs_close h st = Some (0, t) \<and> room t k xs \<and>
    dev_state t = dev_state st \<and> cache_lock t = cache_lock st \<and> open_files t = open_files (fat32_close (Some i) st) \<and>
    vfs_handles t = (vfs_handles st)(h := None)"
proof -
  let ?s = "fat32_close (Some i) st"
  have s: "room ?s k (h # xs)" "dev_state ?s = dev_state st" "cache_lock ?s = cache_lock st" "vfs_handles ?s = vfs_handles st"
    using assms(1) by (simp_all add: fat32_close_def Let_def)
  from room_kfree [OF s(1), of h] obtain t where t: "kfree ?s h = Some t" "room t k xs" by auto
  note m = more_fields [OF kfree_more [OF t(1)]]
  let ?t = "t\<lparr>vfs_handles := (vfs_handles t)(h := None)\<rparr>"
  have "fat32_vfs_close h st = Some (0, ?t)" using assms(2-4) t(1) by (simp add: fat32_vfs_close_def)
  moreover have "room ?t k xs" using t(2) by simp
  ultimately show ?thesis using m s(2-4) by (intro exI [of _ ?t]) simp
qed

definition opened :: "bool \<Rightarrow> (('d, 'a) fatvfs_state_scheme, 'd fat32_vfs_context option) vfs \<Rightarrow> u64 \<Rightarrow> u64 \<Rightarrow> 
    (('d, 'a) fatvfs_state_scheme, 'd fat32_vfs_context option) vfs" where
  "opened w v f g = v\<lparr>vfs_files := (vfs_files v)(f \<mapsto> new_vfs_file (root_bind v) (open_flag w) False g)\<rparr>"

definition file_handle :: "nat \<Rightarrow> fat32_vfs_handle" where
  "file_handle i = \<lparr>fat_file = Some i, h_is_dir = False, dir_cluster = 0, dir_index = 0\<rparr>"

context sector_reader
begin

lemma open_fat_file:
  fixes st :: "('d, 'a) fatvfs_state_scheme" and v :: "(('d, 'a) fatvfs_state_scheme, 'd fat32_vfs_context option) vfs"
  assumes M: "fat_mounted v fs" and W: "validate_fs (Some fs)" and U: "reads_with fs rd" and L: "lock (cache_lock st) = 0" and H: "holds dk (dev_state st)"
    and u: "user \<noteq> []" "hd user = SLASH" "length user < 252" and fa: "file_at valid fs dk user de"
    and h: "free_slot (open_files st) = Some i" and R: "room st k xs" "200 \<le> k"
  shows "\<exists>f g t. vfs_open (Some user) (open_flag w) v st = Some (0, f, opened w v f g, t) \<and> f \<noteq> NULL \<and> g \<noteq> NULL \<and>
    holds dk (dev_state t) \<and> cache_lock t = cache_lock st \<and> open_files t = (open_files st)[i := fresh_handle w fs de] \<and>
    vfs_handles t = (vfs_handles st)(g \<mapsto> file_handle i) \<and> room t (k - 128) (g # f # xs)"
proof -
  obtain m where m: "mounts v = [m]" "root_bind v = m_addr m" "m_addr m \<noteq> NULL" "m_path m = MNT_PATH"
    and op: "m_ops m = fat32_vfs_ops" "ctx_fs (private_data m) = Some fs" using M unfolding fat_mounted_def by blast
  obtain ps n d where p: "path_parts user = ps @ [n]" "dir_walk valid fs dk (root_cluster (bpb fs)) ps d"
    "dir_lookup valid fs dk d n de" using fa unfolding file_at_def by blast
  note rt = route_single [OF m u]
  have ok: "\<forall>q \<in> set (ps @ [n]). part_ok q" using path_parts_ok p(1) by metis
  have r: "round_size 40 = 48" "round_size 24 = 32" by (simp_all add: round_size_def)
  obtain f s1 where f: "kmalloc st 40 = Some (f, s1)" "f \<noteq> NULL" "room s1 (k - 72) (f # xs)"
    using room_kmalloc [OF R(1), of 40] R(2) by (auto simp: r)
  have m1: "dev_state s1 = dev_state st" "cache_lock s1 = cache_lock st" "open_files s1 = open_files st" "vfs_handles s1 = vfs_handles st"
    using more_fields [of s1 st] kmalloc_more [OF f(1)] by simp_all
  have s1: "lock (cache_lock s1) = 0" "holds dk (dev_state s1)" "free_slot (open_files s1) = Some i" using L H h m1 by simp_all
  have l: "length (rel_of (ps @ [n])) \<le> 254" using rt(2) unfolding p(1) .
  from open_existing [OF W U s1(1,2) p(2) ok l p(3) s1(3), of w] obtain e where
    o: "fat32_open (Some fs) (Some (fat_path (rel_of (path_parts user)))) (open_mode w) s1 =
      Some (Some i, s1\<lparr>dev_state := e, open_files := (open_files st)[i := fresh_handle w fs de]\<rparr>)" "holds dk e" unfolding p(1) m1(3) by blast
  let ?s2 = "s1\<lparr>dev_state := e, open_files := (open_files st)[i := fresh_handle w fs de]\<rparr>"
  have k72: "72 \<le> k - 72" using R(2) by simp
  have "room ?s2 (k - 72) (f # xs)" using f(3) by simp
  then obtain g s3 where g: "kmalloc ?s2 24 = Some (g, s3)" "g \<noteq> NULL" "room s3 (k - 128) (g # f # xs)"
    using room_kmalloc [of ?s2 "k - 72" "f # xs" 24] k72 by (auto simp: r)
  have m3: "dev_state s3 = e" "cache_lock s3 = cache_lock st" "open_files s3 = (open_files st)[i := fresh_handle w fs de]"
    "vfs_handles s3 = vfs_handles st"
    using more_fields [of s3 ?s2] kmalloc_more [OF g(1)] m1 by simp_all
  let ?t = "s3\<lparr>vfs_handles := (vfs_handles st)(g \<mapsto> file_handle i)\<rparr>"
  have dr: "fat32_vfs_open (private_data m) (rel_of (path_parts user)) (open_flag w) s1 = Some (0, g, ?t)"
    using op(2) o(1) g(1,2) m3(4) by (simp add: fat32_vfs_open_def file_handle_def open_flag_def open_mode_def Let_def split: if_splits)
  have "bad_path (Some user) = False" using u by (simp add: bad_path_def)
  then have "vfs_open (Some user) (open_flag w) v st = Some (0, f, opened w v f g, ?t)"
    using rt(1) op(1) f(1,2) dr m(2) by (simp add: vfs_open_def fat32_vfs_ops_def opened_def)
  moreover have "room ?t (k - 128) (g # f # xs)" using g(3) by simp
  ultimately show ?thesis using f(2) g(2) m3 o(2) by - (rule exI [of _ f], rule exI [of _ g], rule exI [of _ ?t], simp)
qed

end

lemma opened_file:
  assumes "fat_mounted v fs" "f \<noteq> NULL"
  shows "vfs_files (opened w v f g) f = Some (new_vfs_file (root_bind v) (open_flag w) False g)"
    "file_ops (opened w v f g) f = Some (new_vfs_file (root_bind v) (open_flag w) False g, fat32_vfs_ops)"
  using assms by (auto simp: opened_def file_ops_def fat_mounted_def mount_at_def new_vfs_file_def)

context sector_reader
begin

lemma read_fat_file:
  fixes st :: "('d, 'a) fatvfs_state_scheme"
  assumes M: "fat_mounted v fs" and U: "reads_with fs rd" and L: "lock (cache_lock st) = 0" and H: "holds dk (dev_state st)" and G: "geometry_ok fs"
    and f: "f \<noteq> NULL" "g \<noteq> NULL" "vfs_handles st g = Some (file_handle i)" "open_files st ! i = fresh_handle False fs de"
    and b: "file_bytes valid fs dk de bytes" and c: "0 < unat count" "unat count < 2 ^ 31"
  shows "\<exists>file d. vfs_read f True count (opened False v f g) st =
    Some (int (length (take (unat count) bytes)), take (unat count) bytes, advance f (int (length (take (unat count) bytes))) (opened False v f g),
      st\<lparr>dev_state := d, open_files := (open_files st)[i := file]\<rparr>) \<and> f_used file \<and> holds dk d"
proof -
  have cu: "unat (ucast count :: u32) = unat count" "count \<noteq> 0" using c by (auto simp: unsigned_ucast_eq take_bit_nat_eq_self)
  from read_fresh [OF U L H G f(4) b, of "ucast count"] c obtain fl d where
    r: "fat32_read (Some i) (ucast count) st = Some (int (length (take (unat count) bytes)), take (unat count) bytes,
      st\<lparr>dev_state := d, open_files := (open_files st)[i := fl]\<rparr>)" "f_used fl" "holds dk d" unfolding cu by auto
  have "fat32_vfs_read g count st = fat32_read (Some i) (ucast count) st"
    using f(2,3) by (simp add: fat32_vfs_read_def file_handle_def)
  then show ?thesis using r opened_file [OF M f(1), of False g] f(1) cu(2)
    by (intro exI [of _ fl] exI [of _ d]) (simp add: vfs_read_def fat32_vfs_ops_def new_vfs_file_def open_flag_def)
qed

end

lemma close_fat_file:
  fixes st :: "('d, 'a) fatvfs_state_scheme"
  assumes M: "fat_mounted v fs" and f: "f \<noteq> NULL" "g \<noteq> NULL" "vfs_handles st g = Some (file_handle i)"
    and R: "room st k (g # f # xs)"
  shows "\<exists>t. vfs_close f (advance f n (opened w v f g)) st = Some (0, v\<lparr>vfs_files := (vfs_files v)(f := None)\<rparr>, t) \<and>
    room t k xs \<and> dev_state t = dev_state st \<and> cache_lock t = cache_lock st \<and> open_files t = open_files (fat32_close (Some i) st) \<and>
    vfs_handles t = (vfs_handles st)(g := None)"
proof -
  let ?w = "advance f n (opened w v f g)"
  from close_handle [OF R f(2,3)] obtain s where
    s: "fat32_vfs_close g st = Some (0, s)" "room s k (f # xs)" "dev_state s = dev_state st" "cache_lock s = cache_lock st"
      "open_files s = open_files (fat32_close (Some i) st)" "vfs_handles s = (vfs_handles st)(g := None)"
    by (auto simp: file_handle_def)
  from room_kfree [OF s(2), of f] obtain t where t: "kfree s f = Some t" "room t k xs" by auto
  note m = more_fields [OF kfree_more [OF t(1)]]
  let ?r = "(new_vfs_file (root_bind v) (open_flag w) False g)\<lparr>f_pos := if 0 < n then of_int n else 0\<rparr>"
  have w: "?w = v\<lparr>vfs_files := (vfs_files v)(f \<mapsto> ?r)\<rparr>" by (simp add: advance_def opened_def new_vfs_file_def)
  have o: "file_ops ?w f = Some (?r, fat32_vfs_ops)" using M unfolding w
    by (auto simp: file_ops_def fat_mounted_def mount_at_def new_vfs_file_def)
  have g: "fs_handle ?r = g" by (simp add: new_vfs_file_def)
  have "vfs_close f ?w st = Some (0, v\<lparr>vfs_files := (vfs_files v)(f := None)\<rparr>, t)"
    using f(1,2) o g s(1) t(1) unfolding w by (simp add: vfs_close_def fat32_vfs_ops_def)
  then show ?thesis using t(2) m s(3-6) by auto
qed

subsection \<open>A disk with one file\<close>

text \<open>The root directory holds \<^verbatim>\<open>A\<close>, two bytes long, in cluster 3.\<close>

definition hello_entry :: fat32_dirent where
  "hello_entry = (new_entry (to_8_3 [0x41]) 3)\<lparr>de_size := 2\<rparr>"

definition hello_disk :: disk where
  "hello_disk = (fat_put ram_fs (ram_root (dirent_bytes hello_entry @ replicate 480 0)) 3 0x0FFFFFFF)(41 := [72, 105] @ replicate 510 0)"

lemma hello_entry_facts:
  "dirent_ok hello_entry" "dirent_cluster hello_entry = 3" "from_8_3 hello_entry = to_8_3 [0x41]" "de_attr hello_entry = 0x20"
  "rd8 (dirent_bytes hello_entry) 0 = 0x41"
proof -
  note n = new_entry_facts [OF to_8_3_length [of "[0x41]"], of 3]
  show "dirent_ok hello_entry" "dirent_cluster hello_entry = 3" "from_8_3 hello_entry = to_8_3 [0x41]" "de_attr hello_entry = 0x20"
    using n by (simp_all add: hello_entry_def dirent_ok_def dirent_cluster_def from_8_3_def)
  have "to_8_3 [0x41] ! 0 = 0x41" using to_8_3_first [of "[0x41]"] by (simp add: upcase_def)
  then show "rd8 (dirent_bytes hello_entry) 0 = 0x41"
    by (simp add: hello_entry_def new_entry_def dirent_bytes_def rd8_def nth_append to_8_3_length)
qed

lemma hello_disk_facts:
  "ram_sec hello_disk = hello_disk" "linked (fat_get ram_fs hello_disk) [2]" "linked (fat_get ram_fs hello_disk) [3]"
  "hello_disk 40 = dirent_bytes hello_entry @ replicate 480 0" "hello_disk 41 = [72, 105] @ replicate 510 0"
proof -
  let ?b = "dirent_bytes hello_entry @ replicate 480 0"
  let ?d = "fat_put ram_fs (ram_root ?b) 3 0x0FFFFFFF"
  have b: "length ?b = 512" using dirent_bytes_length [OF hello_entry_facts(1)] by simp
  have d0: "disk512 (ram_root ?b)" using b by (rule ram_root_512)
  then have "disk512 ?d" by (rule disk512_put)
  then show "ram_sec hello_disk = hello_disk" by (auto simp: hello_disk_def ram_sec_def disk512_def fun_eq_iff)
  have "fat_get ram_fs hello_disk c = fat_get ram_fs ?d c" if "c \<in> {2, 3}" for c
    using that unfolding hello_disk_def by (intro fat_get_cong) (auto simp: fat_sector_of_def ram_fs_def)
  moreover have "chain_at ram_fs ?d [2]"
    using chain_at_fat_put(1) [OF ram_root_chain [OF b] d0, of 3 "0x0FFFFFFF"] ram_root_get [of 3 ?b] ram_root_sectors
    by (simp add: fat_index_def fat_sector_of_def ram_fs_def)
  ultimately show "linked (fat_get ram_fs hello_disk) [2]" "linked (fat_get ram_fs hello_disk) [3]"
    using ram_data_chain [OF b] by (simp_all add: chain_at_def)
  show "hello_disk 40 = ?b" "hello_disk 41 = [72, 105] @ replicate 510 0"
    by (simp_all add: hello_disk_def fat_put_def Let_def ram_root_def fat_sector_of_def ram_fs_def)
qed

lemma hello_lookup: "dir_lookup P ram_fs hello_disk 2 [0x41] hello_entry" if "places_ok P ram_fs [2]"
proof -
  let ?b = "dirent_bytes hello_entry @ replicate 480 0"
  note h = hello_entry_facts
  have "entry_at ?b 0 = dirent_bytes hello_entry" using dirent_bytes_length [OF h(1)] by (simp add: entry_at_def)
  then have "dir_entries ram_fs hello_disk [2] = (dirent_bytes hello_entry, 40, 0) # map (\<lambda>i. (entry_at ?b i, 40, of_nat i)) [1..<16]"
    unfolding dir_entries_flat ram_root_sectors by (simp add: hello_disk_facts(4) sector_entries_def upt_rec [of 0])
  then have "search (to_8_3 [0x41]) (dir_entries ram_fs hello_disk [2]) = Found (hello_entry, 40, 0)"
    using h dirent_of_bytes [OF h(1)] by simp
  then show ?thesis using hello_disk_facts(2) that unfolding dir_lookup_def by (intro exI [of _ "[2]"]) simp
qed

lemma hello_file:
  "places_ok P ram_fs [2] \<Longrightarrow> file_at P ram_fs hello_disk [SLASH, 0x41] hello_entry"
  "file_bytes (\<lambda>_. True) ram_fs hello_disk hello_entry [72, 105]"
proof -
  have "path_parts [SLASH, 0x41] = [] @ [[0x41]]" by (simp add: path_parts_def printable_def)
  moreover have "root_cluster (bpb ram_fs) = 2" by (simp add: ram_fs_def)
  ultimately show "file_at P ram_fs hello_disk [SLASH, 0x41] hello_entry" if "places_ok P ram_fs [2]"
    using hello_lookup [OF that] dir_walk.here unfolding file_at_def by metis
  have "chain_bytes ram_fs hello_disk [3] = hello_disk 41"
    by (simp add: chain_bytes_def cluster_bytes_def cluster_sectors_def cluster_sector_def ram_fs_def)
  moreover have "de_size hello_entry = 2" by (simp add: hello_entry_def)
  ultimately show "file_bytes (\<lambda>_. True) ram_fs hello_disk hello_entry [72, 105]"
    using hello_disk_facts(3,5) hello_entry_facts(2) unfolding file_bytes_def by (intro exI [of _ "[]"]) simp
qed

lemma fat_mounted_files: "fat_mounted (v\<lparr>vfs_files := x\<rparr>) fs = fat_mounted v fs"
  by (simp add: fat_mounted_def)

text \<open>A kernel state on the disk, with room on its heap, and the file system mounted.\<close>

definition hello_state :: "kmalloc_state \<Rightarrow> disk fatvfs_state" where
  "hello_state s = fat_state.extend (kmalloc_state.extend s (fat_state.fields hello_disk SPINLOCK_INIT (replicate 64 closed_file)))
     (fatvfs_state.fields Map.empty)"

definition hello_vfs :: "(disk fatvfs_state, disk fat32_vfs_context option) vfs" where
  "hello_vfs = \<lparr>mounts = [\<lparr>m_addr = 0x1000, m_path = MNT_PATH, m_path_addr = 0x2000, m_ops = fat32_vfs_ops,
       private_data = Some \<lparr>ctx_addr = 0x3000, fatfs = Some ram_fs\<rparr>\<rparr>],
     root_bind = 0x1000, vfs_initialized = True, vfs_files = Map.empty\<rparr>"

lemma hello_setting:
  "\<exists>s. room (hello_state s) 1000 []" "dev_state (hello_state s) = hello_disk" "lock (cache_lock (hello_state s)) = 0"
  "free_slot (open_files (hello_state s)) = Some 0" "length (open_files (hello_state s)) = 64" "fat_mounted hello_vfs ram_fs"
  "validate_fs (Some ram_fs)"
proof -
  obtain s :: kmalloc_state where "room s 16360 []" using heap_example_room by blast
  then have s: "room s 1000 []" by (rule room_mono) simp
  have "kheap (hello_state s) fs us = kheap s fs us" for fs us
    by (rule kheap_cong(1)) (simp_all add: hello_state_def fat_state.defs kmalloc_state.defs fatvfs_state.defs)
  then have "room (hello_state s) 1000 []" using s by (simp add: room_def)
  then show "\<exists>s. room (hello_state s) 1000 []" by blast
  show "dev_state (hello_state s) = hello_disk" "lock (cache_lock (hello_state s)) = 0"
    "free_slot (open_files (hello_state s)) = Some 0" "length (open_files (hello_state s)) = 64" for s
    by (simp_all add: hello_state_def fat_state.defs kmalloc_state.defs fatvfs_state.defs SPINLOCK_INIT_def free_slot_def
        closed_file_def upt_rec [of 0])
  show "fat_mounted hello_vfs ram_fs" by (simp add: fat_mounted_def hello_vfs_def ctx_fs_def)
  show "validate_fs (Some ram_fs)" by (simp add: validate_fs_def ram_fs_def)
qed

context sector_reader
begin

lemma open_read_close:
  fixes st :: "('d, 'a) fatvfs_state_scheme" and v :: "(('d, 'a) fatvfs_state_scheme, 'd fat32_vfs_context option) vfs"
  assumes M: "fat_mounted v fs" and W: "validate_fs (Some fs)" and U: "reads_with fs rd" and L: "lock (cache_lock st) = 0" and H: "holds dk (dev_state st)"
    and G: "geometry_ok fs" and u: "user \<noteq> []" "hd user = SLASH" "length user < 252"
    and fa: "file_at valid fs dk user de" "file_bytes valid fs dk de bytes"
    and h: "free_slot (open_files st) = Some i" "length (open_files st) = 64" and R: "room st k xs" "200 \<le> k"
    and c: "0 < unat count" "unat count < 2 ^ 31"
  shows "\<exists>f v1 st1 v2 st2 st3.
    vfs_open (Some user) VFS_READ v st = Some (0, f, v1, st1) \<and>
    vfs_read f True count v1 st1 = Some (int (length (take (unat count) bytes)), take (unat count) bytes, v2, st2) \<and>
    vfs_close f v2 st2 = Some (0, v\<lparr>vfs_files := (vfs_files v)(f := None)\<rparr>, st3) \<and>
    holds dk (dev_state st3) \<and> \<not> f_used (open_files st3 ! i) \<and> (\<forall>j. j \<noteq> i \<longrightarrow> open_files st3 ! j = open_files st ! j)"
proof -
  have i: "i < length (open_files st)" using h by (auto simp: free_slot_def find_Some_iff)
  from open_fat_file [OF M W U L H u fa(1) h(1) R, of False, unfolded open_flags] obtain f g s1 where
    o: "vfs_open (Some user) VFS_READ v st = Some (0, f, opened False v f g, s1)" "f \<noteq> NULL" "g \<noteq> NULL"
      "holds dk (dev_state s1)" "cache_lock s1 = cache_lock st" "open_files s1 = (open_files st)[i := fresh_handle False fs de]"
      "vfs_handles s1 = (vfs_handles st)(g \<mapsto> file_handle i)" "room s1 (k - 128) (g # f # xs)" by blast
  have s1: "lock (cache_lock s1) = 0" "vfs_handles s1 g = Some (file_handle i)" "open_files s1 ! i = fresh_handle False fs de" using L i o(5-7) by simp_all
  from read_fat_file [OF M U s1(1) o(4) G o(2,3) s1(2,3) fa(2) c] obtain fl d where
    r: "vfs_read f True count (opened False v f g) s1 = Some (int (length (take (unat count) bytes)), take (unat count) bytes,
      advance f (int (length (take (unat count) bytes))) (opened False v f g),
      s1\<lparr>dev_state := d, open_files := (open_files s1)[i := fl]\<rparr>)" "f_used fl" "holds dk d" by blast
  let ?s2 = "s1\<lparr>dev_state := d, open_files := (open_files s1)[i := fl]\<rparr>"
  have s2: "vfs_handles ?s2 g = Some (file_handle i)" "room ?s2 (k - 128) (g # f # xs)" using s1(2) o(8) by simp_all
  from close_fat_file [OF M o(2,3) s2, of "int (length (take (unat count) bytes))"] obtain s3 where
    s3: "vfs_close f (advance f (int (length (take (unat count) bytes))) (opened False v f g)) ?s2 =
        Some (0, v\<lparr>vfs_files := (vfs_files v)(f := None)\<rparr>, s3)"
      "dev_state s3 = dev_state ?s2" "open_files s3 = open_files (fat32_close (Some i) ?s2)" by blast
  have "open_files s3 = (open_files st)[i := fl\<lparr>f_used := False\<rparr>]"
    using s3(3) r(2) o(6) i by (simp add: fat32_close_def)
  then have "\<not> f_used (open_files s3 ! i)" "\<forall>j. j \<noteq> i \<longrightarrow> open_files s3 ! j = open_files st ! j" using i by simp_all
  moreover have "holds dk (dev_state s3)" using s3(2) r(3) by simp
  ultimately show ?thesis using o(1) r(1) s3(1) by blast
qed

end

subsection \<open>Properties\<close>

text \<open>
  Claim C2. With a FAT32 volume mounted on \<^verbatim>\<open>/mnt\<close> and a working disk, opening the path of a file for reading, reading
  and closing it succeed: the read returns the first bytes of the file's cluster chain, as many as
  were asked for and the entry's size allows; afterwards the disk is unchanged, the slot in the
  table of open files is free again and no other slot has changed.
\<close>

theorem vfs_file_read:
  fixes st :: "('d, 'a) fatvfs_state_scheme" and v :: "(('d, 'a) fatvfs_state_scheme, 'd fat32_vfs_context option) vfs"
  assumes M: "fat_mounted v fs" and W: "validate_fs (Some fs)" and D: "sector_reader rd valid holds" "reads_with fs rd"
    and L: "lock (cache_lock st) = 0" and H: "holds dk (dev_state st)" and G: "geometry_ok fs" and u: "user \<noteq> []" "hd user = SLASH" "length user < 252"
    and fa: "file_at valid fs dk user de" "file_bytes valid fs dk de bytes"
    and h: "free_slot (open_files st) = Some i" "length (open_files st) = 64" and R: "room st k xs" "200 \<le> k"
    and c: "0 < unat count" "unat count < 2 ^ 31"
  shows "\<exists>f v1 st1 v2 st2 st3.
    vfs_open (Some user) VFS_READ v st = Some (0, f, v1, st1) \<and>
    vfs_read f True count v1 st1 = Some (int (length (take (unat count) bytes)), take (unat count) bytes, v2, st2) \<and>
    vfs_close f v2 st2 = Some (0, v\<lparr>vfs_files := (vfs_files v)(f := None)\<rparr>, st3) \<and>
    holds dk (dev_state st3) \<and> \<not> f_used (open_files st3 ! i) \<and> (\<forall>j. j \<noteq> i \<longrightarrow> open_files st3 ! j = open_files st ! j)"
  using sector_reader.open_read_close [OF D(1) M W D(2) L H G u fa h R c] .

theorem vfs_file_read_witness:
  "\<exists>s f v1 st1 v2 st2. vfs_open (Some [SLASH, 0x41]) VFS_READ hello_vfs (hello_state s) = Some (0, f, v1, st1) \<and>
     vfs_read f True 255 v1 st1 = Some (2, [72, 105], v2, st2)"
proof -
  obtain s where s: "room (hello_state s) 1000 []" using hello_setting(1) by blast
  note h = hello_setting(2-5) [of s]
  have d: "file_at (\<lambda>_. True) ram_fs hello_disk [SLASH, 0x41] hello_entry"
    "file_bytes (\<lambda>_. True) ram_fs hello_disk hello_entry [72, 105]"
    using hello_file by simp_all
  have u: "[SLASH, 0x41] \<noteq> []" "hd [SLASH, 0x41] = SLASH" "length [SLASH, 0x41] < 252" "200 \<le> (1000 :: nat)"
    "0 < unat (255 :: u64)" "unat (255 :: u64) < 2 ^ 31" by simp_all
  have "ram_still hello_disk hello_disk (dev_state (hello_state s))" by (simp add: ram_still_def h(1) hello_disk_facts(1))
  from vfs_file_read [OF hello_setting(6,7) ram_reader(1,2) h(2) this ram_geometry u(1-3) d h(3,4) s u(4-6)]
  obtain f v1 st1 v2 st2 where "vfs_open (Some [SLASH, 0x41]) VFS_READ hello_vfs (hello_state s) = Some (0, f, v1, st1)"
    "vfs_read f True 255 v1 st1 = Some (int (length (take (unat (255 :: u64)) [72, 105 :: u8])), take (unat (255 :: u64)) [72, 105], v2, st2)" by blast
  moreover have "int (length (take (unat (255 :: u64)) [72, 105 :: u8])) = 2" "take (unat (255 :: u64)) [72, 105 :: u8] = [72, 105]" by simp_all
  ultimately show ?thesis by metis
qed

context sector_reader
begin

lemma stat_fat_entry:
  fixes st :: "('d, 'a) fatvfs_state_scheme" and v :: "(('d, 'a) fatvfs_state_scheme, 'd fat32_vfs_context option) vfs"
  assumes M: "fat_mounted v fs" and U: "reads_with fs rd" and L: "lock (cache_lock st) = 0" and H: "holds dk (dev_state st)"
    and u: "user \<noteq> []" "hd user = SLASH" "length user < 252" and fa: "file_at valid fs dk user de"
  shows "\<exists>e. vfs_stat (Some user) (Some junk) v st = Some (0, Some (stat_of de), st\<lparr>dev_state := e\<rparr>) \<and> holds dk e"
proof -
  obtain m where m: "mounts v = [m]" "root_bind v = m_addr m" "m_addr m \<noteq> NULL" "m_path m = MNT_PATH"
    and op: "m_ops m = fat32_vfs_ops" "ctx_fs (private_data m) = Some fs" using M unfolding fat_mounted_def by blast
  obtain ps n d where p: "path_parts user = ps @ [n]" "dir_walk valid fs dk (root_cluster (bpb fs)) ps d"
    "dir_lookup valid fs dk d n de" using fa unfolding file_at_def by blast
  note rt = route_single [OF m u]
  have ok: "\<forall>q \<in> set (ps @ [n]). part_ok q" using path_parts_ok p(1) by metis
  have l: "length (rel_of (ps @ [n])) \<le> 254" using rt(2) unfolding p(1) .
  from resolve_path [OF U L H p(2) ok l] obtain e1 where
    r: "fat32_resolve (Some fs) (Some (fat_path (rel_of (path_parts user)))) st = Some (Some (d, to_8_3 n), st\<lparr>dev_state := e1\<rparr>)" "holds dk e1"
    unfolding p(1) by blast
  obtain s j e2 where f: "fat32_find fs d (to_8_3 n) (st\<lparr>dev_state := e1\<rparr>) = Some (Some (de, s, j), st\<lparr>dev_state := e2\<rparr>)" "holds dk e2"
    using find_lookup [OF U, of "st\<lparr>dev_state := e1\<rparr>" dk d n de] L r(2) p(3) by auto
  have "rel_of (path_parts user) \<noteq> []" "rd8 (to_8_3 n) 0 \<noteq> 0" using rel_of_snoc [of n ps] part_rd8 [of n] ok part_ok_slash [of n] unfolding p(1) by auto
  then have "fat32_vfs_stat (private_data m) (rel_of (path_parts user)) junk st = Some (0, stat_of de, st\<lparr>dev_state := e2\<rparr>)"
    using op(2) r(1) f(1) by (simp add: fat32_vfs_stat_def)
  moreover have "bad_path (Some user) = False" using u by (simp add: bad_path_def)
  ultimately show ?thesis using rt(1) op(1) f(2) by (intro exI [of _ e2]) (simp add: vfs_stat_def fat32_vfs_ops_def)
qed

end

text \<open>
  For a path that leads to a directory entry, \<open>vfs_stat\<close> and the queries built on it report what the entry says,
  whatever the caller's structure held: the path exists, it is a directory or a file according to the entry's
  attribute, never both, and its size is the entry's, or 0 for a directory. The disk is only read.
\<close>

theorem vfs_stat_reports_entry:
  fixes st :: "('d, 'a) fatvfs_state_scheme" and v :: "(('d, 'a) fatvfs_state_scheme, 'd fat32_vfs_context option) vfs"
  assumes M: "fat_mounted v fs" and D: "sector_reader rd valid holds" "reads_with fs rd" and L: "lock (cache_lock st) = 0"
    and H: "holds dk (dev_state st)" and u: "user \<noteq> []" "hd user = SLASH" "length user < 252" and fa: "file_at valid fs dk user de"
  defines "is_dir \<equiv> de_attr de AND FAT32_ATTR_DIRECTORY \<noteq> 0"
  shows "\<exists>e. holds dk e \<and> (let st' = st\<lparr>dev_state := e\<rparr> in
    vfs_exists junk (Some user) v st = Some (True, st') \<and> vfs_is_dir junk (Some user) v st = Some (is_dir, st') \<and>
    vfs_is_file junk (Some user) v st = Some (\<not> is_dir, st') \<and> vfs_get_size junk (Some user) v st = Some (if is_dir then 0 else de_size de, st'))"
proof -
  obtain e where e: "vfs_stat (Some user) (Some junk) v st = Some (0, Some (stat_of de), st\<lparr>dev_state := e\<rparr>)" "holds dk e"
    using sector_reader.stat_fat_entry [OF D(1) M D(2) L H u fa] by blast
  then show ?thesis by (intro exI [of _ e])
    (simp add: vfs_exists_def vfs_is_dir_def vfs_is_file_def vfs_get_size_def stat_of_def dir_stat_def zero_stat_def is_dir_def)
qed

theorem vfs_stat_reports_entry_witness:
  "\<exists>s. vfs_is_file zero_stat (Some [SLASH, 0x41]) hello_vfs (hello_state s) = Some (True, hello_state s) \<and>
     vfs_get_size zero_stat (Some [SLASH, 0x41]) hello_vfs (hello_state s) = Some (2, hello_state s)"
proof -
  obtain s where s: "room (hello_state s) 1000 []" using hello_setting(1) by blast
  note h = hello_setting(2-5) [of s]
  have d: "ram_still hello_disk hello_disk (dev_state (hello_state s))" by (simp add: ram_still_def h(1) hello_disk_facts(1))
  have "de_size hello_entry = 2" by (simp add: hello_entry_def)
  moreover have "(hello_state s)\<lparr>dev_state := hello_disk\<rparr> = hello_state s" using h(1) by simp
  ultimately show ?thesis
    using vfs_stat_reports_entry [OF hello_setting(6) ram_reader(1,2) h(2) d _ _ _ hello_file(1) [OF places_ok_all], of zero_stat] hello_entry_facts(4)
    by (auto simp: ram_still_def Let_def)
qed



end
