(* ===== verification/Fat32_Write_Back.thy ===== *)
theory Fat32_Write_Back
  imports Fat32_Vfs_Proofs
begin

unbundle bit_operations_syntax

text \<open>
  Writing through all layers: a file that is opened for writing, written and closed reads back as what was written, up to the
  size in its directory entry, which the kernel does not update. A path leads to the same file after any change of sectors it does not use.
\<close>

subsection \<open>Paths on a changed disk\<close>

lemma places_agree:
  assumes P: "\<forall>s. P s \<longrightarrow> dk' s = dk s" and c: "places_ok P fs cs"
  shows "linked (fat_get fs dk') cs = linked (fat_get fs dk) cs" "dir_entries fs dk' cs = dir_entries fs dk cs"
proof -
  show "linked (fat_get fs dk') cs = linked (fat_get fs dk) cs"
    using assms by (intro linked_cong fat_get_cong) (auto simp: places_ok_def)
  show "dir_entries fs dk' cs = dir_entries fs dk cs"
    using assms by (intro dir_entries_cong) (auto simp: places_ok_def dir_sectors_def)
qed

lemma places_mono: "places_ok P fs cs \<Longrightarrow> \<forall>s. P s \<longrightarrow> Q s \<Longrightarrow> places_ok Q fs cs"
  by (auto simp: places_ok_def)

lemma lookup_agree:
  assumes "\<forall>s. P s \<longrightarrow> dk' s = dk s" "\<forall>s. P s \<longrightarrow> Q s" "dir_lookup P fs dk c p de"
  shows "dir_lookup Q fs dk' c p de"
proof -
  obtain ds s i where d: "linked (fat_get fs dk) ds" "hd ds = c" "c \<noteq> NO_CLUSTER" "places_ok P fs ds"
    "scan_result (search (to_8_3 p) (dir_entries fs dk ds)) = Some (de, s, i)" using assms(3) unfolding dir_lookup_def by blast
  moreover have "places_ok Q fs ds" using places_mono [OF d(4) assms(2)] .
  ultimately show ?thesis unfolding dir_lookup_def using places_agree [OF assms(1) d(4)] by metis
qed

lemma walk_agree:
  assumes "\<forall>s. P s \<longrightarrow> dk' s = dk s" "\<forall>s. P s \<longrightarrow> Q s"
  shows "dir_walk P fs dk c ps d \<Longrightarrow> dir_walk Q fs dk' c ps d"
  by (induction rule: dir_walk.induct) (auto intro: dir_walk.intros lookup_agree [OF assms])

lemma file_at_agree:
  assumes "\<forall>s. P s \<longrightarrow> dk' s = dk s" "\<forall>s. P s \<longrightarrow> Q s" "file_at P fs dk path de"
  shows "file_at Q fs dk' path de"
  using assms(3) walk_agree [OF assms(1,2)] lookup_agree [OF assms(1,2)] unfolding file_at_def by blast

lemma chain_own_write:
  assumes "chain_at fs dk cs" "\<forall>s. s \<notin> set (dir_sectors fs cs) \<longrightarrow> dk' s = dk s"
  shows "linked (fat_get fs dk') cs"
proof -
  have "fat_get fs dk' c = fat_get fs dk c" if "c \<in> set cs" for c
    using assms that by (intro fat_get_cong) (simp add: chain_at_def chain_ok_def dir_sectors_def)
  then have "linked (fat_get fs dk') cs = linked (fat_get fs dk) cs" by (rule linked_cong)
  then show ?thesis using assms(1) by (simp add: chain_at_def)
qed

subsection \<open>Writing and closing\<close>

text \<open>What a file of contents \<open>bytes\<close> reads as after its first bytes have been overwritten: its size stays.\<close>

definition overwrite :: "u8 list \<Rightarrow> u8 list \<Rightarrow> u8 list" where
  "overwrite bytes new = take (length bytes) new @ drop (length new) bytes"

lemma take_put_front:
  assumes "n \<le> length b" "length xs \<le> length b"
  shows "take n (put b 0 xs) = overwrite (take n b) xs"
  using assms by (simp add: put_def overwrite_def drop_take min_def)

lemma free_slot_again:
  assumes "free_slot files = Some i" "length files = 64" "\<not> f_used g"
  shows "free_slot (files[i := g]) = Some i"
proof -
  have f: "i < 64" "\<not> f_used (files ! i)" "\<forall>j < i. f_used (files ! j)"
    using assms(1) by (auto simp: free_slot_def find_Some_iff)
  have "\<forall>j < i. f_used (files[i := g] ! j)" "\<not> f_used (files[i := g] ! i)" using f assms(2,3) by auto
  then show ?thesis unfolding free_slot_def find_Some_iff using f(1) by (intro exI [of _ i]) auto
qed

context sector_device
begin

lemma write_fat_file:
  fixes st :: "('d, 'a) fatvfs_state_scheme"
  assumes M: "fat_mounted v fs" and U: "uses_device fs rd wr" and L: "lock (cache_lock st) = 0" and H: "holds dk (dev_state st)" and G: "geometry_ok fs"
    and f: "f \<noteq> NULL" "g \<noteq> NULL" "vfs_handles st g = Some (file_handle i)" "open_files st ! i = fresh_handle True fs de"
    and ch: "chain_at fs dk (dirent_cluster de # cs)" "places_ok valid fs (dirent_cluster de # cs)"
    and n: "0 < unat count" "unat count < 2 ^ 31" "unat count \<le> length data" "unat count < length (chain_bytes fs dk (dirent_cluster de # cs))"
  shows "\<exists>fl d dk'. vfs_write f (Some data) count (opened True v f g) st = Some (int (unat count), advance f (int (unat count)) (opened True v f g),
      st\<lparr>dev_state := d, open_files := (open_files st)[i := fl]\<rparr>) \<and> f_used fl \<and> holds dk' d \<and>
    chain_bytes fs dk' (dirent_cluster de # cs) = put (chain_bytes fs dk (dirent_cluster de # cs)) 0 (take (unat count) data) \<and>
    (\<forall>s. s \<notin> set (dir_sectors fs (dirent_cluster de # cs)) \<longrightarrow> dk' s = dk s)"
proof -
  let ?f = "fresh_handle True fs de" and ?sz = "ucast count :: u32"
  have sz: "unat ?sz = unat count" "count \<noteq> 0" using n by (auto simp: unsigned_ucast_eq take_bit_nat_eq_self)
  have ff: "f_used ?f" "f_mode ?f = 1" "f_fs ?f = Some fs" "curr_cluster ?f = dirent_cluster de" "curr_offset ?f = 0" "file_pos ?f = 0"
    by (simp_all add: fresh_handle_def)
  have z: "0 < bytes_per_cluster fs" using unat_bpc(2) [OF G] by (simp add: word_less_nat_alt)
  from file_write [OF U L H G f(4) ff(1-3), unfolded ff, OF ch z, of ?sz data] n sz obtain cc co d dk' where
    w: "fat32_write (Some i) data ?sz st = Some (int (unat count), st\<lparr>dev_state := d,
       open_files := (open_files st)[i := ?f\<lparr>curr_cluster := cc, curr_offset := co,
         file_size := max (file_size ?f) ?sz, file_pos := ?sz\<rparr>]\<rparr>)" "holds dk' d"
     "chain_bytes fs dk' (dirent_cluster de # cs) = put (chain_bytes fs dk (dirent_cluster de # cs)) 0 (take (unat count) data)"
     "\<forall>s. s \<notin> set (dir_sectors fs (dirent_cluster de # cs)) \<longrightarrow> dk' s = dk s" by auto
  have "fat32_vfs_write g data count st = fat32_write (Some i) data ?sz st"
    using f(2,3) by (simp add: fat32_vfs_write_def file_handle_def)
  then have "vfs_write f (Some data) count (opened True v f g) st = Some (int (unat count), advance f (int (unat count)) (opened True v f g),
      st\<lparr>dev_state := d, open_files := (open_files st)[i := ?f\<lparr>curr_cluster := cc, curr_offset := co,
         file_size := max (file_size ?f) ?sz, file_pos := ?sz\<rparr>]\<rparr>)"
    using w(1) opened_file [OF M f(1), of True g] f(1) sz(2)
    by (simp add: vfs_write_def fat32_vfs_ops_def new_vfs_file_def open_flags)
  moreover have "f_used (?f\<lparr>curr_cluster := cc, curr_offset := co, file_size := max (file_size ?f) ?sz, file_pos := ?sz\<rparr>)" using ff(1) by simp
  ultimately show ?thesis using w(2-4) by blast
qed

lemma open_write_close:
  fixes st :: "('d, 'a) fatvfs_state_scheme" and v :: "(('d, 'a) fatvfs_state_scheme, 'd fat32_vfs_context option) vfs"
  assumes M: "fat_mounted v fs" and W: "validate_fs (Some fs)" and U: "uses_device fs rd wr" and L: "lock (cache_lock st) = 0" and H: "holds dk (dev_state st)"
    and G: "geometry_ok fs" and u: "user \<noteq> []" "hd user = SLASH" "length user < 252" and fa: "file_at valid fs dk user de"
    and ch: "chain_at fs dk (dirent_cluster de # cs)" "places_ok valid fs (dirent_cluster de # cs)"
    and h: "free_slot (open_files st) = Some i" "length (open_files st) = 64" and R: "room st k xs" "200 \<le> k"
    and n: "0 < unat count" "unat count < 2 ^ 31" "unat count \<le> length data" "unat count < length (chain_bytes fs dk (dirent_cluster de # cs))"
  shows "\<exists>f v1 st1 v2 st2 st3 dk'.
    vfs_open (Some user) VFS_WRITE v st = Some (0, f, v1, st1) \<and>
    vfs_write f (Some data) count v1 st1 = Some (int (unat count), v2, st2) \<and>
    vfs_close f v2 st2 = Some (0, v\<lparr>vfs_files := (vfs_files v)(f := None)\<rparr>, st3) \<and> holds dk' (dev_state st3) \<and>
    chain_bytes fs dk' (dirent_cluster de # cs) = put (chain_bytes fs dk (dirent_cluster de # cs)) 0 (take (unat count) data) \<and>
    (\<forall>s. s \<notin> set (dir_sectors fs (dirent_cluster de # cs)) \<longrightarrow> dk' s = dk s) \<and>
    lock (cache_lock st3) = 0 \<and> room st3 (k - 128) xs \<and> free_slot (open_files st3) = Some i \<and> length (open_files st3) = 64 \<and>
    (\<forall>j. j \<noteq> i \<longrightarrow> open_files st3 ! j = open_files st ! j)"
proof -
  have i: "i < length (open_files st)" using h by (auto simp: free_slot_def find_Some_iff)
  from open_fat_file [OF M W uses_reads [OF U] L H u fa h(1) R, of True, unfolded open_flags] obtain f g s1 where
    o: "vfs_open (Some user) VFS_WRITE v st = Some (0, f, opened True v f g, s1)" "f \<noteq> NULL" "g \<noteq> NULL"
      "holds dk (dev_state s1)" "cache_lock s1 = cache_lock st" "open_files s1 = (open_files st)[i := fresh_handle True fs de]"
      "vfs_handles s1 = (vfs_handles st)(g \<mapsto> file_handle i)" "room s1 (k - 128) (g # f # xs)" by blast
  have s1: "lock (cache_lock s1) = 0" "vfs_handles s1 g = Some (file_handle i)" "open_files s1 ! i = fresh_handle True fs de" using L i o(5-7) by simp_all
  from write_fat_file [OF M U s1(1) o(4) G o(2,3) s1(2,3) ch n] obtain fl d dk' where
    w: "vfs_write f (Some data) count (opened True v f g) s1 = Some (int (unat count), advance f (int (unat count)) (opened True v f g),
      s1\<lparr>dev_state := d, open_files := (open_files s1)[i := fl]\<rparr>)" "f_used fl" "holds dk' d"
    "chain_bytes fs dk' (dirent_cluster de # cs) = put (chain_bytes fs dk (dirent_cluster de # cs)) 0 (take (unat count) data)"
    "\<forall>s. s \<notin> set (dir_sectors fs (dirent_cluster de # cs)) \<longrightarrow> dk' s = dk s" by blast
  let ?s2 = "s1\<lparr>dev_state := d, open_files := (open_files s1)[i := fl]\<rparr>"
  have s2: "vfs_handles ?s2 g = Some (file_handle i)" "room ?s2 (k - 128) (g # f # xs)" using s1(2) o(8) by simp_all
  from close_fat_file [OF M o(2,3) s2, of "int (unat count)" True] obtain s3 where
    s3: "vfs_close f (advance f (int (unat count)) (opened True v f g)) ?s2 = Some (0, v\<lparr>vfs_files := (vfs_files v)(f := None)\<rparr>, s3)"
      "room s3 (k - 128) xs" "dev_state s3 = dev_state ?s2" "cache_lock s3 = cache_lock ?s2" "open_files s3 = open_files (fat32_close (Some i) ?s2)" by blast
  have o3: "open_files s3 = (open_files st)[i := fl\<lparr>f_used := False\<rparr>]" using s3(5) w(2) o(6) i by (simp add: fat32_close_def)
  have "free_slot (open_files s3) = Some i" unfolding o3 using free_slot_again [OF h, of "fl\<lparr>f_used := False\<rparr>"] by simp
  moreover have "length (open_files s3) = 64" "\<forall>j. j \<noteq> i \<longrightarrow> open_files s3 ! j = open_files st ! j" using o3 h(2) by simp_all
  moreover have "lock (cache_lock s3) = 0" "holds dk' (dev_state s3)" using s3(3,4) w(3) L o(5) by simp_all
  ultimately show ?thesis using o(1) w(1,4,5) s3(1,2) by blast
qed

end

subsection \<open>Properties\<close>

text \<open>
  Claim C3. What is written to a file through all layers is read back. On any block device that keeps what is written to it, with the volume mounted on
  \<^verbatim>\<open>/mnt\<close>, a file whose path does not run through its own data is opened for writing, written from its start, closed, opened
  again for reading and read: every call succeeds, and the bytes read are the old contents overwritten by the new bytes, cut at the
  size in the directory entry, which stays as it was. No sector outside of the file's clusters changes.
\<close>

theorem vfs_write_read_back:
  fixes st :: "('d, 'a) fatvfs_state_scheme" and v :: "(('d, 'a) fatvfs_state_scheme, 'd fat32_vfs_context option) vfs"
  assumes M: "fat_mounted v fs" and W: "validate_fs (Some fs)" and D: "sector_device rd valid holds wr" "uses_device fs rd wr"
    and L: "lock (cache_lock st) = 0" and H: "holds dk (dev_state st)" and G: "geometry_ok fs" and u: "user \<noteq> []" "hd user = SLASH" "length user < 252"
    and ch: "chain_at fs dk (dirent_cluster de # cs)" "places_ok valid fs (dirent_cluster de # cs)"
    and fa: "file_at (\<lambda>s. valid s \<and> s \<notin> set (dir_sectors fs (dirent_cluster de # cs))) fs dk user de"
    and b: "unat (de_size de) \<le> length (chain_bytes fs dk (dirent_cluster de # cs))" "bytes = take (unat (de_size de)) (chain_bytes fs dk (dirent_cluster de # cs))"
    and h: "free_slot (open_files st) = Some i" "length (open_files st) = 64" and R: "room st k xs" "328 \<le> k"
    and n: "0 < unat count" "unat count < 2 ^ 31" "unat count \<le> length data" "unat count < length (chain_bytes fs dk (dirent_cluster de # cs))"
    and n': "0 < unat count'" "unat count' < 2 ^ 31"
  defines "got \<equiv> take (unat count') (overwrite bytes (take (unat count) data))"
  shows "\<exists>f v1 st1 v2 st2 v3 st3 f' v4 st4 v5 st5 v6 st6 dk'.
    vfs_open (Some user) VFS_WRITE v st = Some (0, f, v1, st1) \<and>
    vfs_write f (Some data) count v1 st1 = Some (int (unat count), v2, st2) \<and> vfs_close f v2 st2 = Some (0, v3, st3) \<and>
    vfs_open (Some user) VFS_READ v3 st3 = Some (0, f', v4, st4) \<and>
    vfs_read f' True count' v4 st4 = Some (int (length got), got, v5, st5) \<and> vfs_close f' v5 st5 = Some (0, v6, st6) \<and>
    holds dk' (dev_state st6) \<and> (\<forall>s. s \<notin> set (dir_sectors fs (dirent_cluster de # cs)) \<longrightarrow> dk' s = dk s)"
proof -
  let ?S = "set (dir_sectors fs (dirent_cluster de # cs))" and ?c = "chain_bytes fs dk (dirent_cluster de # cs)"
  note Rd = sector_device.axioms(1) [OF D(1)]
  have "file_at valid fs dk user de" using file_at_agree [OF _ _ fa, of dk valid] by simp
  from sector_device.open_write_close [OF D(1) M W D(2) L H G u this ch h R(1) _ n] R(2) obtain f v1 st1 v2 st2 st3 dk' where
    w: "vfs_open (Some user) VFS_WRITE v st = Some (0, f, v1, st1)" "vfs_write f (Some data) count v1 st1 = Some (int (unat count), v2, st2)"
      "vfs_close f v2 st2 = Some (0, v\<lparr>vfs_files := (vfs_files v)(f := None)\<rparr>, st3)"
    and w': "holds dk' (dev_state st3)" "chain_bytes fs dk' (dirent_cluster de # cs) = put ?c 0 (take (unat count) data)"
      "\<forall>s. s \<notin> ?S \<longrightarrow> dk' s = dk s" "lock (cache_lock st3) = 0" "room st3 (k - 128) xs" "free_slot (open_files st3) = Some i" "length (open_files st3) = 64"
    by auto
  let ?v = "v\<lparr>vfs_files := (vfs_files v)(f := None)\<rparr>"
  have M': "fat_mounted ?v fs" using M by (simp add: fat_mounted_files)
  have f': "file_at valid fs dk' user de" using file_at_agree [OF _ _ fa, of dk' valid] w'(3) by simp
  have "linked (fat_get fs dk') (dirent_cluster de # cs)" using chain_own_write [OF ch(1) w'(3)] .
  moreover have "take (unat (de_size de)) (put ?c 0 (take (unat count) data)) = overwrite bytes (take (unat count) data)"
    using take_put_front [OF b(1), of "take (unat count) data"] n(3,4) b(2) by simp
  moreover have "length (put ?c 0 (take (unat count) data)) = length ?c" using n(3,4) by simp
  ultimately have fb: "file_bytes valid fs dk' de (overwrite bytes (take (unat count) data))"
    unfolding file_bytes_def using ch(2) b(1) w'(2) by (intro exI [of _ cs]) simp
  have k: "200 \<le> k - 128" using R(2) by simp
  from sector_reader.open_read_close [OF Rd M' W uses_reads [OF D(2)] w'(4,1) G u f' fb w'(6,7,5) k n'] obtain g v4 st4 v5 st5 v6 st6 where
    "vfs_open (Some user) VFS_READ ?v st3 = Some (0, g, v4, st4)" "vfs_read g True count' v4 st4 = Some (int (length got), got, v5, st5)"
    "vfs_close g v5 st5 = Some (0, v6, st6)" "holds dk' (dev_state st6)" unfolding got_def by blast
  with w w'(3) show ?thesis by blast
qed

theorem vfs_write_read_back_witness:
  "\<exists>s f v1 st1 v2 st2 v3 st3 f' v4 st4 v5 st5. vfs_open (Some [SLASH, 0x41]) VFS_WRITE hello_vfs (hello_state s) = Some (0, f, v1, st1) \<and>
     vfs_write f (Some [74]) 1 v1 st1 = Some (1, v2, st2) \<and> vfs_close f v2 st2 = Some (0, v3, st3) \<and>
     vfs_open (Some [SLASH, 0x41]) VFS_READ v3 st3 = Some (0, f', v4, st4) \<and> vfs_read f' True 255 v4 st4 = Some (2, [74, 105], v5, st5)"
proof -
  obtain s where s: "room (hello_state s) 1000 []" using hello_setting(1) by blast
  note h = hello_setting(2-5) [of s]
  have c: "dirent_cluster hello_entry # [] = [3]" using hello_entry_facts(2) by simp
  have S: "dir_sectors ram_fs [3] = [41]" "places_ok P ram_fs [2] \<longleftrightarrow> P 32 \<and> P 40" for P
    by (simp_all add: dir_sectors_def places_ok_def cluster_sectors_def cluster_sector_def ram_fs_def fat_sector_of_def)
  have ch: "chain_at ram_fs hello_disk (dirent_cluster hello_entry # [])" unfolding c using hello_disk_facts(3)
    by (simp add: chain_at_def chain_ok_def fat_index_def cluster_sectors_def cluster_sector_def fat_sector_of_def ram_fs_def)
  have b: "chain_bytes ram_fs hello_disk (dirent_cluster hello_entry # []) = [72, 105] @ replicate 510 0" unfolding c
    using hello_disk_facts(5) by (simp add: chain_bytes_def cluster_bytes_def cluster_sectors_def cluster_sector_def ram_fs_def)
  have fa: "file_at (\<lambda>s. True \<and> s \<notin> set (dir_sectors ram_fs (dirent_cluster hello_entry # []))) ram_fs hello_disk [SLASH, 0x41] hello_entry"
    unfolding c S(1) by (rule hello_file(1)) (subst S(2), simp)
  have z: "unat (de_size hello_entry) = 2" by (simp add: hello_entry_def)
  have H: "ram_holds hello_disk (dev_state (hello_state s))" by (simp add: ram_holds_def h(1) hello_disk_facts(1))
  have u: "[SLASH, 0x41] \<noteq> []" "hd [SLASH, 0x41] = SLASH" "length [SLASH, 0x41] < 252" "328 \<le> (1000 :: nat)"
    "0 < unat (1 :: u64)" "unat (1 :: u64) < 2 ^ 31" "unat (1 :: u64) \<le> length [74 :: u8]"
    "unat (1 :: u64) < length (chain_bytes ram_fs hello_disk (dirent_cluster hello_entry # []))" "0 < unat (255 :: u64)" "unat (255 :: u64) < 2 ^ 31"
    "unat (de_size hello_entry) \<le> length (chain_bytes ram_fs hello_disk (dirent_cluster hello_entry # []))"
    unfolding b z by simp_all
  have g: "take (unat (255 :: u64)) (overwrite (take (unat (de_size hello_entry)) (chain_bytes ram_fs hello_disk (dirent_cluster hello_entry # [])))
      (take (unat (1 :: u64)) [74])) = [74, 105]" unfolding b z by (simp add: overwrite_def)
  from vfs_write_read_back [OF hello_setting(6,7) ram_device, OF h(2) H ram_geometry u(1-3) ch places_ok_all fa u(11) refl h(3,4) s u(4-10), unfolded g]
  show ?thesis by (auto intro!: exI [of _ s])
qed

end
