(* ===== verification/Fat32_Mkdir.thy ===== *)
theory Fat32_Mkdir
  imports Fat32_Vfs_Proofs
begin

unbundle bit_operations_syntax

text \<open>
  Making a directory through the VFS: the new directory has a cluster of its own that holds its entries \<^verbatim>\<open>.\<close> and \<^verbatim>\<open>..\<close> and nothing
  else, its name is found in the parent directory, and all other names and table entries are as before.
\<close>

subsection \<open>The entries of a new directory\<close>

lemma mkdir_entry_facts:
  assumes "length t = 11"
  shows "dirent_ok (mkdir_entry t c)" "from_8_3 (mkdir_entry t c) = t" "de_attr (mkdir_entry t c) = 0x10"
    "dirent_cluster (mkdir_entry t c) = c" "rd8 (dirent_bytes (mkdir_entry t c)) 0 = t ! 0"
proof -
  have e: "mkdir_entry t c = (new_entry t c)\<lparr>de_attr := 0x10\<rparr>" by (simp add: mkdir_entry_def new_entry_def)
  note n = new_entry_facts [OF assms, of c]
  show "dirent_ok (mkdir_entry t c)" "from_8_3 (mkdir_entry t c) = t" "de_attr (mkdir_entry t c) = 0x10" "dirent_cluster (mkdir_entry t c) = c"
    using n unfolding e by (simp_all add: dirent_ok_def from_8_3_def dirent_cluster_def)
  show "rd8 (dirent_bytes (mkdir_entry t c)) 0 = t ! 0"
    using assms by (simp add: rd8_def dirent_bytes_def mkdir_entry_def nth_append)
qed

lemma dot_names: "length DOT_NAME = 11" "length DOTDOT_NAME = 11" "DOT_NAME ! 0 = 0x2E" "DOTDOT_NAME ! 0 = 0x2E" "DOT_NAME \<noteq> DOTDOT_NAME"
proof -
  show "length DOT_NAME = 11" "length DOTDOT_NAME = 11" "DOT_NAME ! 0 = 0x2E" "DOTDOT_NAME ! 0 = 0x2E" by (simp_all add: DOT_NAME_def DOTDOT_NAME_def)
  have "DOT_NAME ! 1 \<noteq> DOTDOT_NAME ! 1" by (simp add: DOT_NAME_def DOTDOT_NAME_def nth_append)
  then show "DOT_NAME \<noteq> DOTDOT_NAME" by metis
qed

text \<open>The first sector of the directory in cluster \<open>c\<close>, and what a lookup in it finds.\<close>

definition dot_sector :: "u32 \<Rightarrow> u32 \<Rightarrow> u8 list" where
  "dot_sector c parent = put (put (replicate 512 0) 0 (dirent_bytes (mkdir_entry DOT_NAME c))) 32 (dirent_bytes (mkdir_entry DOTDOT_NAME parent))"

definition empty_dir :: "'d fat32_fs \<Rightarrow> u32 \<Rightarrow> u32 \<Rightarrow> u8 list \<Rightarrow> (fat32_dirent \<times> u32 \<times> u8) option" where
  "empty_dir fs c parent m =
     (if m = DOT_NAME then Some (mkdir_entry DOT_NAME c, cluster_sector fs c, 0)
      else if m = DOTDOT_NAME then Some (mkdir_entry DOTDOT_NAME parent, cluster_sector fs c, 1) else None)"

lemma dot_sector_length: "length (dot_sector c parent) = 512"
  using dirent_bytes_length mkdir_entry_facts(1) [OF dot_names(1), of c] mkdir_entry_facts(1) [OF dot_names(2), of parent]
  by (simp add: dot_sector_def)

lemma dot_sector_entries:
  "\<exists>rest. sector_entries (dot_sector c parent) s = (dirent_bytes (mkdir_entry DOT_NAME c), s, 0) #
     (dirent_bytes (mkdir_entry DOTDOT_NAME parent), s, 1) # (replicate 32 0, s, 2) # rest"
proof -
  let ?d = "dirent_bytes (mkdir_entry DOT_NAME c)" and ?p = "dirent_bytes (mkdir_entry DOTDOT_NAME parent)"
  have l: "length ?d = 32" "length ?p = 32" using dirent_bytes_length mkdir_entry_facts(1) dot_names(1,2) by blast+
  let ?b = "put (replicate 512 0) (0 * 32) ?d"
  have b: "length ?b = 512" using l by simp
  have e: "entry_at (dot_sector c parent) j = (if j = 1 then ?p else if j = 0 then ?d else entry_at (replicate 512 0) j)" if "j < 16" for j
    using entry_at_put [OF b _ that l(2), of 1] entry_at_put [OF _ _ that l(1), of "replicate 512 0" 0] that by (simp add: dot_sector_def)
  have "[0..<16] = 0 # 1 # 2 # [3..<16 :: nat]" by (simp add: upt_rec)
  then show ?thesis using e [of 0] e [of 1] e [of 2] unfolding sector_entries_def by (simp add: entry_at_def)
qed

lemma search_dots: "scan_result (search m (sector_entries (dot_sector c parent) (cluster_sector fs c) @ xs)) = empty_dir fs c parent m"
proof -
  note d = mkdir_entry_facts [OF dot_names(1), of c] and p = mkdir_entry_facts [OF dot_names(2), of parent]
  obtain rest where r: "sector_entries (dot_sector c parent) (cluster_sector fs c) = (dirent_bytes (mkdir_entry DOT_NAME c), cluster_sector fs c, 0) #
     (dirent_bytes (mkdir_entry DOTDOT_NAME parent), cluster_sector fs c, 1) # (replicate 32 0, cluster_sector fs c, 2) # rest"
    using dot_sector_entries by blast
  have "rd8 (replicate 32 0) 0 = 0" by (simp add: rd8_def)
  then show ?thesis unfolding r using d p dot_names(3-5) dirent_of_bytes by (auto simp: empty_dir_def)
qed

subsection \<open>Clearing the cluster\<close>

definition zeroed :: "disk \<Rightarrow> u32 set \<Rightarrow> disk" where
  "zeroed dk S = (\<lambda>s. if s \<in> S then replicate 512 0 else dk s)"

context sector_device
begin

lemma clear_from:
  assumes U: "uses_device fs rd wr"
  defines "N \<equiv> unat (sectors_per_cluster (bpb fs))"
  shows "unat i \<le> N \<Longrightarrow> \<forall>j \<in> {unat i..<N}. valid (f + of_nat j) \<Longrightarrow> lock (cache_lock st) = 0 \<Longrightarrow> holds dk (dev_state st) \<Longrightarrow>
    \<exists>d. clear_sectors fs f i st = Some (True, st\<lparr>dev_state := d\<rparr>) \<and> holds (zeroed dk ((\<lambda>j. f + of_nat j) ` {unat i..<N})) d"
proof (induction "N - unat i" arbitrary: i st dk)
  case 0
  then have "\<not> i < ucast (sectors_per_cluster (bpb fs))" by (simp add: word_less_nat_alt unat_spc N_def)
  then have "clear_sectors fs f i st = Some (True, st\<lparr>dev_state := dev_state st\<rparr>)" by (simp add: clear_sectors.simps)
  moreover have "zeroed dk ((\<lambda>j. f + of_nat j) ` {unat i..<N}) = dk" using "0.hyps" by (simp add: zeroed_def)
  ultimately show ?case using "0.prems"(4) by metis
next
  case (Suc n)
  have i: "i < ucast (sectors_per_cluster (bpb fs))" "unat i < N" using Suc.hyps(2) by (simp_all add: word_less_nat_alt unat_spc N_def)
  have N: "N < 256" unfolding N_def using unsigned_less [of "sectors_per_cluster (bpb fs)", where ?'a = nat] by simp
  have u: "unat (i + 1) = Suc (unat i)" using i(2) N by (simp add: unat_plus_if')
  have v: "valid (f + i)" using Suc.prems(2) i(2) by force
  from cache_write [OF U Suc.prems(3,4) v, of "replicate 512 0"] obtain d where
    w: "cache_write_sector fs (f + i) (replicate 512 0) st = Some (0, st\<lparr>dev_state := d\<rparr>)" "holds (dk(f + i := replicate 512 0)) d" by auto
  have pre: "n = N - unat (i + 1)" "unat (i + 1) \<le> N" "\<forall>j \<in> {unat (i + 1)..<N}. valid (f + of_nat j)"
    "lock (cache_lock (st\<lparr>dev_state := d\<rparr>)) = 0" "holds (dk(f + i := replicate 512 0)) (dev_state (st\<lparr>dev_state := d\<rparr>))"
    using Suc.hyps(2) Suc.prems(2,3) i(2) u w(2) by simp_all
  from Suc.hyps(1) [OF pre] obtain e where e: "clear_sectors fs f (i + 1) (st\<lparr>dev_state := d\<rparr>) = Some (True, st\<lparr>dev_state := e\<rparr>)"
    "holds (zeroed (dk(f + i := replicate 512 0)) ((\<lambda>j. f + of_nat j) ` {unat (i + 1)..<N})) e" by auto
  have "{unat i..<N} = insert (unat i) {unat (i + 1)..<N}" using i(2) u by auto
  then have "zeroed (dk(f + i := replicate 512 0)) ((\<lambda>j. f + of_nat j) ` {unat (i + 1)..<N}) = zeroed dk ((\<lambda>j. f + of_nat j) ` {unat i..<N})"
    by (auto simp: zeroed_def fun_eq_iff)
  moreover have "clear_sectors fs f i st = Some (True, st\<lparr>dev_state := e\<rparr>)" using i(1) w(1) e(1) by (simp add: clear_sectors.simps [of fs f i])
  ultimately show ?case using e(2) by metis
qed

lemma clear_cluster:
  assumes U: "uses_device fs rd wr" and L: "lock (cache_lock st) = 0" and H: "holds dk (dev_state st)"
    and v: "\<forall>s \<in> set (cluster_sectors fs c). valid s"
  shows "\<exists>d. clear_sectors fs (cluster_sector fs c) 0 st = Some (True, st\<lparr>dev_state := d\<rparr>) \<and> holds (zeroed dk (set (cluster_sectors fs c))) d"
proof -
  have s: "set (cluster_sectors fs c) = (\<lambda>j. cluster_sector fs c + of_nat j) ` {unat (0 :: u32)..<unat (sectors_per_cluster (bpb fs))}"
    by (simp add: cluster_sectors_def atLeast_upt)
  show ?thesis using clear_from [OF U, of 0 "cluster_sector fs c" st dk] v L H unfolding s by simp
qed

end

subsection \<open>The disk afterwards\<close>

text \<open>The contents of the disk after the steps of \<open>fat32_mkdir\<close>: the table entry, the cleared cluster, its first sector, the entry in the parent.\<close>

definition dir_disk :: "'d fat32_fs \<Rightarrow> disk \<Rightarrow> u32 \<Rightarrow> u32 \<Rightarrow> disk" where
  "dir_disk fs dk c parent = (zeroed (fat_put fs dk c 0x0FFFFFFF) (set (cluster_sectors fs c)))(cluster_sector fs c := dot_sector c parent)"

lemma cluster_sectors_Cons:
  assumes "geometry_ok fs"
  shows "\<exists>ss. cluster_sectors fs c = cluster_sector fs c # ss"
proof -
  have "0 < unat (sectors_per_cluster (bpb fs))" using assms by (simp add: geometry_ok_def unat_gt_0)
  then show ?thesis by (simp add: cluster_sectors_def upt_rec [of 0])
qed

lemma dir_disk_other:
  assumes "geometry_ok fs" "s \<notin> set (cluster_sectors fs c)"
  shows "dir_disk fs dk c parent s = fat_put fs dk c 0x0FFFFFFF s"
  using cluster_sectors_Cons [OF assms(1), of c] assms(2) by (auto simp: dir_disk_def zeroed_def)

lemma dir_disk_512: "disk512 dk \<Longrightarrow> disk512 (dir_disk fs dk c parent)"
  using disk512_put [of dk fs c] dot_sector_length by (simp add: dir_disk_def zeroed_def disk512_def)

text \<open>The clusters of the parent directory and the new one are apart from each other and from their entries in the table.\<close>

lemma dir_disk_parent:
  assumes G: "geometry_ok fs" and D: "disk512 dk" and ch: "chain_at fs dk cs" "chain_ok fs (cs @ [e])" and e: "fat_index e" "fat_get fs dk e = 0"
  shows "chain_at fs (dir_disk fs dk e p) cs" "dir_entries fs (dir_disk fs dk e p) cs = dir_entries fs dk cs"
proof -
  let ?d = "dir_disk fs dk e p"
  have a: "fat_sector_of fs e \<notin> set (dir_sectors fs cs)" "set (cluster_sectors fs e) \<inter> set (dir_sectors fs cs) = {}"
    "\<forall>c \<in> set cs. fat_sector_of fs c \<notin> set (cluster_sectors fs e)"
    using ch(2) by (auto simp: chain_ok_def dir_sectors_def)
  note put = chain_at_fat_put [OF ch(1) D e a(1), of "0x0FFFFFFF"]
  have "fat_get fs ?d c = fat_get fs (fat_put fs dk e 0x0FFFFFFF) c" if "c \<in> set cs" for c
    using a(3) that by (intro fat_get_cong dir_disk_other [OF G]) simp
  then have "linked (fat_get fs ?d) cs = linked (fat_get fs (fat_put fs dk e 0x0FFFFFFF)) cs" by (rule linked_cong)
  then show "chain_at fs ?d cs" using put(1) by (simp add: chain_at_def)
  have "dir_entries fs ?d cs = dir_entries fs (fat_put fs dk e 0x0FFFFFFF) cs"
    using a(2) by (intro dir_entries_cong dir_disk_other [OF G]) blast
  then show "dir_entries fs ?d cs = dir_entries fs dk cs" using put(2) by simp
qed

lemma dir_disk_new:
  assumes G: "geometry_ok fs" and D: "disk512 dk" and ch: "chain_ok fs [e]" and e: "fat_index e" "2 \<le> e"
    and same: "\<forall>s \<in> insert (fat_sector_of fs e) (set (cluster_sectors fs e)). dk' s = dir_disk fs dk e p s"
  shows "chain_at fs dk' [e]" "scan_result (search m (dir_entries fs dk' [e])) = empty_dir fs e p m"
proof -
  obtain ss where ss: "cluster_sectors fs e = cluster_sector fs e # ss" using cluster_sectors_Cons [OF G] by blast
  have f: "fat_sector_of fs e \<notin> set (cluster_sectors fs e)" using ch by (simp add: chain_ok_def)
  have "fat_get fs dk' e = fat_get fs (fat_put fs dk e 0x0FFFFFFF) e" using same dir_disk_other [OF G f] by (intro fat_get_cong) simp
  also have "\<dots> = 0x0FFFFFFF" using fat_get_put [OF D e(1) e(1), of fs "0x0FFFFFFF"] by simp
  finally show "chain_at fs dk' [e]" using ch e by (simp add: chain_at_def)
  have "dk' (cluster_sector fs e) = dot_sector e p" using same ss by (simp add: dir_disk_def)
  then have "dir_entries fs dk' [e] = sector_entries (dot_sector e p) (cluster_sector fs e) @ concat (map (\<lambda>s. sector_entries (dk' s) s) ss)"
    by (simp add: dir_entries_def ss)
  then show "scan_result (search m (dir_entries fs dk' [e])) = empty_dir fs e p m" by (simp only: search_dots)
qed

context sector_device
begin

lemma mkdir_parent:
  fixes st :: "('d, 'a) fat_state_scheme"
  assumes U: "uses_device fs rd wr" and L: "lock (cache_lock st) = 0" and H: "holds (fat_put fs dk e 0x0FFFFFFF) (dev_state st)"
    and G: "geometry_ok fs" and D: "disk512 dk" and e: "fat_index e" "fat_get fs dk e = 0"
    and ch: "chain_at fs dk cs" "places_ok valid fs (cs @ [e])" "chain_ok fs (cs @ [e])"
    and sl: "free_search (dir_entries fs dk cs) = Found (s, i)" and t: "length t = 11"
    and si: "s \<in> set (dir_sectors fs cs)" "unat i < 16"
  defines "dd \<equiv> dir_disk fs dk e (hd cs)"
  shows "\<exists>d. mkdir_cluster fs (hd cs) t e st = Some (Some (), st\<lparr>dev_state := d\<rparr>) \<and>
    holds (dd(s := put (dd s) (unat i * 32) (dirent_bytes (mkdir_entry t e)))) d"
proof -
  let ?c = "cluster_sector fs e" and ?z = "zeroed (fat_put fs dk e 0x0FFFFFFF) (set (cluster_sectors fs e))"
  let ?b = "put (dd s) (unat i * 32) (dirent_bytes (mkdir_entry t e))"
  have v: "\<forall>s \<in> set (cluster_sectors fs e). valid s" "valid s" "places_ok valid fs cs"
    using ch(2) si(1) by (auto simp: places_ok_def dir_sectors_def)
  have c: "?c \<in> set (cluster_sectors fs e)" using cluster_sectors_Cons [OF G, of e] by auto
  obtain d1 where 1: "clear_sectors fs ?c 0 st = Some (True, st\<lparr>dev_state := d1\<rparr>)" "holds ?z d1" using clear_cluster [OF U L H v(1)] by blast
  obtain d2 where 2: "cache_read_sector fs ?c (st\<lparr>dev_state := d1\<rparr>) = Some (0, replicate 512 0, st\<lparr>dev_state := d2\<rparr>)" "holds ?z d2"
    using cache_read [OF uses_reads [OF U], of "st\<lparr>dev_state := d1\<rparr>" ?z ?c] L 1(2) v(1) c by (auto simp: zeroed_def)
  obtain d3 where 3: "cache_write_sector fs ?c (dot_sector e (hd cs)) (st\<lparr>dev_state := d2\<rparr>) = Some (0, st\<lparr>dev_state := d3\<rparr>)" "holds dd d3"
    using cache_write [OF U, of "st\<lparr>dev_state := d2\<rparr>" ?z ?c "dot_sector e (hd cs)"] L 2(2) v(1) c dot_sector_length by (auto simp: dd_def dir_disk_def)
  note p = dir_disk_parent [OF G D ch(1,3) e, of "hd cs", folded dd_def]
  have lk: "linked (fat_get fs dd) cs" using p(1) by (simp add: chain_at_def)
  obtain d4 where 4: "find_free_dirent_slot fs (hd cs) (st\<lparr>dev_state := d3\<rparr>) = Some (Some (s, i), st\<lparr>dev_state := d4\<rparr>)" "holds dd d4"
    using slot_chain [OF uses_reads [OF U] lk chain_at_facts(2) [OF ch(1)] v(3), of "st\<lparr>dev_state := d3\<rparr>"] L 3(2) p(2) sl by auto
  obtain d5 where 5: "cache_read_sector fs s (st\<lparr>dev_state := d4\<rparr>) = Some (0, dd s, st\<lparr>dev_state := d5\<rparr>)" "holds dd d5"
    using cache_read [OF uses_reads [OF U], of "st\<lparr>dev_state := d4\<rparr>" dd s] L 4(2) v(2) by auto
  have l: "length ?b = 512"
    using si(2) sector_length [OF 5(2)] dirent_bytes_length [OF mkdir_entry_facts(1) [OF t]] by (simp add: disk512_def)
  obtain d6 where 6: "cache_write_sector fs s ?b (st\<lparr>dev_state := d5\<rparr>) = Some (0, st\<lparr>dev_state := d6\<rparr>)" "holds (dd(s := ?b)) d6"
    using cache_write [OF U, of "st\<lparr>dev_state := d5\<rparr>" dd s ?b] L 5(2) v(2) l by auto
  have "mkdir_cluster fs (hd cs) t e st = Some (Some (), st\<lparr>dev_state := d6\<rparr>)"
    using 1(1) 2(1) 3(1) 4(1) 5(1) 6(1) by (simp add: mkdir_cluster_def dot_sector_def Let_def)
  then show ?thesis using 6(2) by blast
qed

lemma make_dir:
  fixes st :: "('d, 'a) fat_state_scheme"
  assumes W: "validate_fs (Some fs)" and U: "uses_device fs rd wr" and L: "lock (cache_lock st) = 0" and H: "holds dk (dev_state st)" and G: "geometry_ok fs"
    and w: "dir_walk valid fs dk (root_cluster (bpb fs)) ps (hd cs)" and ok: "\<forall>p \<in> set (ps @ [n]). part_ok p" and len: "length (rel_of (ps @ [n])) \<le> 254"
    and ch: "chain_at fs dk cs" "places_ok valid fs (cs @ [e])" "chain_ok fs (cs @ [e])"
    and e: "first_free (fat_get fs dk) 2 e" "\<forall>x. 2 \<le> x \<longrightarrow> x \<le> e \<longrightarrow> valid (fat_sector_of fs x)"
    and no: "scan_result (search (to_8_3 n) (dir_entries fs dk cs)) = None" and sl: "free_search (dir_entries fs dk cs) = Found (s, i)"
    and si: "s \<in> set (dir_sectors fs cs)" "unat i < 16"
  defines "dd \<equiv> dir_disk fs dk e (hd cs)"
  shows "\<exists>d. fat32_mkdir (Some fs) (Some (fat_path (rel_of (ps @ [n])))) st = Some (0, st\<lparr>dev_state := d\<rparr>) \<and>
    holds (dd(s := put (dd s) (unat i * 32) (dirent_bytes (mkdir_entry (to_8_3 n) e)))) d"
proof -
  have ei: "fat_index e" "fat_get fs dk e = 0" "e \<noteq> 0" using e(1) by (auto simp: first_free_def fat_index_def)
  have lk: "linked (fat_get fs dk) cs" "places_ok valid fs cs" using ch(1,2) by (simp_all add: chain_at_def places_ok_def)
  obtain d1 where 1: "fat32_resolve (Some fs) (Some (fat_path (rel_of (ps @ [n])))) st = Some (Some (hd cs, to_8_3 n), st\<lparr>dev_state := d1\<rparr>)" "holds dk d1"
    using resolve_path [OF uses_reads [OF U] L H w ok len] by blast
  obtain d2 where 2: "fat32_find fs (hd cs) (to_8_3 n) (st\<lparr>dev_state := d1\<rparr>) = Some (None, st\<lparr>dev_state := d2\<rparr>)" "holds dk d2"
    using find_chain [OF uses_reads [OF U] lk(1) chain_at_facts(2) [OF ch(1)] lk(2), of "st\<lparr>dev_state := d1\<rparr>" "to_8_3 n"] L 1(2) no by auto
  obtain d3 where 3: "allocate_cluster fs 0 (st\<lparr>dev_state := d2\<rparr>) = Some (e, st\<lparr>dev_state := d3\<rparr>)" "holds (fat_put fs dk e 0x0FFFFFFF) d3"
    using alloc_first [OF U _ e, of 0 "st\<lparr>dev_state := d2\<rparr>"] L 2(2) by (auto simp: allocate_cluster_def Let_def)
  have s3: "lock (cache_lock (st\<lparr>dev_state := d3\<rparr>)) = 0" "holds (fat_put fs dk e 0x0FFFFFFF) (dev_state (st\<lparr>dev_state := d3\<rparr>))" using L 3(2) by simp_all
  from mkdir_parent [OF U s3 G sector_length [OF H] ei(1,2) ch sl to_8_3_length si] obtain d where
    4: "mkdir_cluster fs (hd cs) (to_8_3 n) e (st\<lparr>dev_state := d3\<rparr>) = Some (Some (), st\<lparr>dev_state := d\<rparr>)"
      "holds (dd(s := put (dd s) (unat i * 32) (dirent_bytes (mkdir_entry (to_8_3 n) e)))) d" unfolding dd_def by auto
  have "rd8 (to_8_3 n) 0 \<noteq> 0" using part_rd8 ok by simp
  then have "fat32_mkdir (Some fs) (Some (fat_path (rel_of (ps @ [n])))) st = Some (0, st\<lparr>dev_state := d\<rparr>)"
    using W 1(1) 2(1) 3(1) 4(1) ei(3) by (simp add: fat32_mkdir_def)
  then show ?thesis using 4(2) by blast
qed

end

lemma part_first:
  assumes "part_ok n"
  shows "to_8_3 n ! 0 \<noteq> 0" "to_8_3 n ! 0 \<noteq> 0xE5"
proof -
  have "n \<noteq> []" "hd n \<noteq> 0 \<and> hd n \<noteq> 0xE5" using assms printable_marks [of "hd n"] by (cases n; auto simp: part_ok_def)+
  then show "to_8_3 n ! 0 \<noteq> 0" "to_8_3 n ! 0 \<noteq> 0xE5" using to_8_3_first [of n] upcase_marks [of "hd n"] by auto
qed

text \<open>The directories on the disk that making one leaves behind.\<close>

lemma mkdir_disk:
  fixes p :: u32
  assumes G: "geometry_ok fs" and D: "disk512 dk" and e: "fat_index e" "fat_get fs dk e = 0" "2 \<le> e"
    and ch: "chain_at fs dk cs" "chain_ok fs (cs @ [e])" "tidy (dir_entries fs dk cs)" and t: "length t = 11" "t ! 0 \<noteq> 0" "t ! 0 \<noteq> 0xE5"
    and no: "scan_result (search t (dir_entries fs dk cs)) = None" and fr: "free_search (dir_entries fs dk cs) = Found (s, i)"
  defines "dk' \<equiv> (dir_disk fs dk e p)(s := put (dir_disk fs dk e p s) (unat i * 32) (dirent_bytes (mkdir_entry t e)))"
  shows "s \<in> set (dir_sectors fs cs)" "unat i < 16" "chain_at fs dk' cs" "chain_at fs dk' [e]"
    "scan_result (search m (dir_entries fs dk' cs)) = (if m = t then Some (mkdir_entry t e, s, i) else scan_result (search m (dir_entries fs dk cs)))"
    "scan_result (search m (dir_entries fs dk' [e])) = empty_dir fs e p m"
    "fat_index x \<Longrightarrow> fat_sector_of fs x \<notin> set (dir_sectors fs (cs @ [e])) \<Longrightarrow> fat_get fs dk' x = (if x = e then 0x0FFFFFFF else fat_get fs dk x)"
    "x \<notin> {fat_sector_of fs e, s} \<union> set (cluster_sectors fs e) \<Longrightarrow> dk' x = dk x"
proof -
  let ?dd = "dir_disk fs dk e p"
  note pa = dir_disk_parent [OF G D ch(1,2) e(1,2), of p] and ne = mkdir_entry_facts [OF t(1), of e]
  show s: "s \<in> set (dir_sectors fs cs)" and "unat i < 16"
    and "scan_result (search m (dir_entries fs dk' cs)) = (if m = t then Some (mkdir_entry t e, s, i) else scan_result (search m (dir_entries fs dk cs)))"
    using insert_entry [of fs cs ?dd s i "mkdir_entry t e"] pa dir_disk_512 [OF D, of fs e p] fr ch(3) no ne t(2,3) by (simp_all add: chain_at_def dk'_def)
  show "chain_at fs dk' cs" unfolding dk'_def by (rule chain_at_dir_write [OF pa(1) s])
  have apart: "s \<notin> set (cluster_sectors fs e)" "s \<noteq> fat_sector_of fs e" "chain_ok fs [e]"
    using ch(2) s by (auto simp: chain_ok_def dir_sectors_def)
  then have "\<forall>x \<in> insert (fat_sector_of fs e) (set (cluster_sectors fs e)). dk' x = ?dd x" by (auto simp: dk'_def)
  note nd = dir_disk_new [OF G D apart(3) e(1,3) this]
  show "chain_at fs dk' [e]" "scan_result (search m (dir_entries fs dk' [e])) = empty_dir fs e p m" using nd .
  have other: "dk' x = fat_put fs dk e 0x0FFFFFFF x" if "x \<noteq> s" "x \<notin> set (cluster_sectors fs e)" for x
    using that dir_disk_other [OF G] by (simp add: dk'_def)
  show "dk' x = dk x" if "x \<notin> {fat_sector_of fs e, s} \<union> set (cluster_sectors fs e)" using other [of x] that by (simp add: fat_put_def Let_def)
  show "fat_get fs dk' x = (if x = e then 0x0FFFFFFF else fat_get fs dk x)" if "fat_index x" "fat_sector_of fs x \<notin> set (dir_sectors fs (cs @ [e]))"
  proof -
    have "fat_sector_of fs x \<noteq> s" "fat_sector_of fs x \<notin> set (cluster_sectors fs e)" using that(2) s by (auto simp: dir_sectors_def)
    then have "fat_get fs dk' x = fat_get fs (fat_put fs dk e 0x0FFFFFFF) x" by (intro fat_get_cong other)
    then show ?thesis using fat_get_put [OF D e(1) that(1), of fs "0x0FFFFFFF"] by simp
  qed
qed

subsection \<open>Properties\<close>


text \<open>On the disk with the file \<^verbatim>\<open>A\<close>, the directory \<^verbatim>\<open>/B\<close> gets the second slot of the root directory and cluster 4.\<close>

lemma hello_table: "first_free (fat_get ram_fs hello_disk) 2 4"
proof -
  let ?b = "dirent_bytes hello_entry @ replicate 480 0"
  have b: "length ?b = 512" using dirent_bytes_length [OF hello_entry_facts(1)] by simp
  have i: "fat_index 3" "fat_index 4" by (simp_all add: fat_index_def)
  have "fat_get ram_fs hello_disk 4 = fat_get ram_fs (fat_put ram_fs (ram_root ?b) 3 0x0FFFFFFF) 4"
    unfolding hello_disk_def by (intro fat_get_cong) (simp add: fat_sector_of_def ram_fs_def)
  also have "\<dots> = 0" using fat_get_put [OF ram_root_512 [OF b] i, of ram_fs "0x0FFFFFFF"] ram_root_get [of 4 ?b] b
    by (simp add: fat_index_def fat_sector_of_def ram_fs_def)
  finally have z: "fat_get ram_fs hello_disk 4 = 0" .
  have "fat_get ram_fs hello_disk x \<noteq> 0" if "2 \<le> x" "x < 4" for x
  proof -
    have "x = 2 \<or> x = 3" using that by (auto simp: word_le_nat_alt word_less_nat_alt word_unat_eq_iff)
    then show ?thesis using hello_disk_facts(2,3) by auto
  qed
  then show ?thesis using z by (simp add: first_free_def)
qed

lemma hello_root:
  "dir_entries ram_fs hello_disk [2] = (dirent_bytes hello_entry, 40, 0) # map (\<lambda>i. (replicate 32 0, 40, of_nat i)) [1..<16]"
proof -
  let ?b = "dirent_bytes hello_entry @ replicate 480 0"
  have l: "length (dirent_bytes hello_entry) = 32" using dirent_bytes_length [OF hello_entry_facts(1)] .
  have "entry_at ?b i = replicate 32 0" if "1 \<le> i" "i < 16" for i
  proof -
    have "drop (i * 32) ?b = replicate (480 - (i * 32 - 32)) 0" using that l by simp
    moreover have "32 \<le> 480 - (i * 32 - 32)" using that by linarith
    ultimately show ?thesis by (simp add: entry_at_def min_def)
  qed
  then have "map (\<lambda>i. (entry_at ?b i, 40, of_nat i)) [1..<16] = map (\<lambda>i. (replicate 32 0, 40, of_nat i)) [1..<16]" by (intro map_cong) auto
  moreover have "entry_at ?b 0 = dirent_bytes hello_entry" using l by (simp add: entry_at_def)
  moreover have "[0..<16] = 0 # [1..<16 :: nat]" by (simp add: upt_rec)
  ultimately show ?thesis unfolding dir_entries_flat ram_root_sectors by (simp add: hello_disk_facts(4) sector_entries_def)
qed


end
