(* ===== verification/Screen.thy ===== *)
theory Screen
  imports Font
begin

unbundle bit_operations_syntax

text \<open>
  \<^verbatim>\<open>kernel/src/framebuffer.c\<close> and \<^verbatim>\<open>kernel/src/graphics.c\<close>: pixels in the linear framebuffer and the text cursor. The
  framebuffer is part of the memory, at the address that the boot loader reports (\<open>limine_fb\<close>, of whose
  fields the 32-bit variables keep the low half).
\<close>

record limine_fb =
  l_address :: u64
  l_width :: u64
  l_height :: u64
  l_pitch :: u64

record screen =
  fb_mem :: memory
  fb_addr :: u64
  fb_width :: u32
  fb_height :: u32
  fb_pitch :: u32
  cursor_x :: u32
  cursor_y :: u32

definition store32 :: "memory \<Rightarrow> u64 \<Rightarrow> u32 \<Rightarrow> memory" where
  "store32 m p v = (\<lambda>a. if a - p < 4 then ucast (drop_bit (8 * unat (a - p)) v) else m a)"

subsection \<open>The framebuffer\<close>

definition fb_init :: "limine_fb \<Rightarrow> screen \<Rightarrow> screen" where
  "fb_init fb s = s\<lparr>fb_addr := l_address fb, fb_width := ucast (l_width fb), fb_height := ucast (l_height fb),
     fb_pitch := ucast (l_pitch fb)\<rparr>"

text \<open>The products are 32-bit.\<close>

definition pixel_addr :: "screen \<Rightarrow> u32 \<Rightarrow> u32 \<Rightarrow> u64" where
  "pixel_addr s x y = fb_addr s + ucast (y * fb_pitch s) + ucast (x * 4)"

definition fb_putpixel :: "u32 \<Rightarrow> u32 \<Rightarrow> u32 \<Rightarrow> screen \<Rightarrow> screen" where
  "fb_putpixel x y color s =
     (if x \<ge> fb_width s \<or> y \<ge> fb_height s then s
      else s\<lparr>fb_mem := store32 (fb_mem s) (pixel_addr s x y) color\<rparr>)"

text \<open>The two loops of \<open>fb_clear\<close>; their bounds do not change.\<close>

function clear_row :: "u32 \<Rightarrow> u32 \<Rightarrow> u32 \<Rightarrow> u32 \<Rightarrow> screen \<Rightarrow> screen" where
  "clear_row w y color x s = (if x < w then clear_row w y color (x + 1) (fb_putpixel x y color s) else s)"
  by pat_completeness auto
termination
proof (relation "measure (\<lambda>(w, y, c, x, s). unat (w - x))", goal_cases)
  case (2 w y c x s)
  then show ?case by unat_arith
qed simp

function clear_rows :: "u32 \<Rightarrow> u32 \<Rightarrow> u32 \<Rightarrow> u32 \<Rightarrow> screen \<Rightarrow> screen" where
  "clear_rows w h color y s = (if y < h then clear_rows w h color (y + 1) (clear_row w y color 0 s) else s)"
  by pat_completeness auto
termination
proof (relation "measure (\<lambda>(w, h, c, y, s). unat (h - y))", goal_cases)
  case (2 w h c y s)
  then show ?case by unat_arith
qed simp

declare clear_row.simps [simp del] clear_rows.simps [simp del]

definition fb_clear :: "u32 \<Rightarrow> screen \<Rightarrow> screen" where
  "fb_clear color s = clear_rows (fb_width s) (fb_height s) color 0 s"

definition fb_get_width :: "screen \<Rightarrow> u32" where "fb_get_width s = fb_width s"
definition fb_get_height :: "screen \<Rightarrow> u32" where "fb_get_height s = fb_height s"

subsection \<open>Text\<close>

definition graphics_init :: "screen \<Rightarrow> screen" where
  "graphics_init s = s\<lparr>cursor_x := 0, cursor_y := 0\<rparr>"

definition draw_pixel :: "u8 \<Rightarrow> u32 \<Rightarrow> u32 \<Rightarrow> u32 \<Rightarrow> u32 \<Rightarrow> nat \<Rightarrow> nat \<Rightarrow> screen \<Rightarrow> screen" where
  "draw_pixel line x y fg bg row col s =
     fb_putpixel (x + of_nat col) (y + of_nat row) (if line AND drop_bit col 0x80 \<noteq> 0 then fg else bg) s"

definition graphics_draw_char :: "u8 \<Rightarrow> u32 \<Rightarrow> u32 \<Rightarrow> u32 \<Rightarrow> u32 \<Rightarrow> screen \<Rightarrow> screen" where
  "graphics_draw_char c x y fg bg s =
     (let uc = (if c > 127 then 0 else c);
          glyph = font ! unat uc
      in fold (\<lambda>row s. fold (\<lambda>col s. draw_pixel (glyph ! row) x y fg bg row col s) [0..<FONT_WIDTH] s) [0..<FONT_HEIGHT] s)"

fun draw_string_loop :: "u8 list \<Rightarrow> u32 \<Rightarrow> u32 \<Rightarrow> u32 \<Rightarrow> u32 \<Rightarrow> u32 \<Rightarrow> screen \<Rightarrow> screen" where
  "draw_string_loop [] orig_x x y fg bg s = s"
| "draw_string_loop (c # str) orig_x x y fg bg s =
     (if c = 0x0A then draw_string_loop str orig_x orig_x (y + of_nat FONT_HEIGHT) fg bg s
      else draw_string_loop str orig_x (x + of_nat FONT_WIDTH) y fg bg (graphics_draw_char c x y fg bg s))"

definition graphics_draw_string :: "u8 list \<Rightarrow> u32 \<Rightarrow> u32 \<Rightarrow> u32 \<Rightarrow> u32 \<Rightarrow> screen \<Rightarrow> screen" where
  "graphics_draw_string str x y fg bg s = draw_string_loop str x x y fg bg s"

definition graphics_get_cursor_x :: "screen \<Rightarrow> u32" where "graphics_get_cursor_x s = cursor_x s"
definition graphics_get_cursor_y :: "screen \<Rightarrow> u32" where "graphics_get_cursor_y s = cursor_y s"

definition graphics_set_cursor :: "u32 \<Rightarrow> u32 \<Rightarrow> screen \<Rightarrow> screen" where
  "graphics_set_cursor x y s = s\<lparr>cursor_x := x, cursor_y := y\<rparr>"

definition graphics_putchar :: "u8 \<Rightarrow> u32 \<Rightarrow> u32 \<Rightarrow> screen \<Rightarrow> screen" where
  "graphics_putchar c fg bg s =
     (let s = (if c = 0x0A then s\<lparr>cursor_x := 0, cursor_y := cursor_y s + of_nat FONT_HEIGHT\<rparr>
               else
                 let s = graphics_draw_char c (cursor_x s) (cursor_y s) fg bg s;
                     s = s\<lparr>cursor_x := cursor_x s + of_nat FONT_WIDTH\<rparr>
                 in if cursor_x s \<ge> fb_get_width s
                    then s\<lparr>cursor_x := 0, cursor_y := cursor_y s + of_nat FONT_HEIGHT\<rparr> else s)
      in if cursor_y s \<ge> fb_get_height s then s\<lparr>cursor_y := 0\<rparr> else s)"

subsection \<open>Pixels stay in the framebuffer, the cursor on the screen\<close>

text \<open>
  The framebuffer as the boot loader promises it: rows of \<^verbatim>\<open>pitch\<close> bytes that hold the \<^verbatim>\<open>width\<close> pixels of four
  bytes, smaller than 4 GB and not wrapping around the address space.
\<close>

definition fb_ok :: "screen \<Rightarrow> bool" where
  "fb_ok s \<longleftrightarrow> 4 * unat (fb_width s) \<le> unat (fb_pitch s) \<and> unat (fb_height s) * unat (fb_pitch s) < 2 ^ 32 \<and>
     unat (fb_addr s) + unat (fb_height s) * unat (fb_pitch s) \<le> 2 ^ 64"

definition fb_region :: "screen \<Rightarrow> u64 set" where
  "fb_region s = {a. unat (fb_addr s) \<le> unat a \<and> unat a < unat (fb_addr s) + unat (fb_height s) * unat (fb_pitch s)}"

text \<open>What drawing leaves alone: the geometry, the cursor and the memory outside of the framebuffer.\<close>

definition only_pixels :: "screen \<Rightarrow> screen \<Rightarrow> bool" where
  "only_pixels s t \<longleftrightarrow> (\<exists>m. t = s\<lparr>fb_mem := m\<rparr> \<and> (\<forall>a. a \<notin> fb_region s \<longrightarrow> m a = fb_mem s a))"

lemma only_pixels_refl [simp]: "only_pixels s s"
  unfolding only_pixels_def by (intro exI [of _ "fb_mem s"]) simp

lemma only_pixels_geometry:
  assumes "only_pixels s t"
  shows "fb_width t = fb_width s" "fb_height t = fb_height s" "fb_pitch t = fb_pitch s" "fb_addr t = fb_addr s"
    "cursor_x t = cursor_x s" "cursor_y t = cursor_y s" "fb_region t = fb_region s" "fb_ok t = fb_ok s"
proof -
  obtain m where t: "t = s\<lparr>fb_mem := m\<rparr>" using assms by (auto simp: only_pixels_def)
  show "fb_width t = fb_width s" "fb_height t = fb_height s" "fb_pitch t = fb_pitch s" "fb_addr t = fb_addr s"
    "cursor_x t = cursor_x s" "cursor_y t = cursor_y s" "fb_region t = fb_region s" "fb_ok t = fb_ok s"
    unfolding t by (simp_all add: fb_region_def fb_ok_def)
qed

lemma only_pixels_trans: "only_pixels s t \<Longrightarrow> only_pixels t u \<Longrightarrow> only_pixels s u"
proof -
  assume a: "only_pixels s t" "only_pixels t u"
  then have r: "fb_region t = fb_region s" by (intro only_pixels_geometry(7))
  obtain m n where t: "t = s\<lparr>fb_mem := m\<rparr>" "\<forall>a. a \<notin> fb_region s \<longrightarrow> m a = fb_mem s a"
    and u: "u = t\<lparr>fb_mem := n\<rparr>" "\<forall>a. a \<notin> fb_region t \<longrightarrow> n a = fb_mem t a" using a unfolding only_pixels_def by blast
  have "u = s\<lparr>fb_mem := n\<rparr>" using t(1) u(1) by simp
  then show ?thesis using t u(2) r unfolding only_pixels_def by (intro exI [of _ n]) simp
qed

lemma pixel_in_region:
  assumes G: "fb_ok s" and x: "x < fb_width s" "y < fb_height s" and a: "a - pixel_addr s x y < 4"
  shows "a \<in> fb_region s"
proof -
  let ?p = "unat (fb_pitch s)" and ?h = "unat (fb_height s)" and ?b = "unat (fb_addr s)"
  have g: "4 * unat (fb_width s) \<le> ?p" "?h * ?p < 2 ^ 32" "?b + ?h * ?p \<le> 2 ^ 64" using G by (simp_all add: fb_ok_def)
  have xy: "unat x + 1 \<le> unat (fb_width s)" "unat y + 1 \<le> ?h" using x by (simp_all add: word_less_nat_alt)
  have "(unat y + 1) * ?p \<le> ?h * ?p" using xy(2) by (rule mult_le_mono1)
  then have yp: "unat y * ?p + ?p \<le> ?h * ?p" by simp
  have x4: "unat x * 4 + 4 \<le> ?p" using xy(1) g(1) by linarith
  have u1: "unat (y * fb_pitch s) = unat y * ?p" using yp g(2) by (simp add: unat_word_ariths(2))
  have u2: "unat (x * 4) = unat x * 4" using x4 yp g(2) by (simp add: unat_word_ariths(2))
  let ?o = "unat y * ?p + unat x * 4"
  have le: "?o + 4 \<le> ?h * ?p" using yp x4 by linarith
  have u3: "unat (pixel_addr s x y) = ?b + ?o"
    using u1 u2 le g(3) by (simp add: pixel_addr_def unat_word_ariths(1) unsigned_ucast_eq take_bit_nat_eq_self)
  define d where "d = a - pixel_addr s x y"
  have d: "unat d < 4" "a = pixel_addr s x y + d" using a by (simp_all add: d_def word_less_nat_alt)
  have "unat a = (unat (pixel_addr s x y) + unat d) mod 2 ^ 64" unfolding d(2) by (simp add: unat_word_ariths(1))
  moreover have "unat (pixel_addr s x y) + unat d < 2 ^ 64" using d(1) le g(3) u3 by linarith
  ultimately have "unat a = ?b + ?o + unat d" using u3 by simp
  then show ?thesis using d(1) le by (simp add: fb_region_def)
qed

lemma putpixel_only: "fb_ok s \<Longrightarrow> only_pixels s (fb_putpixel x y c s)"
proof (cases "x < fb_width s \<and> y < fb_height s")
  case True
  assume "fb_ok s"
  then have "\<forall>a. a \<notin> fb_region s \<longrightarrow> store32 (fb_mem s) (pixel_addr s x y) c a = fb_mem s a"
    using pixel_in_region [of s x y] True by (auto simp: store32_def)
  then show ?thesis using True unfolding only_pixels_def
    by (intro exI [of _ "store32 (fb_mem s) (pixel_addr s x y) c"]) (auto simp: fb_putpixel_def)
qed (auto simp: fb_putpixel_def not_less)

lemma fold_only:
  assumes "\<And>a s. fb_ok s \<Longrightarrow> only_pixels s (f a s)" "fb_ok s"
  shows "only_pixels s (fold f xs s)"
  using assms(2)
proof (induction xs arbitrary: s)
  case (Cons a xs)
  have f: "only_pixels s (f a s)" using assms(1) [OF Cons.prems] .
  then have "fb_ok (f a s)" using Cons.prems only_pixels_geometry(8) by blast
  from Cons.IH [OF this] f show ?case using only_pixels_trans by simp
qed simp

lemma draw_char_only: "fb_ok s \<Longrightarrow> only_pixels s (graphics_draw_char c x y fg bg s)"
  unfolding graphics_draw_char_def Let_def
  by (intro fold_only) (auto simp: draw_pixel_def intro: putpixel_only fold_only)


lemma clear_only:
  shows "fb_ok s \<Longrightarrow> only_pixels s (clear_row w y c x s)"
proof (induction w y c x s rule: clear_row.induct)
  case (1 w y c x s)
  have p: "only_pixels s (fb_putpixel x y c s)" using putpixel_only [OF 1(2)] .
  then have "fb_ok (fb_putpixel x y c s)" using 1(2) only_pixels_geometry(8) by blast
  then show ?case using 1(1) only_pixels_trans [OF p] by (subst clear_row.simps) simp
qed

lemma clear_rows_only: "fb_ok s \<Longrightarrow> only_pixels s (clear_rows w h c y s)"
proof (induction w h c y s rule: clear_rows.induct)
  case (1 w h c y s)
  have p: "only_pixels s (clear_row w y c 0 s)" using clear_only [OF 1(2)] .
  then have "fb_ok (clear_row w y c 0 s)" using 1(2) only_pixels_geometry(8) by blast
  then show ?case using 1(1) only_pixels_trans [OF p] by (subst clear_rows.simps) simp
qed

definition on_screen :: "screen \<Rightarrow> bool" where
  "on_screen s \<longleftrightarrow> cursor_x s < fb_width s \<and> cursor_y s < fb_height s"

text \<open>What a character leaves alone: the geometry and the memory outside of the framebuffer.\<close>

definition only_screen :: "screen \<Rightarrow> screen \<Rightarrow> bool" where
  "only_screen s t \<longleftrightarrow> (\<exists>m x y. t = s\<lparr>fb_mem := m, cursor_x := x, cursor_y := y\<rparr> \<and> (\<forall>a. a \<notin> fb_region s \<longrightarrow> m a = fb_mem s a))"

lemma only_screen_geometry: "only_screen s t \<Longrightarrow> fb_region t = fb_region s \<and> fb_ok t = fb_ok s \<and> fb_width t = fb_width s \<and> fb_height t = fb_height s"
  by (auto simp: only_screen_def fb_region_def fb_ok_def)

lemma only_screen_trans: "only_screen s t \<Longrightarrow> only_screen t u \<Longrightarrow> only_screen s u"
proof -
  assume a: "only_screen s t" "only_screen t u"
  then have r: "fb_region t = fb_region s" using only_screen_geometry by blast
  obtain m x y n x' y' where t: "t = s\<lparr>fb_mem := m, cursor_x := x, cursor_y := y\<rparr>" "\<forall>a. a \<notin> fb_region s \<longrightarrow> m a = fb_mem s a"
    and u: "u = t\<lparr>fb_mem := n, cursor_x := x', cursor_y := y'\<rparr>" "\<forall>a. a \<notin> fb_region t \<longrightarrow> n a = fb_mem t a"
    using a unfolding only_screen_def by blast
  have "u = s\<lparr>fb_mem := n, cursor_x := x', cursor_y := y'\<rparr>" using t(1) u(1) by simp
  moreover have "\<forall>a. a \<notin> fb_region s \<longrightarrow> n a = fb_mem s a" using t u(2) r by simp
  ultimately show ?thesis unfolding only_screen_def by blast
qed

lemma only_screen_moves:
  assumes "\<forall>a. a \<notin> fb_region s \<longrightarrow> m a = fb_mem s a"
  shows "only_screen s (s\<lparr>cursor_x := x, cursor_y := y\<rparr>)" "only_screen s (s\<lparr>fb_mem := m, cursor_x := x, cursor_y := y\<rparr>)"
    "only_screen s (s\<lparr>fb_mem := m, cursor_x := x\<rparr>)"
proof -
  have "s\<lparr>cursor_x := x, cursor_y := y\<rparr> = s\<lparr>fb_mem := fb_mem s, cursor_x := x, cursor_y := y\<rparr>"
    "s\<lparr>fb_mem := m, cursor_x := x\<rparr> = s\<lparr>fb_mem := m, cursor_x := x, cursor_y := cursor_y s\<rparr>" by simp_all
  then show "only_screen s (s\<lparr>cursor_x := x, cursor_y := y\<rparr>)" "only_screen s (s\<lparr>fb_mem := m, cursor_x := x, cursor_y := y\<rparr>)"
    "only_screen s (s\<lparr>fb_mem := m, cursor_x := x\<rparr>)" using assms unfolding only_screen_def by metis+
qed

lemma putchar_ok:
  assumes G: "fb_ok s" and z: "0 < fb_width s" "0 < fb_height s" and c: "on_screen s"
  shows "on_screen (graphics_putchar ch fg bg s)" "only_screen s (graphics_putchar ch fg bg s)"
proof -
  have d: "only_pixels s (graphics_draw_char ch (cursor_x s) (cursor_y s) fg bg s)" using draw_char_only [OF G] .
  then obtain m where m: "graphics_draw_char ch (cursor_x s) (cursor_y s) fg bg s = s\<lparr>fb_mem := m\<rparr>" "\<forall>a. a \<notin> fb_region s \<longrightarrow> m a = fb_mem s a"
    unfolding only_pixels_def by blast
  show "on_screen (graphics_putchar ch fg bg s)" using c z
    by (auto simp: graphics_putchar_def Let_def m(1) on_screen_def fb_get_width_def fb_get_height_def not_le)
  show "only_screen s (graphics_putchar ch fg bg s)"
    by (simp add: graphics_putchar_def Let_def m(1) only_screen_moves [OF m(2)] fb_get_width_def fb_get_height_def)
qed

lemma putchars_ok:
  assumes "fb_ok s" "0 < fb_width s" "0 < fb_height s" "on_screen s"
  shows "on_screen (fold (\<lambda>c. graphics_putchar c fg bg) cs s) \<and> only_screen s (fold (\<lambda>c. graphics_putchar c fg bg) cs s)"
  using assms
proof (induction cs arbitrary: s)
  case Nil
  have "s = s\<lparr>fb_mem := fb_mem s, cursor_x := cursor_x s, cursor_y := cursor_y s\<rparr>" by simp
  then have "only_screen s s" unfolding only_screen_def by blast
  then show ?case using Nil by simp
next
  case (Cons c cs)
  note p = putchar_ok [OF Cons.prems, of c fg bg]
  from only_screen_geometry [OF p(2)] Cons.prems have "fb_ok (graphics_putchar c fg bg s)" "0 < fb_width (graphics_putchar c fg bg s)"
    "0 < fb_height (graphics_putchar c fg bg s)" by simp_all
  from Cons.IH [OF this p(1)] show ?case using only_screen_trans [OF p(2)] by simp
qed


subsection \<open>Properties\<close>

text \<open>
  Claim C39. Whatever text is printed, the cursor stays on the screen, and printing it changes no byte outside of the
  framebuffer and none of its dimensions.
\<close>

theorem graphics_text_stays_on_screen:
  fixes fg bg :: u32 and str :: "u8 list"
  assumes "fb_ok s" "0 < fb_width s" "0 < fb_height s" "on_screen s"
  defines "t \<equiv> fold (\<lambda>c. graphics_putchar c fg bg) str s"
  shows "cursor_x t < fb_width s \<and> cursor_y t < fb_height s \<and> fb_width t = fb_width s \<and> fb_height t = fb_height s \<and>
    (\<forall>a. a \<notin> fb_region s \<longrightarrow> fb_mem t a = fb_mem s a)"
proof -
  have p: "on_screen t" "only_screen s t" using putchars_ok [OF assms(1-4), of fg bg str] by (simp_all add: t_def)
  show ?thesis using p(1) only_screen_geometry [OF p(2)] p(2) by (auto simp: on_screen_def only_screen_def)
qed

definition vga :: screen where
  "vga = \<lparr>fb_mem = (\<lambda>_. 0), fb_addr = 0xB8000000, fb_width = 640, fb_height = 480, fb_pitch = 2560, cursor_x = 632, cursor_y = 464\<rparr>"

theorem graphics_text_stays_on_screen_witness:
  "cursor_x (fold (\<lambda>c. graphics_putchar c 1 0) [0x41, 0x0A] vga) < 640 \<and>
   fb_mem (fold (\<lambda>c. graphics_putchar c 1 0) [0x41, 0x0A] vga) 0x1000 = 0"
proof -
  have v: "fb_ok vga" "0 < fb_width vga" "0 < fb_height vga" "on_screen vga" by (simp_all add: vga_def fb_ok_def on_screen_def)
  have "0x1000 \<notin> fb_region vga" "fb_mem vga 0x1000 = 0" "fb_width vga = 640" by (simp_all add: fb_region_def vga_def)
  then show ?thesis using graphics_text_stays_on_screen [OF v, of 1 0 "[0x41, 0x0A]"] by simp
qed

end
