(* ===== verification/Ports.thy ===== *)
theory Ports
  imports Prelude
begin

unbundle bit_operations_syntax

text \<open>
  Port input and output, the interface between the drivers and the hardware: the functions
  \<open>inb\<close>, \<open>outb\<close>, \<open>inw\<close> and \<open>outw\<close> that every driver file defines as inline assembly. The hardware
  is a parameter, a record of what an access returns and does to the machine state \<open>'m\<close>.
\<close>

record 'm bus =
  bus_inb :: "u16 \<Rightarrow> 'm \<Rightarrow> u8 \<times> 'm"
  bus_outb :: "u16 \<Rightarrow> u8 \<Rightarrow> 'm \<Rightarrow> 'm"
  bus_inw :: "u16 \<Rightarrow> 'm \<Rightarrow> u16 \<times> 'm"
  bus_outw :: "u16 \<Rightarrow> u16 \<Rightarrow> 'm \<Rightarrow> 'm"

text \<open>A write to the unused port \<^verbatim>\<open>0x80\<close>, as a delay.\<close>

definition io_wait :: "'m bus \<Rightarrow> 'm \<Rightarrow> 'm" where
  "io_wait bus m = bus_outb bus 0x80 0 m"

text \<open>A sequence of byte writes.\<close>

fun outbs :: "'m bus \<Rightarrow> (u16 \<times> u8) list \<Rightarrow> 'm \<Rightarrow> 'm" where
  "outbs bus [] m = m"
| "outbs bus ((p, v) # xs) m = outbs bus xs (bus_outb bus p v m)"

end
