(* ===== verification/Klog.thy ===== *)
theory Klog
  imports Screen Ports
begin

unbundle bit_operations_syntax

text \<open>
  \<^verbatim>\<open>kernel/src/serial.c\<close> and \<^verbatim>\<open>kernel/src/klog.c\<close>: output to the serial port and formatted output to screen and
  serial port. \<open>None\<close> stands for not coming back (the port never gets ready) and for an access that C leaves
  undefined: an argument that is missing or of another type, and the bytes after the end of a format string.
\<close>

record 'm console =
  screen_of :: screen
  port_state :: 'm
  log_y :: u32

subsection \<open>The serial port\<close>

definition serial_is_transmit_empty :: "'m bus \<Rightarrow> 'm \<Rightarrow> bool \<times> 'm" where
  "serial_is_transmit_empty bus m = (let (v, m) = bus_inb bus (0x3F8 + 5) m in (v AND 0x20 \<noteq> 0, m))"

definition serial_init :: "'m bus \<Rightarrow> 'm \<Rightarrow> 'm" where
  "serial_init bus m = outbs bus [(0x3F8 + 1, 0x00), (0x3F8 + 3, 0x80), (0x3F8 + 0, 0x03), (0x3F8 + 1, 0x00),
     (0x3F8 + 3, 0x03), (0x3F8 + 2, 0xC7), (0x3F8 + 4, 0x0B)] m"

partial_function (option) serial_wait :: "'m bus \<Rightarrow> 'm \<Rightarrow> 'm option" where
  "serial_wait bus m =
     (let (empty, m) = serial_is_transmit_empty bus m in if empty then Some m else serial_wait bus m)"

definition serial_write_char :: "'m bus \<Rightarrow> u8 \<Rightarrow> 'm \<Rightarrow> 'm option" where
  "serial_write_char bus c m = do { m \<leftarrow> serial_wait bus m; Some (bus_outb bus 0x3F8 c m) }"

fun serial_write :: "'m bus \<Rightarrow> u8 list \<Rightarrow> 'm \<Rightarrow> 'm option" where
  "serial_write bus [] m = Some m"
| "serial_write bus (c # s) m = do {
     m \<leftarrow> (if c = 0x0A then serial_write_char bus 0x0D m else Some m);
     m \<leftarrow> serial_write_char bus c m;
     serial_write bus s m
   }"

subsection \<open>Formatted output\<close>

text \<open>The bytes of a string literal, its end left out.\<close>

definition c_str :: "string \<Rightarrow> u8 list" where
  "c_str s = map of_char s"

definition klog_init :: "'m console \<Rightarrow> 'm console" where
  "klog_init st = st\<lparr>log_y := 0, screen_of := graphics_set_cursor 0 0 (screen_of st)\<rparr>"

definition kputchar :: "'m bus \<Rightarrow> u8 \<Rightarrow> 'm console \<Rightarrow> 'm console option" where
  "kputchar bus c st = do {
     let st = st\<lparr>screen_of := graphics_putchar c 0xFFFFFF 0x000000 (screen_of st)\<rparr>;
     m \<leftarrow> serial_write_char bus c (port_state st);
     Some (st\<lparr>port_state := m\<rparr>)
   }"

fun kputs :: "'m bus \<Rightarrow> u8 list \<Rightarrow> 'm console \<Rightarrow> 'm console option" where
  "kputs bus [] st = Some st"
| "kputs bus (c # str) st = do { st \<leftarrow> kputchar bus c st; kputs bus str st }"

definition digit_char :: "u64 \<Rightarrow> u8" where
  "digit_char d = (if d < 10 then 0x30 + ucast d else 0x61 + ucast d - 10)"

text \<open>
  The loop that fills the buffer, lowest digit first; the base is 10 or 16. The second loop prints the
  buffer from its end.
\<close>

function num_loop :: "u64 \<Rightarrow> u64 \<Rightarrow> u8 list \<Rightarrow> u8 list" where
  "num_loop num base buf =
     (if num > 0 \<and> base > 1 then num_loop (num div base) base (buf @ [digit_char (num mod base)]) else buf)"
  by pat_completeness auto
termination
proof (relation "measure (\<lambda>(num, base, buf). unat num)", goal_cases)
  case (2 num base buf)
  then show ?case by (simp add: unat_div word_less_nat_alt)
qed simp

declare num_loop.simps [simp del]

text \<open>The characters of a number, in the order they are printed.\<close>

definition num_chars :: "u64 \<Rightarrow> u64 \<Rightarrow> u8 list" where
  "num_chars num base = (if num = 0 then [0x30] else rev (num_loop num base []))"

definition kputnum :: "'m bus \<Rightarrow> u64 \<Rightarrow> u64 \<Rightarrow> 'm console \<Rightarrow> 'm console option" where
  "kputnum bus num base st = kputs bus (num_chars num base) st"

text \<open>Arguments of the variadic functions: an \<^verbatim>\<open>int\<close> or \<^verbatim>\<open>unsigned\<close>, or a string.\<close>

datatype karg = Int_arg u32 | Str_arg "u8 list"

text \<open>
  The loop that \<open>printk\<close> and \<open>klog\<close> have in common; \<open>pct\<close> tells whether there is a case for \<^verbatim>\<open>%%\<close>. A conversion that
  has no case prints nothing. \<open>- val\<close> wraps for the smallest \<^verbatim>\<open>int\<close>, which is then extended with its sign.
\<close>

fun format_loop :: "'m bus \<Rightarrow> bool \<Rightarrow> u8 list \<Rightarrow> karg list \<Rightarrow> 'm console \<Rightarrow> 'm console option" where
  "format_loop bus pct [] args st = Some st"
| "format_loop bus pct [c] args st = (if c = 0x25 then None else kputchar bus c st)"
| "format_loop bus pct (c # d # fmt) args st =
     (if c \<noteq> 0x25 then do { st \<leftarrow> kputchar bus c st; format_loop bus pct (d # fmt) args st }
      else if d = 0x64 then
        (case args of
           Int_arg val # args \<Rightarrow> do {
             st \<leftarrow> (if sint val < 0 then kputchar bus 0x2D st else Some st);
             let val = (if sint val < 0 then - val else val);
             st \<leftarrow> kputnum bus (scast val) 10 st;
             format_loop bus pct fmt args st }
         | _ \<Rightarrow> None)
      else if d = 0x75 then
        (case args of Int_arg val # args \<Rightarrow> do { st \<leftarrow> kputnum bus (ucast val) 10 st; format_loop bus pct fmt args st } | _ \<Rightarrow> None)
      else if d = 0x78 then
        (case args of
           Int_arg val # args \<Rightarrow> do {
             st \<leftarrow> kputs bus [0x30, 0x78] st;
             st \<leftarrow> kputnum bus (ucast val) 16 st;
             format_loop bus pct fmt args st }
         | _ \<Rightarrow> None)
      else if d = 0x73 then
        (case args of Str_arg str # args \<Rightarrow> do { st \<leftarrow> kputs bus str st; format_loop bus pct fmt args st } | _ \<Rightarrow> None)
      else if d = 0x63 then
        (case args of Int_arg val # args \<Rightarrow> do { st \<leftarrow> kputchar bus (ucast val) st; format_loop bus pct fmt args st } | _ \<Rightarrow> None)
      else if d = 0x25 \<and> pct then do { st \<leftarrow> kputchar bus 0x25 st; format_loop bus pct fmt args st }
      else format_loop bus pct fmt args st)"

definition printk :: "'m bus \<Rightarrow> u8 list \<Rightarrow> karg list \<Rightarrow> 'm console \<Rightarrow> 'm console option" where
  "printk bus fmt args st = format_loop bus True fmt args st"

definition klog_prefix :: "int \<Rightarrow> u8 list" where
  "klog_prefix level =
     c_str (if level = 0 then ''[INFO] '' else if level = 1 then ''[WARN] '' else if level = 2 then ''[ERROR] '' else ''[LOG] '')"

definition klog :: "'m bus \<Rightarrow> int \<Rightarrow> u8 list \<Rightarrow> karg list \<Rightarrow> 'm console \<Rightarrow> 'm console option" where
  "klog bus level fmt args st = do {
     st \<leftarrow> kputs bus (klog_prefix level) st;
     st \<leftarrow> format_loop bus False fmt args st;
     kputchar bus 0x0A st
   }"

end
