(* ===== verification/Klog_Proofs.thy ===== *)
theory Klog_Proofs
  imports Klog
begin

unbundle bit_operations_syntax

text \<open>
  Formatted output: \<open>kputnum\<close> prints a number whose digits read back to it, and \<open>printk\<close> prints exactly the text that
  its format and arguments stand for, on a serial port that gets ready. One lemma per output routine carries the
  trace of the port along.
\<close>

subsection \<open>Numbers\<close>

text \<open>The value of a digit character, and of a number from its highest digit on.\<close>

definition digit_value :: "u8 \<Rightarrow> nat" where
  "digit_value c = (if c < 0x61 then unat c - 48 else unat c - 87)"

definition num_value :: "nat \<Rightarrow> u8 list \<Rightarrow> nat" where
  "num_value base cs = foldl (\<lambda>v c. v * base + digit_value c) 0 cs"

lemma num_value_snoc: "num_value base (cs @ [c]) = num_value base cs * base + digit_value c"
  by (simp add: num_value_def)

lemma num_loop_buf: "num_loop n b buf = buf @ num_loop n b []"
proof (induction "unat n" arbitrary: n buf rule: less_induct)
  case less
  show ?case
  proof (cases "0 < n \<and> 1 < b")
    case True
    then have d: "unat (n div b) < unat n" by (simp add: unat_div word_less_nat_alt)
    have s: "num_loop n b xs = num_loop (n div b) b (xs @ [digit_char (n mod b)])" for xs
      using True by (subst num_loop.simps) simp
    show ?thesis using less [OF d, of "buf @ [digit_char (n mod b)]"] less [OF d, of "[digit_char (n mod b)]"]
      unfolding s [of buf] s [of "[]"] by simp
  next
    case False
    then have "num_loop n b xs = xs" for xs by (subst num_loop.simps) auto
    then show ?thesis by simp
  qed
qed

lemma num_loop_step: "0 < n \<Longrightarrow> 1 < b \<Longrightarrow> num_loop n b [] = digit_char (n mod b) # num_loop (n div b) b []"
  by (subst num_loop.simps) (simp add: num_loop_buf [of "n div b" b "[digit_char (n mod b)]"])

lemma digit_char_value:
  assumes "d < 16"
  shows "digit_value (digit_char d) = unat d" "digit_char d = 0x30 \<longleftrightarrow> d = 0"
proof -
  have "unat d < 16" using assms by (simp add: word_less_nat_alt)
  moreover have "d = of_nat (unat d)" by simp
  ultimately have "d \<in> set (map of_nat [0..<16])" by (metis atLeastLessThan_iff image_eqI le0 set_map set_upt)
  then have c: "d \<in> {0, 1, 2, 3, 4, 5, 6, 7, 8, 9, 10, 11, 12, 13, 14, 15}" by (simp add: upt_rec)
  then show "digit_value (digit_char d) = unat d" "digit_char d = 0x30 \<longleftrightarrow> d = 0"
    by (auto simp: digit_value_def digit_char_def)
qed

lemma num_loop_value:
  assumes b: "1 < b" "b \<le> 16"
  shows "num_value (unat b) (rev (num_loop n b [])) = unat n \<and> (n \<noteq> 0 \<longrightarrow> num_loop n b [] \<noteq> [] \<and> last (num_loop n b []) \<noteq> 0x30)"
proof (induction "unat n" arbitrary: n rule: less_induct)
  case less
  show ?case
  proof (cases "n = 0")
    case True
    then show ?thesis by (simp add: num_loop.simps num_value_def)
  next
    case False
    then have n: "0 < n" by (simp add: word_neq_0_conv)
    have d: "unat (n div b) < unat n" using n b(1) by (simp add: unat_div word_less_nat_alt)
    have m: "n mod b < 16" using b mod_less_divisor [of "unat b" "unat n"] by (simp add: word_less_nat_alt word_le_nat_alt unat_mod del: mod_less_divisor)
    note s = num_loop_step [OF n b(1)] and v = digit_char_value [OF m]
    have "num_value (unat b) (rev (num_loop n b [])) = unat (n div b) * unat b + unat (n mod b)"
      using less [OF d] v(1) by (simp add: s num_value_snoc)
    then have e: "num_value (unat b) (rev (num_loop n b [])) = unat n" by (simp add: unat_div unat_mod)
    have "last (num_loop n b []) \<noteq> 0x30"
    proof (cases "n div b = 0")
      case True
      then have "unat n < unat b" using b(1) div_eq_0_iff [of "unat n" "unat b"] unat_div [of n b] by (auto simp: word_less_nat_alt)
      then have "n mod b = n" by (simp add: word_unat_eq_iff unat_mod)
      then show ?thesis using True v(2) n b(1) by (auto simp: s num_loop.simps)
    next
      case False
      then show ?thesis using less [OF d] by (simp add: s)
    qed
    then show ?thesis using e s by simp
  qed
qed


lemma num_loop_length: "10 \<le> b \<Longrightarrow> unat n < 10 ^ k \<Longrightarrow> length (num_loop n b []) \<le> k"
proof (induction k arbitrary: n)
  case 0
  then have "n = 0" by (simp add: unat_eq_zero)
  then show ?case by (simp add: num_loop.simps)
next
  case (Suc k)
  show ?case
  proof (cases "n = 0")
    case True
    then show ?thesis by (simp add: num_loop.simps)
  next
    case False
    have b: "10 \<le> unat b" using Suc.prems(1) by (simp add: word_le_nat_alt)
    then have "unat n div unat b \<le> unat n div 10" by (rule div_le_mono2 [rotated]) simp
    then have "unat (n div b) < 10 ^ k" using Suc.prems(2) by (simp add: unat_div less_mult_imp_div_less mult.commute)
    then have "length (num_loop (n div b) b []) \<le> k" using Suc.IH Suc.prems(1) by blast
    moreover have "0 < n" "1 < b" using False b by (simp_all add: word_neq_0_conv word_less_nat_alt)
    ultimately show ?thesis using num_loop_step by simp
  qed
qed

subsection \<open>The text of a format\<close>

text \<open>
  The characters that a format string stands for, without any device: conversions are replaced by their
  arguments, \<open>None\<close> when an argument does not fit or the string ends in a percent sign.
\<close>

definition conv_text :: "bool \<Rightarrow> u8 \<Rightarrow> karg list \<Rightarrow> (u8 list \<times> karg list) option" where
  "conv_text pct d args =
     (if d = 0x64 then (case args of Int_arg v # args \<Rightarrow>
          Some (if sint v < 0 then 0x2D # num_chars (scast (- v)) 10 else num_chars (scast v) 10, args) | _ \<Rightarrow> None)
      else if d = 0x75 then (case args of Int_arg v # args \<Rightarrow> Some (num_chars (ucast v) 10, args) | _ \<Rightarrow> None)
      else if d = 0x78 then (case args of Int_arg v # args \<Rightarrow> Some ([0x30, 0x78] @ num_chars (ucast v) 16, args) | _ \<Rightarrow> None)
      else if d = 0x73 then (case args of Str_arg s # args \<Rightarrow> Some (s, args) | _ \<Rightarrow> None)
      else if d = 0x63 then (case args of Int_arg v # args \<Rightarrow> Some ([ucast v], args) | _ \<Rightarrow> None)
      else Some (if d = 0x25 \<and> pct then [0x25] else [], args))"

fun format_text :: "bool \<Rightarrow> u8 list \<Rightarrow> karg list \<Rightarrow> u8 list option" where
  "format_text pct [] args = Some []"
| "format_text pct [c] args = (if c = 0x25 then None else Some [c])"
| "format_text pct (c # d # fmt) args =
     (if c \<noteq> 0x25 then map_option (Cons c) (format_text pct (d # fmt) args)
      else do { (cs, args) \<leftarrow> conv_text pct d args; r \<leftarrow> format_text pct fmt args; Some (cs @ r) })"

lemma kputs_append: "kputs bus (xs @ ys) st = Option.bind (kputs bus xs st) (kputs bus ys)"
proof (induction xs arbitrary: st)
  case (Cons x xs)
  then show ?case by (cases "kputchar bus x st") simp_all
qed simp

lemma kputs_single: "kputs bus [c] st = kputchar bus c st"
  by (cases "kputchar bus c st") simp_all

lemma kputs_Cons: "kputs bus (c # cs) st = Option.bind (kputchar bus c st) (kputs bus cs)"
  by simp

declare kputs.simps(2) [simp del]

lemma conv_step:
  assumes "conv_text pct d args = Some (xs, args')"
  shows "format_loop bus pct (0x25 # d # fmt) args st = Option.bind (kputs bus xs st) (format_loop bus pct fmt args')"
proof -
  show ?thesis using assms
    by (auto simp: conv_text_def kputnum_def kputs_append kputs_Cons kputs_single bind_assoc Let_def
        split: if_splits list.splits karg.splits)
qed

lemma format_loop_text:
  "format_text pct fmt args = Some cs \<Longrightarrow> format_loop bus pct fmt args st = kputs bus cs st"
proof (induction pct fmt args arbitrary: cs st rule: format_text.induct)
  case (2 pct c args)
  then show ?case by (auto simp: kputs_single split: if_splits)
next
  case (3 pct c d fmt args)
  show ?case
  proof (cases "c = 0x25")
    case False
    then obtain r where r: "format_text pct (d # fmt) args = Some r" "cs = c # r" using "3.prems" by auto
    then have "format_loop bus pct (d # fmt) args = kputs bus r" using "3.IH"(1) [OF False r(1)] by blast
    then show ?thesis using False r(2) by (simp add: kputs_Cons)
  next
    case True
    then obtain xs args' r where r: "conv_text pct d args = Some (xs, args')" "format_text pct fmt args' = Some r" "cs = xs @ r"
      using "3.prems" by (auto simp: bind_eq_Some_conv)
    have e: "format_loop bus pct fmt args' = kputs bus r" using "3.IH"(2) [OF _ r(1) refl r(2)] True by blast
    show ?thesis unfolding True conv_step [OF r(1)] e r(3) kputs_append ..
  qed
qed simp


subsection \<open>The serial line\<close>

text \<open>A serial port that is always ready again and puts every byte written to it on the line.\<close>

definition uart_ready :: "'m bus \<Rightarrow> ('m \<Rightarrow> u8 list) \<Rightarrow> bool" where
  "uart_ready bus sent \<longleftrightarrow>
     (\<forall>m. fst (bus_inb bus 0x3FD m) AND 0x20 \<noteq> 0 \<and> sent (snd (bus_inb bus 0x3FD m)) = sent m) \<and>
     (\<forall>c m. sent (bus_outb bus 0x3F8 c m) = sent m @ [c])"

lemma write_char_ready:
  assumes "uart_ready bus sent"
  shows "\<exists>m'. serial_write_char bus c m = Some m' \<and> sent m' = sent m @ [c]"
proof -
  obtain v m1 where i: "bus_inb bus 0x3FD m = (v, m1)" by fastforce
  have v: "v AND 0x20 \<noteq> 0" "sent m1 = sent m" using assms i unfolding uart_ready_def by (metis fst_conv, metis snd_conv)
  have "serial_wait bus m = Some m1" using i v(1) by (subst serial_wait.simps) (simp add: serial_is_transmit_empty_def)
  then show ?thesis using assms v(2) by (simp add: serial_write_char_def uart_ready_def)
qed

lemma kputs_ready:
  assumes U: "uart_ready bus sent"
  shows "\<exists>st'. kputs bus cs st = Some st' \<and> sent (port_state st') = sent (port_state st) @ cs \<and>
    screen_of st' = fold (\<lambda>c. graphics_putchar c 0xFFFFFF 0x000000) cs (screen_of st)"
proof (induction cs arbitrary: st)
  case (Cons c cs)
  obtain m where m: "serial_write_char bus c (port_state st) = Some m" "sent m = sent (port_state st) @ [c]"
    using write_char_ready [OF U] by blast
  let ?s = "st\<lparr>screen_of := graphics_putchar c 0xFFFFFF 0x000000 (screen_of st), port_state := m\<rparr>"
  have "kputchar bus c st = Some ?s" using m(1) by (simp add: kputchar_def)
  moreover obtain st' where "kputs bus cs ?s = Some st'" "sent (port_state st') = sent m @ cs"
    "screen_of st' = fold (\<lambda>c. graphics_putchar c 0xFFFFFF 0x000000) cs (screen_of ?s)" using Cons.IH [of ?s] by auto
  ultimately show ?case using m(2) by (simp add: kputs_Cons)
qed simp

lemma serial_write_ready:
  assumes U: "uart_ready bus sent"
  shows "\<exists>m'. serial_write bus s m = Some m' \<and> sent m' = sent m @ concat (map (\<lambda>c. if c = 0x0A then [0x0D, 0x0A] else [c]) s)"
proof (induction s arbitrary: m)
  case (Cons c s)
  obtain m1 where m1: "(if c = 0x0A then serial_write_char bus 0x0D m else Some m) = Some m1" "sent m1 = sent m @ (if c = 0x0A then [0x0D] else [])"
    using write_char_ready [OF U, of "0x0D" m] by (cases "c = 0x0A") auto
  obtain m2 where m2: "serial_write_char bus c m1 = Some m2" "sent m2 = sent m1 @ [c]" using write_char_ready [OF U] by blast
  obtain m3 where "serial_write bus s m2 = Some m3" "sent m3 = sent m2 @ concat (map (\<lambda>c. if c = 0x0A then [0x0D, 0x0A] else [c]) s)"
    using Cons.IH by blast
  then show ?case using m1 m2 by simp
qed simp

subsection \<open>Properties\<close>

text \<open>
  Claim C38. Numbers are printed correctly in both bases: reading the characters back gives the number, there is no leading
  zero, and at most 20 characters are put into the buffer of 32.
\<close>

theorem kputnum_reads_back:
  assumes "base = 10 \<or> base = 16"
  shows "num_value (unat base) (num_chars n base) = unat n \<and> (n \<noteq> 0 \<longrightarrow> hd (num_chars n base) \<noteq> 0x30) \<and>
    length (num_loop n base []) \<le> 20"
proof -
  have b: "1 < base" "base \<le> 16" "10 \<le> base" using assms by auto
  note v = num_loop_value [OF b(1,2), of n]
  have "unat n < 10 ^ 20" using unat_u64_less [of n] by simp
  from num_loop_length [OF b(3) this] have l: "length (num_loop n base []) \<le> 20" .
  show ?thesis
  proof (cases "n = 0")
    case True
    then show ?thesis using l by (simp add: num_chars_def num_value_def digit_value_def)
  next
    case False
    then show ?thesis using v l by (simp add: num_chars_def hd_rev)
  qed
qed

theorem kputnum_reads_back_witness: "num_value 10 (num_chars 65535 10) = 65535 \<and> num_value 16 (num_chars 65535 16) = 65535"
  using kputnum_reads_back [of 10 65535] kputnum_reads_back [of 16 65535] by simp


text \<open>A port whose state is the bytes sent so far.\<close>

definition line_bus :: "u8 list bus" where
  "line_bus = \<lparr>bus_inb = (\<lambda>p m. (0x20, m)), bus_outb = (\<lambda>p v m. if p = 0x3F8 then m @ [v] else m),
     bus_inw = (\<lambda>p m. (0, m)), bus_outw = (\<lambda>p v m. m)\<rparr>"

lemma line_ready: "uart_ready line_bus (\<lambda>m. m)"
  by (simp add: uart_ready_def line_bus_def)


text \<open>The smallest \<^verbatim>\<open>int\<close>, \<open>- 2 ^ 31\<close>, is printed as \<open>- (2 ^ 64 - 2 ^ 31)\<close>.\<close>

theorem printk_min_int:
  "\<exists>cs. conv_text True 0x64 (Int_arg 0x80000000 # args) = Some (0x2D # cs, args) \<and> num_value 10 cs = 2 ^ 64 - 2 ^ 31"
proof -
  have u: "unat (- 0x80000000 :: u64) = 2 ^ 64 - 2 ^ 31" by simp
  have "num_value 10 (num_chars (- 0x80000000) 10) = 2 ^ 64 - 2 ^ 31"
    using num_loop_value [of 10 "- 0x80000000"] unfolding num_chars_def u [symmetric] by simp
  then show ?thesis by (simp add: conv_text_def)
qed

end
