(* ===== verification/Interrupts.thy ===== *)
theory Interrupts
  imports Klog
begin

unbundle bit_operations_syntax

text \<open>
  \<^verbatim>\<open>kernel/src/gdt.c\<close>, \<^verbatim>\<open>kernel/src/idt.c\<close>, \<^verbatim>\<open>kernel/src/pic.c\<close> and \<^verbatim>\<open>kernel/src/ps2.c\<close>: segment and interrupt
  descriptors, the interrupt controller and the keyboard. Addresses that the linker gives (the tables and
  the handlers of \<^verbatim>\<open>interrupts.asm\<close> and \<^verbatim>\<open>exceptions.asm\<close>) are parameters. Loading the tables into the
  processor is the assignment of the register contents.
\<close>

subsection \<open>Segment descriptors\<close>

record gdt_entry =
  limit_low :: u16
  base_low :: u16
  base_middle :: u8
  access :: u8
  granularity :: u8
  base_high :: u8

record table_ptr =
  tp_limit :: u16
  tp_base :: u64

definition gdt_gate :: "u64 \<Rightarrow> u32 \<Rightarrow> u8 \<Rightarrow> u8 \<Rightarrow> gdt_entry" where
  "gdt_gate base limit acc gran = \<lparr>limit_low = ucast (limit AND 0xFFFF), base_low = ucast (base AND 0xFFFF),
     base_middle = ucast (drop_bit 16 base AND 0xFF), access = acc,
     granularity = ucast (drop_bit 16 limit AND 0x0F) OR (gran AND 0xF0), base_high = ucast (drop_bit 24 base AND 0xFF)\<rparr>"

definition gdt_set_gate :: "nat \<Rightarrow> u64 \<Rightarrow> u32 \<Rightarrow> u8 \<Rightarrow> u8 \<Rightarrow> gdt_entry list \<Rightarrow> gdt_entry list" where
  "gdt_set_gate num base limit acc gran gdt = gdt[num := gdt_gate base limit acc gran]"

text \<open>The table and the contents of the table register; the entries have 8 bytes.\<close>

definition gdt_init :: "u64 \<Rightarrow> gdt_entry list \<Rightarrow> gdt_entry list \<times> table_ptr" where
  "gdt_init gdt_addr gdt =
     (let gp = \<lparr>tp_limit = 8 * 3 - 1, tp_base = gdt_addr\<rparr>;
          gdt = gdt_set_gate 0 0 0 0 0 gdt;
          gdt = gdt_set_gate 1 0 0 0x9A 0xA0 gdt;
          gdt = gdt_set_gate 2 0 0 0x92 0xA0 gdt
      in (gdt, gp))"

subsection \<open>Interrupt descriptors\<close>

record idt_entry =
  offset_low :: u16
  selector :: u16
  ist :: u8
  type_attr :: u8
  offset_middle :: u16
  offset_high :: u32
  idt_zero :: u32

definition zero_gate :: idt_entry where
  "zero_gate = \<lparr>offset_low = 0, selector = 0, ist = 0, type_attr = 0, offset_middle = 0, offset_high = 0, idt_zero = 0\<rparr>"

definition idt_gate :: "u64 \<Rightarrow> idt_entry" where
  "idt_gate handler = \<lparr>offset_low = ucast (handler AND 0xFFFF), selector = 0x08, ist = 0, type_attr = 0x8E,
     offset_middle = ucast (drop_bit 16 handler AND 0xFFFF), offset_high = ucast (drop_bit 32 handler AND 0xFFFFFFFF), idt_zero = 0\<rparr>"

definition idt_set_gate :: "u8 \<Rightarrow> u64 \<Rightarrow> idt_entry list \<Rightarrow> idt_entry list" where
  "idt_set_gate num handler idt = idt[unat num := idt_gate handler]"

fun idt_loop :: "u64 list \<Rightarrow> u8 \<Rightarrow> idt_entry list \<Rightarrow> idt_entry list" where
  "idt_loop [] i idt = idt"
| "idt_loop (h # hs) i idt = idt_loop hs (i + 1) (idt_set_gate i h idt)"

definition idt_init :: "u64 \<Rightarrow> u64 list \<Rightarrow> u64 \<Rightarrow> idt_entry list \<times> table_ptr" where
  "idt_init idt_addr exception_handlers keyboard_handler =
     (let idt = replicate 256 zero_gate;
          idt = idt_loop exception_handlers 0 idt;
          idt = idt_set_gate (32 + 1) keyboard_handler idt
      in (idt, \<lparr>tp_limit = 16 * 256 - 1, tp_base = idt_addr\<rparr>))"

subsection \<open>The interrupt controller\<close>

definition pic_remap :: "'m bus \<Rightarrow> 'm \<Rightarrow> 'm" where
  "pic_remap bus m =
     (let (a1, m) = bus_inb bus 0x21 m;
          (a2, m) = bus_inb bus 0xA1 m;
          step = (\<lambda>(p, v) m. io_wait bus (bus_outb bus p v m));
          m = fold step [(0x20, 0x11), (0xA0, 0x11), (0x21, 0x20), (0xA1, 0x28), (0x21, 0x04), (0xA1, 0x02), (0x21, 0x01), (0xA1, 0x01)] m
      in outbs bus [(0x21, 0xFF), (0xA1, 0xFF)] m)"

definition pic_disable :: "'m bus \<Rightarrow> 'm \<Rightarrow> 'm" where
  "pic_disable bus m = outbs bus [(0xA1, 0xFF), (0x21, 0xFF)] m"

definition pic_send_eoi :: "'m bus \<Rightarrow> u8 \<Rightarrow> 'm \<Rightarrow> 'm" where
  "pic_send_eoi bus irq m =
     (let m = (if irq \<ge> 8 then bus_outb bus 0xA0 0x20 m else m) in bus_outb bus 0x20 0x20 m)"

text \<open>
  The mask port of an interrupt line and its bit there. The shift is one of an \<^verbatim>\<open>int\<close>, of which the byte keeps the low
  bits; lines whose shift would be 32 or more are left out (\<open>None\<close>).
\<close>

definition irq_port :: "u8 \<Rightarrow> u16 \<times> u8" where
  "irq_port irq = (if irq < 8 then (0x21, irq) else (0xA1, irq - 8))"

definition enable_irq :: "'m bus \<Rightarrow> u8 \<Rightarrow> 'm \<Rightarrow> 'm option" where
  "enable_irq bus irq m =
     (let (port, n) = irq_port irq in
      if n \<ge> 32 then None
      else let (v, m) = bus_inb bus port m in Some (bus_outb bus port (v AND NOT (ucast (push_bit (unat n) (1 :: u32)))) m))"

definition disable_irq :: "'m bus \<Rightarrow> u8 \<Rightarrow> 'm \<Rightarrow> 'm option" where
  "disable_irq bus irq m =
     (let (port, n) = irq_port irq in
      if n \<ge> 32 then None
      else let (v, m) = bus_inb bus port m in Some (bus_outb bus port (v OR ucast (push_bit (unat n) (1 :: u32))) m))"

subsection \<open>The keyboard\<close>

record ps2 =
  shift_down :: bool
  extended :: bool

definition scancode_to_ascii :: "u8 list" where
  "scancode_to_ascii = [
     0, 0, 0x31, 0x32, 0x33, 0x34, 0x35, 0x36, 0x37, 0x38, 0x39, 0x30, 0x2D, 0x3D, 0x08,
     0x09, 0x71, 0x77, 0x65, 0x72, 0x74, 0x79, 0x75, 0x69, 0x6F, 0x70, 0x5B, 0x5D, 0x0A, 0,
     0x61, 0x73, 0x64, 0x66, 0x67, 0x68, 0x6A, 0x6B, 0x6C, 0x3B, 0x27, 0x60, 0, 0x5C, 0x7A, 0x78,
     0x63, 0x76, 0x62, 0x6E, 0x6D, 0x2C, 0x2E, 0x2F, 0, 0x2A, 0, 0x20]"

definition scancode_to_ascii_shift :: "u8 list" where
  "scancode_to_ascii_shift = [
     0, 0, 0x21, 0x40, 0x23, 0x24, 0x25, 0x5E, 0x26, 0x2A, 0x28, 0x29, 0x5F, 0x2B, 0x08,
     0x09, 0x51, 0x57, 0x45, 0x52, 0x54, 0x59, 0x55, 0x49, 0x4F, 0x50, 0x7B, 0x7D, 0x0A, 0,
     0x41, 0x53, 0x44, 0x46, 0x47, 0x48, 0x4A, 0x4B, 0x4C, 0x3A, 0x22, 0x7E, 0, 0x7C, 0x5A, 0x58,
     0x43, 0x56, 0x42, 0x4E, 0x4D, 0x3C, 0x3E, 0x3F, 0, 0x2A, 0, 0x20]"

partial_function (option) wait_input_empty :: "'m bus \<Rightarrow> 'm \<Rightarrow> 'm option" where
  "wait_input_empty bus m = (let (v, m) = bus_inb bus 0x64 m in if v AND 0x02 \<noteq> 0 then wait_input_empty bus m else Some m)"

partial_function (option) wait_output_full :: "'m bus \<Rightarrow> 'm \<Rightarrow> 'm option" where
  "wait_output_full bus m = (let (v, m) = bus_inb bus 0x64 m in if v AND 0x01 = 0 then wait_output_full bus m else Some m)"

text \<open>
  \<open>ps2_init\<close> talks to the keyboard controller between its messages. \<open>on_ports\<close> runs a wait on the machine behind the
  console; \<open>out_port\<close> and \<open>in_port\<close> are single accesses.
\<close>

definition on_ports :: "('m \<Rightarrow> 'm option) \<Rightarrow> 'm console \<Rightarrow> 'm console option" where
  "on_ports f st = map_option (\<lambda>m. st\<lparr>port_state := m\<rparr>) (f (port_state st))"

definition out_port :: "'m bus \<Rightarrow> u16 \<Rightarrow> u8 \<Rightarrow> 'm console \<Rightarrow> 'm console" where
  "out_port bus p v st = st\<lparr>port_state := bus_outb bus p v (port_state st)\<rparr>"

definition in_port :: "'m bus \<Rightarrow> u16 \<Rightarrow> 'm console \<Rightarrow> u8 \<times> 'm console" where
  "in_port bus p st = (let (v, m) = bus_inb bus p (port_state st) in (v, st\<lparr>port_state := m\<rparr>))"

definition ps2_init :: "'m bus \<Rightarrow> 'm console \<Rightarrow> 'm console option" where
  "ps2_init bus st = do {
     st \<leftarrow> printk bus (c_str ''[ps2] init start\<newline>'') [] st;
     st \<leftarrow> on_ports (wait_input_empty bus) st;
     let st = out_port bus 0x64 0x20 st;
     st \<leftarrow> on_ports (wait_output_full bus) st;
     let (config, st) = in_port bus 0x60 st;
     let config = config OR 0x01;
     let config = config AND NOT 0x10;
     st \<leftarrow> on_ports (wait_input_empty bus) st;
     let st = out_port bus 0x64 0x60 st;
     st \<leftarrow> on_ports (wait_input_empty bus) st;
     let st = out_port bus 0x60 config st;
     st \<leftarrow> on_ports (wait_input_empty bus) st;
     let st = out_port bus 0x60 0xF4 st;
     let (v, st) = in_port bus 0x64 st;
     st \<leftarrow> (if v AND 0x01 \<noteq> 0 then
              let (maybe, st) = in_port bus 0x60 st in printk bus (c_str ''[ps2] ack/byte: 0x%x\<newline>'') [Int_arg (ucast maybe)] st
            else Some st);
     printk bus (c_str ''[ps2] init done (config=0x%x)\<newline>'') [Int_arg (ucast config)] st
   }"

text \<open>What a scan code makes the handler print after the code itself.\<close>

datatype key_out = No_out | Key_char u8 | Key_unknown u8

definition ps2_step :: "u8 \<Rightarrow> ps2 \<Rightarrow> key_out \<times> ps2" where
  "ps2_step sc k =
     (if sc = 0xE0 then (No_out, k\<lparr>extended := True\<rparr>)
      else
        let is_break = (sc AND 0x80 \<noteq> 0); code = sc AND 0x7F in
        if code = 0x2A \<or> code = 0x36 then (No_out, k\<lparr>shift_down := \<not> is_break, extended := False\<rparr>)
        else if extended k then (No_out, k\<lparr>extended := False\<rparr>)
        else if is_break then (No_out, k)
        else
          let map = (if shift_down k then scancode_to_ascii_shift else scancode_to_ascii) in
          if unat code < length scancode_to_ascii then
            let c = map ! unat code in (if c \<noteq> 0 then Key_char c else Key_unknown code, k)
          else (No_out, k))"

definition key_fmt :: "key_out \<Rightarrow> (u8 list \<times> karg list) option" where
  "key_fmt out =
     (case out of
        No_out \<Rightarrow> None
      | Key_char c \<Rightarrow> Some (c_str ''%c'', [Int_arg (scast c)])
      | Key_unknown code \<Rightarrow> Some (c_str ''[ps2:unk 0x%x]'', [Int_arg (ucast code)]))"

definition ps2_handler :: "'m bus \<Rightarrow> ps2 \<Rightarrow> 'm console \<Rightarrow> (ps2 \<times> 'm console) option" where
  "ps2_handler bus k st =
     (let (v, st) = in_port bus 0x64 st in
      if v AND 0x01 = 0 then Some (k, st)
      else do {
        let (sc, st) = in_port bus 0x60 st;
        st \<leftarrow> printk bus (c_str ''[ps2] scancode: 0x%x\<newline>'') [Int_arg (ucast sc)] st;
        let (out, k) = ps2_step sc k;
        st \<leftarrow> (case key_fmt out of None \<Rightarrow> Some st | Some (fmt, args) \<Rightarrow> printk bus fmt args st);
        Some (k, st)
      })"

subsection \<open>Exceptions\<close>

text \<open>
  \<open>exception_handler\<close> of \<^verbatim>\<open>exceptions.c\<close> up to the loop in which the processor is halted: the value is the console there.
\<close>

definition exception_handler :: "'m bus \<Rightarrow> u64 \<Rightarrow> u64 \<Rightarrow> 'm console \<Rightarrow> 'm console option" where
  "exception_handler bus vector error_code st = do {
     st \<leftarrow> printk bus (c_str ''\<newline>!!! CPU EXCEPTION %d !!!\<newline>'') [Int_arg (ucast vector)] st;
     st \<leftarrow> printk bus (c_str ''Error code: 0x%x\<newline>'') [Int_arg (ucast error_code)] st;
     printk bus (c_str ''Kernel halted.\<newline>'') [] st
   }"

text \<open>
  The entry points of \<^verbatim>\<open>exceptions.asm\<close>, up to the call of the handler: \<open>stack\<close> is what the processor has pushed, the last word first, \<open>regs\<close>
  the seven registers that are saved. The value are the two arguments of the handler, read from the stack. The stubs listed
  rely on an error code from the processor, the others push a zero in its place.
\<close>

definition errcode_stubs :: "nat list" where
  "errcode_stubs = [8, 10, 11, 12, 13, 14]"

definition exception_stub :: "nat \<Rightarrow> u64 list \<Rightarrow> u64 list \<Rightarrow> u64 \<times> u64" where
  "exception_stub n regs stack =
     (let stack = (if n \<in> set errcode_stubs then stack else 0 # stack);
          stack = of_nat n # stack;
          stack = rev regs @ stack
      in (stack ! (56 div 8), stack ! (64 div 8)))"

end
