(* ===== verification/Interrupts_Proofs.thy ===== *)
theory Interrupts_Proofs
  imports Interrupts
begin

unbundle bit_operations_syntax

text \<open>
  Descriptor tables, keyboard and interrupt controller: the gates the processor reads are the handlers that were
  installed, key strokes print their characters, and masking a line leaves the others alone.
\<close>

subsection \<open>Descriptors\<close>

text \<open>The address that the processor takes from a gate.\<close>

definition gate_handler :: "idt_entry \<Rightarrow> u64" where
  "gate_handler e = ucast (offset_low e) OR push_bit 16 (ucast (offset_middle e)) OR push_bit 32 (ucast (offset_high e))"

lemma gate_handler_gate: "gate_handler (idt_gate h) = h"
proof (rule bit_word_eqI)
  have m: "(0xFFFF :: u64) = mask 16" "(0xFFFFFFFF :: u64) = mask 32" by (simp_all add: mask_eq_exp_minus_1)
  fix n assume "n < LENGTH(64)"
  then show "bit (gate_handler (idt_gate h)) n = bit h n"
    unfolding gate_handler_def idt_gate_def m by (cases "n < 16"; cases "n < 32") (auto simp: bit_simps)
qed

lemma idt_loop_nth:
  "unat i + length hs \<le> 256 \<Longrightarrow> length idt = 256 \<Longrightarrow> length (idt_loop hs i idt) = 256 \<and>
     (\<forall>k < 256. idt_loop hs i idt ! k = (if unat i \<le> k \<and> k < unat i + length hs then idt_gate (hs ! (k - unat i)) else idt ! k))"
proof (induction hs i idt rule: idt_loop.induct)
  case (2 h hs i idt)
  show ?case
  proof (cases "hs = []")
    case True
    then show ?thesis using 2(3) by (auto simp: idt_set_gate_def nth_list_update le_less_Suc_eq)
  next
    case False
    then have u: "unat (i + 1) = unat i + 1" using 2(2) by (cases hs) (simp_all add: unat_plus_if')
    have "unat (i + 1) + length hs \<le> 256" "length (idt_set_gate i h idt) = 256" using 2(2,3) u by (simp_all add: idt_set_gate_def)
    note ih = 2(1) [OF this, unfolded u]
    have s: "idt_set_gate i h idt ! k = (if k = unat i then idt_gate h else idt ! k)" if "k < 256" for k
      using that 2(3) by (simp add: idt_set_gate_def nth_list_update)
    show ?thesis using ih s by (auto simp: nth_Cons' Suc_le_eq)
  qed
qed auto

text \<open>
  After \<open>idt_init\<close> the processor finds the 32 exception handlers at vectors 0 to 31 and the keyboard handler at 33,
  each in a present gate of the kernel code segment; every other gate is empty, so that no other vector is served. The
  limit covers the 256 gates.
\<close>

theorem idt_init_gates:
  fixes addr kbd :: u64
  assumes "length handlers = 32"
  defines "t \<equiv> fst (idt_init addr handlers kbd)"
  shows "length t = 256 \<and> (\<forall>k < 32. t ! k = idt_gate (handlers ! k) \<and> gate_handler (t ! k) = handlers ! k) \<and>
    gate_handler (t ! 33) = kbd \<and> t ! 33 = idt_gate kbd \<and> (\<forall>k < 256. 32 \<le> k \<and> k \<noteq> 33 \<longrightarrow> t ! k = zero_gate) \<and>
    snd (idt_init addr handlers kbd) = \<lparr>tp_limit = 4095, tp_base = addr\<rparr>"
proof -
  let ?l = "idt_loop handlers 0 (replicate 256 zero_gate)"
  have l: "length ?l = 256" "\<forall>k < 256. ?l ! k = (if k < 32 then idt_gate (handlers ! k) else zero_gate)"
    using idt_loop_nth [of 0 handlers "replicate 256 zero_gate"] assms(1) by simp_all
  have t: "t = ?l[33 := idt_gate kbd]" by (simp add: t_def idt_init_def idt_set_gate_def)
  have n: "t ! k = (if k = 33 then idt_gate kbd else ?l ! k)" if "k < 256" for k
    using that l(1) by (simp add: t nth_list_update)
  have "snd (idt_init addr handlers kbd) = \<lparr>tp_limit = 4095, tp_base = addr\<rparr>" by (simp add: idt_init_def)
  moreover have "length t = 256" using l(1) by (simp add: t)
  ultimately show ?thesis using n l(2) by (simp add: gate_handler_gate)
qed

theorem idt_init_gates_witness: "gate_handler (fst (idt_init 0x5000 (replicate 32 0xFFFFFFFF80001000) 0xFFFFFFFF80002000) ! 13) = 0xFFFFFFFF80001000"
  using idt_init_gates [of "replicate 32 0xFFFFFFFF80001000" "0x5000" "0xFFFFFFFF80002000"] by (simp add: gate_handler_gate)

text \<open>The descriptor table has a null entry, a 64-bit code segment and a data segment, both of ring 0.\<close>

lemma gdt_init_entries:
  assumes "length g = 3"
  shows "gdt_init addr g = ([\<lparr>limit_low = 0, base_low = 0, base_middle = 0, access = 0, granularity = 0, base_high = 0\<rparr>,
     \<lparr>limit_low = 0, base_low = 0, base_middle = 0, access = 0x9A, granularity = 0xA0, base_high = 0\<rparr>,
     \<lparr>limit_low = 0, base_low = 0, base_middle = 0, access = 0x92, granularity = 0xA0, base_high = 0\<rparr>],
    \<lparr>tp_limit = 23, tp_base = addr\<rparr>)"
proof -
  obtain a b c where "g = [a, b, c]" using assms by (auto simp: numeral_3_eq_3 length_Suc_conv)
  then show ?thesis by (simp add: gdt_init_def gdt_set_gate_def gdt_gate_def)
qed

subsection \<open>The keyboard\<close>

fun ps2_run :: "u8 list \<Rightarrow> ps2 \<Rightarrow> key_out list \<times> ps2" where
  "ps2_run [] k = ([], k)"
| "ps2_run (sc # scs) k = (let (out, k) = ps2_step sc k; (outs, k) = ps2_run scs k in (out # outs, k))"

text \<open>The characters that a sequence of scan codes prints.\<close>

definition typed :: "key_out list \<Rightarrow> u8 list" where
  "typed outs = concat (map (\<lambda>out. case out of Key_char c \<Rightarrow> [c] | _ \<Rightarrow> []) outs)"

definition layout :: "bool \<Rightarrow> nat \<Rightarrow> u8" where
  "layout shifted i = (if shifted then scancode_to_ascii_shift else scancode_to_ascii) ! i"

text \<open>Pressing and releasing keys, one after the other.\<close>

definition strokes :: "nat list \<Rightarrow> u8 list" where
  "strokes is = concat (map (\<lambda>i. [of_nat i, of_nat i OR 0x80]) is)"

definition keyboard :: "bool \<Rightarrow> ps2" where
  "keyboard s = \<lparr>shift_down = s, extended = False\<rparr>"

definition is_key :: "nat \<Rightarrow> bool" where
  "is_key i \<longleftrightarrow> i < 58 \<and> scancode_to_ascii ! i \<noteq> 0"

lemma tables_length: "length scancode_to_ascii = 58" "length scancode_to_ascii_shift = 58"
  by (simp_all add: scancode_to_ascii_def scancode_to_ascii_shift_def)

lemma key_steps:
  assumes "is_key i"
  shows "ps2_step (of_nat i) (keyboard s) = (Key_char (layout s i), keyboard s)" "ps2_step (of_nat i OR 0x80) (keyboard s) = (No_out, keyboard s)"
proof -
  have a: "list_all (\<lambda>i. scancode_to_ascii ! i \<noteq> 0 \<longrightarrow> (\<forall>s \<in> {True, False}.
      ps2_step (of_nat i) (keyboard s) = (Key_char (layout s i), keyboard s) \<and> ps2_step (of_nat i OR 0x80) (keyboard s) = (No_out, keyboard s))) [0..<58]"
    by code_simp
  have "i \<in> set [0..<58]" "s \<in> {True, False}" using assms by (simp_all add: is_key_def)
  then show "ps2_step (of_nat i) (keyboard s) = (Key_char (layout s i), keyboard s)" "ps2_step (of_nat i OR 0x80) (keyboard s) = (No_out, keyboard s)"
    using a assms unfolding list_all_iff is_key_def by blast+
qed

lemma ps2_run_append: "ps2_run (xs @ ys) k = (let (o1, k) = ps2_run xs k; (o2, k) = ps2_run ys k in (o1 @ o2, k))"
  by (induction xs arbitrary: k) (simp_all add: case_prod_beta Let_def)

lemma run_strokes:
  assumes "list_all is_key is"
  shows "\<exists>outs. ps2_run (strokes is) (keyboard s) = (outs, keyboard s) \<and> typed outs = map (layout s) is"
  using assms
proof (induction "is")
  case (Cons i "is")
  then obtain outs where o: "ps2_run (strokes is) (keyboard s) = (outs, keyboard s)" "typed outs = map (layout s) is" by auto
  have "ps2_run (strokes (i # is)) (keyboard s) = (Key_char (layout s i) # No_out # outs, keyboard s)"
    using key_steps [of i s] Cons.prems o(1) by (simp add: strokes_def)
  then show ?case using o(2) by (simp add: typed_def)
qed (simp add: strokes_def typed_def)



text \<open>Extended keys send a shift code after \<^verbatim>\<open>0xE0\<close> that does not mean shift, yet turns it on; and releasing one of two held shift keys turns it off.\<close>

lemma ps2_false_shift:
  "ps2_run [0xE0, 0x2A] (keyboard False) = ([No_out, No_out], keyboard True)"
  "ps2_run [0x2A, 0x36, 0xAA] (keyboard False) = ([No_out, No_out, No_out], keyboard False)"
  by (simp_all add: ps2_step_def keyboard_def)

subsection \<open>The interrupt controller\<close>

text \<open>A mask register at each of the two ports, kept by the machine.\<close>

definition mask_law :: "'m bus \<Rightarrow> ('m \<Rightarrow> u16 \<Rightarrow> u8) \<Rightarrow> bool" where
  "mask_law bus imr \<longleftrightarrow> (\<forall>p \<in> {0x21, 0xA1}. \<forall>m v. bus_inb bus p m = (imr m p, m) \<and> imr (bus_outb bus p v m) = (imr m)(p := v))"

text \<open>An interrupt line is masked when its bit is set.\<close>

definition masked :: "('m \<Rightarrow> u16 \<Rightarrow> u8) \<Rightarrow> 'm \<Rightarrow> nat \<Rightarrow> bool" where
  "masked imr m n \<longleftrightarrow> (if n < 8 then bit (imr m 0x21) n else bit (imr m 0xA1) (n - 8))"

text \<open>A bus where every port is a register, for the example.\<close>

definition mask_bus :: "(u16 \<Rightarrow> u8) bus" where
  "mask_bus = \<lparr>bus_inb = \<lambda>p m. (m p, m), bus_outb = \<lambda>p v m. m(p := v), bus_inw = \<lambda>p m. (0, m), bus_outw = \<lambda>p v m. m\<rparr>"

text \<open>
  \<open>enable_irq\<close> unmasks exactly the line it is given, \<open>disable_irq\<close> masks exactly that line; the other fifteen
  keep their state.
\<close>

theorem irq_masks_one_line:
  assumes M: "mask_law bus imr" and i: "irq < 16" and n: "n < 16"
  shows "(\<exists>m'. enable_irq bus irq m = Some m' \<and> (masked imr m' n \<longleftrightarrow> n \<noteq> unat irq \<and> masked imr m n)) \<and>
    (\<exists>m'. disable_irq bus irq m = Some m' \<and> (masked imr m' n \<longleftrightarrow> n = unat irq \<or> masked imr m n))"
proof -
  obtain p k where pk: "irq_port irq = (p, k)" by fastforce
  have u: "unat irq < 16" using i by (simp add: word_less_nat_alt)
  have p: "p \<in> {0x21, 0xA1}" "unat k = (if unat irq < 8 then unat irq else unat irq - 8)" "p = (if unat irq < 8 then 0x21 else 0xA1)"
    using pk u by (auto simp: irq_port_def word_less_nat_alt unat_sub word_le_nat_alt split: if_splits)
  have k: "unat k < 8" "\<not> 32 \<le> k" using p(2) u by (auto simp: word_le_nat_alt)
  define w :: u8 where "w = ucast (push_bit (unat k) (1 :: u32))"
  have b: "bit w j \<longleftrightarrow> j = unat k" for j
    unfolding w_def using k(1) by (auto simp: bit_simps)
  let ?e = "bus_outb bus p (imr m p AND NOT w) m" and ?d = "bus_outb bus p (imr m p OR w) m"
  have r: "bus_inb bus p m = (imr m p, m)" "imr ?e = (imr m)(p := imr m p AND NOT w)"
    "imr ?d = (imr m)(p := imr m p OR w)" using M p(1) unfolding mask_law_def by blast+
  have "enable_irq bus irq m = Some ?e" "disable_irq bus irq m = Some ?d"
    using pk k(2) r(1) by (simp_all add: enable_irq_def disable_irq_def w_def)
  moreover have "masked imr ?e n \<longleftrightarrow> n \<noteq> unat irq \<and> masked imr m n" "masked imr ?d n \<longleftrightarrow> n = unat irq \<or> masked imr m n"
    using n p(2,3) u unfolding masked_def r(2,3) by (auto simp: bit_and_iff bit_or_iff bit_not_iff b)
  ultimately show ?thesis by blast
qed

theorem irq_masks_one_line_witness:
  "\<exists>m'. enable_irq mask_bus 1 (\<lambda>_. 0xFF) = Some m' \<and> \<not> masked id m' 1"
proof -
  have "mask_law mask_bus id" by (simp add: mask_law_def mask_bus_def)
  then show ?thesis using irq_masks_one_line [of mask_bus id 1 1 "\<lambda>_. 0xFF"] by simp
qed

subsection \<open>Exceptions\<close>

text \<open>
  The vectors for which the processor pushes an error code. For all but the last three of them, and for the vectors without one, the handler
  is called with the vector and the error code (zero if there is none); for 21, 29 and 30 the code is taken for part of the frame. That of 17
  is always zero, so that it does not matter there.
\<close>

definition has_errcode :: "nat \<Rightarrow> bool" where
  "has_errcode n \<longleftrightarrow> n \<in> {8, 10, 11, 12, 13, 14, 17, 21, 29, 30}"

lemma exception_stub_args:
  assumes "length regs = 7"
  shows "exception_stub n regs (if has_errcode n then err # frame else frame) = (of_nat n, if n \<in> set errcode_stubs then err else 0)"
  using assms by (auto simp: exception_stub_def errcode_stubs_def has_errcode_def nth_append)

end
