(* ===== verification/Ata.thy ===== *)
theory Ata
  imports Fat32 Ports
begin

unbundle bit_operations_syntax

text \<open>
  \<^verbatim>\<open>kernel/src/ata_pio.c\<close>: the driver of the ATA disk by programmed input and output. The loops that
  only pass time (\<^verbatim>\<open>nop\<close>) are left out. The state is the variable \<^verbatim>\<open>drive\<close> and the machine behind the
  ports. \<open>ata_pio_read\<close> returns with its code the bytes it has stored in the buffer.
\<close>

record ata_drive =
  ata_base :: u16
  slave :: u8
  sectors :: u32
  present :: bool
  model :: "u8 list"

record 'm ata_state =
  drive :: ata_drive
  machine :: 'm

abbreviation (input) ATA_STATUS_ERR :: u8 where "ATA_STATUS_ERR \<equiv> 0x01"
abbreviation (input) ATA_STATUS_DRQ :: u8 where "ATA_STATUS_DRQ \<equiv> 0x08"
abbreviation (input) ATA_STATUS_RDY :: u8 where "ATA_STATUS_RDY \<equiv> 0x40"
abbreviation (input) ATA_STATUS_BSY :: u8 where "ATA_STATUS_BSY \<equiv> 0x80"

fun ata_wait :: "'m bus \<Rightarrow> u16 \<Rightarrow> u8 \<Rightarrow> u8 \<Rightarrow> nat \<Rightarrow> 'm \<Rightarrow> int \<times> 'm" where
  "ata_wait bus base msk val 0 m = (-1, m)"
| "ata_wait bus base msk val (Suc timeout) m =
     (let (s, m) = bus_inb bus (base + 7) m in
      if s AND ATA_STATUS_ERR \<noteq> 0 then (-1, m)
      else if s AND msk = val then (0, m)
      else ata_wait bus base msk val timeout m)"

definition ata_reset :: "'m bus \<Rightarrow> u16 \<Rightarrow> 'm \<Rightarrow> 'm" where
  "ata_reset bus base m =
     (let m = bus_outb bus (base + 0x206) 0x04 m;
          m = (io_wait bus ^^ 500) m;
          m = bus_outb bus (base + 0x206) 0x00 m;
          m = (io_wait bus ^^ 20000) m;
          (_, m) = ata_wait bus base ATA_STATUS_BSY 0 30000 m
      in m)"

definition ata_detect :: "'m bus \<Rightarrow> u16 \<Rightarrow> u8 \<Rightarrow> 'm \<Rightarrow> bool \<times> 'm" where
  "ata_detect bus base slv m =
     (let m = bus_outb bus (base + 6) (0xA0 OR push_bit 4 slv) m;
          m = (io_wait bus ^^ 1000) m;
          m = outbs bus [(base + 2, 0), (base + 3, 0), (base + 4, 0), (base + 5, 0), (base + 7, 0xEC)] m;
          (s, m) = bus_inb bus (base + 7) m
      in if s = 0 then (False, m)
         else
           let (ret, m) = ata_wait bus base ATA_STATUS_BSY 0 10000 m in
           if ret < 0 then (False, m)
           else
             let (mid, m) = bus_inb bus (base + 4) m;
                 (high, m) = bus_inb bus (base + 5) m
             in if mid = 0x14 \<and> high = 0xEB then (False, m)
                else
                  let (s, m) = bus_inb bus (base + 7) m in
                  if s AND ATA_STATUS_DRQ = 0 \<and> s AND ATA_STATUS_ERR = 0 then (False, m)
                  else if s AND ATA_STATUS_ERR \<noteq> 0 then (False, m)
                  else (True, m))"

text \<open>The loops that move the 256 words of a sector.\<close>

fun read_words :: "'m bus \<Rightarrow> u16 \<Rightarrow> nat \<Rightarrow> 'm \<Rightarrow> u16 list \<times> 'm" where
  "read_words bus port 0 m = ([], m)"
| "read_words bus port (Suc n) m =
     (let (w, m) = bus_inw bus port m; (ws, m) = read_words bus port n m in (w # ws, m))"

fun write_words :: "'m bus \<Rightarrow> u16 \<Rightarrow> u16 list \<Rightarrow> 'm \<Rightarrow> 'm" where
  "write_words bus port [] m = m"
| "write_words bus port (w # ws) m = write_words bus port ws (bus_outw bus port w m)"

text \<open>The loop that cuts the spaces at the end of the model name; \<open>i\<close> is the number of bytes still to look at.\<close>

fun trim_model :: "nat \<Rightarrow> u8 list \<Rightarrow> u8 list" where
  "trim_model 0 md = md"
| "trim_model (Suc i) md = (if md ! i = 0x20 then trim_model i (md[i := 0]) else md)"

definition model_of :: "u16 list \<Rightarrow> u8 list" where
  "model_of buf = trim_model 40 (concat (map (\<lambda>i. [ucast (drop_bit 8 (buf ! (27 + i)) AND 0xFF), ucast (buf ! (27 + i) AND 0xFF)]) [0..<20]) @ [0])"

definition ata_identify :: "'m bus \<Rightarrow> u16 \<Rightarrow> u8 \<Rightarrow> 'm ata_state \<Rightarrow> int \<times> 'm ata_state" where
  "ata_identify bus base slv st =
     (let m = bus_outb bus (base + 6) (0xA0 OR push_bit 4 slv) (machine st);
          (ret, m) = ata_wait bus base (ATA_STATUS_BSY OR ATA_STATUS_RDY) ATA_STATUS_RDY 30000 m
      in if ret < 0 then (-1, st\<lparr>machine := m\<rparr>)
         else
           let m = bus_outb bus (base + 7) 0xEC m;
               (ret, m) = ata_wait bus base ATA_STATUS_DRQ ATA_STATUS_DRQ 10000 m
           in if ret < 0 then (-1, st\<lparr>machine := m\<rparr>)
              else
                let (buf, m) = read_words bus base 256 m;
                    d = (drive st)\<lparr>model := model_of buf\<rparr>;
                    d = (if buf ! 49 AND 0x0200 \<noteq> 0
                         then d\<lparr>sectors := ucast (buf ! 60) OR push_bit 16 (ucast (buf ! 61))\<rparr> else d);
                    d = d\<lparr>ata_base := base, slave := slv, present := True\<rparr>
                in (0, st\<lparr>drive := d, machine := m\<rparr>))"

text \<open>The loops of \<open>ata_pio_init\<close> over the two channels and the two drives on each.\<close>

fun init_loop :: "'m bus \<Rightarrow> (u16 \<times> u8) list \<Rightarrow> 'm ata_state \<Rightarrow> 'm ata_state" where
  "init_loop bus [] st = st\<lparr>drive := (drive st)\<lparr>present := False\<rparr>\<rparr>"
| "init_loop bus ((base, s) # rest) st =
     (let st = st\<lparr>machine := ata_reset bus base (machine st)\<rparr>;
          (found, m) = ata_detect bus base s (machine st);
          st = st\<lparr>machine := m\<rparr>
      in if found then
           let (ret, st) = ata_identify bus base s st in
           if ret = 0 then st else init_loop bus rest st
         else init_loop bus rest st)"

definition ata_pio_init :: "'m bus \<Rightarrow> 'm ata_state \<Rightarrow> 'm ata_state" where
  "ata_pio_init bus st = init_loop bus [(0x1F0, 0), (0x1F0, 1), (0x170, 0), (0x170, 1)] st"

text \<open>The register writes that start a transfer; \<open>count\<close> is a \<^verbatim>\<open>uint16_t\<close> here.\<close>

definition ata_command :: "'m bus \<Rightarrow> ata_drive \<Rightarrow> u32 \<Rightarrow> u16 \<Rightarrow> u8 \<Rightarrow> 'm \<Rightarrow> 'm" where
  "ata_command bus d lba count cmd m =
     (let base = ata_base d in
      outbs bus
        [(base + 6, 0xE0 OR push_bit 4 (slave d) OR ucast (drop_bit 24 lba AND 0x0F)),
         (base + 2, ucast (count AND 0xFF)),
         (base + 3, ucast (lba AND 0xFF)),
         (base + 4, ucast (drop_bit 8 lba AND 0xFF)),
         (base + 5, ucast (drop_bit 16 lba AND 0xFF)),
         (base + 7, cmd)] m)"

fun read_sectors :: "'m bus \<Rightarrow> u16 \<Rightarrow> nat \<Rightarrow> u16 list \<Rightarrow> 'm \<Rightarrow> int \<times> u16 list \<times> 'm" where
  "read_sectors bus base 0 buf m = (0, buf, m)"
| "read_sectors bus base (Suc n) buf m =
     (let (ret, m) = ata_wait bus base ATA_STATUS_DRQ ATA_STATUS_DRQ 10000 m in
      if ret < 0 then (-1, buf, m)
      else
        let (ws, m) = read_words bus base 256 m in
        read_sectors bus base n (buf @ ws) m)"

definition word_bytes :: "u16 list \<Rightarrow> u8 list" where
  "word_bytes ws = concat (map bytes16 ws)"

definition ata_pio_read :: "'m bus \<Rightarrow> u32 \<Rightarrow> u16 \<Rightarrow> 'm ata_state \<Rightarrow> int \<times> u8 list \<times> 'm ata_state" where
  "ata_pio_read bus lba count st =
     (if \<not> present (drive st) then (-1, [], st)
      else if count = 0 \<or> count > 256 then (-1, [], st)
      else
        let base = ata_base (drive st);
            m = ata_command bus (drive st) lba count 0x20 (machine st);
            (ret, buf, m) = read_sectors bus base (unat count) [] m
        in if ret < 0 then (-1, word_bytes buf, st\<lparr>machine := m\<rparr>)
           else
             let (ret, m) = ata_wait bus base ATA_STATUS_BSY 0 30000 m in
             (if ret < 0 then -1 else 0, word_bytes buf, st\<lparr>machine := m\<rparr>))"

text \<open>The 16-bit words of the caller's buffer.\<close>

fun bytes_words :: "u8 list \<Rightarrow> u16 list" where
  "bytes_words (a # b # bs) = (ucast a OR push_bit 8 (ucast b)) # bytes_words bs"
| "bytes_words _ = []"

fun write_sectors :: "'m bus \<Rightarrow> u16 \<Rightarrow> nat \<Rightarrow> u16 list \<Rightarrow> 'm \<Rightarrow> int \<times> 'm" where
  "write_sectors bus base 0 buf m = (0, m)"
| "write_sectors bus base (Suc n) buf m =
     (let (ret, m) = ata_wait bus base ATA_STATUS_DRQ ATA_STATUS_DRQ 10000 m in
      if ret < 0 then (-1, m)
      else
        let m = write_words bus base (take 256 buf) m;
            (ret, m) = ata_wait bus base ATA_STATUS_BSY 0 10000 m
        in if ret < 0 then (-1, m) else write_sectors bus base n (drop 256 buf) m)"

definition ata_pio_write :: "'m bus \<Rightarrow> u32 \<Rightarrow> u16 \<Rightarrow> u8 list \<Rightarrow> 'm ata_state \<Rightarrow> int \<times> 'm ata_state" where
  "ata_pio_write bus lba count buffer st =
     (if \<not> present (drive st) then (-1, st)
      else if count = 0 \<or> count > 256 then (-1, st)
      else
        let m = ata_command bus (drive st) lba count 0x30 (machine st);
            (ret, m) = write_sectors bus (ata_base (drive st)) (unat count) (bytes_words buffer) m
        in (ret, st\<lparr>machine := m\<rparr>))"

definition ata_pio_flush :: "'m bus \<Rightarrow> 'm ata_state \<Rightarrow> int \<times> 'm ata_state" where
  "ata_pio_flush bus st =
     (if \<not> present (drive st) then (-1, st)
      else
        let base = ata_base (drive st);
            m = bus_outb bus (base + 7) 0xE7 (machine st);
            (ret, m) = ata_wait bus base ATA_STATUS_BSY 0 30000 m
        in (if ret < 0 then -1 else 0, st\<lparr>machine := m\<rparr>))"

definition ata_pio_get_sectors :: "'m ata_state \<Rightarrow> int" where
  "ata_pio_get_sectors st = (if present (drive st) then sint (sectors (drive st)) else 0)"

text \<open>\<^verbatim>\<open>"No drive"\<close>, or the model name up to its NUL.\<close>

definition ata_pio_get_model :: "'m ata_state \<Rightarrow> u8 list" where
  "ata_pio_get_model st =
     (if present (drive st) then takeWhile (\<lambda>c. c \<noteq> 0) (model (drive st))
      else [0x4E, 0x6F, 0x20, 0x64, 0x72, 0x69, 0x76, 0x65])"

definition ata_pio_present :: "'m ata_state \<Rightarrow> bool" where
  "ata_pio_present st = present (drive st)"

text \<open>
  The block device of \<^verbatim>\<open>kernel.c\<close>. The interface passes a 32-bit count, the functions take its low 16 bits.
\<close>

definition ata_blockdev :: "'m bus \<Rightarrow> 'm ata_state blockdev" where
  "ata_blockdev bus = \<lparr>bd_read = Some (\<lambda>st lba count. ata_pio_read bus lba (ucast count) st),
     bd_write = Some (\<lambda>st lba count buf. ata_pio_write bus lba (ucast count) buf st),
     bd_flush = Some (ata_pio_flush bus), sector_size = 512\<rparr>"

end
