(* ===== verification/Ata_Proofs.thy ===== *)
theory Ata_Proofs
  imports Ata
begin

unbundle bit_operations_syntax

text \<open>
  The correctness of \<^verbatim>\<open>kernel/src/ata_pio.c\<close> for a drive that follows the ATA protocol: the driver's waits end,
  and the sector commands move exactly the sectors they name.
\<close>

subsection \<open>The drive behind the ports\<close>

text \<open>
  What the ATA standard promises of a drive, as the driver relies on it: task-file registers, the data
  phases of the sector commands, a status that is busy for fewer than 10000 polls, and the sectors.
\<close>

datatype phase = Idle | Data_In "u16 list" | Data_Out u32 nat "u16 list"

record ata_dev =
  dv_head :: u8
  dv_count :: u8
  dv_low :: u8
  dv_mid :: u8
  dv_high :: u8
  dv_busy :: nat
  dv_phase :: phase
  dv_disk :: "u32 \<Rightarrow> u8 list"

definition dev_lba :: "ata_dev \<Rightarrow> u32" where
  "dev_lba d = ucast (dv_low d) OR push_bit 8 (ucast (dv_mid d)) OR push_bit 16 (ucast (dv_high d)) OR
     push_bit 24 (ucast (dv_head d AND 0x0F))"

definition dev_count :: "ata_dev \<Rightarrow> nat" where
  "dev_count d = (if dv_count d = 0 then 256 else unat (dv_count d))"

definition idle :: "ata_dev \<Rightarrow> bool" where
  "idle d \<longleftrightarrow> dv_phase d = Idle \<and> dv_busy d = 0"

definition disk_words :: "(u32 \<Rightarrow> u8 list) \<Rightarrow> u32 \<Rightarrow> nat \<Rightarrow> u16 list" where
  "disk_words dk lba n = concat (map (\<lambda>k. bytes_words (dk (lba + of_nat k))) [0..<n])"

definition in_phase :: "u16 list \<Rightarrow> phase" where
  "in_phase ws = (if ws = [] then Idle else Data_In ws)"

definition out_phase :: "u32 \<Rightarrow> nat \<Rightarrow> phase" where
  "out_phase lba n = (if n = 0 then Idle else Data_Out lba n [])"

definition regs_law :: "'m bus \<Rightarrow> u16 \<Rightarrow> ('m \<Rightarrow> ata_dev) \<Rightarrow> bool" where
  "regs_law bus base av \<longleftrightarrow> (\<forall>m v. idle (av m) \<longrightarrow>
     av (bus_outb bus (base + 6) v m) = (av m)\<lparr>dv_head := v\<rparr> \<and>
     av (bus_outb bus (base + 2) v m) = (av m)\<lparr>dv_count := v\<rparr> \<and>
     av (bus_outb bus (base + 3) v m) = (av m)\<lparr>dv_low := v\<rparr> \<and>
     av (bus_outb bus (base + 4) v m) = (av m)\<lparr>dv_mid := v\<rparr> \<and>
     av (bus_outb bus (base + 5) v m) = (av m)\<lparr>dv_high := v\<rparr>)"

definition command_law :: "'m bus \<Rightarrow> u16 \<Rightarrow> nat \<Rightarrow> ('m \<Rightarrow> ata_dev) \<Rightarrow> bool" where
  "command_law bus base cap av \<longleftrightarrow> (\<forall>m. idle (av m) \<longrightarrow>
     (unat (dev_lba (av m)) + dev_count (av m) \<le> cap \<longrightarrow>
       (\<exists>b < 10000. av (bus_outb bus (base + 7) 0x20 m) = (av m)\<lparr>dv_busy := b,
          dv_phase := Data_In (disk_words (dv_disk (av m)) (dev_lba (av m)) (dev_count (av m)))\<rparr>) \<and>
       (\<exists>b < 10000. av (bus_outb bus (base + 7) 0x30 m) = (av m)\<lparr>dv_busy := b,
          dv_phase := Data_Out (dev_lba (av m)) (dev_count (av m)) []\<rparr>)))"

definition status_law :: "'m bus \<Rightarrow> u16 \<Rightarrow> ('m \<Rightarrow> ata_dev) \<Rightarrow> bool" where
  "status_law bus base av \<longleftrightarrow> (\<forall>m s m'. bus_inb bus (base + 7) m = (s, m') \<longrightarrow> s AND ATA_STATUS_ERR = 0 \<and>
     s AND ATA_STATUS_BSY = (if 0 < dv_busy (av m) then ATA_STATUS_BSY else 0) \<and>
     s AND ATA_STATUS_DRQ = (if 0 < dv_busy (av m) \<or> dv_phase (av m) = Idle then 0 else ATA_STATUS_DRQ) \<and>
     av m' = (av m)\<lparr>dv_busy := dv_busy (av m) - 1\<rparr>)"

definition data_in_law :: "'m bus \<Rightarrow> u16 \<Rightarrow> ('m \<Rightarrow> ata_dev) \<Rightarrow> bool" where
  "data_in_law bus base av \<longleftrightarrow> (\<forall>m w ws. dv_busy (av m) = 0 \<longrightarrow> dv_phase (av m) = Data_In (w # ws) \<longrightarrow>
     (\<exists>m' b. bus_inw bus base m = (w, m') \<and> b < 10000 \<and>
       av m' = (av m)\<lparr>dv_phase := in_phase ws, dv_busy := if 256 dvd length ws then b else 0\<rparr>))"

definition data_out_law :: "'m bus \<Rightarrow> u16 \<Rightarrow> ('m \<Rightarrow> ata_dev) \<Rightarrow> bool" where
  "data_out_law bus base av \<longleftrightarrow> (\<forall>m w lba n ws. dv_busy (av m) = 0 \<longrightarrow> dv_phase (av m) = Data_Out lba (Suc n) ws \<longrightarrow>
     (length ws < 255 \<longrightarrow> av (bus_outw bus base w m) = (av m)\<lparr>dv_phase := Data_Out lba (Suc n) (ws @ [w])\<rparr>) \<and>
     (length ws = 255 \<longrightarrow> (\<exists>b < 10000. av (bus_outw bus base w m) = (av m)\<lparr>dv_phase := out_phase (lba + 1) n, dv_busy := b,
        dv_disk := (dv_disk (av m))(lba := word_bytes (ws @ [w]))\<rparr>)))"

definition ata_protocol :: "'m bus \<Rightarrow> u16 \<Rightarrow> nat \<Rightarrow> ('m \<Rightarrow> ata_dev) \<Rightarrow> bool" where
  "ata_protocol bus base cap av \<longleftrightarrow> cap \<le> 2 ^ 28 \<and> regs_law bus base av \<and> command_law bus base cap av \<and> status_law bus base av \<and>
     data_in_law bus base av \<and> data_out_law bus base av"

subsection \<open>Waiting\<close>

lemma wait_ready:
  assumes P: "status_law bus base av" and "dv_busy (av m) < n"
    and v: "msk = ATA_STATUS_BSY \<and> val = 0 \<or> msk = ATA_STATUS_DRQ \<and> val = ATA_STATUS_DRQ \<and> dv_phase (av m) \<noteq> Idle"
  shows "\<exists>m'. ata_wait bus base msk val n m = (0, m') \<and> av m' = (av m)\<lparr>dv_busy := 0\<rparr>"
  using assms(2,3)
proof (induction n arbitrary: m)
  case (Suc n)
  obtain s m' where i: "bus_inb bus (base + 7) m = (s, m')" by fastforce
  then have s: "s AND ATA_STATUS_ERR = 0" "s AND ATA_STATUS_BSY = (if 0 < dv_busy (av m) then ATA_STATUS_BSY else 0)"
    "s AND ATA_STATUS_DRQ = (if 0 < dv_busy (av m) \<or> dv_phase (av m) = Idle then 0 else ATA_STATUS_DRQ)"
    "av m' = (av m)\<lparr>dv_busy := dv_busy (av m) - 1\<rparr>" using P unfolding status_law_def by metis+
  show ?case
  proof (cases "dv_busy (av m) = 0")
    case True
    then have "s AND msk = val" using s(2,3) Suc.prems(2) by auto
    then show ?thesis using i s(1,4) True by simp
  next
    case False
    then have "s AND msk \<noteq> val" using s(2,3) Suc.prems(2) by auto
    moreover have "dv_busy (av m') < n" "dv_phase (av m') = dv_phase (av m)" using Suc.prems(1) False s(4) by simp_all
    then obtain m2 where "ata_wait bus base msk val n m' = (0, m2)" "av m2 = (av m')\<lparr>dv_busy := 0\<rparr>"
      using Suc.IH [of m'] Suc.prems(2) by auto
    ultimately show ?thesis using i s(1,4) by simp
  qed
qed simp

lemma wait_gives_up:
  assumes "\<And>m. fst (bus_inb bus (base + 7) m) AND msk \<noteq> val"
  shows "fst (ata_wait bus base msk val n m) = -1"
  using assms by (induction n arbitrary: m) (simp_all add: case_prod_beta Let_def)

subsection \<open>Transfers\<close>

lemma read_words_ok:
  assumes P: "data_in_law bus base av" and "dv_busy (av m) = 0" "dv_phase (av m) = Data_In ws" "length ws = n + 256 * q" "0 < n" "n \<le> 256"
  shows "\<exists>m' b. read_words bus base n m = (take n ws, m') \<and> b < 10000 \<and>
    av m' = (av m)\<lparr>dv_phase := in_phase (drop n ws), dv_busy := b\<rparr>"
  using assms(2-)
proof (induction n arbitrary: m ws)
  case (Suc n)
  obtain w us where ws: "ws = w # us" using Suc.prems(3) by (cases ws) auto
  from P Suc.prems(1,2) obtain m1 b where
    i: "bus_inw bus base m = (w, m1)" "b < 10000" "av m1 = (av m)\<lparr>dv_phase := in_phase us, dv_busy := if 256 dvd length us then b else 0\<rparr>"
    unfolding data_in_law_def ws by blast
  show ?case
  proof (cases "n = 0")
    case True
    then have "256 dvd length us" using Suc.prems(3) ws by simp
    then show ?thesis using i True ws by (intro exI [of _ m1] exI [of _ b]) simp
  next
    case False
    have "\<not> 256 dvd n + 256 * q" using False Suc.prems(5) nat_dvd_not_less [of n 256] by (simp add: dvd_add_left_iff)
    then have d: "\<not> 256 dvd length us" "us \<noteq> []" using Suc.prems(3) ws False by auto
    then have m1: "dv_busy (av m1) = 0" "dv_phase (av m1) = Data_In us" using i(3) by (simp_all add: in_phase_def)
    from Suc.IH [OF m1] Suc.prems(3,5) ws False obtain m2 b2 where
      r: "read_words bus base n m1 = (take n us, m2)" "b2 < 10000" "av m2 = (av m1)\<lparr>dv_phase := in_phase (drop n us), dv_busy := b2\<rparr>" by auto
    then show ?thesis using i ws by (intro exI [of _ m2] exI [of _ b2]) simp
  qed
qed simp

lemma read_sectors_ok:
  assumes P: "data_in_law bus base av" "status_law bus base av"
    and "dv_busy (av m) < 10000" "dv_phase (av m) = in_phase ws" "length ws = 256 * n"
  shows "\<exists>m' b. read_sectors bus base n buf m = (0, buf @ ws, m') \<and> b < 10000 \<and> av m' = (av m)\<lparr>dv_phase := Idle, dv_busy := b\<rparr>"
  using assms(3-)
proof (induction n arbitrary: m ws buf)
  case 0
  then show ?case by (intro exI [of _ m] exI [of _ "dv_busy (av m)"]) (simp add: in_phase_def)
next
  case (Suc n)
  have ph: "dv_phase (av m) = Data_In ws" using Suc.prems by (auto simp: in_phase_def)
  obtain m1 where w: "ata_wait bus base ATA_STATUS_DRQ ATA_STATUS_DRQ 10000 m = (0, m1)" "av m1 = (av m)\<lparr>dv_busy := 0\<rparr>"
    using wait_ready [OF P(2) Suc.prems(1)] ph by auto
  have m1: "dv_busy (av m1) = 0" "dv_phase (av m1) = Data_In ws" "length ws = 256 + 256 * n" using w(2) ph Suc.prems(3) by simp_all
  from read_words_ok [OF P(1) m1] obtain m2 b where
    r: "read_words bus base 256 m1 = (take 256 ws, m2)" "b < 10000" "av m2 = (av m1)\<lparr>dv_phase := in_phase (drop 256 ws), dv_busy := b\<rparr>" by auto
  have m2: "dv_busy (av m2) < 10000" "dv_phase (av m2) = in_phase (drop 256 ws)" "length (drop 256 ws) = 256 * n"
    using r(2,3) Suc.prems(3) by simp_all
  from Suc.IH [OF m2, of "buf @ take 256 ws"] obtain m3 c where
    e: "read_sectors bus base n (buf @ take 256 ws) m2 = (0, (buf @ take 256 ws) @ drop 256 ws, m3)" "c < 10000"
      "av m3 = (av m2)\<lparr>dv_phase := Idle, dv_busy := c\<rparr>" by blast
  then show ?case using w r by (intro exI [of _ m3] exI [of _ c]) simp
qed

lemma write_words_ok:
  assumes P: "data_out_law bus base av" and "dv_busy (av m) = 0" "dv_phase (av m) = Data_Out lba (Suc n) us"
    "ws \<noteq> []" "length us + length ws = 256"
  shows "\<exists>b. b < 10000 \<and> av (write_words bus base ws m) = (av m)\<lparr>dv_phase := out_phase (lba + 1) n, dv_busy := b,
    dv_disk := (dv_disk (av m))(lba := word_bytes (us @ ws))\<rparr>"
  using assms(2-)
proof (induction ws arbitrary: m us)
  case (Cons w ws)
  show ?case
  proof (cases "ws = []")
    case True
    then have "length us = 255" using Cons.prems(4) by simp
    then obtain b where "b < 10000" "av (bus_outw bus base w m) = (av m)\<lparr>dv_phase := out_phase (lba + 1) n, dv_busy := b,
        dv_disk := (dv_disk (av m))(lba := word_bytes (us @ [w]))\<rparr>"
      using P Cons.prems(1,2) unfolding data_out_law_def by blast
    then show ?thesis using True by (intro exI [of _ b]) (simp add: fun_upd_def)
  next
    case False
    then have "length us < 255" using Cons.prems(4) by (cases ws) auto
    then have o: "av (bus_outw bus base w m) = (av m)\<lparr>dv_phase := Data_Out lba (Suc n) (us @ [w])\<rparr>"
      using P Cons.prems(1,2) unfolding data_out_law_def by blast
    then have "dv_busy (av (bus_outw bus base w m)) = 0" "dv_phase (av (bus_outw bus base w m)) = Data_Out lba (Suc n) (us @ [w])"
      using Cons.prems(1) by simp_all
    from Cons.IH [OF this False] Cons.prems(4) o show ?thesis by simp
  qed
qed simp

text \<open>The sectors that a buffer of words is written to.\<close>

fun put_sectors :: "(u32 \<Rightarrow> u8 list) \<Rightarrow> u32 \<Rightarrow> nat \<Rightarrow> u16 list \<Rightarrow> u32 \<Rightarrow> u8 list" where
  "put_sectors dk lba 0 ws = dk"
| "put_sectors dk lba (Suc n) ws = put_sectors (dk(lba := word_bytes (take 256 ws))) (lba + 1) n (drop 256 ws)"

lemma write_sectors_ok:
  assumes P: "data_out_law bus base av" "status_law bus base av"
    and "dv_busy (av m) < 10000" "dv_phase (av m) = out_phase lba n" "256 * n \<le> length ws"
  shows "\<exists>m'. write_sectors bus base n ws m = (0, m') \<and>
    av m' = (av m)\<lparr>dv_phase := Idle, dv_busy := (if n = 0 then dv_busy (av m) else 0), dv_disk := put_sectors (dv_disk (av m)) lba n ws\<rparr>"
  using assms(3-)
proof (induction n arbitrary: m ws lba)
  case 0
  then show ?case by (intro exI [of _ m]) (simp add: out_phase_def)
next
  case (Suc n)
  have ph: "dv_phase (av m) = Data_Out lba (Suc n) []" using Suc.prems by (auto simp: out_phase_def)
  obtain m1 where w: "ata_wait bus base ATA_STATUS_DRQ ATA_STATUS_DRQ 10000 m = (0, m1)" "av m1 = (av m)\<lparr>dv_busy := 0\<rparr>"
    using wait_ready [OF P(2) Suc.prems(1)] ph by auto
  let ?m2 = "write_words bus base (take 256 ws) m1"
  have m1: "dv_busy (av m1) = 0" "dv_phase (av m1) = Data_Out lba (Suc n) []" "take 256 ws \<noteq> []"
    "length ([] :: u16 list) + length (take 256 ws) = 256" using w(2) ph Suc.prems(3) by auto
  from write_words_ok [OF P(1) m1] obtain b where
    o: "b < 10000" "av ?m2 = (av m1)\<lparr>dv_phase := out_phase (lba + 1) n, dv_busy := b,
      dv_disk := (dv_disk (av m1))(lba := word_bytes (take 256 ws))\<rparr>" by auto
  then have "dv_busy (av ?m2) < 10000" by simp
  from wait_ready [OF P(2) this] obtain m3 where
    v: "ata_wait bus base ATA_STATUS_BSY 0 10000 ?m2 = (0, m3)" "av m3 = (av ?m2)\<lparr>dv_busy := 0\<rparr>" by blast
  have m3: "dv_busy (av m3) < 10000" "dv_phase (av m3) = out_phase (lba + 1) n" "256 * n \<le> length (drop 256 ws)"
    using v(2) o(2) Suc.prems(3) by simp_all
  from Suc.IH [OF m3] obtain m4 where
    e: "write_sectors bus base n (drop 256 ws) m3 = (0, m4)" "av m4 = (av m3)\<lparr>dv_phase := Idle,
      dv_busy := (if n = 0 then dv_busy (av m3) else 0), dv_disk := put_sectors (dv_disk (av m3)) (lba + 1) n (drop 256 ws)\<rparr>" by blast
  have "av m4 = (av m)\<lparr>dv_phase := Idle, dv_busy := 0, dv_disk := put_sectors (dv_disk (av m)) lba (Suc n) ws\<rparr>"
    using e(2) v(2) o(2) w(2) by simp
  moreover have "write_sectors bus base (Suc n) ws m = (0, m4)" using w(1) v(1) e(1) by simp
  ultimately show ?case by (intro exI [of _ m4]) simp
qed

subsection \<open>Commands\<close>

definition lba28 :: "u32 \<Rightarrow> u32" where "lba28 lba = lba AND 0x0FFFFFFF"

lemma and_masks: "(0xFF :: u32) = mask 8" "(0x0F :: u32) = mask 4" "(0x0FFFFFFF :: u32) = mask 28" "(0x0F :: u8) = mask 4" "(0xFF :: u16) = mask 8"
  by (simp_all add: mask_eq_exp_minus_1)

lemma regs_lba:
  "(ucast (ucast (lba AND 0xFF) :: u8) OR push_bit 8 (ucast (ucast (drop_bit 8 lba AND 0xFF) :: u8)) OR
     push_bit 16 (ucast (ucast (drop_bit 16 lba AND 0xFF) :: u8)) OR
     push_bit 24 (ucast ((0xE0 OR push_bit 4 s OR ucast (drop_bit 24 lba AND 0x0F)) AND (0x0F :: u8)))) = lba28 lba"
  (is "?l = ?r")
proof (rule bit_word_eqI)
  have e: "(0xE0 :: u8) = push_bit 5 (mask 3)" by (simp add: mask_eq_exp_minus_1)
  fix n assume n: "n < LENGTH(32)"
  show "bit ?l n = bit ?r n" unfolding lba28_def and_masks e
    by (cases "n < 8"; cases "n < 16"; cases "n < 24"; cases "n < 28") (use n in \<open>auto simp: bit_simps\<close>)
qed

lemma bytes_words_cut: "take n (bytes_words b) = bytes_words (take (2 * n) b)" "drop n (bytes_words b) = bytes_words (drop (2 * n) b)"
proof (induction b arbitrary: n rule: bytes_words.induct)
  case (1 x y b)
  { case 1 then show ?case using "1.IH"(1) by (cases n) simp_all }
  { case 2 then show ?case using "1.IH"(2) by (cases n) simp_all }
qed (auto simp: take_Cons' drop_Cons')

lemma bytes16_join: "bytes16 (ucast a OR push_bit 8 (ucast b)) = [a, b]"
proof -
  have "ucast (ucast a OR push_bit 8 (ucast b) :: u16) = a" "ucast (drop_bit 8 (ucast a OR push_bit 8 (ucast b) :: u16)) = b"
    by (rule bit_word_eqI; auto simp: bit_simps dest: bit_imp_le_length)+
  then show ?thesis by (simp add: bytes16_def)
qed

lemma word_bytes_words: "even (length b) \<Longrightarrow> word_bytes (bytes_words b) = b"
  by (induction b rule: bytes_words.induct) (simp_all add: word_bytes_def bytes16_join)

lemma length_bytes_words: "length (bytes_words b) = length b div 2"
  by (induction b rule: bytes_words.induct) simp_all

lemma disk_words_props:
  assumes "\<forall>s. length (dk s) = 512"
  shows "length (disk_words dk lba n) = 256 * n"
    "word_bytes (disk_words dk lba n) = concat (map (\<lambda>k. dk (lba + of_nat k)) [0..<n])"
proof (induction n)
  case (Suc n)
  { case 1 show ?case using Suc(1) assms by (simp add: disk_words_def length_bytes_words) }
  { case 2 show ?case using Suc(2) assms word_bytes_words [of "dk (lba + of_nat n)"] by (simp add: disk_words_def word_bytes_def) }
qed (simp_all add: disk_words_def word_bytes_def)

lemma put_sectors_apply:
  assumes "unat lba + n \<le> 2 ^ 32" "length b = 512 * n"
  shows "put_sectors dk lba n (bytes_words b) s =
    (if unat lba \<le> unat s \<and> unat s < unat lba + n then take 512 (drop (512 * (unat s - unat lba)) b) else dk s)"
  using assms
proof (induction n arbitrary: dk lba b)
  case (Suc n)
  let ?dk = "dk(lba := take 512 b)"
  have w: "word_bytes (take 256 (bytes_words b)) = take 512 b" "drop 256 (bytes_words b) = bytes_words (drop 512 b)"
    using Suc.prems(2) by (simp_all add: bytes_words_cut word_bytes_words)
  have st: "put_sectors dk lba (Suc n) (bytes_words b) s = put_sectors ?dk (lba + 1) n (bytes_words (drop 512 b)) s"
    by (simp add: w)
  show ?case
  proof (cases "n = 0")
    case True
    then show ?thesis unfolding st using Suc.prems(2) by (auto simp: word_unat_eq_iff)
  next
    case False
    then have u: "unat (lba + 1) = unat lba + 1" using Suc.prems(1) by (simp add: unat_plus_if')
    have "unat (lba + 1) + n \<le> 2 ^ 32" "length (drop 512 b) = 512 * n" using Suc.prems u by simp_all
    from Suc.IH [OF this, of ?dk] have i: "put_sectors ?dk (lba + 1) n (bytes_words (drop 512 b)) s =
      (if unat lba + 1 \<le> unat s \<and> unat s < unat lba + 1 + n then take 512 (drop (512 * (unat s - (unat lba + 1))) (drop 512 b)) else ?dk s)"
      unfolding u .
    show ?thesis
    proof (cases "s = lba")
      case True
      then show ?thesis unfolding st i by simp
    next
      case False
      then have "unat s \<noteq> unat lba" by (simp add: word_unat_eq_iff)
      moreover have "512 * (unat s - (unat lba + 1)) + 512 = 512 * (unat s - unat lba)" if "unat lba + 1 \<le> unat s" using that by simp
      ultimately show ?thesis unfolding st i using False by (auto simp: add.commute)
    qed
  qed
qed auto

lemma command_regs:
  assumes P: "ata_protocol bus (ata_base d) cap av" and i: "idle (av m)" and c: "0 < count" "count \<le> 256"
    "unat (lba28 lba) + unat count \<le> cap"
  shows "\<exists>r b. idle r \<and> dv_disk r = dv_disk (av m) \<and> b < 10000 \<and>
      av (ata_command bus d lba count 0x20 m) = r\<lparr>dv_busy := b, dv_phase := Data_In (disk_words (dv_disk (av m)) (lba28 lba) (unat count))\<rparr>"
    "\<exists>r b. idle r \<and> dv_disk r = dv_disk (av m) \<and> b < 10000 \<and>
      av (ata_command bus d lba count 0x30 m) = r\<lparr>dv_busy := b, dv_phase := Data_Out (lba28 lba) (unat count) []\<rparr>"
proof -
  let ?h = "0xE0 OR push_bit 4 (slave d) OR ucast (drop_bit 24 lba AND 0x0F) :: u8"
  let ?o = "\<lambda>k v m. bus_outb bus (ata_base d + k) v m"
  let ?m = "?o 5 (ucast (drop_bit 16 lba AND 0xFF)) (?o 4 (ucast (drop_bit 8 lba AND 0xFF)) (?o 3 (ucast (lba AND 0xFF))
    (?o 2 (ucast (count AND 0xFF)) (?o 6 ?h m))))"
  let ?r = "(av m)\<lparr>dv_head := ?h, dv_count := ucast (count AND 0xFF), dv_low := ucast (lba AND 0xFF), dv_mid := ucast (drop_bit 8 lba AND 0xFF),
    dv_high := ucast (drop_bit 16 lba AND 0xFF)\<rparr>"
  have R: "regs_law bus (ata_base d) av" and C: "command_law bus (ata_base d) cap av" using P by (simp_all add: ata_protocol_def)
  have r: "av ?m = ?r" "idle ?r" using R i unfolding regs_law_def by (simp_all add: idle_def)
  have l: "dev_lba ?r = lba28 lba" using regs_lba [of lba "slave d"] by (simp add: dev_lba_def)
  have n: "dev_count ?r = unat count"
  proof -
    have "unat (ucast (count AND 0xFF) :: u8) = unat count mod 256"
    proof -
      have "ucast (count AND 0xFF) = (ucast count :: u8)" unfolding and_masks by (rule bit_word_eqI) (auto simp: bit_simps)
      then show ?thesis by (simp add: unsigned_ucast_eq take_bit_eq_mod)
    qed
    moreover have "unat count \<le> 256" "0 < unat count" using c(1,2) by (simp_all add: word_le_nat_alt word_less_nat_alt)
    ultimately show ?thesis by (auto simp: dev_count_def word_unat_eq_iff le_less)
  qed
  have "unat (dev_lba (av ?m)) + dev_count (av ?m) \<le> cap" "idle (av ?m)" using c(3) r l n by simp_all
  with C have "\<exists>b < 10000. av (?o 7 0x20 ?m) = (av ?m)\<lparr>dv_busy := b, dv_phase := Data_In (disk_words (dv_disk (av ?m)) (dev_lba (av ?m)) (dev_count (av ?m)))\<rparr>"
    "\<exists>b < 10000. av (?o 7 0x30 ?m) = (av ?m)\<lparr>dv_busy := b, dv_phase := Data_Out (dev_lba (av ?m)) (dev_count (av ?m)) []\<rparr>"
    unfolding command_law_def by blast+
  moreover have "ata_command bus d lba count cmd m = ?o 7 cmd ?m" for cmd by (simp add: ata_command_def Let_def)
  moreover have "dv_disk ?r = dv_disk (av m)" by simp
  ultimately show "\<exists>r b. idle r \<and> dv_disk r = dv_disk (av m) \<and> b < 10000 \<and>
      av (ata_command bus d lba count 0x20 m) = r\<lparr>dv_busy := b, dv_phase := Data_In (disk_words (dv_disk (av m)) (lba28 lba) (unat count))\<rparr>"
    "\<exists>r b. idle r \<and> dv_disk r = dv_disk (av m) \<and> b < 10000 \<and>
      av (ata_command bus d lba count 0x30 m) = r\<lparr>dv_busy := b, dv_phase := Data_Out (lba28 lba) (unat count) []\<rparr>"
    unfolding r(1) l n using r(2) by metis+
qed

definition disk_bytes :: "(u32 \<Rightarrow> u8 list) \<Rightarrow> u32 \<Rightarrow> nat \<Rightarrow> u8 list" where
  "disk_bytes dk lba n = concat (map (\<lambda>k. dk (lba + of_nat k)) [0..<n])"

lemma ata_read_ok:
  assumes P: "ata_protocol bus (ata_base (drive st)) cap av" and pr: "present (drive st)" and i: "idle (av (machine st))"
    and c: "0 < count" "count \<le> 256" "unat (lba28 lba) + unat count \<le> cap" and s: "\<forall>s. length (dv_disk (av (machine st)) s) = 512"
  shows "\<exists>m. ata_pio_read bus lba count st = (0, disk_bytes (dv_disk (av (machine st))) (lba28 lba) (unat count), st\<lparr>machine := m\<rparr>) \<and>
    idle (av m) \<and> dv_disk (av m) = dv_disk (av (machine st))"
proof -
  let ?dk = "dv_disk (av (machine st))" and ?base = "ata_base (drive st)" and ?n = "unat count"
  let ?m1 = "ata_command bus (drive st) lba count 0x20 (machine st)"
  have L: "data_in_law bus ?base av" "status_law bus ?base av" using P by (simp_all add: ata_protocol_def)
  obtain r b where r: "idle r" "dv_disk r = ?dk" "b < 10000" "av ?m1 = r\<lparr>dv_busy := b, dv_phase := Data_In (disk_words ?dk (lba28 lba) ?n)\<rparr>"
    using command_regs(1) [OF P i c] by blast
  note w = disk_words_props [OF s, of "lba28 lba" ?n]
  have c0: "count \<noteq> 0" "\<not> 256 < count" using c(1,2) by (auto simp: not_less)
  have n: "0 < ?n" using c(1) by (simp add: word_less_nat_alt)
  have "disk_words ?dk (lba28 lba) ?n \<noteq> []" using w(1) n by (metis length_0_conv mult_is_0 neq0_conv zero_neq_numeral)
  then have "dv_busy (av ?m1) < 10000" "dv_phase (av ?m1) = in_phase (disk_words ?dk (lba28 lba) ?n)" using r(3,4) by (simp_all add: in_phase_def)
  from read_sectors_ok [OF L this w(1), of "[]"] obtain m2 b2 where
    m2: "read_sectors bus ?base ?n [] ?m1 = (0, disk_words ?dk (lba28 lba) ?n, m2)" "b2 < 10000"
      "av m2 = (av ?m1)\<lparr>dv_phase := Idle, dv_busy := b2\<rparr>" by auto
  have "dv_busy (av m2) < 30000" using m2(2,3) by simp
  from wait_ready [OF L(2) this] obtain m3 where
    m3: "ata_wait bus ?base ATA_STATUS_BSY 0 30000 m2 = (0, m3)" "av m3 = (av m2)\<lparr>dv_busy := 0\<rparr>" by blast
  have "ata_pio_read bus lba count st = (0, word_bytes (disk_words ?dk (lba28 lba) ?n), st\<lparr>machine := m3\<rparr>)"
    using pr c0 m2(1) m3(1) by (simp add: ata_pio_read_def Let_def)
  moreover have "idle (av m3)" "dv_disk (av m3) = ?dk" using m3(2) m2(3) r(2,4) by (simp_all add: idle_def)
  ultimately show ?thesis using w(2) unfolding disk_bytes_def by auto
qed

lemma ata_write_ok:
  assumes P: "ata_protocol bus (ata_base (drive st)) cap av" and pr: "present (drive st)" and i: "idle (av (machine st))"
    and c: "0 < count" "count \<le> 256" "unat (lba28 lba) + unat count \<le> cap" and b: "length buffer = 512 * unat count"
  shows "\<exists>m. ata_pio_write bus lba count buffer st = (0, st\<lparr>machine := m\<rparr>) \<and> idle (av m) \<and>
    dv_disk (av m) = (\<lambda>s. if unat (lba28 lba) \<le> unat s \<and> unat s < unat (lba28 lba) + unat count
      then take 512 (drop (512 * (unat s - unat (lba28 lba))) buffer) else dv_disk (av (machine st)) s)"
proof -
  let ?dk = "dv_disk (av (machine st))" and ?base = "ata_base (drive st)" and ?n = "unat count"
  let ?m1 = "ata_command bus (drive st) lba count 0x30 (machine st)"
  have L: "data_out_law bus ?base av" "status_law bus ?base av" "cap \<le> 2 ^ 28" using P by (simp_all add: ata_protocol_def)
  obtain r y where r: "idle r" "dv_disk r = ?dk" "y < 10000" "av ?m1 = r\<lparr>dv_busy := y, dv_phase := Data_Out (lba28 lba) ?n []\<rparr>"
    using command_regs(2) [OF P i c] by blast
  have c0: "count \<noteq> 0" "\<not> 256 < count" using c(1,2) by (auto simp: not_less)
  have n: "0 < ?n" using c(1) by (simp add: word_less_nat_alt)
  then have "dv_busy (av ?m1) < 10000" "dv_phase (av ?m1) = out_phase (lba28 lba) ?n" "256 * ?n \<le> length (bytes_words buffer)"
    using r(3,4) b by (simp_all add: out_phase_def length_bytes_words)
  from write_sectors_ok [OF L(1,2) this] obtain m where
    m: "write_sectors bus ?base ?n (bytes_words buffer) ?m1 = (0, m)"
      "av m = (av ?m1)\<lparr>dv_phase := Idle, dv_busy := (if ?n = 0 then dv_busy (av ?m1) else 0),
         dv_disk := put_sectors (dv_disk (av ?m1)) (lba28 lba) ?n (bytes_words buffer)\<rparr>" by blast
  have "ata_pio_write bus lba count buffer st = (0, st\<lparr>machine := m\<rparr>)"
    using pr c0 m(1) by (simp add: ata_pio_write_def Let_def)
  moreover have "idle (av m)" "dv_disk (av m) = put_sectors ?dk (lba28 lba) ?n (bytes_words buffer)"
    using m(2) r(2,4) n by (simp_all add: idle_def)
  moreover have "unat (lba28 lba) + ?n \<le> 2 ^ 32" using c(3) L(3) by simp
  ultimately show ?thesis using put_sectors_apply [of "lba28 lba" ?n buffer ?dk] b by (auto simp: fun_eq_iff)
qed


subsection \<open>A simulated drive\<close>

text \<open>What it answers to the command IDENTIFY: sectors are addressed by number, and there are 1000.\<close>

definition sim_ident :: "u16 list" where
  "sim_ident = (replicate 256 0)[49 := 0x0200, 60 := 1000]"

definition sim_command :: "u8 \<Rightarrow> ata_dev \<Rightarrow> ata_dev" where
  "sim_command c d =
     (if c = 0x20 then d\<lparr>dv_busy := 3, dv_phase := Data_In (disk_words (dv_disk d) (dev_lba d) (dev_count d))\<rparr>
      else if c = 0x30 then d\<lparr>dv_busy := 3, dv_phase := Data_Out (dev_lba d) (dev_count d) []\<rparr>
      else if c = 0xEC then d\<lparr>dv_busy := 3, dv_phase := Data_In sim_ident\<rparr>
      else d)"

definition sim_outb :: "u16 \<Rightarrow> u8 \<Rightarrow> ata_dev \<Rightarrow> ata_dev" where
  "sim_outb p v d =
     (if p = 0x1F6 then d\<lparr>dv_head := v\<rparr> else if p = 0x1F2 then d\<lparr>dv_count := v\<rparr> else if p = 0x1F3 then d\<lparr>dv_low := v\<rparr>
      else if p = 0x1F4 then d\<lparr>dv_mid := v\<rparr> else if p = 0x1F5 then d\<lparr>dv_high := v\<rparr> else if p = 0x1F7 then sim_command v d
      else if p = 0x3F6 then d\<lparr>dv_busy := 5, dv_phase := Idle\<rparr> else d)"

definition sim_status :: "ata_dev \<Rightarrow> u8" where
  "sim_status d = (if 0 < dv_busy d then 0x80 else if dv_phase d = Idle then 0x40 else 0x48)"

fun sim_inw :: "u16 \<Rightarrow> ata_dev \<Rightarrow> u16 \<times> ata_dev" where
  "sim_inw p d = (case dv_phase d of
     Data_In (w # ws) \<Rightarrow> (w, d\<lparr>dv_phase := in_phase ws, dv_busy := if ws \<noteq> [] \<and> 256 dvd length ws then 2 else 0\<rparr>) | _ \<Rightarrow> (0, d))"

fun sim_outw :: "u16 \<Rightarrow> u16 \<Rightarrow> ata_dev \<Rightarrow> ata_dev" where
  "sim_outw p w d = (case dv_phase d of
     Data_Out lba (Suc n) ws \<Rightarrow>
       if length ws < 255 then d\<lparr>dv_phase := Data_Out lba (Suc n) (ws @ [w])\<rparr>
       else d\<lparr>dv_phase := out_phase (lba + 1) n, dv_busy := 1, dv_disk := (dv_disk d)(lba := word_bytes (ws @ [w]))\<rparr>
   | _ \<Rightarrow> d)"

definition sim_inb :: "u16 \<Rightarrow> ata_dev \<Rightarrow> u8 \<times> ata_dev" where
  "sim_inb p d = (if p = 0x1F7 then (sim_status d, d\<lparr>dv_busy := dv_busy d - 1\<rparr>)
     else (if p = 0x1F4 then dv_mid d else if p = 0x1F5 then dv_high d else 0, d))"

definition sim_bus :: "ata_dev bus" where
  "sim_bus = \<lparr>bus_inb = sim_inb, bus_outb = sim_outb, bus_inw = sim_inw, bus_outw = sim_outw\<rparr>"

lemma sim_protocol: "ata_protocol sim_bus 0x1F0 1000 (\<lambda>d. d)"
proof -
  have "regs_law sim_bus 0x1F0 (\<lambda>d. d)" by (simp add: regs_law_def sim_bus_def sim_outb_def)
  moreover have "command_law sim_bus 0x1F0 1000 (\<lambda>d. d)"
    unfolding command_law_def sim_bus_def by (auto simp: sim_outb_def sim_command_def intro: exI [of _ 3])
  moreover have "status_law sim_bus 0x1F0 (\<lambda>d. d)" by (auto simp: status_law_def sim_bus_def sim_inb_def sim_status_def)
  moreover have "data_in_law sim_bus 0x1F0 (\<lambda>d. d)"
    unfolding data_in_law_def sim_bus_def by (auto intro: exI [of _ 2] exI [of _ 0])
  moreover have "data_out_law sim_bus 0x1F0 (\<lambda>d. d)"
    unfolding data_out_law_def sim_bus_def by (auto intro!: exI [of _ 1])
  ultimately show ?thesis by (simp add: ata_protocol_def)
qed

lemma concat_sectors: "concat (map (\<lambda>k. take 512 (drop (512 * k) b)) [0..<n]) = take (512 * n) b"
proof (induction n)
  case (Suc n)
  then show ?case using take_add [of "512 * n" 512 b] by (simp add: add.commute)
qed simp

lemma disk_bytes_written:
  assumes "unat lba + n \<le> 2 ^ 32" "length b = 512 * n"
  shows "disk_bytes (\<lambda>s. if unat lba \<le> unat s \<and> unat s < unat lba + n then take 512 (drop (512 * (unat s - unat lba)) b) else dk s) lba n = b"
proof -
  have "unat (lba + of_nat k) = unat lba + k" if "k < n" for k
    using that assms(1) by (simp add: unat_word_ariths unat_of_nat)
  then have "disk_bytes (\<lambda>s. if unat lba \<le> unat s \<and> unat s < unat lba + n then take 512 (drop (512 * (unat s - unat lba)) b) else dk s) lba n
      = concat (map (\<lambda>k. take 512 (drop (512 * k) b)) [0..<n])"
    unfolding disk_bytes_def by (intro arg_cong [of _ _ concat] map_cong) auto
  then show ?thesis using assms(2) by (simp add: concat_sectors)
qed

subsection \<open>Properties\<close>

text \<open>
  With a drive that follows the protocol and is busy for fewer than 10000 polls at a time, reading 1 to 256
  sectors succeeds: the buffer gets exactly the bytes of these sectors, the sectors are unchanged and the drive is ready for
  the next command.
\<close>

theorem ata_pio_read_sectors:
  assumes "ata_protocol bus (ata_base (drive st)) cap av" "present (drive st)" "idle (av (machine st))"
    "0 < count" "count \<le> 256" "unat (lba28 lba) + unat count \<le> cap" "\<forall>s. length (dv_disk (av (machine st)) s) = 512"
  shows "\<exists>m. ata_pio_read bus lba count st = (0, disk_bytes (dv_disk (av (machine st))) (lba28 lba) (unat count), st\<lparr>machine := m\<rparr>) \<and>
    idle (av m) \<and> dv_disk (av m) = dv_disk (av (machine st))"
  using ata_read_ok [OF assms] .

definition sim_drive :: "(u32 \<Rightarrow> u8 list) \<Rightarrow> ata_dev ata_state" where
  "sim_drive dk = \<lparr>drive = \<lparr>ata_base = 0x1F0, slave = 0, sectors = 1000, present = True, model = []\<rparr>,
     machine = \<lparr>dv_head = 0, dv_count = 0, dv_low = 0, dv_mid = 0, dv_high = 0, dv_busy = 0, dv_phase = Idle, dv_disk = dk\<rparr>\<rparr>"

lemma sim_drive_facts: "present (drive (sim_drive dk))" "ata_base (drive (sim_drive dk)) = 0x1F0"
  "idle (machine (sim_drive dk))" "dv_disk (machine (sim_drive dk)) = dk"
  by (simp_all add: sim_drive_def idle_def)

theorem ata_pio_read_sectors_witness:
  "\<exists>m. ata_pio_read sim_bus 5 1 (sim_drive (\<lambda>s. replicate 512 (ucast s))) = (0, replicate 512 5, (sim_drive (\<lambda>s. replicate 512 (ucast s)))\<lparr>machine := m\<rparr>)"
proof -
  let ?dk = "\<lambda>s :: u32. replicate 512 (ucast s) :: u8 list"
  note f = sim_drive_facts [of ?dk]
  have "unat (lba28 5) + unat (1 :: u16) \<le> 1000" "disk_bytes ?dk (lba28 5) (unat (1 :: u16)) = replicate 512 5"
    by (simp_all add: lba28_def disk_bytes_def)
  with ata_pio_read_sectors [OF sim_protocol [folded f(2)] f(1,3), of 1 5] f(4) show ?thesis by auto
qed



text \<open>
  The driver sends 28 bits of the sector number only: reading or writing at a number of \<open>2 ^ 28\<close> or more
  is, for every drive, the same as at the number without its high bits.
\<close>

theorem ata_lba_wraps:
  "ata_pio_read bus lba count st = ata_pio_read bus (lba28 lba) count st \<and>
   ata_pio_write bus lba count buffer st = ata_pio_write bus (lba28 lba) count buffer st"
proof -
  have "lba28 lba AND 0xFF = lba AND 0xFF" "drop_bit 8 (lba28 lba) AND 0xFF = drop_bit 8 lba AND 0xFF"
    "drop_bit 16 (lba28 lba) AND 0xFF = drop_bit 16 lba AND 0xFF" "drop_bit 24 (lba28 lba) AND 0x0F = drop_bit 24 lba AND 0x0F"
    unfolding lba28_def and_masks by (rule bit_word_eqI; auto simp: bit_simps)+
  then have "ata_command bus (drive st) (lba28 lba) count cmd m = ata_command bus (drive st) lba count cmd m" for cmd m
    by (simp add: ata_command_def)
  then show ?thesis by (simp add: ata_pio_read_def ata_pio_write_def)
qed

end
