(* ===== verification/Ata_Init.thy ===== *)
theory Ata_Init
  imports Ata_Proofs
begin

unbundle bit_operations_syntax

text \<open>
  The initialisation of \<^verbatim>\<open>kernel/src/ata_pio.c\<close>: reset, detection and identification of a drive that follows the ATA
  protocol, and what happens when there is none.
\<close>

subsection \<open>The drive during initialisation\<close>

text \<open>
  What the driver relies on beyond \<open>ata_protocol\<close>: writes to port \<open>0x80\<close> do not matter to the drive; the reset bit makes it idle within
  30000 polls; selecting it while data is pending changes the selection only; the cylinder registers read as they were written; it
  reports ready when it is not busy; IDENTIFY makes its 256 words available, also when it is given a second time before
  any of them was read; after the last word it is idle at once.
\<close>

definition pause_law :: "'m bus \<Rightarrow> ('m \<Rightarrow> ata_dev) \<Rightarrow> bool" where
  "pause_law bus av \<longleftrightarrow> (\<forall>v m. av (bus_outb bus 0x80 v m) = av m)"

definition reset_law :: "'m bus \<Rightarrow> u16 \<Rightarrow> ('m \<Rightarrow> ata_dev) \<Rightarrow> bool" where
  "reset_law bus base av \<longleftrightarrow> (\<forall>m. dv_disk (av (bus_outb bus (base + 0x206) 0x04 m)) = dv_disk (av m) \<and>
     (let d = av (bus_outb bus (base + 0x206) 0x00 m) in dv_phase d = Idle \<and> dv_busy d < 30000 \<and> dv_disk d = dv_disk (av m)))"

definition select_law :: "'m bus \<Rightarrow> u16 \<Rightarrow> ('m \<Rightarrow> ata_dev) \<Rightarrow> bool" where
  "select_law bus base av \<longleftrightarrow> (\<forall>m v. dv_busy (av m) = 0 \<longrightarrow> av (bus_outb bus (base + 6) v m) = (av m)\<lparr>dv_head := v\<rparr>)"

definition signature_law :: "'m bus \<Rightarrow> u16 \<Rightarrow> ('m \<Rightarrow> ata_dev) \<Rightarrow> bool" where
  "signature_law bus base av \<longleftrightarrow> (\<forall>m. (\<exists>m'. bus_inb bus (base + 4) m = (dv_mid (av m), m') \<and> av m' = av m) \<and>
     (\<exists>m'. bus_inb bus (base + 5) m = (dv_high (av m), m') \<and> av m' = av m))"

definition ready_law :: "'m bus \<Rightarrow> u16 \<Rightarrow> ('m \<Rightarrow> ata_dev) \<Rightarrow> bool" where
  "ready_law bus base av \<longleftrightarrow> (\<forall>m. dv_busy (av m) = 0 \<longrightarrow> fst (bus_inb bus (base + 7) m) AND ATA_STATUS_RDY = ATA_STATUS_RDY)"

definition identify_law :: "'m bus \<Rightarrow> u16 \<Rightarrow> u16 list \<Rightarrow> ('m \<Rightarrow> ata_dev) \<Rightarrow> bool" where
  "identify_law bus base ident av \<longleftrightarrow> length ident = 256 \<and> (\<forall>m. dv_busy (av m) = 0 \<longrightarrow> dv_phase (av m) \<in> {Idle, Data_In ident} \<longrightarrow>
     (\<exists>b < 10000. av (bus_outb bus (base + 7) 0xEC m) = (av m)\<lparr>dv_busy := b, dv_phase := Data_In ident\<rparr>))"

definition last_word_law :: "'m bus \<Rightarrow> u16 \<Rightarrow> ('m \<Rightarrow> ata_dev) \<Rightarrow> bool" where
  "last_word_law bus base av \<longleftrightarrow> (\<forall>m w. dv_busy (av m) = 0 \<longrightarrow> dv_phase (av m) = Data_In [w] \<longrightarrow> idle (av (snd (bus_inw bus base m))))"

definition ata_identity :: "'m bus \<Rightarrow> u16 \<Rightarrow> u16 list \<Rightarrow> ('m \<Rightarrow> ata_dev) \<Rightarrow> bool" where
  "ata_identity bus base ident av \<longleftrightarrow> pause_law bus av \<and> reset_law bus base av \<and> select_law bus base av \<and> signature_law bus base av \<and>
     ready_law bus base av \<and> identify_law bus base ident av \<and> last_word_law bus base av"

lemma pauses: "pause_law bus av \<Longrightarrow> av ((io_wait bus ^^ n) m) = av m"
  by (induction n) (simp_all add: pause_law_def io_wait_def)

lemma reset_idle:
  assumes "pause_law bus av" "reset_law bus base av" "status_law bus base av"
  shows "idle (av (ata_reset bus base m))" "dv_disk (av (ata_reset bus base m)) = dv_disk (av m)"
proof -
  let ?m1 = "(io_wait bus ^^ 500) (bus_outb bus (base + 0x206) 0x04 m)"
  let ?m2 = "(io_wait bus ^^ 20000) (bus_outb bus (base + 0x206) 0x00 ?m1)"
  have 1: "dv_disk (av ?m1) = dv_disk (av m)" using assms(2) unfolding pauses [OF assms(1)] reset_law_def by blast
  have 2: "dv_phase (av ?m2) = Idle" "dv_busy (av ?m2) < 30000" "dv_disk (av ?m2) = dv_disk (av ?m1)"
    using assms(2) unfolding pauses [OF assms(1), of 20000] reset_law_def Let_def by blast+
  from wait_ready [OF assms(3) 2(2)] obtain m3 where
    3: "ata_wait bus base ATA_STATUS_BSY 0 30000 ?m2 = (0, m3)" "av m3 = (av ?m2)\<lparr>dv_busy := 0\<rparr>" by blast
  have "ata_reset bus base m = m3" using 3(1) unfolding ata_reset_def Let_def by simp
  then show "idle (av (ata_reset bus base m))" "dv_disk (av (ata_reset bus base m)) = dv_disk (av m)"
    using 1 2 3(2) by (simp_all add: idle_def)
qed

lemma wait_selected:
  assumes "status_law bus base av" "ready_law bus base av" "dv_busy (av m) = 0"
  shows "\<exists>m'. ata_wait bus base (ATA_STATUS_BSY OR ATA_STATUS_RDY) ATA_STATUS_RDY (Suc n) m = (0, m') \<and> av m' = av m"
proof -
  obtain s m' where i: "bus_inb bus (base + 7) m = (s, m')" by fastforce
  have s: "s AND ATA_STATUS_ERR = 0" "s AND ATA_STATUS_BSY = 0" "av m' = (av m)\<lparr>dv_busy := dv_busy (av m) - 1\<rparr>"
    using assms(1,3) i unfolding status_law_def by (metis, metis neq0_conv, metis)
  have r: "s AND ATA_STATUS_RDY = ATA_STATUS_RDY" using assms(2,3) i unfolding ready_law_def by (metis fst_conv)
  have "s AND (ATA_STATUS_BSY OR ATA_STATUS_RDY) = ATA_STATUS_RDY" unfolding bit.conj_disj_distrib s(2) r by simp
  then show ?thesis using i s(1,3) assms(3) by simp
qed

lemma read_words_last:
  assumes P: "data_in_law bus base av" "last_word_law bus base av" and "dv_busy (av m) = 0" "dv_phase (av m) = Data_In ws"
    "length ws = n" "0 < n" "n \<le> 256"
  shows "\<exists>m'. read_words bus base n m = (ws, m') \<and> av m' = (av m)\<lparr>dv_phase := Idle, dv_busy := 0\<rparr>"
  using assms(3-)
proof (induction n arbitrary: m ws)
  case (Suc n)
  obtain w us where ws: "ws = w # us" using Suc.prems(3) by (cases ws) auto
  from P(1) Suc.prems(1,2) obtain m1 b where
    i: "bus_inw bus base m = (w, m1)" "av m1 = (av m)\<lparr>dv_phase := in_phase us, dv_busy := if 256 dvd length us then b else 0\<rparr>"
    unfolding data_in_law_def ws by blast
  show ?case
  proof (cases "us = []")
    case True
    then have "idle (av m1)" using P(2) Suc.prems(1,2) i(1) ws unfolding last_word_law_def by (metis snd_conv)
    then have "b = 0" using i(2) True by (simp add: idle_def)
    then show ?thesis using i True ws Suc.prems(3) by (simp add: in_phase_def)
  next
    case False
    then have "\<not> 256 dvd length us" using Suc.prems(3,5) ws nat_dvd_not_less [of "length us" 256] by auto
    then have m1: "dv_busy (av m1) = 0" "dv_phase (av m1) = Data_In us" using i(2) False by (simp_all add: in_phase_def)
    from Suc.IH [OF m1] Suc.prems(3,5) ws False obtain m2 where
      "read_words bus base n m1 = (us, m2)" "av m2 = (av m1)\<lparr>dv_phase := Idle, dv_busy := 0\<rparr>" by auto
    then show ?thesis using i ws by (intro exI [of _ m2]) simp
  qed
qed simp

lemma detect_found:
  assumes P: "ata_protocol bus base cap av" and D: "ata_identity bus base ident av" and i: "idle (av m)"
  shows "\<exists>m'. ata_detect bus base slv m = (True, m') \<and> dv_busy (av m') = 0 \<and> dv_phase (av m') = Data_In ident \<and> dv_disk (av m') = dv_disk (av m)"
proof -
  have L: "regs_law bus base av" "status_law bus base av" using P by (simp_all add: ata_protocol_def)
  have D': "pause_law bus av" "select_law bus base av" "signature_law bus base av" "identify_law bus base ident av"
    using D by (simp_all add: ata_identity_def)
  let ?m1 = "(io_wait bus ^^ 1000) (bus_outb bus (base + 6) (0xA0 OR push_bit 4 slv) m)"
  have a1: "av ?m1 = (av m)\<lparr>dv_head := 0xA0 OR push_bit 4 slv\<rparr>" using L(1) i unfolding pauses [OF D'(1)] regs_law_def by blast
  then have i1: "idle (av ?m1)" using i by (simp add: idle_def)
  let ?m2 = "outbs bus [(base + 2, 0), (base + 3, 0), (base + 4, 0), (base + 5, 0)] ?m1"
  have R: "idle (av x) \<Longrightarrow> av (bus_outb bus (base + 2) v x) = (av x)\<lparr>dv_count := v\<rparr> \<and> av (bus_outb bus (base + 3) v x) = (av x)\<lparr>dv_low := v\<rparr> \<and>
    av (bus_outb bus (base + 4) v x) = (av x)\<lparr>dv_mid := v\<rparr> \<and> av (bus_outb bus (base + 5) v x) = (av x)\<lparr>dv_high := v\<rparr>" for x v
    using L(1) unfolding regs_law_def by blast
  have a2: "av ?m2 = (av ?m1)\<lparr>dv_count := 0, dv_low := 0, dv_mid := 0, dv_high := 0\<rparr>" using i1 R by (simp add: idle_def)
  then have i2: "dv_busy (av ?m2) = 0" "dv_phase (av ?m2) = Idle" using i1 by (simp_all add: idle_def)
  let ?m3 = "bus_outb bus (base + 7) 0xEC ?m2"
  obtain b where b: "b < 10000" "av ?m3 = (av ?m2)\<lparr>dv_busy := b, dv_phase := Data_In ident\<rparr>"
    using D'(4) i2 unfolding identify_law_def by blast
  obtain s m4 where s: "bus_inb bus (base + 7) ?m3 = (s, m4)" by fastforce
  then have s4: "s AND ATA_STATUS_BSY = (if 0 < b then ATA_STATUS_BSY else 0)" "s AND ATA_STATUS_DRQ = (if 0 < b then 0 else ATA_STATUS_DRQ)"
    "av m4 = (av ?m3)\<lparr>dv_busy := b - 1\<rparr>" using L(2) b(2) unfolding status_law_def by (auto dest!: spec)
  then have s0: "s \<noteq> 0" by (cases "0 < b") auto
  have "dv_busy (av m4) < 10000" using s4(3) b(1) by simp
  from wait_ready [OF L(2) this] obtain m5 where
    w: "ata_wait bus base ATA_STATUS_BSY 0 10000 m4 = (0, m5)" "av m5 = (av m4)\<lparr>dv_busy := 0\<rparr>" by blast
  have d5: "dv_mid (av m5) = 0" "dv_busy (av m5) = 0" "dv_phase (av m5) = Data_In ident" "dv_disk (av m5) = dv_disk (av m)"
    using w(2) s4(3) b(2) a2 a1 by simp_all
  obtain m6 where m6: "bus_inb bus (base + 4) m5 = (0, m6)" "av m6 = av m5" using D'(3) d5(1) unfolding signature_law_def by metis
  obtain x m7 where m7: "bus_inb bus (base + 5) m6 = (x, m7)" "av m7 = av m5" using D'(3) m6(2) unfolding signature_law_def by metis
  obtain y m8 where m8: "bus_inb bus (base + 7) m7 = (y, m8)" by fastforce
  have y: "y AND ATA_STATUS_ERR = 0" "y AND ATA_STATUS_DRQ = ATA_STATUS_DRQ" "av m8 = (av m7)\<lparr>dv_busy := 0\<rparr>"
    using L(2) m8 d5(2,3) m7(2) unfolding status_law_def by (auto dest!: spec)
  have "outbs bus [(base + 2, 0), (base + 3, 0), (base + 4, 0), (base + 5, 0), (base + 7, 0xEC)] ?m1 = ?m3" by simp
  then have "ata_detect bus base slv m = (True, m8)"
    using s s0 w(1) m6(1) m7(1) m8 y(1,2) by (simp add: ata_detect_def)
  then show ?thesis using y(3) m7(2) d5 by (intro exI [of _ m8]) simp
qed

definition identified :: "u16 \<Rightarrow> u8 \<Rightarrow> u16 list \<Rightarrow> ata_drive \<Rightarrow> ata_drive" where
  "identified base slv ident d = \<lparr>ata_base = base, slave = slv,
     sectors = (if ident ! 49 AND 0x0200 \<noteq> 0 then ucast (ident ! 60) OR push_bit 16 (ucast (ident ! 61)) else sectors d),
     present = True, model = model_of ident\<rparr>"

lemma identify_found:
  assumes P: "ata_protocol bus base cap av" and D: "ata_identity bus base ident av"
    and m: "dv_busy (av (machine st)) = 0" "dv_phase (av (machine st)) = Data_In ident"
  shows "\<exists>m. ata_identify bus base slv st = (0, \<lparr>drive = identified base slv ident (drive st), machine = m\<rparr>) \<and> idle (av m) \<and>
    dv_disk (av m) = dv_disk (av (machine st))"
proof -
  have L: "data_in_law bus base av" "status_law bus base av" using P by (simp_all add: ata_protocol_def)
  have D': "select_law bus base av" "ready_law bus base av" "identify_law bus base ident av" "last_word_law bus base av"
    using D by (simp_all add: ata_identity_def)
  have n: "length ident = 256" using D'(3) by (simp add: identify_law_def)
  let ?m1 = "bus_outb bus (base + 6) (0xA0 OR push_bit 4 slv) (machine st)"
  have 1: "dv_busy (av ?m1) = 0" "dv_phase (av ?m1) = Data_In ident" "dv_disk (av ?m1) = dv_disk (av (machine st))"
    using D'(1) m unfolding select_law_def by simp_all
  obtain m2 where 2: "ata_wait bus base (ATA_STATUS_BSY OR ATA_STATUS_RDY) ATA_STATUS_RDY 30000 ?m1 = (0, m2)" "av m2 = av ?m1"
    using wait_selected [OF L(2) D'(2) 1(1), of 29999] by auto
  have p2: "dv_busy (av m2) = 0" "dv_phase (av m2) \<in> {Idle, Data_In ident}" using 1 2(2) by simp_all
  let ?m3 = "bus_outb bus (base + 7) 0xEC m2"
  obtain b where 3: "b < 10000" "av ?m3 = (av m2)\<lparr>dv_busy := b, dv_phase := Data_In ident\<rparr>" using D'(3) p2 unfolding identify_law_def by blast
  have "dv_busy (av ?m3) < 10000" using 3 by simp
  from wait_ready [OF L(2) this, of ATA_STATUS_DRQ ATA_STATUS_DRQ] 3(2) obtain m4 where
    4: "ata_wait bus base ATA_STATUS_DRQ ATA_STATUS_DRQ 10000 ?m3 = (0, m4)" "av m4 = (av ?m3)\<lparr>dv_busy := 0\<rparr>" by auto
  have "dv_busy (av m4) = 0" "dv_phase (av m4) = Data_In ident" using 4(2) 3(2) by simp_all
  from read_words_last [OF L(1) D'(4) this n] obtain m5 where
    5: "read_words bus base 256 m4 = (ident, m5)" "av m5 = (av m4)\<lparr>dv_phase := Idle, dv_busy := 0\<rparr>" by auto
  have "ata_identify bus base slv st = (0, \<lparr>drive = identified base slv ident (drive st), machine = m5\<rparr>)"
    using 2(1) 4(1) 5(1) by (cases "drive st"; cases st) (simp add: ata_identify_def identified_def Let_def)
  moreover have "idle (av m5)" "dv_disk (av m5) = dv_disk (av (machine st))" using 5(2) 4(2) 3(2) 2(2) 1(3) by (simp_all add: idle_def)
  ultimately show ?thesis by blast
qed

lemma init_finds_drive:
  assumes P: "ata_protocol bus 0x1F0 cap av" and D: "ata_identity bus 0x1F0 ident av"
  shows "\<exists>m. ata_pio_init bus st = \<lparr>drive = identified 0x1F0 0 ident (drive st), machine = m\<rparr> \<and> idle (av m) \<and>
    dv_disk (av m) = dv_disk (av (machine st))"
proof -
  have L: "pause_law bus av" "reset_law bus 0x1F0 av" "status_law bus 0x1F0 av" using P D by (simp_all add: ata_protocol_def ata_identity_def)
  let ?m1 = "ata_reset bus 0x1F0 (machine st)"
  note r = reset_idle [OF L, of "machine st"]
  from detect_found [OF P D r(1), of 0] obtain m2 where 2: "ata_detect bus 0x1F0 0 ?m1 = (True, m2)" "dv_busy (av m2) = 0"
    "dv_phase (av m2) = Data_In ident" "dv_disk (av m2) = dv_disk (av ?m1)" by blast
  let ?st = "st\<lparr>machine := ?m1, machine := m2\<rparr>"
  from identify_found [OF P D, of ?st 0] 2(2,3) obtain m3 where
    3: "ata_identify bus 0x1F0 0 ?st = (0, \<lparr>drive = identified 0x1F0 0 ident (drive st), machine = m3\<rparr>)" "idle (av m3)" "dv_disk (av m3) = dv_disk (av m2)"
    by auto
  have "ata_pio_init bus st = \<lparr>drive = identified 0x1F0 0 ident (drive st), machine = m3\<rparr>"
    using 2(1) 3(1) by (simp add: ata_pio_init_def)
  then show ?thesis using 3(2,3) 2(4) r(2) by simp
qed

lemma detect_empty:
  assumes "\<And>m. fst (bus_inb bus (base + 7) m) \<in> {0, 0xFF}"
  shows "\<exists>m'. ata_detect bus base slv m = (False, m')"
proof -
  have "s AND ATA_STATUS_ERR \<noteq> 0 \<or> s AND ATA_STATUS_DRQ = 0" if "bus_inb bus (base + 7) m = (s, m')" for s m m'
    using assms [of m] that by auto
  then show ?thesis by (fastforce simp: ata_detect_def split: prod.splits)
qed

lemma init_empty:
  assumes "\<And>p m. p \<in> {0x1F7, 0x177} \<Longrightarrow> fst (bus_inb bus p m) \<in> {0, 0xFF}"
  shows "\<exists>m. ata_pio_init bus st = \<lparr>drive = (drive st)\<lparr>present := False\<rparr>, machine = m\<rparr>"
proof -
  have e: "\<exists>m'. ata_detect bus 0x1F0 slv m = (False, m')" "\<exists>m'. ata_detect bus 0x170 slv m = (False, m')" for slv m
    using detect_empty [of bus "0x1F0"] detect_empty [of bus "0x170"] assms by simp_all
  have step: "init_loop bus ((base, s) # rest) st = init_loop bus rest (st\<lparr>machine := snd (ata_detect bus base s (ata_reset bus base (machine st)))\<rparr>)"
    if "base \<in> {0x1F0, 0x170}" for base s rest st
    using e(1) [of s "ata_reset bus base (machine st)"] e(2) [of s "ata_reset bus base (machine st)"] that by auto
  show ?thesis unfolding ata_pio_init_def by (cases st) (simp add: step del: init_loop.simps(2))
qed

subsection \<open>Properties\<close>


lemma sim_identity: "ata_identity sim_bus 0x1F0 sim_ident (\<lambda>d. d)"
proof -
  have "pause_law sim_bus (\<lambda>d. d)" "reset_law sim_bus 0x1F0 (\<lambda>d. d)" "select_law sim_bus 0x1F0 (\<lambda>d. d)" "signature_law sim_bus 0x1F0 (\<lambda>d. d)"
    "ready_law sim_bus 0x1F0 (\<lambda>d. d)" "last_word_law sim_bus 0x1F0 (\<lambda>d. d)"
    by (simp_all add: pause_law_def reset_law_def select_law_def signature_law_def ready_law_def last_word_law_def sim_bus_def sim_outb_def
        sim_inb_def sim_status_def idle_def in_phase_def)
  moreover have "identify_law sim_bus 0x1F0 sim_ident (\<lambda>d. d)"
    by (auto simp: identify_law_def sim_bus_def sim_outb_def sim_command_def sim_ident_def intro!: exI [of _ 3])
  ultimately show ?thesis by (simp add: ata_identity_def)
qed

definition no_drive :: ata_drive where
  "no_drive = \<lparr>ata_base = 0, slave = 0, sectors = 0, present = False, model = []\<rparr>"


text \<open>
  Claim C36. Without a drive, when both channels read as 0 or as \<open>0xFF\<close>, \<open>ata_pio_init\<close> reports none, whatever it knew before, and from then
  on every transfer and every flush fails with -1 and accesses no port.
\<close>

theorem ata_pio_init_no_drive:
  assumes "\<And>p m. p \<in> {0x1F7, 0x177} \<Longrightarrow> fst (bus_inb bus p m) \<in> {0, 0xFF}"
  shows "let st' = ata_pio_init bus st in \<not> ata_pio_present st' \<and> ata_pio_get_sectors st' = 0 \<and>
    ata_pio_read bus lba count st' = (-1, [], st') \<and> ata_pio_write bus lba count buffer st' = (-1, st') \<and> ata_pio_flush bus st' = (-1, st')"
proof -
  obtain m where "ata_pio_init bus st = \<lparr>drive = (drive st)\<lparr>present := False\<rparr>, machine = m\<rparr>" using init_empty [OF assms] by blast
  then show ?thesis
    by (simp add: Let_def ata_pio_present_def ata_pio_get_sectors_def ata_pio_read_def ata_pio_write_def ata_pio_flush_def)
qed

text \<open>Ports that nothing is attached to.\<close>

definition open_bus :: "unit bus" where
  "open_bus = \<lparr>bus_inb = (\<lambda>p m. (0xFF, m)), bus_outb = (\<lambda>p v m. m), bus_inw = (\<lambda>p m. (0xFFFF, m)), bus_outw = (\<lambda>p w m. m)\<rparr>"

theorem ata_pio_init_no_drive_witness:
  "fst (ata_pio_read open_bus 0 1 (ata_pio_init open_bus \<lparr>drive = no_drive\<lparr>present := True\<rparr>, machine = ()\<rparr>)) = -1"
proof -
  have "fst (bus_inb open_bus p m) \<in> {0, 0xFF}" for p m by (simp add: open_bus_def)
  from ata_pio_init_no_drive [of open_bus, OF this, of "\<lparr>drive = no_drive\<lparr>present := True\<rparr>, machine = ()\<rparr>" 0 1] show ?thesis by (simp add: Let_def)
qed

end
