(* ===== verification/Fat32_Ls.thy ===== *)
theory Fat32_Ls
  imports Fat32 Klog
begin

unbundle bit_operations_syntax

text \<open>
  \<^verbatim>\<open>kernel/src/fat32_ls.c\<close>: listing of directories. What the functions print is kept as the sequence of their
  calls of \<open>printk\<close>, beside the two counters that they are given. The loops over the clusters, sectors and
  entries of a directory, which the file has twice, take what is done with an entry as a parameter.
\<close>

datatype print_call = Printk "u8 list" "karg list" | Klog int "u8 list" "karg list"

fun run_print :: "'m bus \<Rightarrow> print_call \<Rightarrow> 'm console \<Rightarrow> 'm console option" where
  "run_print bus (Printk fmt args) con = printk bus fmt args con"
| "run_print bus (Klog level fmt args) con = klog bus level fmt args con"

fun run_prints :: "'m bus \<Rightarrow> print_call list \<Rightarrow> 'm console \<Rightarrow> 'm console option" where
  "run_prints bus [] con = Some con"
| "run_prints bus (c # cs) con = do { con \<leftarrow> run_print bus c con; run_prints bus cs con }"

record listing =
  prints :: "print_call list"
  file_count :: u32
  dir_count :: u32

definition out_printk :: "string \<Rightarrow> karg list \<Rightarrow> listing \<Rightarrow> listing" where
  "out_printk fmt args out = out\<lparr>prints := prints out @ [Printk (c_str fmt) args]\<rparr>"

text \<open>
  The buffer that \<open>fat32_name_to_string\<close> fills, up to the NUL it puts at the end; read as a string it
  ends at the first NUL.
\<close>

definition fat32_name_to_string :: "fat32_dirent \<Rightarrow> u8 list" where
  "fat32_name_to_string entry =
     (let out = takeWhile (\<lambda>c. c \<noteq> 0x20) (take 8 (de_name entry)) in
      if rd8 (de_ext entry) 0 \<noteq> 0x20 then out @ [0x2E] @ takeWhile (\<lambda>c. c \<noteq> 0x20) (take 3 (de_ext entry)) else out)"

definition as_string :: "u8 list \<Rightarrow> u8 list" where
  "as_string buf = takeWhile (\<lambda>c. c \<noteq> 0) buf"

text \<open>\<^verbatim>\<open>fs->dev->read(s, 1, sector)\<close>, without the lock of the cache\<close>

definition dev_read :: "'d fat32_fs \<Rightarrow> u32 \<Rightarrow> ('d, 'a) fat_state_scheme \<Rightarrow> (int \<times> u8 list \<times> ('d, 'a) fat_state_scheme) option" where
  "dev_read fs s st = do {
     dv \<leftarrow> dev fs;
     rd \<leftarrow> bd_read dv;
     let (ret, buf, d) = rd (dev_state st) s 1;
     Some (ret, buf, st\<lparr>dev_state := d\<rparr>)
   }"

text \<open>The loops give \<open>True\<close> when they leave the function with \<^verbatim>\<open>return\<close>.\<close>

fun ls_entries :: "(fat32_dirent \<Rightarrow> 's \<Rightarrow> 's option) \<Rightarrow> u8 list \<Rightarrow> nat \<Rightarrow> nat \<Rightarrow> 's \<Rightarrow> (bool \<times> 's) option" where
  "ls_entries visit sector 0 ent s = Some (False, s)"
| "ls_entries visit sector (Suc n) ent s =
     (let de = dirent_of (entry_at sector ent); c = rd8 (entry_at sector ent) 0 in
      if c = 0 then Some (True, s)
      else if c = 0xE5 then ls_entries visit sector n (ent + 1) s
      else if de_attr de = 0x0F \<or> de_attr de AND 0x08 \<noteq> 0 then ls_entries visit sector n (ent + 1) s
      else if c = 0x2E then ls_entries visit sector n (ent + 1) s
      else do { s \<leftarrow> visit de s; ls_entries visit sector n (ent + 1) s })"

type_synonym ('d, 'a) ls_state = "('d, 'a) fat_state_scheme \<times> listing"

function ls_sectors :: "(fat32_dirent \<Rightarrow> ('d, 'a) ls_state \<Rightarrow> ('d, 'a) ls_state option) \<Rightarrow> 'd fat32_fs \<Rightarrow> u32 \<Rightarrow> u32 \<Rightarrow>
    ('d, 'a) ls_state \<Rightarrow> (bool \<times> ('d, 'a) ls_state) option" where
  "ls_sectors visit fs first_sector sec (st, out) =
     (if sec < ucast (sectors_per_cluster (bpb fs)) then do {
        (ret, sector, st) \<leftarrow> dev_read fs (first_sector + sec) st;
        if ret \<noteq> 0 then Some (True, (st, out))
        else do {
          (stop, s) \<leftarrow> ls_entries visit sector 16 0 (st, out);
          if stop then Some (True, s) else ls_sectors visit fs first_sector (sec + 1) s
        }
      } else Some (False, (st, out)))"
  by pat_completeness auto
termination
proof (relation "measure (\<lambda>(v, fs, f, sec, s). unat (ucast (sectors_per_cluster (bpb fs)) - sec))", goal_cases)
  case (2 v fs f sec)
  then show ?case by unat_arith
qed simp

partial_function (option) ls_clusters :: "(fat32_dirent \<Rightarrow> ('d, 'a) ls_state \<Rightarrow> ('d, 'a) ls_state option) \<Rightarrow> 'd fat32_fs \<Rightarrow> u32 \<Rightarrow>
    ('d, 'a) ls_state \<Rightarrow> ('d, 'a) ls_state option" where
  "ls_clusters visit fs current s =
     (if current \<noteq> NO_CLUSTER \<and> \<not> current < 2 then do {
        (stop, s) \<leftarrow> ls_sectors visit fs (cluster_sector fs current) 0 s;
        if stop then Some s
        else (case s of (st, out) \<Rightarrow> do { (nxt, st) \<leftarrow> fat32_next_cluster fs current st; ls_clusters visit fs nxt (st, out) })
      } else Some s)"

definition flat_entry :: "u8 list \<Rightarrow> fat32_dirent \<Rightarrow> listing \<Rightarrow> listing" where
  "flat_entry prefix de out =
     (let name = as_string (fat32_name_to_string de) in
      if de_attr de AND FAT32_ATTR_DIRECTORY \<noteq> 0 then
        (out_printk ''%s[DIR]  %s\<newline>'' [Str_arg prefix, Str_arg name] out)\<lparr>dir_count := dir_count out + 1\<rparr>
      else
        (out_printk ''%s[FILE] %s (%u bytes)\<newline>'' [Str_arg prefix, Str_arg name, Int_arg (de_size de)] out)
          \<lparr>file_count := file_count out + 1\<rparr>)"

definition fat32_list_dir_flat :: "'d fat32_fs \<Rightarrow> u32 \<Rightarrow> u8 list \<Rightarrow> ('d, 'a) ls_state \<Rightarrow> ('d, 'a) ls_state option" where
  "fat32_list_dir_flat fs dir_cluster prefix s =
     ls_clusters (\<lambda>de (st, out). Some (st, flat_entry prefix de out)) fs dir_cluster s"

text \<open>The line of a file, its end with the size apart.\<close>

definition file_entry :: "u8 list \<Rightarrow> fat32_dirent \<Rightarrow> listing \<Rightarrow> listing" where
  "file_entry prefix de out =
     (let out = out_printk ''%s[FILE] %s'' [Str_arg prefix, Str_arg (as_string (fat32_name_to_string de))] out;
          out = (if de_size de < 1024 then out_printk '' (%u B)\<newline>'' [Int_arg (de_size de)] out
                 else if de_size de < 1024 * 1024 then out_printk '' (%u KB)\<newline>'' [Int_arg (de_size de div 1024)] out
                 else out_printk '' (%u MB)\<newline>'' [Int_arg (de_size de div (1024 * 1024))] out)
      in out\<lparr>file_count := file_count out + 1\<rparr>)"

definition dir_entry :: "u8 list \<Rightarrow> fat32_dirent \<Rightarrow> listing \<Rightarrow> listing" where
  "dir_entry prefix de out =
     (out_printk ''%s[DIR]  %s/\<newline>'' [Str_arg prefix, Str_arg (as_string (fat32_name_to_string de))] out)
       \<lparr>dir_count := dir_count out + 1\<rparr>"

definition sub_path :: "u8 list \<Rightarrow> u8 list \<Rightarrow> u8 list" where
  "sub_path path name = (if 0 < length path \<and> length path < 240 then path @ [0x2F] @ name else name)"

function fat32_list_dir_recursive :: "'d fat32_fs \<Rightarrow> u32 \<Rightarrow> u8 list \<Rightarrow> nat \<Rightarrow> ('d, 'a) ls_state \<Rightarrow> ('d, 'a) ls_state option" where
  "fat32_list_dir_recursive fs dir_cluster path depth s =
     (if depth > 10 then Some (fst s, out_printk ''%s  [... depth limit reached]\<newline>'' [Str_arg path] (snd s))
      else
        let prefix = replicate (depth * 2) 0x20 in
        ls_clusters (\<lambda>de (st, out).
          if de_attr de AND FAT32_ATTR_DIRECTORY \<noteq> 0 then
            fat32_list_dir_recursive fs (dirent_cluster de) (sub_path path (as_string (fat32_name_to_string de))) (depth + 1)
              (st, dir_entry prefix de out)
          else Some (st, file_entry prefix de out)) fs dir_cluster s)"
  by pat_completeness auto
termination by (relation "measure (\<lambda>(fs, c, path, depth, s). 11 - depth)") auto

declare ls_sectors.simps [simp del] fat32_list_dir_recursive.simps [simp del]

definition rule_line :: string where "rule_line = ''------------------------------------------\<newline>''"
definition frame_line :: string where "frame_line = ''==========================================\<newline>''"

text \<open>A null pointer is \<open>None\<close>.\<close>

definition ls_invalid :: listing where
  "ls_invalid = \<lparr>prints = [Klog 0 (c_str ''[FAT32] ls: Invalid filesystem'') []], file_count = 0, dir_count = 0\<rparr>"

definition fat32_ls_recursive :: "'d fat32_fs option \<Rightarrow> ('d, 'a) fat_state_scheme \<Rightarrow> ('d, 'a) ls_state option" where
  "fat32_ls_recursive fs st =
     (case fs of None \<Rightarrow> Some (st, ls_invalid) | Some fs \<Rightarrow> do {
     let out = \<lparr>prints = [], file_count = 0, dir_count = 0\<rparr>;
     let out = out_printk ''\<newline>'' [] out;
     let out = out_printk frame_line [] out;
     let out = out_printk '' FAT32 Disk Contents (Recursive)\<newline>'' [] out;
     let out = out_printk frame_line [] out;
     let out = out_printk ''\<newline>'' [] out;
     let out = out_printk ''/\<newline>'' [] out;
     (st, out) \<leftarrow> fat32_list_dir_recursive fs (root_cluster (bpb fs)) [] 0 (st, out);
     let out = out_printk ''\<newline>'' [] out;
     let out = out_printk rule_line [] out;
     let out = out_printk ''Total: %d files, %d directories\<newline>'' [Int_arg (file_count out), Int_arg (dir_count out)] out;
     let out = out_printk frame_line [] out;
     let out = out_printk ''\<newline>'' [] out;
     Some (st, out)
   })"

definition fat32_ls :: "'d fat32_fs option \<Rightarrow> u8 list option \<Rightarrow> ('d, 'a) fat_state_scheme \<Rightarrow> ('d, 'a) ls_state option" where
  "fat32_ls fs path st =
     (case fs of None \<Rightarrow> Some (st, ls_invalid) | Some fs \<Rightarrow> do {
     let out = \<lparr>prints = [], file_count = 0, dir_count = 0\<rparr>;
     let out = out_printk ''\<newline>'' [] out;
     let out = out_printk ''Listing: %s\<newline>'' [Str_arg (case path of Some p \<Rightarrow> p | None \<Rightarrow> c_str ''/'')] out;
     let out = out_printk rule_line [] out;
     (st, out) \<leftarrow> fat32_list_dir_flat fs (root_cluster (bpb fs)) [] (st, out);
     let out = out_printk rule_line [] out;
     let out = out_printk ''Total: %d files, %d directories\<newline>'' [Int_arg (file_count out), Int_arg (dir_count out)] out;
     let out = out_printk ''\<newline>'' [] out;
     Some (st, out)
   })"

end
