(* ===== verification/Kernel.thy ===== *)
theory Kernel
  imports Fat32_Ls Fat32_Vfs Ata Interrupts
begin

unbundle bit_operations_syntax

text \<open>
  \<^verbatim>\<open>kernel/src/kernel.c\<close>: how \<open>kmain\<close> puts the parts together. What the boot loader and the linker supply is the record
  \<open>boot_info\<close>. The file system part gives its messages as calls of the output routines, which are then run on
  the console: disk and console use different ports, so the order of their accesses does not matter. Left out are
  the messages of the subsystems themselves, the delay loop and interrupts that come in meanwhile.
\<close>

subsection \<open>Storage\<close>

text \<open>\<^verbatim>\<open>buffer\<close> after reading: the bytes of the file, then the zeros that were there before.\<close>

definition file_calls :: "int \<Rightarrow> u8 list \<Rightarrow> print_call list" where
  "file_calls bytes_read buffer =
     [Klog 0 (c_str ''File content (%d bytes):'') [Int_arg (of_int bytes_read)], Klog 0 [] [], Printk (c_str ''>>> '') []] @
     map (\<lambda>c. if c = 0x0A then Printk (c_str ''\<newline>>>> '') [] else Printk (c_str ''%c'') [Int_arg (scast c)]) (take (nat bytes_read) buffer) @
     [Printk (c_str ''\<newline>'') [], Klog 0 [] [], Klog 0 (c_str ''[SUCCESS] File read successfully!'') []]"

type_synonym 'd kernel_vfs = "('d fatvfs_state, 'd fat32_vfs_context option) vfs"

definition kmain_read :: "'d kernel_vfs \<Rightarrow> 'd fatvfs_state \<Rightarrow> (print_call list \<times> 'd kernel_vfs \<times> 'd fatvfs_state) option" where
  "kmain_read v st = do {
     (ret, f, v, st) \<leftarrow> vfs_open (Some (c_str ''/root/hello.txt'')) VFS_READ v st;
     if ret = 0 then do {
       let buffer = replicate 256 (0 :: u8);
       (bytes_read, bytes, v, st) \<leftarrow> vfs_read f True 255 v st;
       let buffer = bytes @ drop (length bytes) buffer;
       (_, v, st) \<leftarrow> vfs_close f v st;
       Some (if bytes_read > 0 then file_calls bytes_read buffer
             else [Klog 2 (c_str ''Failed to read file (returned %d)'') [Int_arg (of_int bytes_read)]], v, st)
     } else Some ([Klog 2 (c_str ''Failed to open /root/hello.txt'') [], Klog 1 (c_str ''Make sure the file exists on disk!'') []], v, st)
   }"

definition dump_calls :: "(u8 list \<times> bool) list \<Rightarrow> print_call list" where
  "dump_calls ms = Klog 0 (c_str ''=== VFS Mount Points ==='') [] #
     (if ms = [] then [Klog 0 (c_str ''(No mounts)'') []]
      else map (\<lambda>(p, b). Klog 0 (c_str ''  %s%s'') [Str_arg p, Str_arg (c_str (if b then '' [BIND: / -> /mnt]'' else ''''))]) ms)"

text \<open>
  \<open>ata_value\<close> is the value that the test of \<^verbatim>\<open>ata_pio_init() == 0\<close> sees: the function itself returns none.
\<close>

definition kmain_storage :: "'d blockdev \<Rightarrow> ('d \<Rightarrow> 'd) \<Rightarrow> int \<Rightarrow> 'd kernel_vfs \<Rightarrow> 'd fatvfs_state \<Rightarrow>
    (print_call list \<times> 'd kernel_vfs \<times> 'd fatvfs_state) option" where
  "kmain_storage ata_drive ata_init ata_value v st = do {
     let out1 = [Klog 0 (c_str ''Initializing Storage & Filesystem...'') []];
     let st = st\<lparr>dev_state := ata_init (dev_state st)\<rparr>;
     let out2 = [if ata_value = 0 then Klog 0 (c_str ''  [OK] ATA PIO Drive 0'') [] else Klog 2 (c_str ''  [FAIL] ATA PIO Init'') []];
     (fs, st) \<leftarrow> fat32_mount (Some ata_drive) st;
     (case fs of
        None \<Rightarrow> Some (out1 @ out2 @ [Klog 2 (c_str ''FAT32 Mount Failed (Check disk image)'') []], v, st)
      | Some fs \<Rightarrow> do {
          let out3 = [Klog 0 (c_str ''  [OK] FAT32 Detected & Parsed'') []];
          (fs_ctx, st) \<leftarrow> vfs_create_fat32_context (Some fs) st;
          (ret, v, st) \<leftarrow> vfs_mount (Some (c_str ''/mnt'')) (Some vfs_get_fat32_ops) fs_ctx v st;
          if ret = 0 then do {
            let out4 = [Klog 0 (c_str (''  [OK] VFS mounted at '' @ [CHR 0x27] @ ''/mnt'' @ [CHR 0x27])) []];
            (st, ls) \<leftarrow> fat32_ls_recursive (Some fs) st;
            let out5 = prints ls @ dump_calls (vfs_dump_mounts v) @
              [Klog 0 [] [], Klog 1 (c_str ''--- READING /root/hello.txt ---'') [], Klog 0 [] []];
            (out6, v, st) \<leftarrow> kmain_read v st;
            Some (out1 @ out2 @ out3 @ out4 @ out5 @ out6 @ [Klog 1 (c_str ''--- TEST COMPLETE ---'') []], v, st)
          } else Some (out1 @ out2 @ out3 @ [Klog 2 (c_str ''Failed to mount VFS'') []], v, st)
        })
   }"


subsection \<open>Setup\<close>

record boot_info =
  framebuffers :: "limine_fb list option"
  memmap :: "memmap_entry list option"
  gdt_addr :: u64
  idt_addr :: u64
  exception_handlers :: "u64 list"
  keyboard_handler :: u64
  build_date :: "u8 list"
  build_time :: "u8 list"

record ('m, 'd) kernel =
  con :: "'m console"
  store :: "'d fatvfs_state"
  vfs_tab :: "'d kernel_vfs"
  gdt_table :: "gdt_entry list"
  gdtr :: table_ptr
  idt_table :: "idt_entry list"
  idtr :: table_ptr
  interrupts_on :: bool

definition say :: "'m bus \<Rightarrow> print_call \<Rightarrow> ('m, 'd) kernel \<Rightarrow> ('m, 'd) kernel option" where
  "say bus call k = map_option (\<lambda>c. k\<lparr>con := c\<rparr>) (run_print bus call (con k))"

definition say_all :: "'m bus \<Rightarrow> print_call list \<Rightarrow> ('m, 'd) kernel \<Rightarrow> ('m, 'd) kernel option" where
  "say_all bus calls k = map_option (\<lambda>c. k\<lparr>con := c\<rparr>) (run_prints bus calls (con k))"

definition at_ports :: "('m \<Rightarrow> 'm) \<Rightarrow> ('m, 'd) kernel \<Rightarrow> ('m, 'd) kernel" where
  "at_ports f k = k\<lparr>con := (con k)\<lparr>port_state := f (port_state (con k))\<rparr>\<rparr>"

text \<open>Phase 1; without a frame buffer the processor is halted (\<open>None\<close>).\<close>

definition kmain_graphics :: "'m bus \<Rightarrow> boot_info \<Rightarrow> ('m, 'd) kernel \<Rightarrow> ('m, 'd) kernel option" where
  "kmain_graphics bus bi k = do {
     let k = k\<lparr>interrupts_on := False\<rparr>;
     fb \<leftarrow> (case framebuffers bi of Some (fb # _) \<Rightarrow> Some fb | _ \<Rightarrow> None);
     let c = (con k)\<lparr>screen_of := graphics_init (fb_init fb (screen_of (con k)))\<rparr>;
     let c = klog_init c;
     let c = c\<lparr>screen_of := fb_clear 0x000000 (screen_of c)\<rparr>;
     say_all bus
       [Klog 0 (c_str ''========================================'') [],
        Klog 0 (c_str ''XLD v0.03 - File Reader Test'') [],
        Klog 0 (c_str ''Built: %s %s'') [Str_arg (build_date bi), Str_arg (build_time bi)],
        Klog 0 (c_str ''========================================'') [],
        Klog 0 [] []] (k\<lparr>con := c\<rparr>)
   }"

text \<open>Phase 2.\<close>

definition kmain_memory :: "'m bus \<Rightarrow> boot_info \<Rightarrow> ('m, 'd) kernel \<Rightarrow> ('m, 'd) kernel option" where
  "kmain_memory bus bi k = do {
     k \<leftarrow> say bus (Klog 0 (c_str ''Initializing Memory Manager...'') []) k;
     (st, _) \<leftarrow> pmm_init (store k) (memmap bi);
     let total_mem = pmm_get_total st;
     let free_mem = pmm_get_free st;
     k \<leftarrow> say bus (Klog 0 (c_str ''  [OK] PMM: %d MB free / %d MB total'')
       [Int_arg (ucast (free_mem div 1024 div 1024)), Int_arg (ucast (total_mem div 1024 div 1024))]) (k\<lparr>store := st\<rparr>);
     st \<leftarrow> kmalloc_init (store k);
     say bus (Klog 0 (c_str ''  [OK] Kernel Heap Initialized'') []) (k\<lparr>store := st\<rparr>)
   }"

text \<open>Phase 3.\<close>

definition kmain_hardware :: "'m bus \<Rightarrow> boot_info \<Rightarrow> ('m, 'd) kernel \<Rightarrow> ('m, 'd) kernel option" where
  "kmain_hardware bus bi k = do {
     k \<leftarrow> say bus (Klog 0 (c_str ''Initializing Hardware...'') []) k;
     let (gdt, gp) = gdt_init (gdt_addr bi) (gdt_table k);
     k \<leftarrow> say bus (Klog 0 (c_str ''  [OK] GDT Loaded'') []) (k\<lparr>gdt_table := gdt, gdtr := gp\<rparr>);
     k \<leftarrow> say bus (Klog 0 (c_str ''  [OK] PIC Remapped'') []) (at_ports (pic_remap bus) k);
     let (idt, ip) = idt_init (idt_addr bi) (exception_handlers bi) (keyboard_handler bi);
     k \<leftarrow> say bus (Klog 0 (c_str ''  [OK] IDT Loaded'') []) (k\<lparr>idt_table := idt, idtr := ip\<rparr>);
     c \<leftarrow> ps2_init bus (con k);
     k \<leftarrow> say bus (Klog 0 (c_str ''  [OK] PS/2 Controller'') []) (k\<lparr>con := c\<rparr>);
     m \<leftarrow> enable_irq bus 1 (port_state (con k));
     let k = at_ports (\<lambda>_. m) k;
     let k = k\<lparr>interrupts_on := True\<rparr>;
     say bus (Klog 0 (c_str ''  [OK] Interrupts Enabled'') []) k
   }"

text \<open>The state in which \<open>kmain\<close> waits for interrupts.\<close>

definition kmain :: "'m bus \<Rightarrow> boot_info \<Rightarrow> 'd blockdev \<Rightarrow> ('d \<Rightarrow> 'd) \<Rightarrow> int \<Rightarrow> ('m, 'd) kernel \<Rightarrow> ('m, 'd) kernel option" where
  "kmain bus bi ata_drive ata_init ata_value k = do {
     k \<leftarrow> kmain_graphics bus bi k;
     k \<leftarrow> kmain_memory bus bi k;
     k \<leftarrow> kmain_hardware bus bi k;
     (calls, v, st) \<leftarrow> kmain_storage ata_drive ata_init ata_value (vfs_tab k) (store k);
     k \<leftarrow> say_all bus calls (k\<lparr>vfs_tab := v, store := st\<rparr>);
     say_all bus [Klog 0 [] [], Klog 0 (c_str ''System ready. Press any key to test PS/2...'') []] k
   }"

text \<open>\<open>panic\<close> up to the loop in which the processor is halted.\<close>

definition panic :: "'m bus \<Rightarrow> u8 list \<Rightarrow> 'm console \<Rightarrow> 'm console option" where
  "panic bus msg c = run_prints bus [Klog 2 (c_str ''KERNEL PANIC: %s'') [Str_arg msg], Klog 2 (c_str ''System halted.'') []] c"

subsection \<open>Reports of the memory managers\<close>

definition pmm_dump :: "'m bus \<Rightarrow> 'a pmm_state_scheme \<Rightarrow> 'm console \<Rightarrow> 'm console option" where
  "pmm_dump bus s c = run_prints bus
     [Klog 0 (c_str ''=== PMM DUMP ==='') [],
      Klog 0 (c_str ''Total memory: %llu MB'') [Int_arg (ucast (total_memory s div 1024 div 1024))],
      Klog 0 (c_str ''Free memory : %llu MB'') [Int_arg (ucast (pmm_get_free s div 1024 div 1024))],
      Klog 0 (c_str ''Total pages : %llu, Free pages: %llu'') [Int_arg (ucast (total_pages s)), Int_arg (ucast (free_pages s))]] c"

text \<open>\<open>kmalloc_dump\<close> with its messages; the first are printed before the blocks are counted.\<close>

definition heap_dump :: "'m bus \<Rightarrow> 'a kmalloc_state_scheme \<Rightarrow> 'm console \<Rightarrow> ('a kmalloc_state_scheme \<times> 'm console) option" where
  "heap_dump bus s c = do {
     ((free_count, free_total), s') \<leftarrow> kmalloc_dump s;
     c \<leftarrow> run_prints bus
       [Klog 0 (c_str ''=== KMALLOC DUMP ==='') [],
        Klog 0 (c_str ''Heap: 0x%x-0x%x'') [Int_arg (ucast (heap_start s)), Int_arg (ucast (heap_end s))],
        Klog 0 (c_str ''Free blocks: %d, Free memory: %d bytes'') [Int_arg free_count, Int_arg (ucast free_total)]] c;
     Some (s', c)
   }"

end
