(* ===== verification/Fat32_Ls_Proofs.thy ===== *)
theory Fat32_Ls_Proofs
  imports Fat32_Ls Fat32_Vfs_Proofs
begin

unbundle bit_operations_syntax

text \<open>
  Directory listings: the loops visit the entries that a directory shows, in order, and the recursive listing is the listing
  of the directory tree on the disk, cut at eleven levels. The strings it handles fit into their buffers.
\<close>

subsection \<open>The entries of a directory\<close>

text \<open>
  What a listing shows of a directory: of the entries before the end mark those that are not deleted, no part of a long
  name, no volume label, and do not start with a dot.
\<close>

definition shown :: "dir_slot \<Rightarrow> bool" where
  "shown x \<longleftrightarrow> rd8 (fst x) 0 \<noteq> 0xE5 \<and> rd8 (fst x) 0 \<noteq> 0x2E \<and>
     de_attr (dirent_of (fst x)) \<noteq> 0x0F \<and> de_attr (dirent_of (fst x)) AND 0x08 = 0"

definition visible :: "dir_slot list \<Rightarrow> fat32_dirent list" where
  "visible xs = map (dirent_of \<circ> fst) (filter shown (takeWhile (\<lambda>x. rd8 (fst x) 0 \<noteq> 0) xs))"

definition ended :: "dir_slot list \<Rightarrow> bool" where
  "ended xs \<longleftrightarrow> list_ex (\<lambda>x. rd8 (fst x) 0 = 0) xs"

lemma visible_append: "visible (xs @ ys) = (if ended xs then visible xs else visible xs @ visible ys)"
  by (induction xs) (auto simp: visible_def ended_def)

lemma ended_append: "ended (xs @ ys) \<longleftrightarrow> ended xs \<or> ended ys"
  by (simp add: ended_def)

lemma visible_Cons:
  "visible (x # xs) = (if rd8 (fst x) 0 = 0 then [] else if shown x then dirent_of (fst x) # visible xs else visible xs)"
proof -
  have a: "visible (x # xs) = (if rd8 (fst x) 0 = 0 then [] else map (dirent_of \<circ> fst) (filter shown (x # takeWhile (\<lambda>x. rd8 (fst x) 0 \<noteq> 0) xs)))"
    unfolding visible_def takeWhile.simps by (cases "rd8 (fst x) 0 = 0") simp_all
  show ?thesis unfolding a unfolding visible_def by (cases "shown x") simp_all
qed

lemma ended_Cons: "ended (x # xs) \<longleftrightarrow> rd8 (fst x) 0 = 0 \<or> ended xs"
  by (simp add: ended_def)

text \<open>A loop body that keeps the states within \<open>P\<close> and adds to the output what \<open>g\<close> says.\<close>

definition visits :: "('s \<Rightarrow> bool) \<Rightarrow> (fat32_dirent \<Rightarrow> 's \<times> listing \<Rightarrow> ('s \<times> listing) option) \<Rightarrow> (fat32_dirent \<Rightarrow> listing \<Rightarrow> listing) \<Rightarrow>
    fat32_dirent list \<Rightarrow> bool" where
  "visits P visit g ds \<longleftrightarrow> (\<forall>de \<in> set ds. \<forall>st out. P st \<longrightarrow> (\<exists>st'. P st' \<and> visit de (st, out) = Some (st', g de out)))"

lemma visits_append: "visits P visit g (visible (xs @ ys)) \<Longrightarrow> visits P visit g (visible xs) \<and> (\<not> ended xs \<longrightarrow> visits P visit g (visible ys))"
  by (simp add: visits_def visible_append split: if_splits)

lemma ls_entries_visible:
  assumes "visits P visit g (visible (map (\<lambda>e. (entry_at b e, s, of_nat e)) [ent..<ent + n]))" "P st"
  shows "\<exists>st'. P st' \<and> ls_entries visit b n ent (st, out) =
    (let xs = map (\<lambda>e. (entry_at b e, s, of_nat e)) [ent..<ent + n] in Some (ended xs, (st', fold g (visible xs) out)))"
  using assms
proof (induction n arbitrary: ent out st)
  case (Suc n)
  let ?x = "(entry_at b ent, s, of_nat ent)" and ?xs = "map (\<lambda>e. (entry_at b e, s, of_nat e)) [Suc ent..<Suc ent + n]"
  have u: "map (\<lambda>e. (entry_at b e, s, of_nat e)) [ent..<ent + Suc n] = ?x # ?xs" by (simp add: upt_rec)
  show ?case
  proof (cases "rd8 (entry_at b ent) 0 = 0")
    case True
    then show ?thesis using Suc.prems(2) unfolding u by (intro exI [of _ st]) (simp add: Let_def visible_Cons ended_Cons)
  next
    case False
    then have V: "visits P visit g (visible ?xs)" using Suc.prems(1) unfolding u by (simp add: visible_Cons visits_def split: if_splits)
    show ?thesis
    proof (cases "shown ?x")
      case True
      then have "visits P visit g (dirent_of (entry_at b ent) # visible ?xs)" using Suc.prems(1) False unfolding u by (simp add: visible_Cons)
      then obtain st1 where "P st1" "visit (dirent_of (entry_at b ent)) (st, out) = Some (st1, g (dirent_of (entry_at b ent)) out)"
        using Suc.prems(2) unfolding visits_def by (meson list.set_intros(1))
      then show ?thesis using Suc.IH [OF V, of st1 "g (dirent_of (entry_at b ent)) out"] True False unfolding u
        by (simp add: Let_def visible_Cons ended_Cons shown_def)
    next
      case no: False
      then show ?thesis using Suc.IH [OF V Suc.prems(2), of out] False unfolding u
        by (auto simp: Let_def visible_Cons ended_Cons shown_def)
    qed
  qed
qed (auto simp: visible_def ended_def)

text \<open>The states that differ from a given one in the device only, which still has the same contents.\<close>

definition rests :: "(disk \<Rightarrow> 'd \<Rightarrow> bool) \<Rightarrow> disk \<Rightarrow> ('d, 'a) fat_state_scheme \<Rightarrow> ('d, 'a) fat_state_scheme \<Rightarrow> bool" where
  "rests holds dk st0 st \<longleftrightarrow> (\<exists>d. st = st0\<lparr>dev_state := d\<rparr> \<and> holds dk d)"

lemma restsD: "rests holds dk st0 st \<Longrightarrow> holds dk (dev_state st) \<and> cache_lock st = cache_lock st0"
  by (auto simp: rests_def)

lemma rests_refl: "holds dk (dev_state st) \<Longrightarrow> rests holds dk st st"
  unfolding rests_def by (rule exI [of _ "dev_state st"]) simp

lemma rests_update: "rests holds dk st0 st \<Longrightarrow> holds dk d \<Longrightarrow> rests holds dk st0 (st\<lparr>dev_state := d\<rparr>)"
  by (auto simp: rests_def)

context sector_reader
begin

lemma dev_read:
  assumes "reads_with fs rd" "rests holds dk st0 st" "valid s"
  shows "\<exists>st'. dev_read fs s st = Some (0, dk s, st') \<and> rests holds dk st0 st'"
proof -
  obtain dv where dv: "dev fs = Some dv" "bd_read dv = Some rd" using assms(1) by (auto simp: reads_with_def)
  obtain d where d: "rd (dev_state st) s 1 = (0, dk s, d)" "holds dk d" using read_law [OF _ assms(3)] restsD [OF assms(2)] by blast
  then show ?thesis using dv rests_update [OF assms(2)] by (auto simp: dev_read_def)
qed

lemma ls_sectors_visible:
  assumes U: "reads_with fs rd" and k: "k \<le> unat (sectors_per_cluster (bpb fs))"
    and W: "\<forall>j \<in> {k..<unat (sectors_per_cluster (bpb fs))}. valid (s + of_nat j)"
    and V: "visits (rests holds dk st0) visit g (visible (concat (map (\<lambda>j. sector_entries (dk (s + of_nat j)) (s + of_nat j))
      [k..<unat (sectors_per_cluster (bpb fs))])))" and R: "rests holds dk st0 st"
  shows "\<exists>st'. rests holds dk st0 st' \<and> ls_sectors visit fs s (of_nat k) (st, out) =
    (let xs = concat (map (\<lambda>j. sector_entries (dk (s + of_nat j)) (s + of_nat j)) [k..<unat (sectors_per_cluster (bpb fs))])
     in Some (ended xs, (st', fold g (visible xs) out)))"
  using k V W R
proof (induction "unat (sectors_per_cluster (bpb fs)) - k" arbitrary: k out st)
  case 0
  then have "k = unat (sectors_per_cluster (bpb fs))" by simp
  then have "\<not> (of_nat k :: u32) < ucast (sectors_per_cluster (bpb fs))" by simp
  then show ?case using 0 by (intro exI [of _ st]) (simp add: ls_sectors.simps visible_def ended_def)
next
  case (Suc n)
  let ?n = "unat (sectors_per_cluster (bpb fs))" and ?e = "\<lambda>j. sector_entries (dk (s + of_nat j)) (s + of_nat j)"
  have n: "?n < 256" using unsigned_less [of "sectors_per_cluster (bpb fs)", where ?'a = nat] by simp
  have k: "k < ?n" using Suc.hyps(2) by simp
  then have "unat (of_nat k :: u32) = k" using n by (simp add: unat_of_nat)
  then have lt: "(of_nat k :: u32) < ucast (sectors_per_cluster (bpb fs))" using k by (simp add: word_less_nat_alt unat_spc)
  have up: "concat (map ?e [k..<?n]) = ?e k @ concat (map ?e [Suc k..<?n])" using k by (simp add: upt_conv_Cons)
  have V: "visits (rests holds dk st0) visit g (visible (?e k))"
    "\<not> ended (?e k) \<Longrightarrow> visits (rests holds dk st0) visit g (visible (concat (map ?e [Suc k..<?n])))"
    using visits_append [of "rests holds dk st0" visit g "?e k"] Suc.prems(2) unfolding up by auto
  have "valid (s + of_nat k)" using Suc.prems(3) k by simp
  from dev_read [OF U Suc.prems(4) this] obtain s1 where
    r: "dev_read fs (s + of_nat k) st = Some (0, dk (s + of_nat k), s1)" "rests holds dk st0 s1" by blast
  obtain s2 where sc: "ls_entries visit (dk (s + of_nat k)) 16 0 (s1, out) = Some (ended (?e k), (s2, fold g (visible (?e k)) out))" "rests holds dk st0 s2"
    using ls_entries_visible [of "rests holds dk st0" visit g "dk (s + of_nat k)" "s + of_nat k" 0 16 s1 out] V(1) r(2)
    by (auto simp: sector_entries_def Let_def)
  show ?case
  proof (cases "ended (?e k)")
    case True
    then show ?thesis using lt r(1) sc unfolding up
      by (intro exI [of _ s2], subst ls_sectors.simps) (simp add: visible_append ended_append Let_def)
  next
    case False
    have "n = ?n - Suc k" "Suc k \<le> ?n" "\<forall>j \<in> {Suc k..<?n}. valid (s + of_nat j)" using Suc.hyps(2) Suc.prems(3) k by simp_all
    from Suc.hyps(1) [OF this(1,2) V(2) [OF False] this(3) sc(2), of "fold g (visible (?e k)) out"] obtain s3 where
      "rests holds dk st0 s3" "ls_sectors visit fs s (of_nat (Suc k)) (s2, fold g (visible (?e k)) out) =
      (let xs = concat (map ?e [Suc k..<?n]) in Some (ended xs, (s3, fold g (visible xs) (fold g (visible (?e k)) out))))" by blast
    then show ?thesis using lt r(1) sc(1) False unfolding up
      by (intro exI [of _ s3], subst ls_sectors.simps) (simp add: visible_append ended_append add.commute Let_def)
  qed
qed

end

text \<open>
  The clusters that a listing may come to, with the chain that starts at each of them: the set is closed under the
  table and under the directories' entries. That the chains are finite lists says that there is no cycle
  in the table; directories may well contain each other.
\<close>

definition next_of :: "'d fat32_fs \<Rightarrow> disk \<Rightarrow> u32 \<Rightarrow> u32" where
  "next_of fs dk c = (if fat_get fs dk c \<ge> 0x0FFFFFF7 then NO_CLUSTER else fat_get fs dk c)"

definition chains :: "(u32 \<Rightarrow> bool) \<Rightarrow> 'd fat32_fs \<Rightarrow> disk \<Rightarrow> (u32 \<Rightarrow> u32 list) \<Rightarrow> u32 set \<Rightarrow> bool" where
  "chains valid fs dk chain K \<longleftrightarrow> (\<forall>c \<in> K. if c = NO_CLUSTER \<or> c < 2 then chain c = []
     else chain c = c # chain (next_of fs dk c) \<and> next_of fs dk c \<in> K \<and> places_ok valid fs [c])"

context sector_reader
begin

lemma ls_clusters_visible:
  assumes U: "reads_with fs rd" and L: "lock (cache_lock st0) = 0" and C: "chains valid fs dk chain K" "c \<in> K"
    and V: "visits (rests holds dk st0) visit g (visible (dir_entries fs dk (chain c)))" and R: "rests holds dk st0 st"
  shows "\<exists>st'. rests holds dk st0 st' \<and> ls_clusters visit fs c (st, out) = Some (st', fold g (visible (dir_entries fs dk (chain c))) out)"
  using C(2) V R
proof (induction "length (chain c)" arbitrary: c out st)
  case 0
  then have "chain c = []" "c = NO_CLUSTER \<or> c < 2" using C(1) unfolding chains_def by (metis length_0_conv, metis length_0_conv list.distinct(1))
  then show ?case using 0 by (intro exI [of _ st], subst ls_clusters.simps) (auto simp: visible_def dir_entries_def)
next
  case (Suc n)
  let ?e = "concat (map (\<lambda>s. sector_entries (dk s) s) (cluster_sectors fs c))" and ?nx = "next_of fs dk c"
  have "chain c \<noteq> []" using Suc.hyps(2) by auto
  then have c: "c \<noteq> NO_CLUSTER" "\<not> c < 2" "chain c = c # chain ?nx" "?nx \<in> K" "places_ok valid fs [c]"
    using C(1) Suc.prems(1) unfolding chains_def by metis+
  have d: "dir_entries fs dk (chain c) = ?e @ dir_entries fs dk (chain ?nx)" unfolding c(3) by (simp add: dir_entries_def)
  have V: "visits (rests holds dk st0) visit g (visible ?e)" "\<not> ended ?e \<Longrightarrow> visits (rests holds dk st0) visit g (visible (dir_entries fs dk (chain ?nx)))"
    using visits_append [of "rests holds dk st0" visit g ?e] Suc.prems(2) unfolding d by auto
  obtain s1 where f: "ls_sectors visit fs (cluster_sector fs c) 0 (st, out) = Some (ended ?e, (s1, fold g (visible ?e) out))" "rests holds dk st0 s1"
    using ls_sectors_visible [OF U, of 0 "cluster_sector fs c" dk st0 visit g st out] V(1) c(5) Suc.prems(3)
    by (auto simp: cluster_sectors_def comp_def Let_def)
  show ?case
  proof (cases "ended ?e")
    case True
    then show ?thesis using c(1,2) f unfolding d by (intro exI [of _ s1], subst ls_clusters.simps) (simp add: visible_append)
  next
    case False
    have "lock (cache_lock s1) = 0" "holds dk (dev_state s1)" "valid (fat_sector_of fs c)" using restsD [OF f(2)] L c(5) by simp_all
    from next_cluster [OF U this] obtain e where
      nc: "fat32_next_cluster fs c s1 = Some (?nx, s1\<lparr>dev_state := e\<rparr>)" "holds dk e" by (auto simp: next_of_def)
    have "n = length (chain ?nx)" using Suc.hyps(2) c(3) by simp
    from Suc.hyps(1) [OF this c(4) V(2) [OF False] rests_update [OF f(2) nc(2)], of "fold g (visible ?e) out"] obtain s2 where
      "rests holds dk st0 s2" "ls_clusters visit fs ?nx (s1\<lparr>dev_state := e\<rparr>, fold g (visible ?e) out) =
        Some (s2, fold g (visible (dir_entries fs dk (chain ?nx))) (fold g (visible ?e) out))" by blast
    then show ?thesis using c(1,2) f(1) nc(1) False unfolding d
      by (intro exI [of _ s2], subst ls_clusters.simps) (simp add: visible_append)
  qed
qed

end

subsection \<open>The tree a listing shows\<close>

text \<open>
  The directory tree on the disk, cut at a depth; the listing of a tree and the number of its files and directories.
\<close>

datatype node = File_node fat32_dirent | Dir_node fat32_dirent "node list" | Cut

definition is_dir :: "fat32_dirent \<Rightarrow> bool" where
  "is_dir de \<longleftrightarrow> de_attr de AND FAT32_ATTR_DIRECTORY \<noteq> 0"

fun forest :: "(u32 \<Rightarrow> fat32_dirent list) \<Rightarrow> nat \<Rightarrow> u32 \<Rightarrow> node list" where
  "forest ls 0 c = [Cut]"
| "forest ls (Suc k) c = map (\<lambda>de. if is_dir de then Dir_node de (forest ls k (dirent_cluster de)) else File_node de) (ls c)"

fun n_files :: "node \<Rightarrow> nat" where
  "n_files (File_node de) = 1"
| "n_files (Dir_node de ns) = sum_list (map n_files ns)"
| "n_files Cut = 0"

fun n_dirs :: "node \<Rightarrow> nat" where
  "n_dirs (File_node de) = 0"
| "n_dirs (Dir_node de ns) = 1 + sum_list (map n_dirs ns)"
| "n_dirs Cut = 0"

definition name_of :: "fat32_dirent \<Rightarrow> u8 list" where
  "name_of de = as_string (fat32_name_to_string de)"

definition size_call :: "u32 \<Rightarrow> print_call" where
  "size_call n =
     (if n < 1024 then Printk (c_str '' (%u B)\<newline>'') [Int_arg n]
      else if n < 1024 * 1024 then Printk (c_str '' (%u KB)\<newline>'') [Int_arg (n div 1024)]
      else Printk (c_str '' (%u MB)\<newline>'') [Int_arg (n div (1024 * 1024))])"

fun show_node :: "nat \<Rightarrow> u8 list \<Rightarrow> node \<Rightarrow> print_call list" where
  "show_node depth path (File_node de) =
     [Printk (c_str ''%s[FILE] %s'') [Str_arg (replicate (depth * 2) 0x20), Str_arg (name_of de)], size_call (de_size de)]"
| "show_node depth path (Dir_node de ns) =
     Printk (c_str ''%s[DIR]  %s/\<newline>'') [Str_arg (replicate (depth * 2) 0x20), Str_arg (name_of de)] #
     concat (map (show_node (depth + 1) (sub_path path (name_of de))) ns)"
| "show_node depth path Cut = [Printk (c_str ''%s  [... depth limit reached]\<newline>'') [Str_arg path]]"

definition add_nodes :: "nat \<Rightarrow> u8 list \<Rightarrow> node list \<Rightarrow> listing \<Rightarrow> listing" where
  "add_nodes depth path ns out =
     \<lparr>prints = prints out @ concat (map (show_node depth path) ns),
      file_count = file_count out + of_nat (sum_list (map n_files ns)),
      dir_count = dir_count out + of_nat (sum_list (map n_dirs ns))\<rparr>"

lemma add_nodes_Nil: "add_nodes depth path [] out = out"
  by (simp add: add_nodes_def)

lemma add_nodes_Cons: "add_nodes depth path (n # ns) out = add_nodes depth path ns (add_nodes depth path [n] out)"
  by (simp add: add_nodes_def algebra_simps)

lemma add_file: "file_entry (replicate (depth * 2) 0x20) de out = add_nodes depth path [File_node de] out"
  by (cases out) (simp add: file_entry_def add_nodes_def out_printk_def size_call_def name_of_def Let_def)

lemma add_dir:
  "add_nodes (depth + 1) (sub_path path (name_of de)) ns (dir_entry (replicate (depth * 2) 0x20) de out) = add_nodes depth path [Dir_node de ns] out"
  by (cases out) (simp add: dir_entry_def add_nodes_def out_printk_def name_of_def algebra_simps)

lemma fold_nodes: "(\<And>x o1. g x o1 = add_nodes depth path [h x] o1) \<Longrightarrow> fold g xs out = add_nodes depth path (map h xs) out"
proof (induction xs arbitrary: out)
  case (Cons x xs)
  have "fold g (x # xs) out = add_nodes depth path (map h xs) (add_nodes depth path [h x] out)"
    by (simp only: fold.simps comp_apply Cons.prems Cons.IH [OF Cons.prems])
  also have "\<dots> = add_nodes depth path (map h (x # xs)) out" using add_nodes_Cons [of depth path "h x" "map h xs" out] by simp
  finally show ?case .
qed (simp add: add_nodes_Nil)

definition dir_list :: "'d fat32_fs \<Rightarrow> disk \<Rightarrow> (u32 \<Rightarrow> u32 list) \<Rightarrow> u32 \<Rightarrow> fat32_dirent list" where
  "dir_list fs dk chain c = visible (dir_entries fs dk (chain c))"

definition volume_ok :: "(u32 \<Rightarrow> bool) \<Rightarrow> 'd fat32_fs \<Rightarrow> disk \<Rightarrow> (u32 \<Rightarrow> u32 list) \<Rightarrow> u32 set \<Rightarrow> bool" where
  "volume_ok valid fs dk chain K \<longleftrightarrow> chains valid fs dk chain K \<and> root_cluster (bpb fs) \<in> K \<and>
     (\<forall>c \<in> K. \<forall>de \<in> set (dir_list fs dk chain c). is_dir de \<longrightarrow> dirent_cluster de \<in> K)"

context sector_reader
begin

lemma list_dir_recursive_tree:
  assumes U: "reads_with fs rd" and L: "lock (cache_lock st0) = 0" and C: "volume_ok valid fs dk chain K" "c \<in> K" and R: "rests holds dk st0 st"
  shows "\<exists>st'. rests holds dk st0 st' \<and> fat32_list_dir_recursive fs c path depth (st, out) =
    Some (st', add_nodes depth path (forest (dir_list fs dk chain) (11 - depth) c) out)"
  using C(2) R
proof (induction "11 - depth" arbitrary: c path depth out st)
  case 0
  then have "10 < depth" by simp
  then show ?case using 0 by (intro exI [of _ st], subst fat32_list_dir_recursive.simps) (cases out, simp add: add_nodes_def out_printk_def)
next
  case (Suc k)
  let ?ls = "dir_list fs dk chain" and ?pre = "replicate (depth * 2) 0x20"
  have d: "\<not> 10 < depth" "k = 11 - (depth + 1)" "11 - depth = Suc k" using Suc.hyps(2) by simp_all
  have K: "chains valid fs dk chain K" "\<And>de. de \<in> set (?ls c) \<Longrightarrow> is_dir de \<Longrightarrow> dirent_cluster de \<in> K"
    using C(1) Suc.prems(1) unfolding volume_ok_def by blast+
  let ?h = "\<lambda>de. if is_dir de then Dir_node de (forest ?ls k (dirent_cluster de)) else File_node de"
  define g where "g de o1 = add_nodes depth path [?h de] o1" for de o1
  let ?v = "\<lambda>de (st, out). if de_attr de AND FAT32_ATTR_DIRECTORY \<noteq> 0 then
      fat32_list_dir_recursive fs (dirent_cluster de) (sub_path path (as_string (fat32_name_to_string de))) (depth + 1) (st, dir_entry ?pre de out)
      else Some (st, file_entry ?pre de out)"
  have "\<exists>s'. rests holds dk st0 s' \<and> ?v de (s, o1) = Some (s', g de o1)" if de: "de \<in> set (?ls c)" and s: "rests holds dk st0 s" for de s o1
  proof (cases "is_dir de")
    case True
    from Suc.hyps(1) [OF d(2) K(2) [OF de True] s, of "sub_path path (name_of de)" "dir_entry ?pre de o1"] show ?thesis
      using True add_dir [of depth path de "forest ?ls k (dirent_cluster de)" o1] by (simp add: g_def is_dir_def name_of_def d(2))
  next
    case False
    then show ?thesis using s add_file [of depth de o1 path] by (intro exI [of _ s]) (simp add: g_def is_dir_def)
  qed
  then have "visits (rests holds dk st0) ?v g (?ls c)" unfolding visits_def by blast
  then obtain st' where "ls_clusters ?v fs c (st, out) = Some (st', fold g (?ls c) out)" and r: "rests holds dk st0 st'"
    using ls_clusters_visible [OF U L K(1) Suc.prems(1) _ Suc.prems(2), of ?v g out] unfolding dir_list_def by blast
  moreover have "fold g (?ls c) out = add_nodes depth path (forest ?ls (Suc k) c) out"
    by (simp add: fold_nodes [of g depth path ?h] g_def)
  ultimately have "fat32_list_dir_recursive fs c path depth (st, out) = Some (st', add_nodes depth path (forest ?ls (Suc k) c) out)"
    using d(1) by (subst fat32_list_dir_recursive.simps) (simp add: Let_def)
  then show ?case using r unfolding d(3) by blast
qed

end

subsection \<open>What is printed\<close>

definition ls_head :: "print_call list" where
  "ls_head = map (\<lambda>s. Printk (c_str s) [])
     [''\<newline>'', frame_line, '' FAT32 Disk Contents (Recursive)\<newline>'', frame_line, ''\<newline>'', ''/\<newline>'']"

definition ls_total :: "nat \<Rightarrow> nat \<Rightarrow> print_call" where
  "ls_total f d = Printk (c_str ''Total: %d files, %d directories\<newline>'') [Int_arg (of_nat f), Int_arg (of_nat d)]"

definition ls_foot :: "nat \<Rightarrow> nat \<Rightarrow> print_call list" where
  "ls_foot f d = [Printk (c_str ''\<newline>'') [], Printk (c_str rule_line) [], ls_total f d, Printk (c_str frame_line) [], Printk (c_str ''\<newline>'') []]"

definition tree_of :: "'d fat32_fs \<Rightarrow> disk \<Rightarrow> (u32 \<Rightarrow> u32 list) \<Rightarrow> node list" where
  "tree_of fs dk chain = forest (dir_list fs dk chain) 11 (root_cluster (bpb fs))"

definition tree_listing :: "node list \<Rightarrow> listing" where
  "tree_listing F = (let f = sum_list (map n_files F); d = sum_list (map n_dirs F) in
     \<lparr>prints = ls_head @ concat (map (show_node 0 []) F) @ ls_foot f d, file_count = of_nat f, dir_count = of_nat d\<rparr>)"

context sector_reader
begin

lemma ls_recursive_listing:
  assumes U: "reads_with fs rd" and L: "lock (cache_lock st) = 0" and H: "holds dk (dev_state st)" and C: "volume_ok valid fs dk chain K"
  shows "\<exists>d. fat32_ls_recursive (Some fs) st = Some (st\<lparr>dev_state := d\<rparr>, tree_listing (tree_of fs dk chain)) \<and> holds dk d"
proof -
  have r: "rests holds dk st st" using H by (rule rests_refl)
  have "root_cluster (bpb fs) \<in> K" using C by (simp add: volume_ok_def)
  then have "\<exists>st'. rests holds dk st st' \<and> fat32_list_dir_recursive fs (root_cluster (bpb fs)) [] 0 (st, out) =
      Some (st', add_nodes 0 [] (tree_of fs dk chain) out)" for out
    using list_dir_recursive_tree [OF U L C _ r, of _ "[]" 0 out] by (simp add: tree_of_def)
  then obtain st' where "rests holds dk st st'" "fat32_list_dir_recursive fs (root_cluster (bpb fs)) [] 0
      (st, \<lparr>prints = ls_head, file_count = 0, dir_count = 0\<rparr>) =
      Some (st', add_nodes 0 [] (tree_of fs dk chain) \<lparr>prints = ls_head, file_count = 0, dir_count = 0\<rparr>)" by blast
  then have "fat32_ls_recursive (Some fs) st = Some (st', tree_listing (tree_of fs dk chain))" "rests holds dk st st'"
    by (simp_all add: fat32_ls_recursive_def Let_def add_nodes_def out_printk_def tree_listing_def ls_head_def ls_foot_def ls_total_def)
  then show ?thesis by (auto simp: rests_def)
qed

end

subsection \<open>The buffers\<close>

fun arg_ok :: "karg \<Rightarrow> bool" where
  "arg_ok (Str_arg s) \<longleftrightarrow> length s \<le> 252 \<and> 0 \<notin> set s"
| "arg_ok (Int_arg v) \<longleftrightarrow> True"

fun call_ok :: "print_call \<Rightarrow> bool" where
  "call_ok (Printk fmt args) \<longleftrightarrow> list_all arg_ok args"
| "call_ok (Klog level fmt args) \<longleftrightarrow> list_all arg_ok args"

lemma name_length: "length (fat32_name_to_string de) \<le> 12"
  using length_takeWhile_le [of "\<lambda>c. c \<noteq> 0x20" "take 8 (de_name de)"] length_takeWhile_le [of "\<lambda>c. c \<noteq> 0x20" "take 3 (de_ext de)"]
  by (simp add: fat32_name_to_string_def Let_def)

lemma name_of_ok: "length (name_of de) \<le> 12" "0 \<notin> set (name_of de)"
  using name_length [of de] length_takeWhile_le [of "\<lambda>c. c \<noteq> 0" "fat32_name_to_string de"]
  by (auto simp: name_of_def as_string_def dest: set_takeWhileD)

lemma sub_path_ok: "arg_ok (Str_arg path) \<Longrightarrow> arg_ok (Str_arg (sub_path path (name_of de)))"
  using name_of_ok [of de] by (auto simp: sub_path_def)

lemma show_forest_ok:
  assumes "depth + k = 11" "arg_ok (Str_arg path)"
  shows "list_all call_ok (concat (map (show_node depth path) (forest ls k c)))"
  using assms
proof (induction k arbitrary: depth path c)
  case (Suc k)
  have "list_all call_ok (show_node depth path (if is_dir de then Dir_node de (forest ls k (dirent_cluster de)) else File_node de))" for de
    using Suc.IH [of "depth + 1" "sub_path path (name_of de)" "dirent_cluster de"] Suc.prems sub_path_ok name_of_ok [of de]
    by (auto simp: size_call_def)
  then show ?case by (auto simp: list_all_iff)
qed simp


subsection \<open>Properties\<close>

text \<open>
  Claim C11. On a working disk whose cluster chains end, \<open>fat32_ls_recursive\<close> returns, even when directories contain each other, and
  lists the directory tree from the root down to eleven levels, each visible entry once and in the order of
  the disk; the totals it prints are the numbers of files and directories listed. The contents of the disk stay as they are.
\<close>

theorem ls_recursive_shows_tree:
  fixes st :: "('d, 'a) fat_state_scheme"
  assumes D: "sector_reader rd valid holds" "reads_with fs rd" and L: "lock (cache_lock st) = 0" and H: "holds dk (dev_state st)"
    and C: "volume_ok valid fs dk chain K"
  shows "\<exists>d. fat32_ls_recursive (Some fs) st = Some (st\<lparr>dev_state := d\<rparr>, tree_listing (tree_of fs dk chain)) \<and> holds dk d"
  using sector_reader.ls_recursive_listing [OF D L H C] .

text \<open>The file of the example and a directory that contains itself.\<close>

definition loop_entry :: fat32_dirent where
  "loop_entry = (new_entry (to_8_3 [0x42]) 2)\<lparr>de_attr := FAT32_ATTR_DIRECTORY\<rparr>"

definition loop_disk :: disk where
  "loop_disk = ram_root (dirent_bytes hello_entry @ dirent_bytes loop_entry @ replicate 448 0)"

lemma loop_entry_facts:
  "dirent_ok loop_entry" "dirent_cluster loop_entry = 2" "de_attr loop_entry = 0x10" "rd8 (dirent_bytes loop_entry) 0 = 0x42"
proof -
  note n = new_entry_facts [OF to_8_3_length [of "[0x42]"], of 2]
  show "dirent_ok loop_entry" "dirent_cluster loop_entry = 2" "de_attr loop_entry = 0x10"
    using n by (simp_all add: loop_entry_def dirent_ok_def dirent_cluster_def)
  have "to_8_3 [0x42] ! 0 = 0x42" using to_8_3_first [of "[0x42]"] by (simp add: upcase_def)
  then show "rd8 (dirent_bytes loop_entry) 0 = 0x42"
    by (simp add: loop_entry_def new_entry_def dirent_bytes_def rd8_def nth_append to_8_3_length)
qed

definition loop_chain :: "u32 \<Rightarrow> u32 list" where
  "loop_chain c = (if c = 2 then [2] else [])"

lemma loop_volume:
  "ram_sec loop_disk = loop_disk" "dir_list ram_fs loop_disk loop_chain 2 = [hello_entry, loop_entry]"
  "volume_ok (\<lambda>_. True) ram_fs loop_disk loop_chain {2, NO_CLUSTER}"
proof -
  let ?b = "dirent_bytes hello_entry @ dirent_bytes loop_entry @ replicate 448 0"
  note l = dirent_bytes_length [OF hello_entry_facts(1)] dirent_bytes_length [OF loop_entry_facts(1)]
  have b: "length ?b = 512" using l by simp
  then show "ram_sec loop_disk = loop_disk" unfolding loop_disk_def by (rule ram_root_sec)
  have e: "entry_at ?b 0 = dirent_bytes hello_entry" "entry_at ?b 1 = dirent_bytes loop_entry" "rd8 (entry_at ?b 2) 0 = 0"
    using l by (simp_all add: entry_at_def rd8_def)
  have u: "[0..<16] = 0 # 1 # 2 # [3..<16]" by (simp add: upt_rec)
  have "dir_entries ram_fs loop_disk [2] = map (\<lambda>i. (entry_at ?b i, 40, of_nat i)) [0..<16]"
    unfolding dir_entries_flat ram_root_sectors by (simp add: loop_disk_def ram_root_def sector_entries_def)
  moreover have "shown (dirent_bytes hello_entry, 40, 0)" "shown (dirent_bytes loop_entry, 40, 1)"
    using hello_entry_facts loop_entry_facts by (simp_all add: shown_def dirent_of_bytes)
  ultimately show d: "dir_list ram_fs loop_disk loop_chain 2 = [hello_entry, loop_entry]"
    using e hello_entry_facts loop_entry_facts unfolding dir_list_def loop_chain_def u
    by (simp add: visible_Cons dirent_of_bytes)
  have "fat_get ram_fs loop_disk 2 = 0x0FFFFFFF"
    unfolding loop_disk_def by (subst ram_root_get) (simp_all add: fat_index_def fat_sector_of_def ram_fs_def)
  then have "next_of ram_fs loop_disk 2 = NO_CLUSTER" by (simp add: next_of_def)
  moreover have "dir_list ram_fs loop_disk loop_chain NO_CLUSTER = []" by (simp add: dir_list_def loop_chain_def dir_entries_def visible_def)
  moreover have "root_cluster (bpb ram_fs) = 2" by (simp add: ram_fs_def)
  ultimately show "volume_ok (\<lambda>_. True) ram_fs loop_disk loop_chain {2, NO_CLUSTER}"
    using d hello_entry_facts(4) loop_entry_facts(2) by (auto simp: volume_ok_def chains_def loop_chain_def is_dir_def)
qed

lemma loop_still: "ram_still loop_disk loop_disk (dev_state (ram_state loop_disk []))"
  by (simp add: ram_still_def loop_volume(1))

theorem ls_recursive_shows_tree_witness:
  "\<exists>out. fat32_ls_recursive (Some ram_fs) (ram_state loop_disk []) = Some (ram_state loop_disk [], out) \<and> file_count out = 11 \<and> dir_count out = 11"
proof -
  note v = loop_volume
  have "fat32_ls_recursive (Some ram_fs) (ram_state loop_disk []) = Some (ram_state loop_disk [], tree_listing (tree_of ram_fs loop_disk loop_chain))"
    using ls_recursive_shows_tree [OF ram_reader(1,2) _ loop_still v(3)] by (auto simp: ram_still_def)
  moreover have "is_dir loop_entry" "\<not> is_dir hello_entry" using hello_entry_facts(4) loop_entry_facts(3) by (simp_all add: is_dir_def)
  then have "sum_list (map n_files (forest (dir_list ram_fs loop_disk loop_chain) k 2)) = k \<and>
      sum_list (map n_dirs (forest (dir_list ram_fs loop_disk loop_chain) k 2)) = k" for k
    by (induction k) (simp_all add: v(2) loop_entry_facts(2))
  moreover have "root_cluster (bpb ram_fs) = 2" by (simp add: ram_fs_def)
  ultimately show ?thesis by (simp add: tree_listing_def tree_of_def Let_def)
qed



text \<open>\<open>fat32_ls\<close> lists the root directory, whatever path it is given.\<close>

definition flat_call :: "fat32_dirent \<Rightarrow> print_call" where
  "flat_call de =
     (if is_dir de then Printk (c_str ''%s[DIR]  %s\<newline>'') [Str_arg [], Str_arg (name_of de)]
      else Printk (c_str ''%s[FILE] %s (%u bytes)\<newline>'') [Str_arg [], Str_arg (name_of de), Int_arg (de_size de)])"

lemma flat_fold: "fold (flat_entry []) ds out = \<lparr>prints = prints out @ map flat_call ds,
    file_count = file_count out + of_nat (length (filter (\<lambda>de. \<not> is_dir de) ds)),
    dir_count = dir_count out + of_nat (length (filter is_dir ds))\<rparr>"
  by (induction ds arbitrary: out) (auto simp: flat_entry_def out_printk_def flat_call_def is_dir_def name_of_def)

theorem ls_lists_root:
  fixes st :: "('d, 'a) fat_state_scheme"
  assumes D: "sector_reader rd valid holds" "reads_with fs rd" and L: "lock (cache_lock st) = 0" and H: "holds dk (dev_state st)"
    and C: "volume_ok valid fs dk chain K"
  shows "\<exists>st' out. fat32_ls (Some fs) path st = Some (st', out) \<and> rests holds dk st st' \<and>
    drop 3 (prints out) = map flat_call (dir_list fs dk chain (root_cluster (bpb fs))) @ drop (length (prints out) - 3) (prints out)"
proof -
  let ?ls = "dir_list fs dk chain (root_cluster (bpb fs))" and ?v = "\<lambda>de (st, out). Some (st, flat_entry [] de out)"
  have K: "chains valid fs dk chain K" "root_cluster (bpb fs) \<in> K" using C by (simp_all add: volume_ok_def)
  have r: "rests holds dk st st" using H by (rule rests_refl)
  have "visits (rests holds dk st) ?v (flat_entry []) ?ls" by (simp add: visits_def)
  then have f: "\<exists>st'. rests holds dk st st' \<and> fat32_list_dir_flat fs (root_cluster (bpb fs)) [] (st, o1) = Some (st', fold (flat_entry []) ?ls o1)" for o1
    using sector_reader.ls_clusters_visible [OF D L K _ r, of ?v "flat_entry []" o1]
    unfolding fat32_list_dir_flat_def dir_list_def by blast
  let ?o = "\<lparr>prints = [Printk (c_str ''\<newline>'') [], Printk (c_str ''Listing: %s\<newline>'') [Str_arg (case path of Some p \<Rightarrow> p | None \<Rightarrow> c_str ''/'')],
    Printk (c_str rule_line) []], file_count = 0, dir_count = 0\<rparr>"
  obtain st' where "rests holds dk st st'" "fat32_list_dir_flat fs (root_cluster (bpb fs)) [] (st, ?o) = Some (st', fold (flat_entry []) ?ls ?o)"
    using f by blast
  then show ?thesis by (intro exI [of _ st']) (simp add: fat32_ls_def Let_def out_printk_def flat_fold)
qed

end
