(* ===== verification/Kernel_Proofs.thy ===== *)
theory Kernel_Proofs
  imports Kernel Fat32_Ls_Proofs Klog_Proofs
begin

unbundle bit_operations_syntax

text \<open>
  The parts together: with a FAT32 volume on the disk the kernel mounts it, lists it and prints
  \<^verbatim>\<open>/root/hello.txt\<close>.
\<close>

subsection \<open>Mounting\<close>

text \<open>The file system that a boot sector describes.\<close>

definition volume_of :: "'d blockdev \<Rightarrow> u8 list \<Rightarrow> 'd fat32_fs" where
  "volume_of dv b =
     (let p = bpb_of b; fstart = ucast (reserved_sectors p) in
      \<lparr>bpb = p, dev = Some dv, fat_start = fstart, data_start = fstart + ucast (num_fats p) * sectors_per_fat p,
       bytes_per_cluster = ucast (bytes_per_sector p) * ucast (sectors_per_cluster p)\<rparr>)"

definition bootable :: "u8 list \<Rightarrow> bool" where
  "bootable b \<longleftrightarrow> is_fat32_direct b \<and> sectors_per_cluster (bpb_of b) \<noteq> 0 \<and> num_fats (bpb_of b) \<noteq> 0 \<and> \<not> root_cluster (bpb_of b) < 2"

lemma bootable_volume:
  assumes "bootable b"
  shows "validate_fs (Some (volume_of dv b))" "geometry_ok (volume_of dv b)"
proof -
  have "bytes_per_sector (bpb_of b) = 512" using assms by (simp add: bootable_def is_fat32_direct_def Let_def)
  then show "validate_fs (Some (volume_of dv b))" "geometry_ok (volume_of dv b)"
    using assms by (simp_all add: bootable_def validate_fs_def geometry_ok_def volume_of_def Let_def)
qed

lemma kmalloc_keeps:
  fixes st t :: "('d, 'a) fatvfs_state_scheme"
  assumes "kmalloc st n = Some (p, t)"
  shows "dev_state t = dev_state st" "cache_lock t = cache_lock st" "open_files t = open_files st" "vfs_handles t = vfs_handles st"
  using more_fields [OF kmalloc_more [OF assms]] by simp_all

lemma volume_reads: "bd_read dv = Some rd \<Longrightarrow> reads_with (volume_of dv b) rd"
  by (simp add: reads_with_def volume_of_def Let_def)

context sector_reader
begin

lemma mount_volume:
  fixes st :: "('d, 'a) fatvfs_state_scheme"
  assumes D: "bd_read dv = Some rd" and H: "holds dk (dev_state st)" and b: "bootable (dk 0)" "valid 0" and R: "room st k xs" "600 \<le> k"
  shows "\<exists>p t. fat32_mount (Some dv) st = Some (Some (volume_of dv (dk 0)), t) \<and> room t (k - 568) (p # xs) \<and>
    holds dk (dev_state t) \<and> cache_lock t = cache_lock st \<and> open_files t = open_files st \<and> vfs_handles t = vfs_handles st"
proof -
  let ?b = "dk 0"
  obtain e where rd: "rd (dev_state st) 0 1 = (0, ?b, e)" "holds dk e" using read_law [OF H b(2)] by blast
  let ?st = "st\<lparr>dev_state := e\<rparr>"
  have p: "mount_probe (Some dv) st = (Some (?b, True), ?st)" using D rd(1) b by (simp add: mount_probe_def bootable_def)
  have r: "round_size 536 = 544" by (simp add: round_size_def)
  have "room ?st k xs" using R(1) by simp
  from room_kmalloc [OF this, of 536] R(2) obtain a t where t: "kmalloc ?st 536 = Some (a, t)" "a \<noteq> NULL" "room t (k - 568) (a # xs)"
    by (auto simp: r)
  note m = kmalloc_keeps [OF t(1)]
  have "bytes_per_sector (bpb_of ?b) = 512" using b by (simp add: bootable_def is_fat32_direct_def Let_def)
  then have "fat32_mount (Some dv) st = Some (Some (volume_of dv ?b), t)"
    using p b t by (simp add: fat32_mount_def bootable_def volume_of_def Let_def)
  then show ?thesis using t(3) m rd(2) by auto
qed

end

lemma create_context:
  fixes st :: "('d, 'a) fatvfs_state_scheme"
  assumes "room st k xs" "100 \<le> k"
  shows "\<exists>p t. vfs_create_fat32_context (Some fs) st = Some (Some \<lparr>ctx_addr = p, fatfs = Some fs\<rparr>, t) \<and> room t (k - 40) (p # xs) \<and>
    dev_state t = dev_state st \<and> cache_lock t = cache_lock st \<and> open_files t = open_files st \<and> vfs_handles t = vfs_handles st"
proof -
  have r: "round_size 8 = 16" by (simp add: round_size_def)
  obtain p t where t: "kmalloc st 8 = Some (p, t)" "p \<noteq> NULL" "room t (k - 40) (p # xs)"
    using room_kmalloc [OF assms(1), of 8] assms(2) by (auto simp: r)
  note m = kmalloc_keeps [OF t(1)]
  have "vfs_create_fat32_context (Some fs) st = Some (Some \<lparr>ctx_addr = p, fatfs = Some fs\<rparr>, t)"
    using t(1,2) by (simp add: vfs_create_fat32_context_def)
  then show ?thesis using t(3) m by blast
qed

lemma mount_fat:
  fixes st :: "('d, 'a) fatvfs_state_scheme" and v :: "(('d, 'a) fatvfs_state_scheme, 'd fat32_vfs_context option) vfs"
  assumes R: "room st 1000 xs" and v: "\<not> vfs_initialized v"
  shows "\<exists>w p q t. vfs_mount (Some (c_str ''/mnt'')) (Some vfs_get_fat32_ops) (Some \<lparr>ctx_addr = a, fatfs = Some fs\<rparr>) v st = Some (0, w, t) \<and>
    fat_mounted w fs \<and> vfs_dump_mounts w = [(MNT_PATH, True)] \<and> vfs_files w = vfs_files v \<and> room t 800 (p # q # xs) \<and>
    dev_state t = dev_state st \<and> cache_lock t = cache_lock st \<and> open_files t = open_files st \<and> vfs_handles t = vfs_handles st"
proof -
  have r: "round_size 32 = 32" "round_size 5 = 16" by (simp_all add: round_size_def)
  obtain m s1 where m: "kmalloc st 32 = Some (m, s1)" "m \<noteq> NULL" "room s1 944 (m # xs)"
    using room_kmalloc [OF R, of 32] by (auto simp: r)
  obtain p s2 where p: "kmalloc s1 5 = Some (p, s2)" "p \<noteq> NULL" "room s2 904 (p # m # xs)"
    using room_kmalloc [OF m(3), of 5] by (auto simp: r)
  have n: "normalize_path (take 255 MNT_PATH) = Some MNT_PATH" using normalize_path_of [of "[MNT_NAME]"] mnt_facts by simp
  have l: "of_nat (length MNT_PATH) + 1 = (5 :: u64)" by (simp add: mnt_facts(3))
  have c: "c_str ''/mnt'' = MNT_PATH" by (simp add: c_str_def MNT_PATH_def)
  let ?m = "\<lparr>m_addr = m, m_path = MNT_PATH, m_path_addr = p, m_ops = fat32_vfs_ops, private_data = Some \<lparr>ctx_addr = a, fatfs = Some fs\<rparr>\<rparr>"
  let ?w = "(vfs_init v)\<lparr>mounts := [?m], root_bind := m\<rparr>"
  have "vfs_mount (Some (c_str ''/mnt'')) (Some vfs_get_fat32_ops) (Some \<lparr>ctx_addr = a, fatfs = Some fs\<rparr>) v st = Some (0, ?w, s2)"
    using m(1,2) p(1,2) n l v unfolding c by (simp add: vfs_mount_def vfs_init_def vfs_get_fat32_ops_def Let_def)
  moreover have "fat_mounted ?w fs" using m(2) by (simp add: fat_mounted_def ctx_fs_def)
  moreover have "vfs_dump_mounts ?w = [(MNT_PATH, True)]" by (simp add: vfs_dump_mounts_def)
  moreover have "vfs_files ?w = vfs_files v" using v by (simp add: vfs_init_def)
  moreover have "room s2 800 (p # m # xs)" using p(3) by (rule room_mono) simp
  moreover have "dev_state s2 = dev_state st" "cache_lock s2 = cache_lock st" "open_files s2 = open_files st" "vfs_handles s2 = vfs_handles st"
    using kmalloc_keeps [OF m(1)] kmalloc_keeps [OF p(1)] by simp_all
  ultimately show ?thesis by blast
qed

subsection \<open>The text of the messages\<close>

fun call_text :: "print_call \<Rightarrow> u8 list option" where
  "call_text (Printk fmt args) = format_text True fmt args"
| "call_text (Klog level fmt args) = map_option (\<lambda>cs. klog_prefix level @ cs @ [0x0A]) (format_text False fmt args)"

lemma kputs_snoc: "kputs bus (xs @ [c]) = (\<lambda>cn. Option.bind (kputs bus xs cn) (kputchar bus c))"
  by (simp add: kputs_append kputs_single fun_eq_iff cong: Option.bind_cong)

lemma run_print_text: "call_text c = Some cs \<Longrightarrow> run_print bus c cn = kputs bus cs cn"
  by (cases c) (auto simp: printk_def klog_def format_loop_text kputs_append kputs_snoc)

lemma run_prints_text: "those (map call_text calls) = Some ts \<Longrightarrow> run_prints bus calls cn = kputs bus (concat ts) cn"
proof (induction calls arbitrary: ts cn)
  case (Cons c calls)
  obtain t us where t: "call_text c = Some t" "those (map call_text calls) = Some us" "ts = t # us"
    using Cons.prems by (auto split: option.splits)
  have "run_prints bus calls = kputs bus (concat us)" using Cons.IH [OF t(2)] by blast
  then show ?case using t(1,3) by (simp add: run_print_text kputs_append)
qed simp

text \<open>
  The report of the page allocator shows none of its numbers: \<^verbatim>\<open>klog\<close> has no case for \<^verbatim>\<open>%l\<close>, so \<^verbatim>\<open>%llu\<close> prints \<^verbatim>\<open>lu\<close> whatever the state is.
\<close>

lemma pmm_dump_text:
  assumes "uart_ready bus sent"
  shows "\<exists>c'. pmm_dump bus s c = Some c' \<and> sent (port_state c') = sent (port_state c) @
    c_str (''[INFO] === PMM DUMP ===\<newline>[INFO] Total memory: lu MB\<newline>[INFO] Free memory : lu MB\<newline>'' @
      ''[INFO] Total pages : lu, Free pages: lu\<newline>'')"
proof -
  let ?calls = "[Klog 0 (c_str ''=== PMM DUMP ==='') [],
      Klog 0 (c_str ''Total memory: %llu MB'') [Int_arg (ucast (total_memory s div 1024 div 1024))],
      Klog 0 (c_str ''Free memory : %llu MB'') [Int_arg (ucast (pmm_get_free s div 1024 div 1024))],
      Klog 0 (c_str ''Total pages : %llu, Free pages: %llu'') [Int_arg (ucast (total_pages s)), Int_arg (ucast (free_pages s))]]"
  let ?ts = "map c_str [''[INFO] === PMM DUMP ===\<newline>'', ''[INFO] Total memory: lu MB\<newline>'', ''[INFO] Free memory : lu MB\<newline>'',
      ''[INFO] Total pages : lu, Free pages: lu\<newline>'']"
  have "those (map call_text ?calls) = Some ?ts" by (simp add: c_str_def conv_text_def klog_prefix_def)
  from run_prints_text [OF this] have "pmm_dump bus s c = kputs bus (concat ?ts) c" by (simp add: pmm_dump_def)
  with kputs_ready [OF assms, of "concat ?ts" c] show ?thesis by (auto simp: c_str_def)
qed

lemma those_append: "those (xs @ ys) = (case those xs of None \<Rightarrow> None | Some x \<Rightarrow> map_option (\<lambda>y. x @ y) (those ys))"
  by (cases "those ys"; induction xs) (auto split: option.splits)

lemma those_Some: "(\<forall>x \<in> set xs. x \<noteq> None) \<Longrightarrow> \<exists>ys. those xs = Some ys"
  by (induction xs) auto

text \<open>Up to its first conversion a format stands for itself.\<close>

lemma format_text_Cons: "c \<noteq> 0x25 \<Longrightarrow> format_text pct (c # fmt) args = map_option (Cons c) (format_text pct fmt args)"
  by (cases fmt) auto

lemma format_text_append: "0x25 \<notin> set xs \<Longrightarrow> format_text pct (xs @ fmt) args = map_option (\<lambda>y. xs @ y) (format_text pct fmt args)"
  by (cases "format_text pct fmt args"; induction xs) (auto simp: format_text_Cons)

lemma format_text_plain: "0x25 \<notin> set xs \<Longrightarrow> format_text pct xs args = Some xs"
  using format_text_append [of xs pct "[]" args] by simp

definition file_text :: "u8 list \<Rightarrow> u8 list" where
  "file_text b = c_str ''[INFO] File content ('' @ num_chars (of_nat (length b)) 10 @ c_str '' bytes):\<newline>[INFO] \<newline>>>> '' @
     concat (map (\<lambda>c. if c = 0x0A then c_str ''\<newline>>>> '' else [c]) b) @
     c_str ''\<newline>[INFO] \<newline>[INFO] [SUCCESS] File read successfully!\<newline>''"

lemma c_str_append: "c_str (a @ b) = c_str a @ c_str b"
  by (simp add: c_str_def)

lemma file_calls_text:
  assumes "length b \<le> 255"
  shows "\<exists>ts. those (map call_text (file_calls (int (length b)) b)) = Some ts \<and> concat ts = file_text b"
proof -
  have n: "\<not> sint (of_nat (length b) :: u32) < 0" "scast (of_nat (length b) :: u32) = (of_nat (length b) :: u64)"
    using sint_small [of "of_nat (length b)"] assms by (simp_all add: unat_of_nat scast_eq)
  have cv: "conv_text False 0x64 [Int_arg (of_nat (length b))] = Some (num_chars (of_nat (length b)) 10, [])"
    using n by (simp add: conv_text_def)
  have d: "format_text False (c_str ''File content (%d bytes):'') [Int_arg (of_int (int (length b)))] =
      Some (c_str ''File content ('' @ num_chars (of_nat (length b)) 10 @ c_str '' bytes):'')"
    by (simp add: c_str_def cv)
  have sc: "ucast (scast c :: u32) = c" for c :: u8 by (rule bit_word_eqI) (auto simp: bit_simps)
  have ch: "call_text (if c = 0x0A then Printk (c_str ''\<newline>>>> '') [] else Printk (c_str ''%c'') [Int_arg (scast c)]) =
      Some (if c = 0x0A then c_str ''\<newline>>>> '' else [c])" for c :: u8
    using format_text_plain [of "c_str ''\<newline>>>> ''" True "[]"] by (simp add: c_str_def conv_text_def sc)
  have "those (map (\<lambda>c. Some (f c)) xs) = Some (map f xs)" for f :: "u8 \<Rightarrow> u8 list" and xs by (induction xs) simp_all
  then have m: "those (map (call_text \<circ> (\<lambda>c. if c = 0x0A then Printk (c_str ''\<newline>>>> '') [] else Printk (c_str ''%c'') [Int_arg (scast c)])) b) =
      Some (map (\<lambda>c. if c = 0x0A then c_str ''\<newline>>>> '' else [c]) b)" unfolding comp_def ch .
  have p: "format_text True (c_str ''>>> '') [] = Some (c_str ''>>> '')" "format_text True (c_str ''\<newline>'') [] = Some (c_str ''\<newline>'')"
    "format_text False (c_str ''[SUCCESS] File read successfully!'') [] = Some (c_str ''[SUCCESS] File read successfully!'')"
    by (rule format_text_plain; simp add: c_str_def)+
  show ?thesis using d m p by (simp add: file_calls_def those_append file_text_def klog_prefix_def) (simp add: c_str_def)
qed

lemma has_text:
  "call_text (Printk (c_str ''%s[FILE] %s'') [Str_arg a, Str_arg b]) \<noteq> None"
  "call_text (Printk (c_str ''%s[DIR]  %s/\<newline>'') [Str_arg a, Str_arg b]) \<noteq> None"
  "call_text (Printk (c_str ''%s  [... depth limit reached]\<newline>'') [Str_arg a]) \<noteq> None"
  "call_text (Printk (c_str ''Total: %d files, %d directories\<newline>'') [Int_arg x, Int_arg y]) \<noteq> None"
  "call_text (size_call x) \<noteq> None"
  by (simp_all add: c_str_def conv_text_def size_call_def)

lemma show_node_text: "\<forall>c \<in> set (show_node depth path n). call_text c \<noteq> None"
  by (induction depth path n rule: show_node.induct) (use has_text in auto)

lemma plain_text: "0x25 \<notin> set (c_str s) \<Longrightarrow> call_text (Printk (c_str s) []) \<noteq> None \<and> call_text (Klog l (c_str s) []) \<noteq> None"
  by (simp add: format_text_plain)

lemma tree_listing_text: "\<forall>c \<in> set (prints (tree_listing F)). call_text c \<noteq> None"
proof -
  have p: "\<forall>s \<in> {''\<newline>'', frame_line, '' FAT32 Disk Contents (Recursive)\<newline>'', ''/\<newline>'', rule_line}. 0x25 \<notin> set (c_str s)"
    by (simp add: c_str_def frame_line_def rule_line_def)
  have "\<forall>c \<in> set (ls_head @ ls_foot f d). call_text c \<noteq> None" for f d
    using has_text(4) plain_text p unfolding ls_head_def ls_foot_def ls_total_def by simp
  then show ?thesis using show_node_text by (auto simp: tree_listing_def Let_def)
qed


subsection \<open>The storage phase\<close>

text \<open>What the kernel finds on the disk, and the state of memory and tables it starts from.\<close>

definition volume_ready :: "'d blockdev \<Rightarrow> (u32 \<Rightarrow> bool) \<Rightarrow> (u32 \<Rightarrow> u32 list) \<Rightarrow> u32 set \<Rightarrow> disk \<Rightarrow> bool" where
  "volume_ready dv valid chain K dk \<longleftrightarrow> bootable (dk 0) \<and> valid 0 \<and> volume_ok valid (volume_of dv (dk 0)) dk chain K"

definition store_ready :: "'d fatvfs_state \<Rightarrow> bool" where
  "store_ready st \<longleftrightarrow> room st 3000 [] \<and> lock (cache_lock st) = 0 \<and> length (open_files st) = 64 \<and> free_slot (open_files st) \<noteq> None"

definition storage_calls :: "int \<Rightarrow> node list \<Rightarrow> u8 list \<Rightarrow> print_call list" where
  "storage_calls r F b =
     [Klog 0 (c_str ''Initializing Storage & Filesystem...'') [],
      if r = 0 then Klog 0 (c_str ''  [OK] ATA PIO Drive 0'') [] else Klog 2 (c_str ''  [FAIL] ATA PIO Init'') [],
      Klog 0 (c_str ''  [OK] FAT32 Detected & Parsed'') [],
      Klog 0 (c_str (''  [OK] VFS mounted at '' @ [CHR 0x27] @ ''/mnt'' @ [CHR 0x27])) []] @
     prints (tree_listing F) @ dump_calls [(MNT_PATH, True)] @
     [Klog 0 [] [], Klog 1 (c_str ''--- READING /root/hello.txt ---'') [], Klog 0 [] []] @
     file_calls (int (length b)) b @ [Klog 1 (c_str ''--- TEST COMPLETE ---'') []]"

context sector_reader
begin

lemma kmain_read_ok:
  fixes st :: "'d fatvfs_state" and v :: "'d kernel_vfs"
  assumes M: "fat_mounted v fs" and W: "validate_fs (Some fs)" and U: "reads_with fs rd" and L: "lock (cache_lock st) = 0" and H: "holds dk (dev_state st)"
    and G: "geometry_ok fs" and fa: "file_at valid fs dk (c_str ''/root/hello.txt'') de" "file_bytes valid fs dk de bytes"
    and h: "free_slot (open_files st) = Some i" "length (open_files st) = 64" and R: "room st k xs" "200 \<le> k" and b: "bytes \<noteq> []"
  shows "\<exists>w t. kmain_read v st = Some (file_calls (int (length (take 255 bytes))) (take 255 bytes), w, t) \<and> fat_mounted w fs \<and> holds dk (dev_state t)"
proof -
  let ?b = "take 255 bytes"
  have u: "c_str ''/root/hello.txt'' \<noteq> []" "hd (c_str ''/root/hello.txt'') = SLASH" "length (c_str ''/root/hello.txt'') < 252"
    "0 < unat (255 :: u64)" "unat (255 :: u64) < 2 ^ 31" by (simp_all add: c_str_def)
  have n: "unat (255 :: u64) = 255" by simp
  from open_read_close [OF M W U L H G u(1-3) fa h R u(4,5)] obtain f v1 st1 v2 st2 st3 where
    o: "vfs_open (Some (c_str ''/root/hello.txt'')) VFS_READ v st = Some (0, f, v1, st1)"
      "vfs_read f True 255 v1 st1 = Some (int (length ?b), ?b, v2, st2)"
      "vfs_close f v2 st2 = Some (0, v\<lparr>vfs_files := (vfs_files v)(f := None)\<rparr>, st3)" "holds dk (dev_state st3)"
    unfolding n by blast
  have "file_calls (int (length ?b)) (?b @ x) = file_calls (int (length ?b)) ?b" for x by (simp add: file_calls_def)
  moreover have "0 < int (length ?b)" using b by simp
  ultimately have "kmain_read v st = Some (file_calls (int (length ?b)) ?b, v\<lparr>vfs_files := (vfs_files v)(f := None)\<rparr>, st3)"
    using o(1-3) by (simp add: kmain_read_def Let_def)
  moreover have "fat_mounted (v\<lparr>vfs_files := (vfs_files v)(f := None)\<rparr>) fs" using M by (simp add: fat_mounted_files)
  ultimately show ?thesis using o(4) by blast
qed

lemma kmain_storage_ok:
  fixes st :: "'d fatvfs_state" and v :: "'d kernel_vfs"
  assumes D: "bd_read dv = Some rd" and H: "holds dk (ata_init (dev_state st))" and V: "volume_ready dv valid chain K dk"
    and S: "store_ready st" and v: "\<not> vfs_initialized v" and fs: "fs = volume_of dv (dk 0)"
    and fa: "file_at valid fs dk (c_str ''/root/hello.txt'') de" "file_bytes valid fs dk de bytes" "bytes \<noteq> []"
  shows "\<exists>w t. kmain_storage dv ata_init r v st = Some (storage_calls r (tree_of fs dk chain) (take 255 bytes), w, t) \<and>
    fat_mounted w fs \<and> holds dk (dev_state t)"
proof -
  let ?s = "st\<lparr>dev_state := ata_init (dev_state st)\<rparr>"
  have B: "bootable (dk 0)" "valid 0" and C: "volume_ok valid fs dk chain K" and U: "reads_with fs rd"
    using V volume_reads [OF D] unfolding volume_ready_def fs by blast+
  have R: "room ?s 3000 []" "holds dk (dev_state ?s)" using S H by (simp_all add: store_ready_def)
  from mount_volume [OF D R(2) B R(1)] obtain p1 s1 where
    m: "fat32_mount (Some dv) ?s = Some (Some fs, s1)" "room s1 2432 [p1]" "holds dk (dev_state s1)" "cache_lock s1 = cache_lock st"
      "open_files s1 = open_files st" unfolding fs by auto
  from create_context [OF m(2), of fs] obtain p2 s2 where
    c: "vfs_create_fat32_context (Some fs) s1 = Some (Some \<lparr>ctx_addr = p2, fatfs = Some fs\<rparr>, s2)" "room s2 2392 [p2, p1]"
      "holds dk (dev_state s2)" "cache_lock s2 = cache_lock st" "open_files s2 = open_files st" using m(3-5) by auto
  have "room s2 1000 [p2, p1]" using c(2) by (rule room_mono) simp
  from mount_fat [OF this v, of p2 fs] obtain w p3 p4 s3 where
    w: "vfs_mount (Some (c_str ''/mnt'')) (Some vfs_get_fat32_ops) (Some \<lparr>ctx_addr = p2, fatfs = Some fs\<rparr>) v s2 = Some (0, w, s3)"
      "fat_mounted w fs" "vfs_dump_mounts w = [(MNT_PATH, True)]" "room s3 800 [p3, p4, p2, p1]"
      "holds dk (dev_state s3)" "cache_lock s3 = cache_lock st" "open_files s3 = open_files st" using c(3-5) by auto
  have L: "lock (cache_lock s3) = 0" using S w(6) by (simp add: store_ready_def)
  from ls_recursive_listing [OF U L w(5) C] obtain e where
    ls: "fat32_ls_recursive (Some fs) s3 = Some (s3\<lparr>dev_state := e\<rparr>, tree_listing (tree_of fs dk chain))" "holds dk e" by blast
  let ?s4 = "s3\<lparr>dev_state := e\<rparr>"
  obtain i where i: "free_slot (open_files ?s4) = Some i" "length (open_files ?s4) = 64"
    using S w(7) by (auto simp: store_ready_def)
  have s4: "lock (cache_lock ?s4) = 0" "holds dk (dev_state ?s4)" "room ?s4 800 [p3, p4, p2, p1]" using L ls(2) w(4) by simp_all
  note bv = bootable_volume [OF B(1), of dv, folded fs]
  from kmain_read_ok [OF w(2) bv(1) U s4(1,2) bv(2) fa(1,2) i s4(3) _ fa(3)] obtain z t where
    z: "kmain_read w ?s4 = Some (file_calls (int (length (take 255 bytes))) (take 255 bytes), z, t)" "fat_mounted z fs" "holds dk (dev_state t)"
    by auto
  have "kmain_storage dv ata_init r v st = Some (storage_calls r (tree_of fs dk chain) (take 255 bytes), z, t)"
    using m(1) c(1) w(1,3) ls(1) z(1) unfolding kmain_storage_def storage_calls_def by (simp add: Let_def)
  then show ?thesis using z(2,3) by auto
qed

end

subsection \<open>Console and devices\<close>

text \<open>
  The machine the kernel boots on: the serial port is ready and only writes to it appear on the line, and the keyboard
  controller takes what is written to it and has an answer when it is asked for its configuration.
\<close>

definition machine_ok :: "'m bus \<Rightarrow> ('m \<Rightarrow> u8 list) \<Rightarrow> bool" where
  "machine_ok bus sent \<longleftrightarrow> uart_ready bus sent \<and>
     (\<forall>p v m. p \<noteq> 0x3F8 \<longrightarrow> sent (bus_outb bus p v m) = sent m) \<and> (\<forall>p m. sent (snd (bus_inb bus p m)) = sent m) \<and>
     (\<forall>m. fst (bus_inb bus 0x64 m) AND 0x02 = 0) \<and> (\<forall>m. fst (bus_inb bus 0x64 (bus_outb bus 0x64 0x20 m)) AND 0x01 \<noteq> 0)"

text \<open>The line only grows.\<close>

definition line_grows :: "('m \<Rightarrow> u8 list) \<Rightarrow> 'm console \<Rightarrow> 'm console \<Rightarrow> bool" where
  "line_grows sent c c' \<longleftrightarrow> (\<exists>x. sent (port_state c') = sent (port_state c) @ x)"

lemma line_refl: "sent (port_state c') = sent (port_state c) \<Longrightarrow> line_grows sent c c'"
  by (simp add: line_grows_def)

lemma line_trans: "line_grows sent a b \<Longrightarrow> line_grows sent b c \<Longrightarrow> line_grows sent a c"
  unfolding line_grows_def by (metis append_assoc)

lemma say_ok:
  assumes "machine_ok bus sent" "call_text call \<noteq> None"
  shows "\<exists>c. say bus call k = Some (k\<lparr>con := c\<rparr>) \<and> line_grows sent (con k) c"
proof -
  obtain cs where "call_text call = Some cs" using assms(2) by blast
  with kputs_ready [of bus sent cs "con k"] assms(1) show ?thesis
    by (auto simp: machine_ok_def say_def run_print_text line_grows_def)
qed

lemma say_all_ok:
  assumes "machine_ok bus sent" "those (map call_text calls) = Some ts"
  shows "\<exists>c. say_all bus calls k = Some (k\<lparr>con := c\<rparr>) \<and> sent (port_state c) = sent (port_state (con k)) @ concat ts"
  using kputs_ready [of bus sent "concat ts" "con k"] assms by (auto simp: machine_ok_def say_all_def run_prints_text)

lemma say_all_grows:
  assumes "machine_ok bus sent" "\<forall>c \<in> set calls. call_text c \<noteq> None"
  shows "\<exists>c. say_all bus calls k = Some (k\<lparr>con := c\<rparr>) \<and> line_grows sent (con k) c"
proof -
  obtain ts where "those (map call_text calls) = Some ts" using those_Some [of "map call_text calls"] assms(2) by auto
  then show ?thesis using say_all_ok [OF assms(1)] unfolding line_grows_def by blast
qed

lemma kmain_graphics_ok:
  assumes "machine_ok bus sent" "framebuffers bi = Some (fb # fbs)"
  shows "\<exists>c. kmain_graphics bus bi k = Some (k\<lparr>interrupts_on := False, con := c\<rparr>) \<and> line_grows sent (con k) c"
proof -
  let ?calls = "[Klog 0 (c_str ''========================================'') [], Klog 0 (c_str ''XLD v0.03 - File Reader Test'') [],
     Klog 0 (c_str ''Built: %s %s'') [Str_arg (build_date bi), Str_arg (build_time bi)],
     Klog 0 (c_str ''========================================'') [], Klog 0 [] []]"
  have t: "\<forall>c \<in> set ?calls. call_text c \<noteq> None" by (simp add: c_str_def conv_text_def)
  let ?c0 = "klog_init ((con k)\<lparr>screen_of := graphics_init (fb_init fb (screen_of (con k)))\<rparr>)"
  let ?c1 = "?c0\<lparr>screen_of := fb_clear 0x000000 (screen_of ?c0)\<rparr>"
  have p: "port_state ?c1 = port_state (con k)" by (simp add: klog_init_def)
  from say_all_grows [OF assms(1) t, of "k\<lparr>interrupts_on := False, con := ?c1\<rparr>"] obtain c where
    "say_all bus ?calls (k\<lparr>interrupts_on := False, con := ?c1\<rparr>) = Some (k\<lparr>interrupts_on := False, con := c\<rparr>)" "line_grows sent ?c1 c" by auto
  moreover have "line_grows sent (con k) c" using line_trans [OF line_refl] p calculation(2) by metis
  ultimately show ?thesis using assms(2) by (auto simp: kmain_graphics_def Let_def)
qed

lemma quiet_ports:
  assumes "machine_ok bus sent"
  shows "p \<noteq> 0x3F8 \<Longrightarrow> sent (bus_outb bus p v m) = sent m" "bus_inb bus p m = (x, m') \<Longrightarrow> sent m' = sent m"
  using assms unfolding machine_ok_def by (blast, metis snd_conv)

lemma quiet_outbs: "machine_ok bus sent \<Longrightarrow> \<forall>(p, v) \<in> set xs. p \<noteq> 0x3F8 \<Longrightarrow> sent (outbs bus xs m) = sent m"
  by (induction xs arbitrary: m) (auto simp: quiet_ports(1))

lemma quiet_remap: "machine_ok bus sent \<Longrightarrow> sent (pic_remap bus m) = sent m"
  by (simp add: pic_remap_def io_wait_def quiet_outbs quiet_ports(1) quiet_ports(2) split: prod.split)

lemma ports_ready:
  assumes "machine_ok bus sent"
  shows "\<exists>m'. wait_input_empty bus m = Some m' \<and> sent m' = sent m"
    "\<exists>m'. wait_output_full bus (bus_outb bus 0x64 0x20 m) = Some m' \<and> sent m' = sent m"
proof -
  obtain v m' where i: "bus_inb bus 0x64 m = (v, m')" by fastforce
  have "v AND 0x02 = 0" using assms i unfolding machine_ok_def by (metis fst_conv)
  then show "\<exists>m'. wait_input_empty bus m = Some m' \<and> sent m' = sent m"
    using i quiet_ports(2) [OF assms i] by (subst wait_input_empty.simps) simp
  obtain w m1 where j: "bus_inb bus 0x64 (bus_outb bus 0x64 0x20 m) = (w, m1)" by fastforce
  have "w AND 0x01 \<noteq> 0" using assms j unfolding machine_ok_def by (metis fst_conv)
  then show "\<exists>m'. wait_output_full bus (bus_outb bus 0x64 0x20 m) = Some m' \<and> sent m' = sent m"
    using j quiet_ports [OF assms] by (subst wait_output_full.simps) simp
qed

lemma console_ports:
  assumes M: "machine_ok bus sent"
  shows "\<exists>d. on_ports (wait_input_empty bus) c = Some d \<and> line_grows sent c d"
    "\<exists>d. on_ports (wait_output_full bus) (out_port bus 0x64 0x20 c) = Some d \<and> line_grows sent c d"
    "p \<noteq> 0x3F8 \<Longrightarrow> line_grows sent c (out_port bus p v c)" "in_port bus p c = (x, d) \<Longrightarrow> line_grows sent c d"
proof -
  show "\<exists>d. on_ports (wait_input_empty bus) c = Some d \<and> line_grows sent c d"
    "\<exists>d. on_ports (wait_output_full bus) (out_port bus 0x64 0x20 c) = Some d \<and> line_grows sent c d"
    using ports_ready [OF M, of "port_state c"] by (auto simp: on_ports_def out_port_def line_grows_def)
  show "p \<noteq> 0x3F8 \<Longrightarrow> line_grows sent c (out_port bus p v c)"
    by (rule line_refl) (simp add: out_port_def quiet_ports(1) [OF M])
  show "in_port bus p c = (x, d) \<Longrightarrow> line_grows sent c d"
    by (rule line_refl) (auto simp: in_port_def quiet_ports(2) [OF M] split: prod.splits)
qed

lemma printk_grows:
  assumes M: "machine_ok bus sent" and t: "format_text True fmt args \<noteq> None"
  shows "\<exists>d. printk bus fmt args c = Some d \<and> line_grows sent c d"
proof -
  obtain cs where "format_text True fmt args = Some cs" using t by blast
  with kputs_ready [of bus sent cs c] M show ?thesis by (auto simp: machine_ok_def printk_def format_loop_text line_grows_def)
qed

lemma ps2_init_ok:
  assumes M: "machine_ok bus sent"
  shows "\<exists>d. ps2_init bus c = Some d \<and> line_grows sent c d"
proof -
  note P = console_ports [OF M]
  have q: "line_grows sent a (out_port bus 0x64 w a)" "line_grows sent a (out_port bus 0x60 w a)" for a w using P(3) by simp_all
  have t: "format_text True (c_str ''[ps2] init start\<newline>'') [] \<noteq> None" "format_text True (c_str ''[ps2] ack/byte: 0x%x\<newline>'') [Int_arg x] \<noteq> None"
    "format_text True (c_str ''[ps2] init done (config=0x%x)\<newline>'') [Int_arg x] \<noteq> None" for x
    by (simp_all add: c_str_def conv_text_def)
  obtain c1 where 1: "printk bus (c_str ''[ps2] init start\<newline>'') [] c = Some c1" "line_grows sent c c1" using printk_grows [OF M t(1)] by blast
  obtain c2 where 2: "on_ports (wait_input_empty bus) c1 = Some c2" "line_grows sent c1 c2" using P(1) by blast
  obtain c3 where 3: "on_ports (wait_output_full bus) (out_port bus 0x64 0x20 c2) = Some c3" "line_grows sent c2 c3" using P(2) by blast
  obtain x c4 where 4: "in_port bus 0x60 c3 = (x, c4)" by fastforce
  let ?x = "(x OR 0x01) AND NOT 0x10"
  obtain c5 where 5: "on_ports (wait_input_empty bus) c4 = Some c5" "line_grows sent c4 c5" using P(1) by blast
  obtain c6 where 6: "on_ports (wait_input_empty bus) (out_port bus 0x64 0x60 c5) = Some c6" "line_grows sent (out_port bus 0x64 0x60 c5) c6" using P(1) by blast
  obtain c7 where 7: "on_ports (wait_input_empty bus) (out_port bus 0x60 ?x c6) = Some c7" "line_grows sent (out_port bus 0x60 ?x c6) c7" using P(1) by blast
  obtain v c8 where 8: "in_port bus 0x64 (out_port bus 0x60 0xF4 c7) = (v, c8)" by fastforce
  obtain y c9 where 9: "in_port bus 0x60 c8 = (y, c9)" by fastforce
  obtain c10 where 10: "printk bus (c_str ''[ps2] ack/byte: 0x%x\<newline>'') [Int_arg (ucast y)] c9 = Some c10" "line_grows sent c9 c10"
    using printk_grows [OF M t(2)] by blast
  obtain c11 where 11: "printk bus (c_str ''[ps2] init done (config=0x%x)\<newline>'') [Int_arg (ucast ?x)] (if v AND 0x01 \<noteq> 0 then c10 else c8) = Some c11"
    "line_grows sent (if v AND 0x01 \<noteq> 0 then c10 else c8) c11"
    using printk_grows [OF M t(3)] by blast
  have "ps2_init bus c = Some c11"
    using 1(1) 2(1) 3(1) 4 5(1) 6(1) 7(1) 8 9 10(1) 11(1) unfolding ps2_init_def by (simp split: if_splits)
  moreover have "line_grows sent c c4" using 1(2) 2(2) 3(2) P(4) [OF 4] by (meson line_trans)
  moreover have "line_grows sent c4 c8" using 5(2) q(1) [of c5] 6(2) q(2) [of c6] 7(2) q(2) [of c7] P(4) [OF 8] by (meson line_trans)
  moreover have "line_grows sent c8 c10" using P(4) [OF 9] 10(2) by (rule line_trans)
  ultimately show ?thesis using 11(2) by (cases "v AND 0x01 \<noteq> 0") (auto intro: line_trans)
qed

lemma enable_keyboard:
  assumes "machine_ok bus sent"
  shows "\<exists>m'. enable_irq bus 1 m = Some m' \<and> sent m' = sent m"
proof -
  obtain v m1 where i: "bus_inb bus 0x21 m = (v, m1)" by fastforce
  then show ?thesis using quiet_ports [OF assms] by (simp add: enable_irq_def irq_port_def word_le_nat_alt)
qed

lemma at_ports_grows: "sent (f (port_state (con k))) = sent (port_state (con k)) \<Longrightarrow> line_grows sent (con k) (con (at_ports f k))"
  by (rule line_refl) (simp add: at_ports_def)

lemma kmain_hardware_ok:
  assumes M: "machine_ok bus sent"
  shows "\<exists>k'. kmain_hardware bus bi k = Some k' \<and> store k' = store k \<and> vfs_tab k' = vfs_tab k \<and> interrupts_on k' \<and>
    (idt_table k', idtr k') = idt_init (idt_addr bi) (exception_handlers bi) (keyboard_handler bi) \<and> line_grows sent (con k) (con k')"
proof -
  have t: "call_text (Klog 0 (c_str ''Initializing Hardware...'') []) \<noteq> None" "call_text (Klog 0 (c_str ''  [OK] GDT Loaded'') []) \<noteq> None"
    "call_text (Klog 0 (c_str ''  [OK] PIC Remapped'') []) \<noteq> None" "call_text (Klog 0 (c_str ''  [OK] IDT Loaded'') []) \<noteq> None"
    "call_text (Klog 0 (c_str ''  [OK] PS/2 Controller'') []) \<noteq> None" "call_text (Klog 0 (c_str ''  [OK] Interrupts Enabled'') []) \<noteq> None"
    by (simp_all add: c_str_def)
  obtain gdt gp where g: "gdt_init (gdt_addr bi) (gdt_table k) = (gdt, gp)" by fastforce
  obtain idt ip where d: "idt_init (idt_addr bi) (exception_handlers bi) (keyboard_handler bi) = (idt, ip)" by fastforce
  obtain c1 where 1: "say bus (Klog 0 (c_str ''Initializing Hardware...'') []) k = Some (k\<lparr>con := c1\<rparr>)" "line_grows sent (con k) c1"
    using say_ok [OF M t(1)] by blast
  let ?k1 = "k\<lparr>con := c1, gdt_table := gdt, gdtr := gp\<rparr>"
  obtain c2 where 2: "say bus (Klog 0 (c_str ''  [OK] GDT Loaded'') []) ?k1 = Some (?k1\<lparr>con := c2\<rparr>)" "line_grows sent (con ?k1) c2"
    using say_ok [OF M t(2), of ?k1] by blast
  let ?k2 = "at_ports (pic_remap bus) (?k1\<lparr>con := c2\<rparr>)"
  obtain c3 where 3: "say bus (Klog 0 (c_str ''  [OK] PIC Remapped'') []) ?k2 = Some (?k2\<lparr>con := c3\<rparr>)" "line_grows sent (con ?k2) c3"
    using say_ok [OF M t(3), of ?k2] by blast
  have 32: "line_grows sent c2 (con ?k2)" using at_ports_grows [of sent "pic_remap bus" "?k1\<lparr>con := c2\<rparr>"] quiet_remap [OF M] by simp
  let ?k3 = "?k2\<lparr>con := c3, idt_table := idt, idtr := ip\<rparr>"
  obtain c4 where 4: "say bus (Klog 0 (c_str ''  [OK] IDT Loaded'') []) ?k3 = Some (?k3\<lparr>con := c4\<rparr>)" "line_grows sent (con ?k3) c4"
    using say_ok [OF M t(4), of ?k3] by blast
  obtain c5 where 5: "ps2_init bus c4 = Some c5" "line_grows sent c4 c5" using ps2_init_ok [OF M] by blast
  let ?k4 = "?k3\<lparr>con := c5\<rparr>"
  obtain c6 where 6: "say bus (Klog 0 (c_str ''  [OK] PS/2 Controller'') []) ?k4 = Some (?k4\<lparr>con := c6\<rparr>)" "line_grows sent (con ?k4) c6"
    using say_ok [OF M t(5), of ?k4] by blast
  obtain m where m: "enable_irq bus 1 (port_state c6) = Some m" "sent m = sent (port_state c6)" using enable_keyboard [OF M] by blast
  let ?k5 = "(at_ports (\<lambda>_. m) (?k4\<lparr>con := c6\<rparr>))\<lparr>interrupts_on := True\<rparr>"
  obtain c7 where 7: "say bus (Klog 0 (c_str ''  [OK] Interrupts Enabled'') []) ?k5 = Some (?k5\<lparr>con := c7\<rparr>)" "line_grows sent (con ?k5) c7"
    using say_ok [OF M t(6), of ?k5] by blast
  have 76: "line_grows sent c6 (con ?k5)" using at_ports_grows [of sent "\<lambda>_. m" "?k4\<lparr>con := c6\<rparr>"] m(2) by (simp add: at_ports_def)
  have e: "con ?k1 = c1" "con ?k3 = c3" "con ?k4 = c5" by simp_all
  have "line_grows sent (con k) c7" using 1(2) 2(2) 32 3(2) 4(2) 5(2) 6(2) 76 7(2) unfolding e by (meson line_trans)
  moreover have "kmain_hardware bus bi k = Some (?k5\<lparr>con := c7\<rparr>)"
    using 1(1) 2(1) 3(1) 4(1) 5(1) 6(1) 7(1) g d m(1) unfolding kmain_hardware_def by (simp add: Let_def)
  ultimately show ?thesis using d by (intro exI [of _ "?k5\<lparr>con := c7\<rparr>"]) (simp add: at_ports_def)
qed

subsection \<open>Memory\<close>

text \<open>
  A memory map on which the kernel gets its heap: page-aligned usable regions that do not overlap and leave out page
  0, between 2 MiB and \<open>2\<^sup>3\<^sup>1\<close> pages of memory, a region with room for bitmap and cache, and four
  consecutive pages left after these and the kernel area have been taken out.
\<close>

definition memory_ok :: "memmap_entry list \<Rightarrow> bool" where
  "memory_ok es \<longleftrightarrow> (let T = mm_highest es 0 div 4096; B = (T + 7) div 8; (p, es') = mm_choose (B + 8192) es in
     limine_map_ok es \<and> unat T < 2 ^ 31 \<and> 512 \<le> unat T \<and> p \<noteq> 0 \<and> (\<forall>e \<in> set es'. 0 \<notin> entry_pages e) \<and>
     (\<exists>q. {q..<q + 4} \<subseteq> (\<Union>e \<in> set es'. entry_pages e) - {unat p div 4096..<(unat p + unat B + 4095) div 4096}
       - {(unat p + unat B) div 4096..<(unat p + unat B + 8192) div 4096} - {256..<512}))"

lemma bitmap_private:
  assumes "bitmap t = p" "unat (total_pages t) = T" "unat B = (T + 7) div 8" "0 < T" "unat p + unat B < 2 ^ 64" "x \<in> pmm_meta t"
  shows "x div 4096 \<in> {unat p div 4096..<(unat p + unat B + 4095) div 4096}"
proof -
  obtain pg where pg: "pg < T" "x = unat (p + drop_bit 3 (of_nat pg))" using assms by (auto simp: pmm_meta_def max_def split: if_splits)
  have "T < 2 ^ 64" using assms(2) unat_u64_less [of "total_pages t"] by simp
  then have "unat (drop_bit 3 (of_nat pg :: u64)) = pg div 8"
    using pg(1) by (simp add: drop_bit_eq_div unat_div unat_of_nat)
  moreover have "pg div 8 < unat B" using pg(1) assms(3) by linarith
  ultimately have "x = unat p + pg div 8" "x < unat p + unat B" using pg(2) assms(5) by (simp_all add: unat_plus_if')
  then show ?thesis by auto
qed

lemma pmm_boot:
  fixes s :: "'a kmalloc_state_scheme"
  assumes M: "memory_ok es" and l: "\<not> held (pmm_lock s)" "\<not> held (kmalloc_lock s)" "free_list s = NULL"
  shows "\<exists>t es'. pmm_init s (Some es) = Some (t, es') \<and> kheap t [] [] \<and> first_fit t 4 \<noteq> None \<and> kmalloc_state.more t = kmalloc_state.more s"
proof -
  let ?T = "mm_highest es 0 div 4096" let ?B = "(?T + 7) div 8"
  obtain p es' where c: "mm_choose (?B + 8192) es = (p, es')" by fastforce
  have m: "limine_map_ok es" "unat ?T < 2 ^ 31" "512 \<le> unat ?T" "p \<noteq> 0" "\<forall>e \<in> set es'. 0 \<notin> entry_pages e"
    using M c by (auto simp: memory_ok_def Let_def)
  obtain q where q: "{q..<q + 4} \<subseteq> (\<Union>e \<in> set es'. entry_pages e) - {unat p div 4096..<(unat p + unat ?B + 4095) div 4096}
       - {(unat p + unat ?B) div 4096..<(unat p + unat ?B + 8192) div 4096} - {256..<512}"
    using M c by (auto simp: memory_ok_def Let_def)
  from pmm_init_correct [OF m(1-3) c m(4), of s] obtain t where
    t: "pmm_init s (Some es) = Some (t, es')" "pmm_wf t" "total_pages t = ?T" "stack_top t = 0" "pmm_lock t = pmm_lock s" "bitmap t = p"
      "pmm_state.more t = pmm_state.more s" and
    f: "free_set t = (\<Union>e \<in> set es'. entry_pages e) - {unat p div 4096..<(unat p + unat ?B + 4095) div 4096}
       - {(unat p + unat ?B) div 4096..<(unat p + unat ?B + 8192) div 4096} - {256..<512}" by blast
  have k: "free_list t = NULL" "\<not> held (kmalloc_lock t)" "kmalloc_state.more t = kmalloc_state.more s"
    using t(7) l by (cases s; cases t; simp)+
  have B: "unat ?B = (unat ?T + 7) div 8" using m(2) by (simp add: unat_div unat_plus_if')
  have "unat (?B + 8192) = unat ?B + 8192" using B m(2) by (simp add: unat_plus_if')
  then have w: "unat p + unat ?B < 2 ^ 64" using limine_map_choose(3) [OF m(1) c m(4)] unat_u64_less [of "mm_highest es 0"] by linarith
  have z: "0 \<notin> free_set t" "0 < unat ?T" using m(3,5) unfolding f by auto
  have "pmm_ready t" using t(2-5) l(1) z by (simp add: pmm_ready_def free_set_def)
  moreover have "pmm_private t"
    unfolding pmm_private_def f using bitmap_private [OF t(6) arg_cong [OF t(3), of unat] B z(2) w] by blast
  ultimately have kh: "kheap t [] []" using k by (simp add: kheap_def heap_layout_def in_use_def)
  have g: "q + j < unat (total_pages t) \<and> \<not> bitmap_get t (of_nat (q + j))" if "j < 4" for j
  proof -
    have "q + j \<in> free_set t" using q that unfolding f [symmetric] subset_iff by simp
    then show ?thesis unfolding free_set_def by blast
  qed
  have n: "q + 3 < unat (total_pages t)" using g [of 3] by auto
  have "run_free t 4 q" unfolding run_free_def using g n by auto
  moreover have "q < unat (total_pages t)" using n by simp
  ultimately have "first_fit t 4 \<noteq> None" by (auto simp: first_fit_def find_None_iff)
  then show ?thesis using t(1) k(3) kh by blast
qed

lemma add_pools_more: "add_pools n s = Some t \<Longrightarrow> kmalloc_state.more t = kmalloc_state.more s"
  by (induction n arbitrary: s) (auto simp: bind_eq_Some_conv dest!: add_pool_more)

lemma heap_boot:
  assumes "kheap s [] []" "first_fit s 4 \<noteq> None"
  shows "\<exists>t. kmalloc_init s = Some t \<and> room t 16360 [] \<and> kmalloc_state.more t = kmalloc_state.more s"
proof -
  obtain i t1 where 1: "add_pool s = Some t1" "kheap t1 [pool_block i] []" using add_pool_step [OF assms(1)] assms(2) by auto
  have b: "snd (pool_block i) = 16360" by (simp add: pool_block_def)
  with add_pools_kheap [OF 1(2), of 3] obtain t gs where t: "add_pools 3 t1 = Some t" "kheap t (gs @ [pool_block i]) []" by auto
  have "kmalloc_init s = Some t" using 1(1) t(1) by (simp add: kmalloc_init_def numeral_eq_Suc)
  moreover have "room t 16360 []" unfolding room_def using t(2) b by (intro exI [of _ "gs @ [pool_block i]"] exI [of _ "[]"]) (simp add: owned_by_def)
  moreover have "add_pools 4 s = Some t" using calculation(1) by (simp add: kmalloc_init_def)
  ultimately show ?thesis using add_pools_more by blast
qed

lemma kmain_memory_ok:
  fixes k :: "('m, 'd) kernel"
  assumes M: "machine_ok bus sent" and m: "memmap bi = Some es" "memory_ok es"
    and l: "\<not> held (pmm_lock (store k))" "\<not> held (kmalloc_lock (store k))" "free_list (store k) = NULL"
  shows "\<exists>k'. kmain_memory bus bi k = Some k' \<and> room (store k') 16360 [] \<and> kmalloc_state.more (store k') = kmalloc_state.more (store k) \<and>
    vfs_tab k' = vfs_tab k \<and> line_grows sent (con k) (con k')"
proof -
  have t: "call_text (Klog 0 (c_str ''Initializing Memory Manager...'') []) \<noteq> None" "call_text (Klog 0 (c_str ''  [OK] Kernel Heap Initialized'') []) \<noteq> None"
    "call_text (Klog 0 (c_str ''  [OK] PMM: %d MB free / %d MB total'') [Int_arg a, Int_arg b]) \<noteq> None" for a b
    by (simp_all add: c_str_def conv_text_def)
  obtain c1 where 1: "say bus (Klog 0 (c_str ''Initializing Memory Manager...'') []) k = Some (k\<lparr>con := c1\<rparr>)" "line_grows sent (con k) c1"
    using say_ok [OF M t(1)] by blast
  obtain s1 es' where p: "pmm_init (store k) (Some es) = Some (s1, es')" "kheap s1 [] []" "first_fit s1 4 \<noteq> None"
    "kmalloc_state.more s1 = kmalloc_state.more (store k)" using pmm_boot [OF m(2) l] by blast
  let ?k1 = "k\<lparr>con := c1, store := s1\<rparr>"
  let ?a = "Int_arg (ucast (pmm_get_free s1 div 1024 div 1024))" and ?b = "Int_arg (ucast (pmm_get_total s1 div 1024 div 1024))"
  obtain c2 where 2: "say bus (Klog 0 (c_str ''  [OK] PMM: %d MB free / %d MB total'') [?a, ?b]) ?k1 = Some (?k1\<lparr>con := c2\<rparr>)" "line_grows sent (con ?k1) c2"
    using say_ok [OF M t(3)] by blast
  obtain s2 where h: "kmalloc_init s1 = Some s2" "room s2 16360 []" "kmalloc_state.more s2 = kmalloc_state.more s1" using heap_boot [OF p(2,3)] by blast
  let ?k2 = "k\<lparr>con := c2, store := s2\<rparr>"
  obtain c3 where 3: "say bus (Klog 0 (c_str ''  [OK] Kernel Heap Initialized'') []) ?k2 = Some (?k2\<lparr>con := c3\<rparr>)" "line_grows sent (con ?k2) c3"
    using say_ok [OF M t(2), of ?k2] by blast
  have e: "con ?k1 = c1" "con ?k2 = c2" by simp_all
  have "line_grows sent (con k) c3" using 1(2) 2(2) 3(2) unfolding e by (meson line_trans)
  moreover have "kmain_memory bus bi k = Some (?k2\<lparr>con := c3\<rparr>)"
    using 1(1) 2(1) 3(1) p(1) h(1) m(1) unfolding kmain_memory_def by (simp add: Let_def)
  ultimately show ?thesis using h(2,3) p(4) by (intro exI [of _ "?k2\<lparr>con := c3\<rparr>"]) simp
qed

subsection \<open>Properties\<close>

lemma storage_calls_text:
  assumes "length b \<le> 255"
  shows "\<exists>ts pre post. those (map call_text (storage_calls r F b)) = Some ts \<and> concat ts = pre @ file_text b @ post"
proof -
  let ?h1 = "[Klog 0 (c_str ''Initializing Storage & Filesystem...'') [],
      if r = 0 then Klog 0 (c_str ''  [OK] ATA PIO Drive 0'') [] else Klog 2 (c_str ''  [FAIL] ATA PIO Init'') [],
      Klog 0 (c_str ''  [OK] FAT32 Detected & Parsed'') [],
      Klog 0 (c_str (''  [OK] VFS mounted at '' @ [CHR 0x27] @ ''/mnt'' @ [CHR 0x27])) []]"
  let ?h3 = "dump_calls [(MNT_PATH, True)] @ [Klog 0 [] [], Klog 1 (c_str ''--- READING /root/hello.txt ---'') [], Klog 0 [] []]"
  define H where "H = ?h1 @ prints (tree_listing F) @ ?h3"
  have "\<forall>c \<in> set ?h1. call_text c \<noteq> None" by (cases "r = 0") (simp_all add: c_str_def)
  moreover have "\<forall>c \<in> set ?h3. call_text c \<noteq> None" by (simp add: dump_calls_def c_str_def conv_text_def)
  ultimately have "\<forall>c \<in> set H. call_text c \<noteq> None" using tree_listing_text [of F] unfolding H_def set_append ball_Un by blast
  then obtain hs where h: "those (map call_text H) = Some hs" using those_Some [of "map call_text H"] by auto
  obtain ts where t: "those (map call_text (file_calls (int (length b)) b)) = Some ts" "concat ts = file_text b" using file_calls_text [OF assms] by blast
  obtain e where e: "call_text (Klog 1 (c_str ''--- TEST COMPLETE ---'') []) = Some e" by (simp add: c_str_def)
  have "storage_calls r F b = H @ file_calls (int (length b)) b @ [Klog 1 (c_str ''--- TEST COMPLETE ---'') []]" by (simp add: storage_calls_def H_def)
  then have "those (map call_text (storage_calls r F b)) = Some (hs @ ts @ [e])"
    by (simp only: map_append those_append h t(1) list.map e those.simps option.case option.map)
  then show ?thesis using t(2) by - (rule exI [of _ "hs @ ts @ [e]"], rule exI [of _ "concat hs"], rule exI [of _ e], simp)
qed

text \<open>The state in which the kernel is loaded: no lock is held, no file is open, nothing is mounted.\<close>

definition boot_state :: "('m, 'd) kernel \<Rightarrow> bool" where
  "boot_state k \<longleftrightarrow> \<not> held (pmm_lock (store k)) \<and> \<not> held (kmalloc_lock (store k)) \<and> free_list (store k) = NULL \<and>
     lock (cache_lock (store k)) = 0 \<and> length (open_files (store k)) = 64 \<and> free_slot (open_files (store k)) \<noteq> None \<and>
     \<not> vfs_initialized (vfs_tab k)"

text \<open>
  The kernel boots on every block device that reads correctly once it is initialised.
\<close>

lemma kernel_boots:
  fixes k :: "('m, 'd) kernel"
  assumes M: "machine_ok bus sent" and fb: "framebuffers bi = Some (fb # fbs)" and m: "memmap bi = Some es" "memory_ok es"
    and b: "boot_state k" and D: "sector_reader rd valid holds" "bd_read dv = Some rd" "holds dk (ata_init (dev_state (store k)))"
    and V: "volume_ready dv valid chain K dk" and fs: "fs = volume_of dv (dk 0)"
    and fa: "file_at valid fs dk (c_str ''/root/hello.txt'') de" "file_bytes valid fs dk de bytes" "bytes \<noteq> []"
  shows "\<exists>k' pre post. kmain bus bi dv ata_init r k = Some k' \<and>
    sent (port_state (con k')) = sent (port_state (con k)) @ pre @ file_text (take 255 bytes) @ post \<and>
    fat_mounted (vfs_tab k') fs \<and> holds dk (dev_state (store k')) \<and> interrupts_on k' \<and>
    (idt_table k', idtr k') = idt_init (idt_addr bi) (exception_handlers bi) (keyboard_handler bi)"
proof -
  obtain c1 where 1: "kmain_graphics bus bi k = Some (k\<lparr>interrupts_on := False, con := c1\<rparr>)" "line_grows sent (con k) c1"
    using kmain_graphics_ok [OF M fb] by blast
  let ?k1 = "k\<lparr>interrupts_on := False, con := c1\<rparr>"
  have l: "\<not> held (pmm_lock (store ?k1))" "\<not> held (kmalloc_lock (store ?k1))" "free_list (store ?k1) = NULL" using b by (simp_all add: boot_state_def)
  from kmain_memory_ok [OF M m l] obtain k2 where 2: "kmain_memory bus bi ?k1 = Some k2" "room (store k2) 16360 []"
    "kmalloc_state.more (store k2) = kmalloc_state.more (store ?k1)" "vfs_tab k2 = vfs_tab ?k1" "line_grows sent (con ?k1) (con k2)" by blast
  from kmain_hardware_ok [OF M, of bi k2] obtain k3 where 3: "kmain_hardware bus bi k2 = Some k3" "store k3 = store k2" "vfs_tab k3 = vfs_tab k2"
    "interrupts_on k3" "(idt_table k3, idtr k3) = idt_init (idt_addr bi) (exception_handlers bi) (keyboard_handler bi)" "line_grows sent (con k2) (con k3)" by blast
  note mf = more_fields [OF 2(3)]
  have S: "store_ready (store k3)" using b 2(2) mf 3(2) room_mono [OF 2(2), of 3000] by (simp add: store_ready_def boot_state_def)
  have v: "\<not> vfs_initialized (vfs_tab k3)" using b 2(4) 3(3) by (simp add: boot_state_def)
  have dd: "holds dk (ata_init (dev_state (store k3)))" using mf(1) 3(2) D(3) by simp
  from sector_reader.kmain_storage_ok [where dv = dv and ata_init = ata_init and st = "store k3" and v = "vfs_tab k3" and r = r, OF D(1,2) dd V S v fs fa]
  obtain w t where 4: "kmain_storage dv ata_init r (vfs_tab k3) (store k3) = Some (storage_calls r (tree_of fs dk chain) (take 255 bytes), w, t)"
    "fat_mounted w fs" "holds dk (dev_state t)" by blast
  have "length (take 255 bytes) \<le> 255" by simp
  from storage_calls_text [OF this, of r "tree_of fs dk chain"] obtain ts pre post where T: "those (map call_text (storage_calls r (tree_of fs dk chain) (take 255 bytes))) = Some ts"
    "concat ts = pre @ file_text (take 255 bytes) @ post" by blast
  let ?k4 = "k3\<lparr>vfs_tab := w, store := t\<rparr>"
  obtain c5 where 5: "say_all bus (storage_calls r (tree_of fs dk chain) (take 255 bytes)) ?k4 = Some (?k4\<lparr>con := c5\<rparr>)"
    "sent (port_state c5) = sent (port_state (con ?k4)) @ concat ts" using say_all_ok [OF M T(1)] by blast
  let ?fin = "[Klog 0 [] [], Klog 0 (c_str ''System ready. Press any key to test PS/2...'') []]"
  have e: "\<forall>c \<in> set ?fin. call_text c \<noteq> None" by (simp add: c_str_def)
  from say_all_grows [OF M e, of "?k4\<lparr>con := c5\<rparr>"] obtain c6 where
    6: "say_all bus ?fin (?k4\<lparr>con := c5\<rparr>) = Some (?k4\<lparr>con := c6\<rparr>)" "line_grows sent c5 c6" by auto
  have "line_grows sent (con k) (con k3)" using 1(2) 2(5) 3(6) line_trans by (metis kernel.select_convs(1) kernel.surjective kernel.update_convs(1) kernel.update_convs(8))
  then obtain x y where x: "sent (port_state (con k3)) = sent (port_state (con k)) @ x" "sent (port_state c6) = sent (port_state c5) @ y"
    using 6(2) unfolding line_grows_def by blast
  have "kmain bus bi dv ata_init r k = Some (?k4\<lparr>con := c6\<rparr>)"
    using 1(1) 2(1) 3(1) 4(1) 5(1) 6(1) unfolding kmain_def by simp
  moreover have "sent (port_state (con (?k4\<lparr>con := c6\<rparr>))) = sent (port_state (con k)) @ (x @ pre) @ file_text (take 255 bytes) @ (post @ y)"
    using x 5(2) T(2) by simp
  ultimately show ?thesis using 3(4,5) 4(2,3) by - (rule exI [of _ "?k4\<lparr>con := c6\<rparr>"], rule exI [of _ "x @ pre"], rule exI [of _ "post @ y"], simp)
qed

subsection \<open>An example\<close>

text \<open>A volume whose root directory holds the directory \<^verbatim>\<open>ROOT\<close>, which holds \<^verbatim>\<open>HELLO.TXT\<close>.\<close>

definition boot_sec :: "u8 list" where
  "boot_sec = put (put (put (put (put (replicate 512 0) 0 [0xEB, 0, 0x90]) 11 ([0, 2, 1] @ bytes16 32 @ [1])) 32 (bytes32 1000)) 36 (bytes32 8)) 44 (bytes32 2)"

definition root_entry :: fat32_dirent where
  "root_entry = (new_entry (to_8_3 (c_str ''root'')) 3)\<lparr>de_attr := FAT32_ATTR_DIRECTORY\<rparr>"

definition hello_txt :: fat32_dirent where
  "hello_txt = (new_entry (to_8_3 (c_str ''hello.txt'')) 4)\<lparr>de_size := 2\<rparr>"

definition boot_disk :: disk where
  "boot_disk = (fat_put ram_fs (fat_put ram_fs (ram_root (dirent_bytes root_entry @ replicate 480 0)) 3 0x0FFFFFFF) 4 0x0FFFFFFF)
     (41 := dirent_bytes hello_txt @ replicate 480 0, 42 := [72, 105] @ replicate 510 0, 0 := boot_sec)"

lemma boot_sec_facts: "length boot_sec = 512" "volume_of ram_disk boot_sec = ram_fs" "bootable boot_sec"
proof -
  show "length boot_sec = 512" by (simp add: boot_sec_def)
  have f: "take 8 (drop 82 boot_sec) = replicate 8 0" by (simp add: boot_sec_def put_def bytes16_def bytes32_def)
  have b: "bpb_of boot_sec = bpb ram_fs"
    unfolding bpb_of_def f by (simp add: rd16_def rd32_def boot_sec_def rd8_put ram_fs_def) (simp add: bytes16_def bytes32_def nth_append)
  show "volume_of ram_disk boot_sec = ram_fs" unfolding volume_of_def b by (simp add: ram_fs_def)
  show "bootable boot_sec" unfolding bootable_def is_fat32_direct_def b by (simp add: ram_fs_def)
qed


text \<open>A directory of one sector with a single entry.\<close>

lemma one_entry:
  assumes e: "dirent_ok e" "rd8 (dirent_bytes e) 0 \<notin> {0, 0xE5, 0x2E}" "de_attr e \<in> {0x10, 0x20}"
    and s: "dk s = dirent_bytes e @ replicate 480 0" "cluster_sectors ram_fs c = [s]"
  shows "visible (dir_entries ram_fs dk [c]) = [e]" "search (from_8_3 e) (dir_entries ram_fs dk [c]) = Found (e, s, 0)"
proof -
  let ?b = "dirent_bytes e @ replicate 480 0"
  note l = dirent_bytes_length [OF e(1)]
  have b: "entry_at ?b 0 = dirent_bytes e" "rd8 (entry_at ?b 1) 0 = 0" using l by (simp_all add: entry_at_def rd8_def)
  have u: "[0..<16] = 0 # 1 # [2..<16]" by (simp add: upt_rec)
  have d: "dir_entries ram_fs dk [c] = map (\<lambda>i. (entry_at ?b i, s, of_nat i)) [0..<16]"
    using s by (simp add: dir_entries_def sector_entries_def)
  have "shown (dirent_bytes e, s, 0)" using e by (auto simp: shown_def dirent_of_bytes)
  then show "visible (dir_entries ram_fs dk [c]) = [e]" using b e unfolding d u by (simp add: visible_Cons dirent_of_bytes)
  show "search (from_8_3 e) (dir_entries ram_fs dk [c]) = Found (e, s, 0)" using b e unfolding d u by (auto simp: dirent_of_bytes)
qed

lemma example_entries:
  "dirent_ok root_entry" "dirent_cluster root_entry = 3" "from_8_3 root_entry = to_8_3 (c_str ''root'')" "de_attr root_entry = 0x10"
  "rd8 (dirent_bytes root_entry) 0 = 0x52"
  "dirent_ok hello_txt" "dirent_cluster hello_txt = 4" "from_8_3 hello_txt = to_8_3 (c_str ''hello.txt'')" "de_attr hello_txt = 0x20"
  "rd8 (dirent_bytes hello_txt) 0 = 0x48" "de_size hello_txt = 2"
proof -
  note r = new_entry_facts [OF to_8_3_length [of "c_str ''root''"], of 3] and h = new_entry_facts [OF to_8_3_length [of "c_str ''hello.txt''"], of 4]
  show "dirent_ok root_entry" "dirent_cluster root_entry = 3" "from_8_3 root_entry = to_8_3 (c_str ''root'')" "de_attr root_entry = 0x10"
    using r by (simp_all add: root_entry_def dirent_ok_def dirent_cluster_def from_8_3_def)
  show "dirent_ok hello_txt" "dirent_cluster hello_txt = 4" "from_8_3 hello_txt = to_8_3 (c_str ''hello.txt'')" "de_attr hello_txt = 0x20" "de_size hello_txt = 2"
    using h by (simp_all add: hello_txt_def dirent_ok_def dirent_cluster_def from_8_3_def)
  have "to_8_3 (c_str ''root'') ! 0 = 0x52" "to_8_3 (c_str ''hello.txt'') ! 0 = 0x48"
    using to_8_3_first [of "c_str ''root''"] to_8_3_first [of "c_str ''hello.txt''"] by (simp_all add: upcase_def c_str_def)
  then show "rd8 (dirent_bytes root_entry) 0 = 0x52" "rd8 (dirent_bytes hello_txt) 0 = 0x48"
    by (simp_all add: root_entry_def hello_txt_def new_entry_def dirent_bytes_def rd8_def nth_append to_8_3_length)
qed

lemma boot_disk_facts:
  "ram_sec boot_disk = boot_disk" "c \<in> {2, 3, 4} \<Longrightarrow> fat_get ram_fs boot_disk c = 0x0FFFFFFF" "boot_disk 0 = boot_sec"
  "boot_disk 40 = dirent_bytes root_entry @ replicate 480 0" "boot_disk 41 = dirent_bytes hello_txt @ replicate 480 0"
  "boot_disk 42 = [72, 105] @ replicate 510 0"
proof -
  let ?b = "dirent_bytes root_entry @ replicate 480 0"
  let ?d3 = "fat_put ram_fs (ram_root ?b) 3 0x0FFFFFFF" let ?d4 = "fat_put ram_fs ?d3 4 0x0FFFFFFF"
  have b: "length ?b = 512" using dirent_bytes_length [OF example_entries(1)] by simp
  have l: "length (dirent_bytes hello_txt @ replicate 480 0) = 512" using dirent_bytes_length [OF example_entries(6)] by simp
  have d2: "disk512 (ram_root ?b)" using b by (rule ram_root_512)
  then have d3: "disk512 ?d3" by (rule disk512_put)
  then have d4: "disk512 ?d4" by (rule disk512_put)
  then show "ram_sec boot_disk = boot_disk" using l boot_sec_facts(1) by (auto simp: boot_disk_def ram_sec_def disk512_def fun_eq_iff)
  have i: "fat_index 2" "fat_index 3" "fat_index 4" by (simp_all add: fat_index_def)
  have g2: "fat_get ram_fs (ram_root ?b) 2 = 0x0FFFFFFF" by (subst ram_root_get) (simp_all add: fat_index_def fat_sector_of_def ram_fs_def)
  have "fat_get ram_fs boot_disk c = fat_get ram_fs ?d4 c" if "c \<in> {2, 3, 4}" for c
    using that unfolding boot_disk_def by (intro fat_get_cong) (auto simp: fat_sector_of_def ram_fs_def)
  moreover have "fat_get ram_fs ?d4 4 = 0x0FFFFFFF" by (simp add: fat_get_put [OF d3 i(3) i(3)])
  moreover have "fat_get ram_fs ?d4 3 = 0x0FFFFFFF" by (simp add: fat_get_put [OF d3 i(3) i(2)] fat_get_put [OF d2 i(2) i(2)])
  moreover have "fat_get ram_fs ?d4 2 = 0x0FFFFFFF" using g2 by (simp add: fat_get_put [OF d3 i(3) i(1)] fat_get_put [OF d2 i(2) i(1)])
  ultimately show "c \<in> {2, 3, 4} \<Longrightarrow> fat_get ram_fs boot_disk c = 0x0FFFFFFF" by auto
  show "boot_disk 0 = boot_sec" "boot_disk 41 = dirent_bytes hello_txt @ replicate 480 0" "boot_disk 42 = [72, 105] @ replicate 510 0"
    by (simp_all add: boot_disk_def)
  show "boot_disk 40 = ?b" by (simp add: boot_disk_def fat_put_def Let_def ram_root_def fat_sector_of_def ram_fs_def)
qed

definition boot_chain :: "u32 \<Rightarrow> u32 list" where
  "boot_chain c = (if c = 2 then [2] else if c = 3 then [3] else [])"

lemma boot_disk_dirs:
  "visible (dir_entries ram_fs boot_disk [2]) = [root_entry]" "search (to_8_3 (c_str ''root'')) (dir_entries ram_fs boot_disk [2]) = Found (root_entry, 40, 0)"
  "visible (dir_entries ram_fs boot_disk [3]) = [hello_txt]" "search (to_8_3 (c_str ''hello.txt'')) (dir_entries ram_fs boot_disk [3]) = Found (hello_txt, 41, 0)"
proof -
  have s: "cluster_sectors ram_fs 2 = [40]" "cluster_sectors ram_fs 3 = [41]"
    by (simp_all add: cluster_sectors_def cluster_sector_def ram_fs_def)
  note e = example_entries
  show "visible (dir_entries ram_fs boot_disk [2]) = [root_entry]" "search (to_8_3 (c_str ''root'')) (dir_entries ram_fs boot_disk [2]) = Found (root_entry, 40, 0)"
    using one_entry [of root_entry boot_disk 40 2] boot_disk_facts(4) s(1) e(1,3-5) by simp_all
  show "visible (dir_entries ram_fs boot_disk [3]) = [hello_txt]" "search (to_8_3 (c_str ''hello.txt'')) (dir_entries ram_fs boot_disk [3]) = Found (hello_txt, 41, 0)"
    using one_entry [of hello_txt boot_disk 41 3] boot_disk_facts(5) s(2) e(6,8-10) by simp_all
qed

lemma boot_disk_ready: "volume_ready ram_disk (\<lambda>_. True) boot_chain {2, 3, NO_CLUSTER} boot_disk"
proof -
  have n: "next_of ram_fs boot_disk c = NO_CLUSTER" if "c \<in> {2, 3}" for c using boot_disk_facts(2) [of c] that by (auto simp: next_of_def)
  have d: "dir_list ram_fs boot_disk boot_chain 2 = [root_entry]" "dir_list ram_fs boot_disk boot_chain 3 = [hello_txt]"
    "dir_list ram_fs boot_disk boot_chain NO_CLUSTER = []"
    using boot_disk_dirs by (simp_all add: dir_list_def boot_chain_def) (simp add: dir_entries_def visible_def)
  have "root_cluster (bpb ram_fs) = 2" by (simp add: ram_fs_def)
  then have "volume_ok (\<lambda>_. True) ram_fs boot_disk boot_chain {2, 3, NO_CLUSTER}"
    using n d example_entries by (auto simp: volume_ok_def chains_def boot_chain_def is_dir_def)
  then show ?thesis using boot_sec_facts boot_disk_facts(3) by (simp add: volume_ready_def)
qed

text \<open>A machine with 16 MiB of memory.\<close>

definition boot_bus :: "u8 list bus" where
  "boot_bus = line_bus\<lparr>bus_inb := (\<lambda>p m. (0x21, m))\<rparr>"

definition boot_example :: boot_info where
  "boot_example = \<lparr>framebuffers = Some [\<lparr>l_address = 0xB8000000, l_width = 640, l_height = 480, l_pitch = 2560\<rparr>], memmap = Some map_example,
     gdt_addr = 0x300000, idt_addr = 0x301000, exception_handlers = map (\<lambda>i. 0x310000 + of_nat i) [0..<32], keyboard_handler = 0x320000,
     build_date = [], build_time = []\<rparr>"

lemma example_memory: "memory_ok map_example"
proof -
  have "{1026..<1026 + 4} \<subseteq> {1026..<5120} - {1024..<1025} - {1024..<1026} - {256..<512 :: nat}" by auto
  then show ?thesis
    by (simp add: memory_ok_def map_example_highest map_example_choose map_example_ok entry_pages_def Let_def) (rule exI [of _ 1026], simp)
qed

end
