(* ===== verification/Ata_Kernel.thy ===== *)
theory Ata_Kernel
  imports Ata_Init Kernel_Proofs
begin

unbundle bit_operations_syntax

text \<open>
  The disk driver below the file system: the driver satisfies what the file system expects of a block device, so everything
  shown of the file system holds on a drive that follows the ATA protocol, and the kernel boots from it.
\<close>

subsection \<open>The drive as a block device\<close>

definition ata_rd :: "'m bus \<Rightarrow> 'm ata_state \<Rightarrow> u32 \<Rightarrow> u32 \<Rightarrow> int \<times> u8 list \<times> 'm ata_state" where
  "ata_rd bus st lba count = ata_pio_read bus lba (ucast count) st"

definition ata_wr :: "'m bus \<Rightarrow> 'm ata_state \<Rightarrow> u32 \<Rightarrow> u32 \<Rightarrow> u8 list \<Rightarrow> int \<times> 'm ata_state" where
  "ata_wr bus st lba count buf = ata_pio_write bus lba (ucast count) buf st"

lemma ata_blockdev_ops: "bd_read (ata_blockdev bus) = Some (ata_rd bus)" "bd_write (ata_blockdev bus) = Some (ata_wr bus)"
  by (simp_all add: ata_blockdev_def ata_rd_def ata_wr_def fun_eq_iff)

definition ata_valid :: "nat \<Rightarrow> u32 \<Rightarrow> bool" where
  "ata_valid cap s \<longleftrightarrow> unat s < cap"

definition ata_holds :: "'m bus \<Rightarrow> nat \<Rightarrow> ('m \<Rightarrow> ata_dev) \<Rightarrow> disk \<Rightarrow> 'm ata_state \<Rightarrow> bool" where
  "ata_holds bus cap av dk st \<longleftrightarrow> ata_protocol bus (ata_base (drive st)) cap av \<and> present (drive st) \<and> idle (av (machine st)) \<and>
     dv_disk (av (machine st)) = dk \<and> disk512 dk"

lemma valid_lba:
  assumes "ata_protocol bus base cap av" "ata_valid cap s"
  shows "lba28 s = s" "unat (lba28 s) + unat (1 :: u16) \<le> cap"
proof -
  have "unat s < 2 ^ 28" using assms by (simp add: ata_protocol_def ata_valid_def)
  then show l: "lba28 s = s" unfolding lba28_def and_masks
    by (simp add: take_bit_eq_mask [symmetric] take_bit_eq_mod word_unat_eq_iff unat_mod)
  show "unat (lba28 s) + unat (1 :: u16) \<le> cap" unfolding l using assms(2) by (simp add: ata_valid_def)
qed

lemma ata_read_one:
  assumes H: "ata_holds bus cap av dk st" and v: "ata_valid cap s"
  shows "\<exists>e. ata_rd bus st s 1 = (0, dk s, e) \<and> ata_holds bus cap av dk e"
proof -
  have h: "ata_protocol bus (ata_base (drive st)) cap av" "present (drive st)" "idle (av (machine st))" "dv_disk (av (machine st)) = dk"
    "\<forall>s. length (dv_disk (av (machine st)) s) = 512" "disk512 dk" using H by (auto simp: ata_holds_def disk512_def)
  note l = valid_lba [OF h(1) v]
  have "disk_bytes dk s 1 = dk s" by (simp add: disk_bytes_def)
  with ata_read_ok [OF h(1-3) _ _ l(2) h(5)] obtain m where
    "ata_pio_read bus s 1 st = (0, dk s, st\<lparr>machine := m\<rparr>)" "idle (av m)" "dv_disk (av m) = dk" unfolding l(1) h(4) by auto
  then show ?thesis using h by (intro exI [of _ "st\<lparr>machine := m\<rparr>"]) (simp add: ata_rd_def ata_holds_def)
qed

lemma ata_write_one:
  assumes H: "ata_holds bus cap av dk st" and v: "ata_valid cap s" and b: "length b = 512"
  shows "\<exists>e. ata_wr bus st s 1 b = (0, e) \<and> ata_holds bus cap av (dk(s := b)) e"
proof -
  have h: "ata_protocol bus (ata_base (drive st)) cap av" "present (drive st)" "idle (av (machine st))" "dv_disk (av (machine st)) = dk"
    "disk512 dk" using H by (auto simp: ata_holds_def)
  note l = valid_lba [OF h(1) v]
  have b1: "length b = 512 * unat (1 :: u16)" using b by simp
  from ata_write_ok [OF h(1-3) _ _ l(2) b1] obtain m where
    m: "ata_pio_write bus s 1 b st = (0, st\<lparr>machine := m\<rparr>)" "idle (av m)"
      "dv_disk (av m) = (\<lambda>t. if unat s \<le> unat t \<and> unat t < unat s + unat (1 :: u16) then take 512 (drop (512 * (unat t - unat s)) b) else dk t)"
    unfolding l(1) h(4) by auto
  have "dv_disk (av m) = dk(s := b)"
    unfolding m(3) using b by (auto simp: fun_eq_iff word_unat_eq_iff le_less_Suc_eq)
  then show ?thesis using h m(1,2) b by (intro exI [of _ "st\<lparr>machine := m\<rparr>"]) (simp add: ata_wr_def ata_holds_def disk512_def)
qed

interpretation at: sector_device "ata_rd bus" "ata_valid cap" "ata_holds bus cap av" "ata_wr bus"
  by unfold_locales (auto simp: ata_read_one ata_write_one, simp add: ata_holds_def)

lemma init_holds:
  assumes "ata_protocol bus 0x1F0 cap av" "ata_identity bus 0x1F0 ident av" "disk512 (dv_disk (av (machine st)))"
  shows "ata_holds bus cap av (dv_disk (av (machine st))) (ata_pio_init bus st)"
proof -
  obtain m where "ata_pio_init bus st = \<lparr>drive = identified 0x1F0 0 ident (drive st), machine = m\<rparr>" "idle (av m)"
    "dv_disk (av m) = dv_disk (av (machine st))" using init_finds_drive [OF assms(1,2)] by blast
  then show ?thesis using assms by (simp add: ata_holds_def identified_def)
qed

text \<open>
  So the results on files hold for the sectors of the drive. For instance, a write within the clusters a file has puts the bytes on
  the disk and changes no sector that is not the file's.
\<close>

theorem ata_file_write:
  fixes st :: "('m ata_state, 'a) fat_state_scheme"
  assumes U: "uses_device fs (ata_rd bus) (ata_wr bus)" and L: "lock (cache_lock st) = 0" and H: "ata_holds bus cap av dk (dev_state st)"
    and G: "geometry_ok fs" and f: "open_files st ! i = f" "f_used f" "f_mode f = 1" "f_fs f = Some fs"
    and ch: "chain_at fs dk (curr_cluster f # cs)" "places_ok (ata_valid cap) fs (curr_cluster f # cs)" "curr_offset f < bytes_per_cluster fs"
      "unat (curr_offset f) + unat sz < length (chain_bytes fs dk (curr_cluster f # cs))"
    and sz: "0 < unat sz" "unat sz < 2 ^ 31" "unat sz \<le> length buffer" "unat (file_pos f) + unat sz < 2 ^ 32"
  shows "\<exists>st'. fat32_write (Some i) buffer sz st = Some (int (unat sz), st') \<and>
    chain_bytes fs (dv_disk (av (machine (dev_state st')))) (curr_cluster f # cs) =
      put (chain_bytes fs dk (curr_cluster f # cs)) (unat (curr_offset f)) (take (unat sz) buffer) \<and>
    (\<forall>s. s \<notin> set (dir_sectors fs (curr_cluster f # cs)) \<longrightarrow> dv_disk (av (machine (dev_state st'))) s = dk s)"
proof -
  obtain g d dk' where "fat32_write (Some i) buffer sz st = Some (int (unat sz), st\<lparr>dev_state := d, open_files := g\<rparr>)" "ata_holds bus cap av dk' d"
    "chain_bytes fs dk' (curr_cluster f # cs) = put (chain_bytes fs dk (curr_cluster f # cs)) (unat (curr_offset f)) (take (unat sz) buffer)"
    "\<forall>s. s \<notin> set (dir_sectors fs (curr_cluster f # cs)) \<longrightarrow> dk' s = dk s"
    using at.file_write [OF U L H G f ch sz] by blast
  then show ?thesis by (intro exI [of _ "st\<lparr>dev_state := d, open_files := g\<rparr>"]) (simp add: ata_holds_def)
qed

subsection \<open>An example\<close>

text \<open>The volume of the example on the simulated drive.\<close>

definition pc_fs :: "ata_dev ata_state fat32_fs" where
  "pc_fs = volume_of (ata_blockdev sim_bus) boot_sec"

lemma pc_geometry: "bpb pc_fs = bpb ram_fs" "fat_start pc_fs = 32" "data_start pc_fs = 40"
proof -
  have "bpb (volume_of ram_disk boot_sec) = bpb ram_fs" "fat_start (volume_of ram_disk boot_sec) = 32" "data_start (volume_of ram_disk boot_sec) = 40"
    unfolding boot_sec_facts(2) by (simp_all add: ram_fs_def)
  then show "bpb pc_fs = bpb ram_fs" "fat_start pc_fs = 32" "data_start pc_fs = 40" by (simp_all add: pc_fs_def volume_of_def Let_def)
qed

lemma pc_layout:
  "fat_sector_of pc_fs c = fat_sector_of ram_fs c" "fat_get pc_fs dk c = fat_get ram_fs dk c" "cluster_sectors pc_fs c = cluster_sectors ram_fs c"
  "dir_entries pc_fs dk cs = dir_entries ram_fs dk cs" "chain_bytes pc_fs dk cs = chain_bytes ram_fs dk cs"
proof -
  have r: "fat_start ram_fs = 32" "data_start ram_fs = 40" by (simp_all add: ram_fs_def)
  show f: "fat_sector_of pc_fs c = fat_sector_of ram_fs c" by (simp add: fat_sector_of_def pc_geometry r)
  show "fat_get pc_fs dk c = fat_get ram_fs dk c" by (simp add: fat_get_def fat_raw_def f)
  have s: "cluster_sectors pc_fs x = cluster_sectors ram_fs x" for x by (simp add: cluster_sectors_def cluster_sector_def pc_geometry r)
  show "cluster_sectors pc_fs c = cluster_sectors ram_fs c" by (rule s)
  show "dir_entries pc_fs dk cs = dir_entries ram_fs dk cs" by (simp add: dir_entries_def s)
  have "cluster_bytes pc_fs dk = cluster_bytes ram_fs dk" by (simp add: cluster_bytes_def s fun_eq_iff)
  then show "chain_bytes pc_fs dk cs = chain_bytes ram_fs dk cs" by (simp add: chain_bytes_def)
qed

lemma pc_places: "c \<in> {2, 3, 4} \<Longrightarrow> places_ok (ata_valid 1000) pc_fs [c]"
  unfolding places_ok_Cons pc_layout
  by (auto simp: places_ok_def fat_sector_of_def cluster_sectors_def cluster_sector_def ram_fs_def ata_valid_def)

lemma pc_volume: "volume_ready (ata_blockdev sim_bus) (ata_valid 1000) boot_chain {2, 3, NO_CLUSTER} boot_disk"
proof -
  have v: "volume_ok (\<lambda>_. True) ram_fs boot_disk boot_chain {2, 3, NO_CLUSTER}"
    using boot_disk_ready by (simp add: volume_ready_def boot_disk_facts(3) boot_sec_facts(2))
  have n: "next_of pc_fs boot_disk c = next_of ram_fs boot_disk c" for c by (simp add: next_of_def pc_layout)
  have d: "dir_list pc_fs boot_disk boot_chain c = dir_list ram_fs boot_disk boot_chain c" for c by (simp add: dir_list_def pc_layout)
  have p: "c \<in> {2, 3} \<Longrightarrow> places_ok (ata_valid 1000) pc_fs [c]" for c using pc_places by auto
  have "chains (ata_valid 1000) pc_fs boot_disk boot_chain {2, 3, NO_CLUSTER}"
    using v p unfolding volume_ok_def chains_def n by fastforce
  then have "volume_ok (ata_valid 1000) pc_fs boot_disk boot_chain {2, 3, NO_CLUSTER}"
    using v unfolding volume_ok_def d pc_geometry(1) by blast
  then show ?thesis using boot_sec_facts(3) by (simp add: volume_ready_def boot_disk_facts(3) pc_fs_def ata_valid_def)
qed

lemma pc_file: "file_at (ata_valid 1000) pc_fs boot_disk (c_str ''/root/hello.txt'') hello_txt" "file_bytes (ata_valid 1000) pc_fs boot_disk hello_txt [72, 105]"
proof -
  have p: "path_parts (c_str ''/root/hello.txt'') = [c_str ''root''] @ [c_str ''hello.txt'']" by (simp add: path_parts_def printable_def c_str_def)
  have k: "linked (fat_get pc_fs boot_disk) [c]" "places_ok (ata_valid 1000) pc_fs [c]" if "c \<in> {2, 3, 4}" for c
    using boot_disk_facts(2) [OF that] pc_places [OF that] by (simp_all add: pc_layout)
  have r: "dir_lookup (ata_valid 1000) pc_fs boot_disk 2 (c_str ''root'') root_entry"
    unfolding dir_lookup_def using k [of 2] boot_disk_dirs(2) by (intro exI [of _ "[2]"]) (simp add: pc_layout)
  have h: "dir_lookup (ata_valid 1000) pc_fs boot_disk 3 (c_str ''hello.txt'') hello_txt"
    unfolding dir_lookup_def using k [of 3] boot_disk_dirs(4) by (intro exI [of _ "[3]"]) (simp add: pc_layout)
  have "dir_walk (ata_valid 1000) pc_fs boot_disk 2 [c_str ''root''] 3"
    using dir_walk.down [OF r _ dir_walk.here] example_entries(2,4) by simp
  moreover have "root_cluster (bpb pc_fs) = 2" by (simp add: pc_geometry ram_fs_def)
  ultimately show "file_at (ata_valid 1000) pc_fs boot_disk (c_str ''/root/hello.txt'') hello_txt" unfolding file_at_def using p h by metis
  have "chain_bytes pc_fs boot_disk [4] = boot_disk 42"
    unfolding pc_layout by (simp add: chain_bytes_def cluster_bytes_def cluster_sectors_def cluster_sector_def ram_fs_def)
  then show "file_bytes (ata_valid 1000) pc_fs boot_disk hello_txt [72, 105]"
    using k [of 4] boot_disk_facts(6) example_entries(7,11) unfolding file_bytes_def by (intro exI [of _ "[]"]) simp
qed

definition pc_kernel :: "'m \<Rightarrow> ('m, ata_dev ata_state) kernel" where
  "pc_kernel m = \<lparr>con = \<lparr>screen_of = vga, port_state = m, log_y = 0\<rparr>,
     store = \<lparr>mem = (\<lambda>_. 0), bitmap = 0, bitmap_pages = 0, total_pages = 0, free_pages = 0, total_memory = 0, bitmap_phys = 0, frames_stack = 0,
       stack_top = 0, pmm_lock = SPINLOCK_INIT, free_list = 0, heap_start = 0, heap_end = 0, kmalloc_lock = SPINLOCK_INIT,
       dev_state = (sim_drive boot_disk)\<lparr>drive := no_drive\<rparr>,
       cache_lock = SPINLOCK_INIT, open_files = replicate 64 closed_file, vfs_handles = Map.empty\<rparr>,
     vfs_tab = \<lparr>mounts = [], root_bind = 0, vfs_initialized = False, vfs_files = Map.empty\<rparr>,
     gdt_table = replicate 3 (gdt_gate 0 0 0 0), gdtr = \<lparr>tp_limit = 0, tp_base = 0\<rparr>, idt_table = replicate 256 zero_gate,
     idtr = \<lparr>tp_limit = 0, tp_base = 0\<rparr>, interrupts_on = False\<rparr>"

lemma boot_disk_512: "disk512 boot_disk"
  using boot_disk_facts(1) sector_reader.sector_length [OF ram_reader(1), of boot_disk boot_disk boot_disk] by (simp add: ram_still_def)

lemma pc_kernel_starts:
  "boot_state (pc_kernel m)" "boot_disk = dv_disk (machine (dev_state (store (pc_kernel m))))" "port_state (con (pc_kernel m)) = m"
  by (simp_all add: boot_state_def pc_kernel_def held_def SPINLOCK_INIT_def free_slot_def closed_file_def sim_drive_def upt_rec [of 0])

lemma boot_example_facts:
  "framebuffers boot_example = Some (\<lparr>l_address = 0xB8000000, l_width = 640, l_height = 480, l_pitch = 2560\<rparr> # [])"
  "memmap boot_example = Some map_example" "length (exception_handlers boot_example) = 32"
  by (simp_all add: boot_example_def)

lemma pc_fs_volume: "pc_fs = volume_of (ata_blockdev sim_bus) (boot_disk 0)"
  by (simp add: boot_disk_facts(3) pc_fs_def)

subsection \<open>Properties\<close>



end
