(* ===== verification/Kernel_Idle.thy ===== *)
theory Kernel_Idle
  imports Ata_Kernel Interrupts_Proofs
begin

unbundle bit_operations_syntax

text \<open>
  The last loop of \<open>kmain\<close>: the processor sleeps until an interrupt comes. This theory holds the keyboard interrupt from the
  controller through the interrupt table to the text on the screen, and its composition with the start of the kernel.
\<close>

subsection \<open>The hardware\<close>

text \<open>
  The interrupt controller (the master of the two, an 8259): the vector of its line 0, how many initialisation words it still expects, the
  mask, and the lines being served. A write to its data port is the next initialisation word or else the mask; the first such word is the
  vector. It presents a line that is not masked as long as no line of the same or a higher priority is being served.
\<close>

record pic =
  pic_offset :: u8
  pic_icw :: nat
  pic_imr :: u8
  pic_serv :: "nat set"

definition pic_data :: "u8 \<Rightarrow> pic \<Rightarrow> pic" where
  "pic_data v p =
     (if pic_icw p = 0 then p\<lparr>pic_imr := v\<rparr>
      else p\<lparr>pic_icw := pic_icw p - 1, pic_offset := (if pic_icw p = 3 then v AND 0xF8 else pic_offset p)\<rparr>)"

definition pic_presents :: "pic \<Rightarrow> nat \<Rightarrow> bool" where
  "pic_presents p n \<longleftrightarrow> n < 8 \<and> \<not> bit (pic_imr p) n \<and> (\<forall>i \<in> pic_serv p. n < i)"

text \<open>
  What can be observed of a machine: its interrupt controller, the bytes on the serial line, the scan codes not read yet and the
  lines that request an interrupt; and what happens from outside: the processor acknowledges an interrupt, a scan code arrives.
\<close>

record 'm pc =
  pic_of :: "'m \<Rightarrow> pic"
  line_of :: "'m \<Rightarrow> u8 list"
  keys_of :: "'m \<Rightarrow> u8 list"
  requests :: "'m \<Rightarrow> nat \<Rightarrow> bool"
  acked :: "nat \<Rightarrow> 'm \<Rightarrow> 'm"
  arrives :: "u8 \<Rightarrow> 'm \<Rightarrow> 'm"

definition pic_law :: "'m bus \<Rightarrow> 'm pc \<Rightarrow> bool" where
  "pic_law bus hw \<longleftrightarrow>
     (\<forall>p v m. p \<noteq> 0x20 \<and> p \<noteq> 0x21 \<longrightarrow> pic_of hw (bus_outb bus p v m) = pic_of hw m) \<and>
     (\<forall>p m. pic_of hw (snd (bus_inb bus p m)) = pic_of hw m) \<and>
     (\<forall>m. fst (bus_inb bus 0x21 m) = pic_imr (pic_of hw m)) \<and>
     (\<forall>m. pic_of hw (bus_outb bus 0x20 0x11 m) = (pic_of hw m)\<lparr>pic_icw := 3, pic_imr := 0\<rparr>) \<and>
     (\<forall>m. pic_of hw (bus_outb bus 0x20 0x20 m) = (pic_of hw m)\<lparr>pic_serv := pic_serv (pic_of hw m) - {Min (pic_serv (pic_of hw m))}\<rparr>) \<and>
     (\<forall>v m. pic_of hw (bus_outb bus 0x21 v m) = pic_data v (pic_of hw m)) \<and>
     (\<forall>n m. pic_of hw (acked hw n m) = (pic_of hw m)\<lparr>pic_serv := insert n (pic_serv (pic_of hw m))\<rparr>) \<and>
     (\<forall>sc m. pic_of hw (arrives hw sc m) = pic_of hw m)"

text \<open>The keyboard controller keeps scan codes in the order of their arrival and requests line 1 while there is one to read.\<close>

definition keys_law :: "'m bus \<Rightarrow> 'm pc \<Rightarrow> bool" where
  "keys_law bus hw \<longleftrightarrow>
     (\<forall>p v m. p \<noteq> 0x60 \<and> p \<noteq> 0x64 \<longrightarrow> keys_of hw (bus_outb bus p v m) = keys_of hw m) \<and>
     (\<forall>p m. p \<noteq> 0x60 \<longrightarrow> keys_of hw (snd (bus_inb bus p m)) = keys_of hw m) \<and>
     (\<forall>m. fst (bus_inb bus 0x64 m) AND 0x01 \<noteq> 0 \<longleftrightarrow> keys_of hw m \<noteq> []) \<and>
     (\<forall>m. keys_of hw m \<noteq> [] \<longrightarrow> bus_inb bus 0x60 m = (hd (keys_of hw m), snd (bus_inb bus 0x60 m)) \<and>
        keys_of hw (snd (bus_inb bus 0x60 m)) = tl (keys_of hw m)) \<and>
     (\<forall>m. requests hw m 1 \<longleftrightarrow> keys_of hw m \<noteq> []) \<and>
     (\<forall>n m. keys_of hw (acked hw n m) = keys_of hw m) \<and>
     (\<forall>sc m. keys_of hw (arrives hw sc m) = keys_of hw m @ [sc])"

definition line_law :: "'m bus \<Rightarrow> 'm pc \<Rightarrow> bool" where
  "line_law bus hw \<longleftrightarrow> uart_ready bus (line_of hw) \<and>
     (\<forall>p v m. p \<noteq> 0x3F8 \<longrightarrow> line_of hw (bus_outb bus p v m) = line_of hw m) \<and>
     (\<forall>p m. line_of hw (snd (bus_inb bus p m)) = line_of hw m) \<and>
     (\<forall>n m. line_of hw (acked hw n m) = line_of hw m) \<and> (\<forall>sc m. line_of hw (arrives hw sc m) = line_of hw m)"

definition pc_ok :: "'m bus \<Rightarrow> 'm pc \<Rightarrow> bool" where
  "pc_ok bus hw \<longleftrightarrow> pic_law bus hw \<and> keys_law bus hw \<and> line_law bus hw"

subsection \<open>Interrupts while the kernel waits\<close>

text \<open>
  \<open>keyboard_handler\<close> of \<^verbatim>\<open>interrupts.asm\<close>, between saving and restoring the registers: the handler of the keyboard and the end of the interrupt.
\<close>

definition keyboard_stub :: "'m bus \<Rightarrow> ('m, 'd) kernel \<times> ps2 \<Rightarrow> (('m, 'd) kernel \<times> ps2) option" where
  "keyboard_stub bus s = do {
     let (k, p) = s;
     (p, c) \<leftarrow> ps2_handler bus p (con k);
     Some (k\<lparr>con := c\<lparr>port_state := pic_send_eoi bus 1 (port_state c)\<rparr>\<rparr>, p)
   }"

text \<open>
  The processor takes the interrupt of line \<open>n\<close>: it acknowledges it, gets the vector and goes through the gate. \<open>None\<close> is a gate that is not
  present or leads elsewhere, and a handler that does not return.
\<close>

definition take_interrupt :: "'m bus \<Rightarrow> 'm pc \<Rightarrow> u64 \<Rightarrow> nat \<Rightarrow> ('m, 'd) kernel \<times> ps2 \<Rightarrow> (('m, 'd) kernel \<times> ps2) option" where
  "take_interrupt bus hw kbd n s =
     (let vector = pic_offset (pic_of hw (port_state (con (fst s)))) + of_nat n;
          gate = idt_table (fst s) ! unat vector
      in if type_attr gate AND 0x80 \<noteq> 0 \<and> gate_handler gate = kbd then keyboard_stub bus (at_ports (acked hw n) (fst s), snd s)
         else None)"

text \<open>
  The loop of \<^verbatim>\<open>hlt\<close>: in any order, scan codes arrive and interrupts are taken. The list holds the scan codes that have arrived since the start.
\<close>

inductive idle_run :: "'m bus \<Rightarrow> 'm pc \<Rightarrow> u64 \<Rightarrow> ('m, 'd) kernel \<times> ps2 \<Rightarrow> u8 list \<Rightarrow> (('m, 'd) kernel \<times> ps2) option \<Rightarrow> bool"
  for bus hw kbd s0 where
  waiting: "idle_run bus hw kbd s0 [] (Some s0)"
| key: "idle_run bus hw kbd s0 scs (Some (k, p)) \<Longrightarrow> idle_run bus hw kbd s0 (scs @ [sc]) (Some (at_ports (arrives hw sc) k, p))"
| interrupt: "idle_run bus hw kbd s0 scs (Some (k, p)) \<Longrightarrow> interrupts_on k \<Longrightarrow> requests hw (port_state (con k)) n \<Longrightarrow>
    pic_presents (pic_of hw (port_state (con k))) n \<Longrightarrow> idle_run bus hw kbd s0 scs (take_interrupt bus hw kbd n (k, p))"

text \<open>What the handler prints for a scan code, and for a sequence of them.\<close>

definition key_echo :: "u8 \<Rightarrow> key_out \<Rightarrow> u8 list" where
  "key_echo sc out = c_str ''[ps2] scancode: 0x0x'' @ num_chars (ucast sc) 16 @ [0x0A] @
     (case out of
        No_out \<Rightarrow> []
      | Key_char c \<Rightarrow> [c]
      | Key_unknown code \<Rightarrow> c_str ''[ps2:unk 0x0x'' @ num_chars (ucast code) 16 @ c_str '']'')"

definition echo :: "u8 list \<Rightarrow> ps2 \<Rightarrow> u8 list" where
  "echo scs p = concat (map2 key_echo scs (fst (ps2_run scs p)))"

subsection \<open>One interrupt\<close>

text \<open>Printing adds to the line and leaves the rest of the machine alone.\<close>

lemma pc_reads:
  assumes "pc_ok bus hw" "bus_inb bus p m = (v, m')"
  shows "line_of hw m' = line_of hw m" "pic_of hw m' = pic_of hw m" "p \<noteq> 0x60 \<Longrightarrow> keys_of hw m' = keys_of hw m"
    "p = 0x3FD \<Longrightarrow> v AND 0x20 \<noteq> 0" "p = 0x64 \<Longrightarrow> v AND 0x01 \<noteq> 0 \<longleftrightarrow> keys_of hw m \<noteq> []" "p = 0x21 \<Longrightarrow> v = pic_imr (pic_of hw m)"
proof -
  have "pic_law bus hw" "keys_law bus hw" "line_law bus hw" "v = fst (bus_inb bus p m)" "m' = snd (bus_inb bus p m)" using assms by (simp_all add: pc_ok_def)
  then show "line_of hw m' = line_of hw m" "pic_of hw m' = pic_of hw m" "p \<noteq> 0x60 \<Longrightarrow> keys_of hw m' = keys_of hw m"
    "p = 0x3FD \<Longrightarrow> v AND 0x20 \<noteq> 0" "p = 0x64 \<Longrightarrow> v AND 0x01 \<noteq> 0 \<longleftrightarrow> keys_of hw m \<noteq> []" "p = 0x21 \<Longrightarrow> v = pic_imr (pic_of hw m)"
    by (simp_all add: pic_law_def keys_law_def line_law_def uart_ready_def)
qed

lemma pc_writes:
  assumes "pc_ok bus hw"
  shows "p \<noteq> 0x3F8 \<Longrightarrow> line_of hw (bus_outb bus p v m) = line_of hw m" "line_of hw (bus_outb bus 0x3F8 v m) = line_of hw m @ [v]"
    "p \<noteq> 0x60 \<Longrightarrow> p \<noteq> 0x64 \<Longrightarrow> keys_of hw (bus_outb bus p v m) = keys_of hw m"
    "p \<noteq> 0x20 \<Longrightarrow> p \<noteq> 0x21 \<Longrightarrow> pic_of hw (bus_outb bus p v m) = pic_of hw m"
  using assms by (simp_all add: pc_ok_def pic_law_def keys_law_def line_law_def uart_ready_def)

lemma write_char_pc:
  assumes "pc_ok bus hw"
  shows "\<exists>m'. serial_write_char bus c m = Some m' \<and> line_of hw m' = line_of hw m @ [c] \<and> keys_of hw m' = keys_of hw m \<and> pic_of hw m' = pic_of hw m"
proof -
  obtain v m1 where i: "bus_inb bus 0x3FD m = (v, m1)" by fastforce
  note r = pc_reads [OF assms i] and w = pc_writes [OF assms]
  have "serial_wait bus m = Some m1" using i r(4) by (subst serial_wait.simps) (simp add: serial_is_transmit_empty_def)
  then have "serial_write_char bus c m = Some (bus_outb bus 0x3F8 c m1)" by (simp add: serial_write_char_def)
  then show ?thesis using r(1,2,3) w by simp
qed

lemma kputs_pc:
  assumes P: "pc_ok bus hw"
  shows "\<exists>st'. kputs bus cs st = Some st' \<and> line_of hw (port_state st') = line_of hw (port_state st) @ cs \<and>
    keys_of hw (port_state st') = keys_of hw (port_state st) \<and> pic_of hw (port_state st') = pic_of hw (port_state st)"
proof (induction cs arbitrary: st)
  case (Cons c cs)
  obtain m where m: "serial_write_char bus c (port_state st) = Some m" "line_of hw m = line_of hw (port_state st) @ [c]"
    "keys_of hw m = keys_of hw (port_state st)" "pic_of hw m = pic_of hw (port_state st)" using write_char_pc [OF P] by blast
  let ?s = "st\<lparr>screen_of := graphics_putchar c 0xFFFFFF 0x000000 (screen_of st), port_state := m\<rparr>"
  have "kputchar bus c st = Some ?s" using m(1) by (simp add: kputchar_def)
  moreover obtain st' where "kputs bus cs ?s = Some st'" "line_of hw (port_state st') = line_of hw m @ cs"
    "keys_of hw (port_state st') = keys_of hw m" "pic_of hw (port_state st') = pic_of hw m" using Cons.IH [of ?s] by auto
  ultimately show ?case using m by (simp add: kputs_Cons)
qed simp

lemma printk_pc:
  assumes "pc_ok bus hw" "format_text True fmt args = Some cs"
  shows "\<exists>st'. printk bus fmt args st = Some st' \<and> line_of hw (port_state st') = line_of hw (port_state st) @ cs \<and>
    keys_of hw (port_state st') = keys_of hw (port_state st) \<and> pic_of hw (port_state st') = pic_of hw (port_state st)"
  using kputs_pc [OF assms(1)] unfolding printk_def format_loop_text [OF assms(2)] .

lemma byte_args:
  fixes c :: u8
  shows "(ucast (ucast c :: u32) :: u64) = ucast c" "(ucast (scast c :: u32) :: u8) = c"
  by (rule bit_word_eqI; auto simp: bit_simps dest: bit_imp_le_length)+

lemma scancode_text:
  "format_text True (c_str ''[ps2] scancode: 0x%x\<newline>'') [Int_arg (ucast (sc :: u8))] = Some (c_str ''[ps2] scancode: 0x0x'' @ num_chars (ucast sc) 16 @ [0x0A])"
  by (simp add: c_str_def conv_text_def byte_args)

lemma key_text:
  "key_fmt out = Some (fmt, args) \<Longrightarrow> format_text True fmt args = Some (case out of No_out \<Rightarrow> [] | Key_char c \<Rightarrow> [c]
     | Key_unknown code \<Rightarrow> c_str ''[ps2:unk 0x0x'' @ num_chars (ucast code) 16 @ c_str '']'')"
  by (auto simp: key_fmt_def c_str_def conv_text_def byte_args split: key_out.splits)

text \<open>The handler reads one scan code, prints its text and steps the state of the keyboard; then the controller is told that the interrupt is over.\<close>

lemma handler_pc:
  assumes P: "pc_ok bus hw" and q: "keys_of hw (port_state c) = sc # scs"
  shows "\<exists>c'. ps2_handler bus p c = Some (snd (ps2_step sc p), c') \<and> keys_of hw (port_state c') = scs \<and>
    line_of hw (port_state c') = line_of hw (port_state c) @ key_echo sc (fst (ps2_step sc p)) \<and> pic_of hw (port_state c') = pic_of hw (port_state c)"
proof -
  obtain v m1 where i1: "bus_inb bus 0x64 (port_state c) = (v, m1)" by fastforce
  note r1 = pc_reads [OF P i1]
  have k1: "keys_of hw m1 = sc # scs" using r1(3) q by simp
  obtain w m2 where i2: "bus_inb bus 0x60 m1 = (w, m2)" by fastforce
  note r2 = pc_reads [OF P i2]
  have k2: "w = sc" "keys_of hw m2 = scs" using P i2 k1 unfolding pc_ok_def keys_law_def by (metis list.distinct(1) list.sel(1) fst_conv, metis list.distinct(1) list.sel(3) snd_conv)
  let ?c2 = "c\<lparr>port_state := m2\<rparr>"
  obtain c3 where c3: "printk bus (c_str ''[ps2] scancode: 0x%x\<newline>'') [Int_arg (ucast sc)] ?c2 = Some c3"
    "line_of hw (port_state c3) = line_of hw m2 @ c_str ''[ps2] scancode: 0x0x'' @ num_chars (ucast sc) 16 @ [0x0A]"
    "keys_of hw (port_state c3) = keys_of hw m2" "pic_of hw (port_state c3) = pic_of hw m2"
    using printk_pc [OF P scancode_text [of sc], of ?c2] by auto
  obtain out p' where s: "ps2_step sc p = (out, p')" by fastforce
  obtain c4 where c4: "(case key_fmt out of None \<Rightarrow> Some c3 | Some (fmt, args) \<Rightarrow> printk bus fmt args c3) = Some c4"
    "line_of hw (port_state c4) = line_of hw m2 @ key_echo sc out"
    "keys_of hw (port_state c4) = keys_of hw m2" "pic_of hw (port_state c4) = pic_of hw m2"
  proof (cases "key_fmt out")
    case None
    then have "out = No_out" by (simp add: key_fmt_def split: key_out.splits)
    then show ?thesis using that [of c3] None c3 by (simp add: key_echo_def)
  next
    case (Some fa)
    then obtain fmt args where f: "key_fmt out = Some (fmt, args)" by (cases fa) simp
    from printk_pc [OF P key_text [OF f], of c3] show ?thesis using that f c3(2,3,4) by (auto simp: key_echo_def)
  qed
  have "v AND 0x01 \<noteq> 0" using r1(5) q by simp
  then have "ps2_handler bus p c = Some (p', c4)" using i1 i2 k2(1) c3(1) s c4(1) by (simp add: ps2_handler_def in_port_def)
  then show ?thesis using c4 k2 r1(1,2) r2(1,2) s by simp
qed

text \<open>The waiting kernel: interrupts are on, line 1 alone is open, its vector is 33, and the keyboard handler is there.\<close>

definition idle_ok :: "'m pc \<Rightarrow> u64 \<Rightarrow> ('m, 'd) kernel \<Rightarrow> bool" where
  "idle_ok hw kbd k \<longleftrightarrow> interrupts_on k \<and> idt_table k ! 33 = idt_gate kbd \<and>
     pic_of hw (port_state (con k)) = \<lparr>pic_offset = 0x20, pic_icw = 0, pic_imr = 0xFD, pic_serv = {}\<rparr>"

lemma only_line_1:
  assumes "idle_ok hw kbd k"
  shows "pic_presents (pic_of hw (port_state (con k))) n \<longleftrightarrow> n = 1"
proof -
  have "list_all (\<lambda>n. \<not> bit (0xFD :: u8) n \<longleftrightarrow> n = 1) [0..<8]" by code_simp
  then have "n < 8 \<Longrightarrow> \<not> bit (0xFD :: u8) n \<longleftrightarrow> n = 1" by (simp add: list_all_iff)
  then show ?thesis using assms by (auto simp: idle_ok_def pic_presents_def)
qed

lemma interrupt_step:
  assumes P: "pc_ok bus hw" and I: "idle_ok hw kbd k" and q: "keys_of hw (port_state (con k)) = sc # scs"
  shows "\<exists>k'. take_interrupt bus hw kbd 1 (k, p) = Some (k', snd (ps2_step sc p)) \<and> idle_ok hw kbd k' \<and>
    keys_of hw (port_state (con k')) = scs \<and>
    line_of hw (port_state (con k')) = line_of hw (port_state (con k)) @ key_echo sc (fst (ps2_step sc p))"
proof -
  let ?k1 = "at_ports (acked hw 1) k"
  have m: "port_state (con ?k1) = acked hw 1 (port_state (con k))" by (simp add: at_ports_def)
  have a: "keys_of hw (port_state (con ?k1)) = sc # scs" "line_of hw (port_state (con ?k1)) = line_of hw (port_state (con k))"
    "pic_of hw (port_state (con ?k1)) = \<lparr>pic_offset = 0x20, pic_icw = 0, pic_imr = 0xFD, pic_serv = {1}\<rparr>"
    using P I q unfolding m by (simp_all add: pc_ok_def pic_law_def keys_law_def line_law_def idle_ok_def)
  from handler_pc [OF P a(1), of p] obtain c where c: "ps2_handler bus p (con ?k1) = Some (snd (ps2_step sc p), c)"
    "keys_of hw (port_state c) = scs" "line_of hw (port_state c) = line_of hw (port_state (con k)) @ key_echo sc (fst (ps2_step sc p))"
    "pic_of hw (port_state c) = \<lparr>pic_offset = 0x20, pic_icw = 0, pic_imr = 0xFD, pic_serv = {1}\<rparr>" using a(2,3) by auto
  let ?m = "bus_outb bus 0x20 0x20 (port_state c)"
  let ?k2 = "?k1\<lparr>con := c\<lparr>port_state := ?m\<rparr>\<rparr>"
  have p: "pic_of hw ?m = \<lparr>pic_offset = 0x20, pic_icw = 0, pic_imr = 0xFD, pic_serv = {}\<rparr>"
    using P c(4) by (simp add: pc_ok_def pic_law_def)
  have g: "type_attr (idt_gate kbd) AND 0x80 \<noteq> 0" by (simp add: idt_gate_def)
  have "take_interrupt bus hw kbd 1 (k, p) = keyboard_stub bus (?k1, p)"
    using I g by (simp add: take_interrupt_def idle_ok_def gate_handler_gate)
  also have "\<dots> = Some (?k2, snd (ps2_step sc p))" using c(1) by (simp add: keyboard_stub_def pic_send_eoi_def word_le_nat_alt)
  finally have "take_interrupt bus hw kbd 1 (k, p) = Some (?k2, snd (ps2_step sc p))" .
  moreover have "idle_ok hw kbd ?k2" using I p by (simp add: idle_ok_def at_ports_def)
  moreover have "keys_of hw (port_state (con ?k2)) = scs" "line_of hw (port_state (con ?k2)) = line_of hw (port_state c)"
    using c(2) pc_writes [OF P] by simp_all
  ultimately show ?thesis using c(3) by metis
qed

subsection \<open>Runs\<close>

lemma ps2_run_snoc: "ps2_run (scs @ [sc]) p = (fst (ps2_run scs p) @ [fst (ps2_step sc (snd (ps2_run scs p)))], snd (ps2_step sc (snd (ps2_run scs p))))"
  by (simp add: ps2_run_append case_prod_beta)

lemma ps2_run_length: "length (fst (ps2_run scs p)) = length scs"
  by (induction scs arbitrary: p) (simp_all add: case_prod_beta)

lemma echo_snoc: "echo (scs @ [sc]) p = echo scs p @ key_echo sc (fst (ps2_step sc (snd (ps2_run scs p))))"
  by (simp add: echo_def ps2_run_snoc ps2_run_length)

text \<open>After \<open>scs\<close> have arrived: \<open>seen\<close> have been handled, the rest is still to be read.\<close>

definition idle_inv :: "'m pc \<Rightarrow> u64 \<Rightarrow> ('m, 'd) kernel \<times> ps2 \<Rightarrow> u8 list \<Rightarrow> ('m, 'd) kernel \<times> ps2 \<Rightarrow> u8 list \<Rightarrow> bool" where
  "idle_inv hw kbd s0 scs s seen \<longleftrightarrow> idle_ok hw kbd (fst s) \<and>
     keys_of hw (port_state (con (fst s0))) @ scs = seen @ keys_of hw (port_state (con (fst s))) \<and>
     line_of hw (port_state (con (fst s))) = line_of hw (port_state (con (fst s0))) @ echo seen (snd s0) \<and>
     snd s = snd (ps2_run seen (snd s0))"

lemma idle_inv_interrupt:
  assumes P: "pc_ok bus hw" and I: "idle_inv hw kbd s0 scs (k, p) seen" and q: "keys_of hw (port_state (con k)) = sc # rest"
  shows "\<exists>k' p'. take_interrupt bus hw kbd 1 (k, p) = Some (k', p') \<and> idle_inv hw kbd s0 scs (k', p') (seen @ [sc]) \<and>
    keys_of hw (port_state (con k')) = rest"
proof -
  have i: "idle_ok hw kbd k" "p = snd (ps2_run seen (snd s0))" using I by (simp_all add: idle_inv_def)
  from interrupt_step [OF P i(1) q, of p] obtain k' where k': "take_interrupt bus hw kbd 1 (k, p) = Some (k', snd (ps2_step sc p))"
    "idle_ok hw kbd k'" "keys_of hw (port_state (con k')) = rest"
    "line_of hw (port_state (con k')) = line_of hw (port_state (con k)) @ key_echo sc (fst (ps2_step sc p))" by blast
  have "idle_inv hw kbd s0 scs (k', snd (ps2_step sc p)) (seen @ [sc])"
    using I q k' i(2) by (simp add: idle_inv_def echo_snoc ps2_run_snoc)
  then show ?thesis using k' by blast
qed

lemma idle_run_inv:
  assumes P: "pc_ok bus hw" and I: "idle_ok hw kbd (fst s0)" and r: "idle_run bus hw kbd s0 scs s"
  shows "\<exists>k p seen. s = Some (k, p) \<and> idle_inv hw kbd s0 scs (k, p) seen"
  using r
proof (induction rule: idle_run.induct)
  case waiting
  have "idle_inv hw kbd s0 [] s0 []" using I by (simp add: idle_inv_def echo_def)
  then show ?case by (metis prod.collapse)
next
  case (key scs k p sc)
  then obtain seen where s: "idle_inv hw kbd s0 scs (k, p) seen" by blast
  have "pic_of hw (arrives hw sc m) = pic_of hw m" "keys_of hw (arrives hw sc m) = keys_of hw m @ [sc]" "line_of hw (arrives hw sc m) = line_of hw m" for m
    using P by (simp_all add: pc_ok_def pic_law_def keys_law_def line_law_def)
  then have "idle_inv hw kbd s0 (scs @ [sc]) (at_ports (arrives hw sc) k, p) seen" using s by (simp add: idle_inv_def idle_ok_def at_ports_def)
  then show ?case by blast
next
  case (interrupt scs k p n)
  then obtain seen where s: "idle_inv hw kbd s0 scs (k, p) seen" by blast
  have n: "n = 1" using only_line_1 interrupt.hyps(4) s by (metis fst_conv idle_inv_def)
  have "keys_of hw (port_state (con k)) \<noteq> []" using P interrupt.hyps(3) by (simp add: n pc_ok_def keys_law_def)
  then obtain sc rest where "keys_of hw (port_state (con k)) = sc # rest" by (cases "keys_of hw (port_state (con k))") auto
  from idle_inv_interrupt [OF P s this] show ?case unfolding n by blast
qed

text \<open>Whatever has arrived can be worked off.\<close>

lemma idle_drains:
  assumes P: "pc_ok bus hw" and r: "idle_run bus hw kbd s0 scs (Some (k, p))" and I: "idle_inv hw kbd s0 scs (k, p) seen"
  shows "\<exists>k' p' seen'. idle_run bus hw kbd s0 scs (Some (k', p')) \<and> idle_inv hw kbd s0 scs (k', p') seen' \<and> keys_of hw (port_state (con k')) = []"
  using r I
proof (induction "keys_of hw (port_state (con k))" arbitrary: k p seen)
  case Nil
  then show ?case by metis
next
  case (Cons sc rest)
  note q = Cons.hyps(2) [symmetric]
  have i: "idle_ok hw kbd k" using Cons.prems(2) by (simp add: idle_inv_def)
  from idle_inv_interrupt [OF P Cons.prems(2) q] obtain k' p' where
    k': "take_interrupt bus hw kbd 1 (k, p) = Some (k', p')" "idle_inv hw kbd s0 scs (k', p') (seen @ [sc])" "keys_of hw (port_state (con k')) = rest" by blast
  have "requests hw (port_state (con k)) 1" using P q by (simp add: pc_ok_def keys_law_def)
  moreover have "interrupts_on k" "pic_presents (pic_of hw (port_state (con k))) 1" using i only_line_1 [OF i] by (simp_all add: idle_ok_def)
  ultimately have "idle_run bus hw kbd s0 scs (Some (k', p'))" using idle_run.interrupt [OF Cons.prems(1)] k'(1) by metis
  from Cons.hyps(1) [OF k'(3) [symmetric] this k'(2)] show ?case .
qed

subsection \<open>The start of the kernel\<close>

text \<open>Output and the dialogue with the keyboard controller do not touch the interrupt controller, whatever the devices answer.\<close>

lemma pic_quiet:
  assumes "pic_law bus hw"
  shows "p \<noteq> 0x20 \<Longrightarrow> p \<noteq> 0x21 \<Longrightarrow> pic_of hw (bus_outb bus p v m) = pic_of hw m" "bus_inb bus p m = (v, m') \<Longrightarrow> pic_of hw m' = pic_of hw m"
  using assms by (simp add: pic_law_def) (metis assms pic_law_def snd_conv)

lemma serial_wait_pic: "serial_wait bus m = Some m' \<Longrightarrow> pic_law bus hw \<Longrightarrow> pic_of hw m' = pic_of hw m"
  by (rule serial_wait.raw_induct [of "\<lambda>b m m'. pic_law b hw \<longrightarrow> pic_of hw m' = pic_of hw m", rule_format])
    (auto simp: serial_is_transmit_empty_def pic_quiet(2) split: prod.splits if_splits)

lemma input_empty_pic: "wait_input_empty bus m = Some m' \<Longrightarrow> pic_law bus hw \<Longrightarrow> pic_of hw m' = pic_of hw m"
  by (rule wait_input_empty.raw_induct [of "\<lambda>b m m'. pic_law b hw \<longrightarrow> pic_of hw m' = pic_of hw m", rule_format])
    (auto simp: pic_quiet(2) split: prod.splits if_splits)

lemma output_full_pic: "wait_output_full bus m = Some m' \<Longrightarrow> pic_law bus hw \<Longrightarrow> pic_of hw m' = pic_of hw m"
  by (rule wait_output_full.raw_induct [of "\<lambda>b m m'. pic_law b hw \<longrightarrow> pic_of hw m' = pic_of hw m", rule_format])
    (auto simp: pic_quiet(2) split: prod.splits if_splits)

lemmas pic_waits = serial_wait_pic input_empty_pic output_full_pic

lemma kputchar_pic: "pic_law bus hw \<Longrightarrow> kputchar bus c st = Some st' \<Longrightarrow> pic_of hw (port_state st') = pic_of hw (port_state st)"
  by (auto simp: kputchar_def serial_write_char_def bind_eq_Some_conv serial_wait_pic pic_quiet(1))

lemma kputs_pic: "pic_law bus hw \<Longrightarrow> kputs bus cs st = Some st' \<Longrightarrow> pic_of hw (port_state st') = pic_of hw (port_state st)"
  by (induction cs arbitrary: st) (auto simp: kputs_Cons bind_eq_Some_conv dest: kputchar_pic)

lemma format_loop_pic:
  assumes L: "pic_law bus hw"
  shows "format_loop bus pct fmt args st = Some st' \<Longrightarrow> pic_of hw (port_state st') = pic_of hw (port_state st)"
proof (induction pct fmt args arbitrary: st rule: format_text.induct)
  case (2 pct c args)
  then show ?case using kputchar_pic [OF L] by (auto split: if_splits)
next
  case (3 pct c d fmt args)
  show ?case
  proof (cases "c = 0x25")
    case False
    then show ?thesis using 3 by (auto simp: bind_eq_Some_conv dest: kputchar_pic [OF L])
  next
    case True
    show ?thesis
    proof (cases "conv_text pct d args")
      case None
      then have "format_loop bus pct (0x25 # d # fmt) args st = None"
        by (auto simp: conv_text_def split: if_splits list.splits karg.splits)
      then show ?thesis using "3.prems" True by simp
    next
      case (Some xa)
      then obtain xs args' where x: "conv_text pct d args = Some (xs, args')" by (cases xa) simp
      then obtain st1 where "kputs bus xs st = Some st1" "format_loop bus pct fmt args' st1 = Some st'"
        using "3.prems" [unfolded True conv_step [OF x]] by (auto simp: bind_eq_Some_conv)
      then show ?thesis using "3.IH"(2) [OF _ x refl] True kputs_pic [OF L] by metis
    qed
  qed
qed simp

lemma printk_pic: "pic_law bus hw \<Longrightarrow> printk bus fmt args st = Some st' \<Longrightarrow> pic_of hw (port_state st') = pic_of hw (port_state st)"
  unfolding printk_def by (rule format_loop_pic)

lemma run_print_pic: "pic_law bus hw \<Longrightarrow> run_print bus call st = Some st' \<Longrightarrow> pic_of hw (port_state st') = pic_of hw (port_state st)"
  by (cases call) (auto simp: klog_def bind_eq_Some_conv printk_pic dest!: format_loop_pic [rotated] kputs_pic [rotated] kputchar_pic [rotated])

lemma run_prints_pic: "pic_law bus hw \<Longrightarrow> run_prints bus calls st = Some st' \<Longrightarrow> pic_of hw (port_state st') = pic_of hw (port_state st)"
  by (induction calls arbitrary: st) (auto simp: bind_eq_Some_conv dest: run_print_pic)

lemma say_pic:
  assumes "pic_law bus hw"
  shows "say bus call k = Some k' \<Longrightarrow> \<exists>c. k' = k\<lparr>con := c\<rparr> \<and> pic_of hw (port_state c) = pic_of hw (port_state (con k))"
    "say_all bus calls k = Some k' \<Longrightarrow> \<exists>c. k' = k\<lparr>con := c\<rparr> \<and> pic_of hw (port_state c) = pic_of hw (port_state (con k))"
  using assms by (auto simp: say_def say_all_def dest: run_print_pic run_prints_pic)

lemma ps2_init_pic:
  assumes L: "pic_law bus hw" and i: "ps2_init bus c = Some c'"
  shows "pic_of hw (port_state c') = pic_of hw (port_state c)"
proof -
  have w: "on_ports (wait_input_empty bus) a = Some b \<Longrightarrow> pic_of hw (port_state b) = pic_of hw (port_state a)"
    "on_ports (wait_output_full bus) a = Some b \<Longrightarrow> pic_of hw (port_state b) = pic_of hw (port_state a)" for a b
    by (auto simp: on_ports_def pic_waits L)
  have o: "pic_of hw (port_state (out_port bus 0x64 v a)) = pic_of hw (port_state a)" "pic_of hw (port_state (out_port bus 0x60 v a)) = pic_of hw (port_state a)" for v a
    by (simp_all add: out_port_def pic_quiet(1) [OF L])
  have r: "pic_of hw (port_state (snd (in_port bus p a))) = pic_of hw (port_state a)" for p a
    using L by (simp add: in_port_def case_prod_beta pic_law_def)
  show ?thesis using i unfolding ps2_init_def Let_def case_prod_beta
    by (auto simp: bind_eq_Some_conv o r split: if_splits dest!: w printk_pic [OF L])
qed

lemma remap_pic:
  assumes L: "pic_law bus hw"
  shows "pic_of hw (pic_remap bus m) = (pic_of hw m)\<lparr>pic_offset := 0x20, pic_icw := 0, pic_imr := 0xFF\<rparr>"
proof -
  note q = pic_quiet(1) [OF L]
  have r: "pic_of hw (snd (bus_inb bus p m)) = pic_of hw m" for p m using L by (simp add: pic_law_def)
  have w: "pic_of hw (bus_outb bus 0x20 0x11 m) = (pic_of hw m)\<lparr>pic_icw := 3, pic_imr := 0\<rparr>" "pic_of hw (bus_outb bus 0x21 v m) = pic_data v (pic_of hw m)" for v m
    using L by (simp_all add: pic_law_def)
  show ?thesis by (simp add: pic_remap_def case_prod_beta io_wait_def q r w pic_data_def numeral_3_eq_3)
qed

lemma enable_keyboard_pic:
  assumes L: "pic_law bus hw" and e: "enable_irq bus 1 m = Some m'" and z: "pic_icw (pic_of hw m) = 0"
  shows "pic_of hw m' = (pic_of hw m)\<lparr>pic_imr := pic_imr (pic_of hw m) AND NOT 2\<rparr>"
proof -
  have s: "ucast (push_bit (unat (1 :: u8)) (1 :: u32)) = (2 :: u8)" by simp
  have p: "irq_port 1 = (0x21, 1)" "\<not> (1 :: u8) \<ge> 32" by (simp_all add: irq_port_def word_le_nat_alt)
  obtain v m1 where i: "bus_inb bus 0x21 m = (v, m1)" by fastforce
  have "v = pic_imr (pic_of hw m)" using L i unfolding pic_law_def by (metis fst_conv)
  moreover have "m' = bus_outb bus 0x21 (v AND NOT 2) m1" using e i p unfolding enable_irq_def s [symmetric] by simp
  moreover have "pic_of hw m1 = pic_of hw m" using pic_quiet(2) [OF L i] .
  ultimately show ?thesis using L z by (simp add: pic_law_def pic_data_def)
qed

lemma kmain_hardware_idle:
  assumes L: "pic_law bus hw" and s: "pic_serv (pic_of hw (port_state (con k))) = {}" and h: "length (exception_handlers bi) = 32"
    and r: "kmain_hardware bus bi k = Some k'"
  shows "idle_ok hw (keyboard_handler bi) k'"
proof -
  obtain idt ip where t: "idt_init (idt_addr bi) (exception_handlers bi) (keyboard_handler bi) = (idt, ip)" by fastforce
  have i: "idt ! 33 = idt_gate (keyboard_handler bi)" using idt_init_gates [OF h, of "idt_addr bi" "keyboard_handler bi"] t by simp
  note S = say_pic(1) [OF L]
  obtain k0 k1 k2 k3 c k4 m where r0: "say bus (Klog 0 (c_str ''Initializing Hardware...'') []) k = Some k0"
    and r1: "say bus (Klog 0 (c_str ''  [OK] GDT Loaded'') []) (k0\<lparr>gdt_table := fst (gdt_init (gdt_addr bi) (gdt_table k0)), gdtr := snd (gdt_init (gdt_addr bi) (gdt_table k0))\<rparr>) = Some k1"
    and r2: "say bus (Klog 0 (c_str ''  [OK] PIC Remapped'') []) (at_ports (pic_remap bus) k1) = Some k2"
    and r3: "say bus (Klog 0 (c_str ''  [OK] IDT Loaded'') []) (k2\<lparr>idt_table := idt, idtr := ip\<rparr>) = Some k3"
    and c: "ps2_init bus (con k3) = Some c" and r4: "say bus (Klog 0 (c_str ''  [OK] PS/2 Controller'') []) (k3\<lparr>con := c\<rparr>) = Some k4"
    and m: "enable_irq bus 1 (port_state (con k4)) = Some m"
    and r5: "say bus (Klog 0 (c_str ''  [OK] Interrupts Enabled'') []) ((at_ports (\<lambda>_. m) k4)\<lparr>interrupts_on := True\<rparr>) = Some k'"
    using r unfolding kmain_hardware_def by (auto simp: bind_eq_Some_conv t Let_def case_prod_beta)
  have p1: "pic_of hw (port_state (con k1)) = pic_of hw (port_state (con k))" using S [OF r0] S [OF r1] by auto
  have p2: "pic_of hw (port_state (con k2)) = (pic_of hw (port_state (con k)))\<lparr>pic_offset := 0x20, pic_icw := 0, pic_imr := 0xFF\<rparr>"
    using S [OF r2] remap_pic [OF L, of "port_state (con k1)"] p1 by (auto simp: at_ports_def)
  have p3: "pic_of hw (port_state (con k3)) = pic_of hw (port_state (con k2))" "idt_table k3 = idt" using S [OF r3] by auto
  have p4: "pic_of hw (port_state (con k4)) = pic_of hw (port_state c)" "idt_table k4 = idt" using S [OF r4] p3(2) by auto
  have "pic_of hw (port_state (con k4)) = (pic_of hw (port_state (con k)))\<lparr>pic_offset := 0x20, pic_icw := 0, pic_imr := 0xFF\<rparr>"
    unfolding p4 ps2_init_pic [OF L c] p3 p2 ..
  then have "pic_of hw m = \<lparr>pic_offset = 0x20, pic_icw = 0, pic_imr = 0xFD, pic_serv = {}\<rparr>"
    using enable_keyboard_pic [OF L m] s by (cases "pic_of hw (port_state (con k))") simp
  then show ?thesis using S [OF r5] p4(2) i by (auto simp: idle_ok_def at_ports_def)
qed

lemma kmain_idle:
  assumes L: "pic_law bus hw" and s: "pic_serv (pic_of hw (port_state (con k0))) = {}" and h: "length (exception_handlers bi) = 32"
    and r: "kmain bus bi ata_dev ini res k0 = Some k"
  shows "idle_ok hw (keyboard_handler bi) k"
proof -
  obtain k1 k2 k3 calls v st k4 where r1: "kmain_graphics bus bi k0 = Some k1" and r2: "kmain_memory bus bi k1 = Some k2" and r3: "kmain_hardware bus bi k2 = Some k3"
    and r4: "say_all bus calls (k3\<lparr>vfs_tab := v, store := st\<rparr>) = Some k4"
    and r5: "say_all bus [Klog 0 [] [], Klog 0 (c_str ''System ready. Press any key to test PS/2...'') []] k4 = Some k"
    using r unfolding kmain_def by (auto simp: bind_eq_Some_conv)
  have "pic_of hw (port_state (con k1)) = pic_of hw (port_state (con k0))"
    using r1 by (auto simp: kmain_graphics_def Let_def bind_eq_Some_conv klog_init_def dest!: say_pic(2) [OF L])
  moreover have "pic_of hw (port_state (con k2)) = pic_of hw (port_state (con k1))"
    using r2 by (auto simp: kmain_memory_def Let_def bind_eq_Some_conv dest!: say_pic(1) [OF L])
  ultimately have "idle_ok hw (keyboard_handler bi) k3" using kmain_hardware_idle [OF L _ h r3] s by simp
  then show ?thesis using say_pic(2) [OF L r4] say_pic(2) [OF L r5] by (auto simp: idle_ok_def)
qed

subsection \<open>An example\<close>

text \<open>A machine with these devices; asked for its configuration (command \<^verbatim>\<open>0x20\<close>), its keyboard controller answers with a byte.\<close>

record desk =
  d_line :: "u8 list"
  d_keys :: "u8 list"
  d_pic :: pic

definition desk_bus :: "desk bus" where
  "desk_bus =
     \<lparr>bus_inb = (\<lambda>p m. if p = 0x60 then (if d_keys m = [] then 0 else hd (d_keys m), m\<lparr>d_keys := tl (d_keys m)\<rparr>)
        else (if p = 0x3FD then 0x20 else if p = 0x64 then (if d_keys m = [] then 0 else 1) else if p = 0x21 then pic_imr (d_pic m) else 0, m)),
      bus_outb = (\<lambda>p v m. if p = 0x3F8 then m\<lparr>d_line := d_line m @ [v]\<rparr>
        else if p = 0x21 then m\<lparr>d_pic := pic_data v (d_pic m)\<rparr>
        else if p = 0x20 then m\<lparr>d_pic := (if v = 0x11 then (d_pic m)\<lparr>pic_icw := 3, pic_imr := 0\<rparr>
          else (d_pic m)\<lparr>pic_serv := pic_serv (d_pic m) - {Min (pic_serv (d_pic m))}\<rparr>)\<rparr>
        else if p = 0x64 \<and> v = 0x20 then m\<lparr>d_keys := d_keys m @ [0x61]\<rparr> else m),
      bus_inw = (\<lambda>p m. (0, m)), bus_outw = (\<lambda>p v m. m)\<rparr>"

definition desk_pc :: "desk pc" where
  "desk_pc = \<lparr>pic_of = d_pic, line_of = d_line, keys_of = d_keys, requests = (\<lambda>m n. n = 1 \<and> d_keys m \<noteq> []),
     acked = (\<lambda>n m. m\<lparr>d_pic := (d_pic m)\<lparr>pic_serv := insert n (pic_serv (d_pic m))\<rparr>\<rparr>), arrives = (\<lambda>sc m. m\<lparr>d_keys := d_keys m @ [sc]\<rparr>)\<rparr>"

definition desk :: desk where
  "desk = \<lparr>d_line = [], d_keys = [], d_pic = \<lparr>pic_offset = 8, pic_icw = 0, pic_imr = 0xFF, pic_serv = {}\<rparr>\<rparr>"

lemma desk_ok: "pc_ok desk_bus desk_pc" "machine_ok desk_bus d_line"
proof -
  have "pic_law desk_bus desk_pc" "keys_law desk_bus desk_pc" "line_law desk_bus desk_pc"
    by (simp_all add: pic_law_def keys_law_def line_law_def uart_ready_def desk_bus_def desk_pc_def)
  then show "pc_ok desk_bus desk_pc" by (simp add: pc_ok_def)
  show "machine_ok desk_bus d_line" by (simp add: machine_ok_def uart_ready_def desk_bus_def)
qed

lemma desk_boots: "\<exists>k. kmain desk_bus boot_example (ata_blockdev sim_bus) (ata_pio_init sim_bus) 0 (pc_kernel desk) = Some k"
proof -
  have H: "ata_holds sim_bus 1000 (\<lambda>m. m) boot_disk (ata_pio_init sim_bus (dev_state (store (pc_kernel desk))))"
    using init_holds [OF sim_protocol sim_identity, of "dev_state (store (pc_kernel desk))"] pc_kernel_starts(2) boot_disk_512 by metis
  have n: "[72, 105] \<noteq> ([] :: u8 list)" by simp
  from kernel_boots [where ata_init = "ata_pio_init sim_bus" and k = "pc_kernel desk" and r = 0, OF desk_ok(2) boot_example_facts(1,2) example_memory
      pc_kernel_starts(1) at.sector_reader_axioms ata_blockdev_ops(1) H pc_volume pc_fs_volume pc_file n]
  show ?thesis by blast
qed

subsection \<open>Properties\<close>

text \<open>
  Claim C4. After a start that reached the waiting loop, on a machine whose interrupt and keyboard controllers behave as described, the kernel
  answers the keyboard for ever: however arriving scan codes and interrupts are interleaved, no interrupt finds an empty gate, and what has been
  printed is, in order and without loss or repetition, the answer to a prefix of the scan codes, the rest of which wait in the controller; and
  the kernel can always go on until every one of them is answered.
\<close>

theorem keyboard_answered:
  assumes P: "pc_ok bus hw" and s: "pic_serv (pic_of hw (port_state (con k0))) = {}" and h: "length (exception_handlers bi) = 32"
    and r: "kmain bus bi ata_dev ini res k0 = Some k" and run: "idle_run bus hw (keyboard_handler bi) (k, keyboard False) scs s'"
  shows "\<exists>k1 p1 seen. s' = Some (k1, p1) \<and>
    keys_of hw (port_state (con k)) @ scs = seen @ keys_of hw (port_state (con k1)) \<and>
    line_of hw (port_state (con k1)) = line_of hw (port_state (con k)) @ echo seen (keyboard False) \<and>
    (\<exists>k2 p2. idle_run bus hw (keyboard_handler bi) (k, keyboard False) scs (Some (k2, p2)) \<and> keys_of hw (port_state (con k2)) = [] \<and>
      line_of hw (port_state (con k2)) = line_of hw (port_state (con k)) @ echo (keys_of hw (port_state (con k)) @ scs) (keyboard False))"
proof -
  have I: "idle_ok hw (keyboard_handler bi) (fst (k, keyboard False))" using kmain_idle [OF _ s h r] P by (simp add: pc_ok_def)
  from idle_run_inv [OF P I run] obtain k1 p1 seen where
    k1: "s' = Some (k1, p1)" "idle_inv hw (keyboard_handler bi) (k, keyboard False) scs (k1, p1) seen" by blast
  from idle_drains [OF P run [unfolded k1(1)] k1(2)] obtain k2 p2 all where
    "idle_run bus hw (keyboard_handler bi) (k, keyboard False) scs (Some (k2, p2))" "idle_inv hw (keyboard_handler bi) (k, keyboard False) scs (k2, p2) all"
    "keys_of hw (port_state (con k2)) = []" by blast
  then show ?thesis using k1 by (auto simp: idle_inv_def)
qed

theorem keyboard_answered_witness:
  "\<exists>k k2 p2. kmain desk_bus boot_example (ata_blockdev sim_bus) (ata_pio_init sim_bus) 0 (pc_kernel desk) = Some k \<and>
     idle_run desk_bus desk_pc 0x320000 (k, keyboard False) [0x23, 0xA3] (Some (k2, p2)) \<and> d_keys (port_state (con k2)) = [] \<and>
     d_line (port_state (con k2)) = d_line (port_state (con k)) @ echo (d_keys (port_state (con k)) @ [0x23, 0xA3]) (keyboard False)"
proof -
  obtain k where k: "kmain desk_bus boot_example (ata_blockdev sim_bus) (ata_pio_init sim_bus) 0 (pc_kernel desk) = Some k" using desk_boots by blast
  have s: "pic_serv (pic_of desk_pc (port_state (con (pc_kernel desk)))) = {}" by (simp add: pc_kernel_starts desk_pc_def desk_def)
  have kb: "keyboard_handler boot_example = 0x320000" by (simp add: boot_example_def)
  have "idle_run desk_bus desk_pc (keyboard_handler boot_example) (k, keyboard False) (([] @ [0x23]) @ [0xA3])
    (Some (at_ports (arrives desk_pc 0xA3) (at_ports (arrives desk_pc 0x23) k), keyboard False))"
    by (intro idle_run.intros)
  from keyboard_answered [OF desk_ok(1) s boot_example_facts(3) k this] show ?thesis using k unfolding kb by (simp add: desk_pc_def) blast
qed

end
