(* ===== verification/Spec2Isabelle.thy ===== *)
theory Spec2Isabelle
  imports Spinlock Kstring Fat32_Vfs_Proofs Fat32_Write_Back Fat32_Mkdir Klog_Proofs Interrupts_Proofs Ata_Kernel Kernel_Idle
begin

text \<open>
  \<^bold>\<open>A verification of the XLD kernel\<close>

  XLD is a small kernel for x86-64, about 4800 lines of C in \<^verbatim>\<open>kernel/src\<close>. The boot loader passes it a
  frame buffer and a map of the memory; \<open>kmain\<close> brings up the screen, the page allocator and the heap, the
  descriptor tables, the interrupt controller and the keyboard, then the disk, on which it mounts a FAT32
  volume through the virtual file system, lists it and prints \<^verbatim>\<open>/root/hello.txt\<close>.

  \<^bold>\<open>Theories and sources.\<close> A theory named after a part of the kernel holds its state and operations, in the order
  of the source; the theory \<open>X_Proofs\<close> holds the invariants, lemmas and properties of \<open>X\<close>.

  \<^item> \<open>Prelude\<close>: word and list facts, byte-addressed memory with little-endian loads and stores.
  \<^item> \<open>Spinlock\<close> (\<^verbatim>\<open>spinlock.h\<close>): the lock word with its bit test-and-set, and a step relation for any number of
    processors. Mutual exclusion.
  \<^item> \<open>Kstring\<close> (\<^verbatim>\<open>string.h\<close>): memory and string routines with their alignment paths.
  \<^item> \<open>Pmm\<close>, \<open>Pmm_Proofs\<close> (\<^verbatim>\<open>pmm.c\<close>): bitmap, page cache, initialisation from the memory map, allocation and
    freeing. The word-skipping search is first fit; pages are never handed out twice as long as the page cache is
    not used, and twice with it; the interface \<open>page_allocator\<close> states what the heap relies on.
  \<^item> \<open>Kmalloc\<close>, \<open>Kmalloc_Proofs\<close> (\<^verbatim>\<open>kmalloc.c\<close>): the heap as a linked list of blocks in memory, on pools from the page
    allocator. \<open>kmalloc\<close> and \<open>kfree\<close> refine operations on lists of blocks; the interface \<open>heap_allocator\<close> gives
    disjointness and unchanged contents for every sequence of calls.
  \<^item> \<open>Fat32\<close>, \<open>Fat32_Proofs\<close> (\<^verbatim>\<open>fat32.c\<close>, \<^verbatim>\<open>fat32.h\<close>, \<^verbatim>\<open>blockdev.h\<close>): mount, table access, cluster allocation, 8.3 names,
    lookup, path resolution, open, read, write, close, mkdir. The disk is a parameter; the interfaces \<open>sector_reader\<close> and
    \<open>sector_device\<close> state what is expected of it, also when its state changes with every access. The table is an array of entries
    (interface \<open>entry_table\<close>) over which cluster chains are lists; lookup is a search in the list of entries, reading and
    writing act on the concatenated bytes of a chain.
  \<^item> \<open>Vfs\<close>, \<open>Vfs_Proofs\<close> (\<^verbatim>\<open>vfs.c\<close>, \<^verbatim>\<open>vfs.h\<close>): path normalisation and translation, the mount table, open files; file
    systems are records of operations. Canonical paths, an invariant of the table over all sequences of mounts
    and unmounts, routing to the longest mount point.
  \<^item> \<open>Fat32_Vfs\<close>, \<open>Fat32_Vfs_Proofs\<close> (\<^verbatim>\<open>fat32_vfs.c\<close>): the driver that joins the two. Opening, reading and closing through
    all layers, heap included.
  \<^item> \<open>Fat32_Write_Back\<close>, \<open>Fat32_Mkdir\<close>: changes through all layers. A file that is overwritten and closed reads back with the new
    bytes, and only its own clusters change; a new directory holds its two dot entries, has its name in the parent, and leaves all
    other names, table entries and sectors alone.
  \<^item> \<open>Fat32_Ls\<close>, \<open>Fat32_Ls_Proofs\<close> (\<^verbatim>\<open>fat32_ls.c\<close>): listings; they terminate and show the directory tree.
  \<^item> \<open>Ports\<close>, \<open>Ata\<close>, \<open>Ata_Proofs\<close>, \<open>Ata_Init\<close> (\<^verbatim>\<open>ata_pio.c\<close>): the disk driver over a bus of ports. \<open>ata_protocol\<close> and
    \<open>ata_identity\<close> are the behaviour of a drive that the proofs assume, and a simulated drive shows that it can hold. The driver finds the
    drive, reads what was written, and reports when there is none.
  \<^item> \<open>Font\<close>, \<open>Screen\<close> (\<^verbatim>\<open>font.h\<close>, \<^verbatim>\<open>framebuffer.c\<close>, \<^verbatim>\<open>graphics.c\<close>): glyphs, pixels in memory, the text cursor.
  \<^item> \<open>Klog\<close>, \<open>Klog_Proofs\<close> (\<^verbatim>\<open>serial.c\<close>, \<^verbatim>\<open>klog.c\<close>): serial port and formatted output.
  \<^item> \<open>Interrupts\<close>, \<open>Interrupts_Proofs\<close> (\<^verbatim>\<open>gdt.c\<close>, \<^verbatim>\<open>idt.c\<close>, \<^verbatim>\<open>pic.c\<close>, \<^verbatim>\<open>ps2.c\<close>, \<^verbatim>\<open>exceptions.c\<close>): descriptors, interrupt masks,
    the keyboard's state machine, the exception message and the arguments its entry points pass.
  \<^item> \<open>Kernel\<close>, \<open>Kernel_Proofs\<close>, \<open>Ata_Kernel\<close> (\<^verbatim>\<open>kernel.c\<close>): \<open>kmain\<close> in its phases. \<open>Ata_Kernel\<close> interprets the interface of a disk on the
    disk driver, so that all properties of the file system hold on an ATA drive; the theorem on booting composes the parts, from the
    memory map to the heap and from the registers of the drive to the bytes on the serial line.
  \<^item> \<open>Kernel_Idle\<close> (\<^verbatim>\<open>interrupts.asm\<close>, the last loop of \<open>kmain\<close>): interrupts while the kernel waits, as a step relation. The
    controller as \<open>kmain\<close> has programmed it delivers the keyboard's line through the interrupt table to its handler; every key is answered
    in order, and no other interrupt gets through.

  \<^bold>\<open>Conventions.\<close> C integers are words of their width, so that sums wrap as in C; a result that C leaves undefined, a
  fault, or a call that does not return is \<open>None\<close>. Structures are records; where the code follows pointers into
  memory that it also writes byte by byte (bitmap, page cache, heap blocks, frame buffer), the model does the same on
  a memory of bytes, and abstraction functions are part of the proofs. Objects that are only reached through one
  pointer (open files, mount points) are kept beside the memory under the address that \<open>kmalloc\<close> returned.
  State is passed explicitly; the states of heap, file system and driver extend each other. Loops whose end depends on
  data (free list, cluster chain, waiting for a port) are partial functions, and the properties say when they return;
  loops with a counter are total. No bound or fuel is chosen by the model: the time-outs of the disk driver
  and the depth limit of listings are those of the code.

  \<^bold>\<open>Assumptions.\<close> Hardware and boot loader are parameters with named hypotheses: \<open>ata_protocol\<close> and \<open>ata_identity\<close> for the drive,
  \<open>uart_ready\<close> and \<open>machine_ok\<close> for serial port and keyboard controller, \<open>pc_ok\<close> (with \<open>pic_law\<close>, \<open>keys_law\<close>, \<open>line_law\<close>) and \<open>mask_law\<close> for the
  interrupt controller, \<open>limine_map_ok\<close> for the memory map. Each has an instance in the examples. The disk of the file system is
  an interface that the model's own driver implements (\<open>at\<close> in \<open>Ata_Kernel\<close>).

  \<^bold>\<open>Not modelled.\<close> Saving and restoring of registers in the assembly and the reloading of segment registers, \<^verbatim>\<open>limine_requests.c\<close> (a data
  structure for the boot loader), delay loops, the log messages inside the memory managers and the file systems, and interrupts that
  arrive before \<open>kmain\<close> has reached its last loop.
\<close>

end
